(* ===== verification/Go_Prelude.thy ===== *)
theory Go_Prelude
  imports Main "HOL-Library.Word"
begin

text \<open>
  Shared vocabulary of the development: the part of Go's standard library that the
  modelled code calls (\<^verbatim>\<open>strings\<close>, \<^verbatim>\<open>strconv\<close>, slices), with the generic
  lemmas that the component theories use.

  A Go \<^verbatim>\<open>string\<close> or \<^verbatim>\<open>[]byte\<close> is a list of 8-bit characters, so \<^const>\<open>length\<close>
  is Go's \<^verbatim>\<open>len\<close>. Case mapping and white space follow the ASCII rules; bytes from 128 on
  are left alone (Go's Unicode tables are not modelled). A panic is the left side of a sum,
  and code that may not return has an outer \<^typ>\<open>'a option\<close> whose \<^const>\<open>None\<close> is
  divergence.
\<close>

section \<open>Names and collections\<close>

named_theorems go_eval \<open>definitions to unfold when a closed term is evaluated by the simplifier\<close>
named_theorems go_bind_simps \<open>rules for the sequencing of results that may panic or diverge\<close>

type_synonym u8 = "8 word"
type_synonym u32 = "32 word"
type_synonym u64 = "64 word"

section \<open>Results: panics and divergence\<close>

text \<open>
  A result that may panic (or return a Go error) is a sum with the error on the left; a run
  that may not return has an outer option, \<^const>\<open>None\<close> for divergence.
\<close>

type_synonym ('e, 'a) run = "('e + 'a) option"

definition res_bind :: "'e + 'a \<Rightarrow> ('a \<Rightarrow> 'e + 'b) \<Rightarrow> 'e + 'b" where
  "res_bind x f = (case x of Inl e \<Rightarrow> Inl e | Inr a \<Rightarrow> f a)"

definition run_bind :: "('e, 'a) run \<Rightarrow> ('a \<Rightarrow> ('e, 'b) run) \<Rightarrow> ('e, 'b) run" where
  "run_bind x f = (case x of None \<Rightarrow> None | Some (Inl e) \<Rightarrow> Some (Inl e) | Some (Inr a) \<Rightarrow> f a)"

definition run_ret :: "'a \<Rightarrow> ('e, 'a) run" where
  "run_ret a = Some (Inr a)"

definition run_panic :: "'e \<Rightarrow> ('e, 'a) run" where
  "run_panic e = Some (Inl e)"

lemma res_bind_simps [simp, go_bind_simps]:
  "res_bind (Inl e) f = Inl e"
  "res_bind (Inr a) f = f a"
  by (simp_all add: res_bind_def)

lemma res_bind_Inr_id [simp, go_bind_simps]: "res_bind x Inr = x"
  by (cases x) simp_all

lemma run_bind_simps [simp, go_bind_simps]:
  "run_bind None f = None"
  "run_bind (Some (Inl e)) f = Some (Inl e)"
  "run_bind (Some (Inr a)) f = f a"
  "run_bind (run_ret a) f = f a"
  "run_bind (run_panic e) f = run_panic e"
  by (simp_all add: run_bind_def run_ret_def run_panic_def)

lemma res_bind_Inr_iff:
  "res_bind x f = Inr b \<longleftrightarrow> (\<exists>a. x = Inr a \<and> f a = Inr b)"
  by (cases x) simp_all

lemma run_bind_ret_iff:
  "run_bind x f = Some (Inr b) \<longleftrightarrow> (\<exists>a. x = Some (Inr a) \<and> f a = Some (Inr b))"
  by (auto simp: run_bind_def split: option.splits sum.splits)

lemma run_bind_assoc: "run_bind (run_bind x f) g = run_bind x (\<lambda>a. run_bind (f a) g)"
  by (auto simp: run_bind_def split: option.splits sum.splits)

section \<open>Machine integers\<close>

lemma sint_bounds:
  fixes v :: "'a::len word"
  shows "- (2 ^ (LENGTH('a) - 1)) \<le> sint v \<and> sint v < 2 ^ (LENGTH('a) - 1)"
  using sint_greater_eq [of v] sint_less [of v] by simp

lemma sint_add_int:
  fixes v :: "'a::len word"
  shows "sint (v + word_of_int d) = signed_take_bit (LENGTH('a) - 1) (sint v + d)"
proof -
  have "v + word_of_int d = word_of_int (sint v + d)" by simp
  then show ?thesis by (simp only: sint_sbintrunc')
qed

lemma sint_add_ok:
  fixes v :: "'a::len word"
  assumes "- (2 ^ (LENGTH('a) - 1)) \<le> sint v + d" "sint v + d < 2 ^ (LENGTH('a) - 1)"
  shows "sint (v + word_of_int d) = sint v + d"
  using assms by (simp only: sint_add_int signed_take_bit_int_eq_self)

lemma sint_succ:
  fixes v :: "'a::len word"
  assumes "sint v \<noteq> 2 ^ (LENGTH('a) - 1) - 1"
  shows "sint (v + 1) = sint v + 1"
  using sint_add_ok [of v 1] sint_bounds [of v] assms by simp

lemma sint_pred:
  fixes v :: "'a::len word"
  assumes "sint v \<noteq> - (2 ^ (LENGTH('a) - 1))"
  shows "sint (v - 1) = sint v - 1"
  using sint_add_ok [of v "- 1"] sint_bounds [of v] assms by simp

lemma sint_eqI: "sint v = sint w \<Longrightarrow> v = w"
  by (rule signed_word_eqI)

lemma uint_eqI: "uint v = uint w \<Longrightarrow> v = w"
  by (rule unsigned_word_eqI)

lemma uint_succ:
  fixes v :: "'a::len word"
  assumes "uint v \<noteq> 2 ^ LENGTH('a) - 1"
  shows "uint (v + 1) = uint v + 1"
proof -
  have "uint v + 1 < 2 ^ LENGTH('a)" using assms uint_lt2p [of v] by linarith
  then show ?thesis by (simp add: uint_word_ariths)
qed

lemma uint_pred:
  fixes v :: "'a::len word"
  assumes "v \<noteq> 0"
  shows "uint (v - 1) = uint v - 1"
proof -
  have "uint v \<noteq> 0" using assms by (simp add: uint_0_iff)
  then have "0 \<le> uint v - 1" "uint v - 1 < 2 ^ LENGTH('a)" using uint_lt2p [of v] uint_ge_0 [of v] by linarith+
  then show ?thesis by (simp add: uint_word_ariths)
qed

section \<open>Package \<open>strings\<close>\<close>

subsection \<open>Prefixes, suffixes, trimming, case\<close>

definition has_prefix :: "string \<Rightarrow> string \<Rightarrow> bool" where
  "has_prefix s p \<longleftrightarrow> take (length p) s = p"

definition has_suffix :: "string \<Rightarrow> string \<Rightarrow> bool" where
  "has_suffix s p \<longleftrightarrow> length p \<le> length s \<and> drop (length s - length p) s = p"

definition trim_left :: "string \<Rightarrow> string \<Rightarrow> string" where
  "trim_left s cs = dropWhile (\<lambda>c. c \<in> set cs) s"

definition trim_right :: "string \<Rightarrow> string \<Rightarrow> string" where
  "trim_right s cs = rev (dropWhile (\<lambda>c. c \<in> set cs) (rev s))"

definition trim :: "string \<Rightarrow> string \<Rightarrow> string" where
  "trim s cs = trim_right (trim_left s cs) cs"

definition space_chars :: string where
  "space_chars = [CHR '' '', CHR 0x09, CHR 0x0A, CHR 0x0B, CHR 0x0C, CHR 0x0D]"

definition is_space :: "char \<Rightarrow> bool" where
  "is_space c \<longleftrightarrow> c \<in> set space_chars"

definition trim_space :: "string \<Rightarrow> string" where
  "trim_space s = trim s space_chars"

definition lower_char :: "char \<Rightarrow> char" where
  "lower_char c = (let n = of_char c :: nat
     in if 65 \<le> n \<and> n \<le> 90 then char_of (n + 32) else c)"

definition upper_char :: "char \<Rightarrow> char" where
  "upper_char c = (let n = of_char c :: nat
     in if 97 \<le> n \<and> n \<le> 122 then char_of (n - 32) else c)"

definition to_lower :: "string \<Rightarrow> string" where
  "to_lower s = map lower_char s"

definition to_upper :: "string \<Rightarrow> string" where
  "to_upper s = map upper_char s"

lemma has_prefix_append [simp]: "has_prefix (p @ s) p"
  by (simp add: has_prefix_def)

lemma has_prefix_iff: "has_prefix s p \<longleftrightarrow> (\<exists>r. s = p @ r)"
  by (metis append_take_drop_id append_eq_conv_conj has_prefix_def)

lemma has_suffix_append [simp]: "has_suffix (s @ p) p"
  by (simp add: has_suffix_def)

lemma has_suffix_iff: "has_suffix s p \<longleftrightarrow> (\<exists>r. s = r @ p)"
  by (metis append_take_drop_id has_suffix_append has_suffix_def)

lemma length_to_lower [simp]: "length (to_lower s) = length s"
  by (simp add: to_lower_def)

lemma lower_char_idem [simp]: "lower_char (lower_char c) = lower_char c"
proof (cases "65 \<le> (of_char c :: nat) \<and> (of_char c :: nat) \<le> 90")
  case True
  then have "(of_char (char_of (of_char c + 32 :: nat)) :: nat) = of_char c + 32"
    by (simp add: of_char_of)
  with True show ?thesis by (simp add: lower_char_def Let_def)
next
  case False
  then show ?thesis by (auto simp: lower_char_def Let_def)
qed

lemma to_lower_idem [simp]: "to_lower (to_lower s) = to_lower s"
  by (simp add: to_lower_def comp_def)

lemma to_lower_append [simp]: "to_lower (s @ t) = to_lower s @ to_lower t"
  by (simp add: to_lower_def)

lemma trim_no_cut:
  assumes "s \<noteq> []" "hd s \<notin> set cs" "last s \<notin> set cs"
  shows "trim s cs = s"
proof -
  from assms(1,2) have "trim_left s cs = s"
    by (cases s) (simp_all add: trim_left_def)
  moreover from assms(1,3) have "trim_right s cs = s"
    by (cases s rule: rev_cases) (simp_all add: trim_right_def)
  ultimately show ?thesis by (simp add: trim_def)
qed

lemma trim_Nil [simp]: "trim [] cs = []"
  by (simp add: trim_def trim_left_def trim_right_def)


subsection \<open>Splitting and joining\<close>

text \<open>
  \<^verbatim>\<open>strings.Join\<close>; \<^verbatim>\<open>strings.Split\<close> at the leftmost, non-overlapping occurrences of
  the separator (an empty separator splits into single bytes); \<^verbatim>\<open>strings.SplitN(s, sep, 2)\<close>;
  \<^verbatim>\<open>strings.Replace(s, old, new, -1)\<close> for a non-empty \<^verbatim>\<open>old\<close>; \<^verbatim>\<open>strings.FieldsFunc\<close>.
\<close>

fun join :: "string \<Rightarrow> string list \<Rightarrow> string" where
  "join sep [] = []"
| "join sep [x] = x"
| "join sep (x # y # ys) = x @ sep @ join sep (y # ys)"

function split_aux :: "string \<Rightarrow> string \<Rightarrow> string \<Rightarrow> string list" where
  "split_aux sep acc [] = [rev acc]"
| "split_aux sep acc (c # cs) =
     (if sep \<noteq> [] \<and> has_prefix (c # cs) sep
      then rev acc # split_aux sep [] (drop (length sep) (c # cs))
      else split_aux sep (c # acc) cs)"
  by pat_completeness auto
termination
  by (relation "measure (\<lambda>(sep, acc, s). length s)") auto

definition split :: "string \<Rightarrow> string \<Rightarrow> string list" where
  "split s sep = (if sep = [] then map (\<lambda>c. [c]) s else split_aux sep [] s)"

fun splitn2_aux :: "string \<Rightarrow> string \<Rightarrow> string \<Rightarrow> string list" where
  "splitn2_aux sep acc [] = [rev acc]"
| "splitn2_aux sep acc (c # cs) =
     (if has_prefix (c # cs) sep then [rev acc, drop (length sep) (c # cs)]
      else splitn2_aux sep (c # acc) cs)"

definition splitn2 :: "string \<Rightarrow> string \<Rightarrow> string list" where
  "splitn2 s sep = splitn2_aux sep [] s"

definition replace_all :: "string \<Rightarrow> string \<Rightarrow> string \<Rightarrow> string" where
  "replace_all s old new = join new (split s old)"

fun fields_aux :: "(char \<Rightarrow> bool) \<Rightarrow> string \<Rightarrow> string \<Rightarrow> string list" where
  "fields_aux p acc [] = (if acc = [] then [] else [rev acc])"
| "fields_aux p acc (c # cs) =
     (if p c then (if acc = [] then fields_aux p [] cs else rev acc # fields_aux p [] cs)
      else fields_aux p (c # acc) cs)"

definition fields_func :: "string \<Rightarrow> (char \<Rightarrow> bool) \<Rightarrow> string list" where
  "fields_func s p = fields_aux p [] s"

definition str_fields :: "string \<Rightarrow> string list" where
  "str_fields s = fields_func s is_space"

lemma split_aux_nonempty [simp]: "split_aux sep acc s \<noteq> []"
  by (induction sep acc s rule: split_aux.induct) auto

lemma split_nonempty: "sep \<noteq> [] \<Longrightarrow> split s sep \<noteq> []"
  by (simp add: split_def)

lemma join_Cons: "ys \<noteq> [] \<Longrightarrow> join sep (x # ys) = x @ sep @ join sep ys"
  by (cases ys) simp_all

lemma join_split_aux: "sep \<noteq> [] \<Longrightarrow> join sep (split_aux sep acc s) = rev acc @ s"
proof (induction sep acc s rule: split_aux.induct)
  case (2 sep acc c cs)
  show ?case
  proof (cases "has_prefix (c # cs) sep")
    case True
    then obtain r where r: "c # cs = sep @ r" by (auto simp: has_prefix_iff)
    then have d: "drop (length sep) (c # cs) = r" by simp
    with 2 True have IH: "join sep (split_aux sep [] r) = r" by simp
    from 2 True d have "split_aux sep acc (c # cs) = rev acc # split_aux sep [] r" by simp
    with IH r show ?thesis by (simp only: join_Cons split_aux_nonempty not_False_eq_True)
  next
    case False
    with 2 show ?thesis by simp
  qed
qed simp

text \<open>Splitting and joining again gives the string back.\<close>

lemma join_split: "sep \<noteq> [] \<Longrightarrow> join sep (split s sep) = s"
  by (simp add: split_def join_split_aux)

lemma has_prefix_single: "has_prefix (c # cs) [d] \<longleftrightarrow> c = d"
  by (simp add: has_prefix_def)

lemma split_aux_single_notin:
  "d \<notin> set s \<Longrightarrow> split_aux [d] acc s = [rev acc @ s]"
  by (induction "[d]" acc s rule: split_aux.induct) (auto simp: has_prefix_single)

lemma split_aux_single_append:
  "d \<notin> set s \<Longrightarrow> split_aux [d] acc (s @ d # t) = (rev acc @ s) # split_aux [d] [] t"
  by (induction s arbitrary: acc) (auto simp: has_prefix_single)

lemma split_single_notin: "d \<notin> set s \<Longrightarrow> split s [d] = [s]"
  by (simp add: split_def split_aux_single_notin)

lemma split_single_append: "d \<notin> set s \<Longrightarrow> split (s @ d # t) [d] = s # split t [d]"
  by (simp add: split_def split_aux_single_append)

text \<open>Joining parts that do not hold the separator and splitting gives the parts back.\<close>

lemma split_join_single:
  assumes "xs \<noteq> []" "\<And>x. x \<in> set xs \<Longrightarrow> d \<notin> set x"
  shows "split (join [d] xs) [d] = xs"
  using assms
proof (induction "[d]" xs rule: join.induct)
  case (2 x)
  then show ?case by (simp add: split_single_notin)
next
  case (3 x y ys)
  then show ?case by (simp add: split_single_append)
qed simp

lemma split_aux_single_parts:
  "d \<notin> set acc \<Longrightarrow> x \<in> set (split_aux [d] acc s) \<Longrightarrow> d \<notin> set x"
  by (induction "[d]" acc s arbitrary: x rule: split_aux.induct)
    (auto simp: has_prefix_single split: if_splits)

lemma split_single_parts: "x \<in> set (split s [d]) \<Longrightarrow> d \<notin> set x"
  by (auto simp: split_def dest: split_aux_single_parts [rotated])

lemma splitn2_aux_notin: "d \<notin> set s \<Longrightarrow> splitn2_aux [d] acc s = [rev acc @ s]"
  by (induction "[d]" acc s rule: splitn2_aux.induct) (auto simp: has_prefix_single)

lemma splitn2_aux_append:
  "d \<notin> set s \<Longrightarrow> splitn2_aux [d] acc (s @ d # t) = [rev acc @ s, t]"
  by (induction s arbitrary: acc) (auto simp: has_prefix_single)

lemma splitn2_nonempty [simp]: "splitn2 s sep \<noteq> []"
proof -
  have "splitn2_aux sep acc t \<noteq> []" for acc t
    by (induction sep acc t rule: splitn2_aux.induct) auto
  then show ?thesis by (simp add: splitn2_def)
qed

lemma splitn2_notin: "d \<notin> set s \<Longrightarrow> splitn2 s [d] = [s]"
  by (simp add: splitn2_def splitn2_aux_notin)

lemma splitn2_append: "d \<notin> set s \<Longrightarrow> splitn2 (s @ d # t) [d] = [s, t]"
  by (simp add: splitn2_def splitn2_aux_append)

lemma fields_aux_word:
  "\<forall>c \<in> set s. \<not> p c \<Longrightarrow> fields_aux p acc (s @ t) = fields_aux p (rev s @ acc) t"
  by (induction s arbitrary: acc) auto

lemma fields_aux_parts:
  "list_all (\<lambda>c. \<not> p c) acc \<Longrightarrow>
   list_all (\<lambda>x. x \<noteq> [] \<and> list_all (\<lambda>c. \<not> p c) x) (fields_aux p acc s)"
  by (induction p acc s rule: fields_aux.induct) simp_all

lemma fields_func_parts:
  "x \<in> set (fields_func s p) \<Longrightarrow> x \<noteq> [] \<and> (\<forall>c \<in> set x. \<not> p c)"
  using fields_aux_parts [of p "[]" s] by (auto simp: fields_func_def list_all_iff)


section \<open>Package \<open>strconv\<close>\<close>

text \<open>
  A conversion returns a value and an optional error, as in Go: on a range error the value
  is the nearest representable one, on a syntax error it is 0. The digit loop checks each
  character before the overflow, in the order of \<^verbatim>\<open>strconv.ParseUint\<close>.
\<close>

datatype num_error = ErrSyntax | ErrRange

definition digit_val :: "char \<Rightarrow> nat option" where
  "digit_val c = (let n = of_char c :: nat in if 48 \<le> n \<and> n \<le> 57 then Some (n - 48) else None)"

fun parse_uint_loop :: "nat \<Rightarrow> nat \<Rightarrow> string \<Rightarrow> nat \<times> num_error option" where
  "parse_uint_loop maxv n [] = (n, None)"
| "parse_uint_loop maxv n (c # cs) =
     (case digit_val c of
        None \<Rightarrow> (0, Some ErrSyntax)
      | Some d \<Rightarrow> if maxv < 10 * n + d then (maxv, Some ErrRange)
                  else parse_uint_loop maxv (10 * n + d) cs)"

definition parse_uint :: "nat \<Rightarrow> string \<Rightarrow> nat \<times> num_error option" where
  "parse_uint bits s = (if s = [] then (0, Some ErrSyntax) else parse_uint_loop (2 ^ bits - 1) 0 s)"

definition parse_int :: "nat \<Rightarrow> string \<Rightarrow> int \<times> num_error option" where
  "parse_int bits s =
     (let neg = (s \<noteq> [] \<and> hd s = CHR ''-'');
          u = (if s \<noteq> [] \<and> (hd s = CHR ''+'' \<or> hd s = CHR ''-'') then tl s else s)
      in case parse_uint bits u of
           (_, Some ErrSyntax) \<Rightarrow> (0, Some ErrSyntax)
         | (un, _) \<Rightarrow>
             if \<not> neg \<and> 2 ^ (bits - 1) \<le> un then (2 ^ (bits - 1) - 1, Some ErrRange)
             else if neg \<and> 2 ^ (bits - 1) < un then (- (2 ^ (bits - 1)), Some ErrRange)
             else (if neg then - int un else int un, None))"

definition atoi :: "string \<Rightarrow> int \<times> num_error option" where
  "atoi s = parse_int 64 s"

definition digit_char :: "nat \<Rightarrow> char" where
  "digit_char d = char_of (48 + d)"

fun utoa :: "nat \<Rightarrow> string" where
  "utoa n = (if n < 10 then [digit_char n] else utoa (n div 10) @ [digit_char (n mod 10)])"

declare utoa.simps [simp del]

definition itoa :: "int \<Rightarrow> string" where
  "itoa i = (if i < 0 then CHR ''-'' # utoa (nat (- i)) else utoa (nat i))"

lemma digit_val_digit_char [simp]: "d < 10 \<Longrightarrow> digit_val (digit_char d) = Some d"
  by (simp add: digit_val_def digit_char_def Let_def of_char_of)

lemma digit_val_less: "digit_val c = Some d \<Longrightarrow> d < 10"
  by (auto simp: digit_val_def Let_def split: if_splits)

lemma utoa_nonempty [simp]: "utoa n \<noteq> []"
  by (subst utoa.simps) simp

lemma parse_uint_loop_append:
  "parse_uint_loop m n s = (k, None) \<Longrightarrow> parse_uint_loop m n (s @ t) = parse_uint_loop m k t"
  by (induction m n s rule: parse_uint_loop.induct) (auto split: option.splits if_splits)

lemma parse_uint_loop_utoa: "n \<le> m \<Longrightarrow> parse_uint_loop m 0 (utoa n) = (n, None)"
proof (induction n rule: utoa.induct)
  case (1 n)
  show ?case
  proof (cases "n < 10")
    case True
    with 1 show ?thesis by (subst utoa.simps) simp
  next
    case False
    with 1 have "parse_uint_loop m 0 (utoa (n div 10)) = (n div 10, None)" by simp
    from parse_uint_loop_append [OF this, of "[digit_char (n mod 10)]"] 1 False
    show ?thesis by (subst utoa.simps) simp
  qed
qed

lemma digit_char_not_sign:
  "d < 10 \<Longrightarrow> digit_char d \<noteq> CHR ''-'' \<and> digit_char d \<noteq> CHR ''+''"
proof
  assume d: "d < 10"
  show "digit_char d \<noteq> CHR ''-''"
  proof
    assume "digit_char d = CHR ''-''"
    with digit_val_digit_char [OF d] show False by (simp add: digit_val_def)
  qed
  show "digit_char d \<noteq> CHR ''+''"
  proof
    assume "digit_char d = CHR ''+''"
    with digit_val_digit_char [OF d] show False by (simp add: digit_val_def)
  qed
qed

lemma utoa_digits: "c \<in> set (utoa n) \<Longrightarrow> \<exists>d < 10. c = digit_char d"
proof (induction n rule: utoa.induct)
  case (1 n)
  show ?case
  proof (cases "n < 10")
    case True
    with 1 show ?thesis by (auto simp: utoa.simps [of n])
  next
    case False
    with "1.prems" consider "c \<in> set (utoa (n div 10))" | "c = digit_char (n mod 10)"
      by (auto simp: utoa.simps [of n])
    then show ?thesis
    proof cases
      case 1
      with False "1.IH" show ?thesis by simp
    next
      case 2
      then show ?thesis by (intro exI [of _ "n mod 10"]) simp
    qed
  qed
qed

lemma utoa_no_sign: "CHR ''-'' \<notin> set (utoa n)" "CHR ''+'' \<notin> set (utoa n)"
  using utoa_digits digit_char_not_sign by metis+

lemma parse_uint_utoa: "n < 2 ^ bits \<Longrightarrow> parse_uint bits (utoa n) = (n, None)"
  by (simp add: parse_uint_def parse_uint_loop_utoa)

text \<open>Decimal printing and parsing are inverse on the range of the type.\<close>

lemma parse_int_itoa:
  assumes "0 < bits" "- (2 ^ (bits - 1)) \<le> i" "i < 2 ^ (bits - 1)"
  shows "parse_int bits (itoa i) = (i, None)"
proof -
  have half: "(2::nat) ^ bits = 2 * 2 ^ (bits - 1)" using assms(1) by (cases bits) simp_all
  have hd_sign: "hd (utoa n) \<noteq> CHR ''-''" "hd (utoa n) \<noteq> CHR ''+''" for n
    using utoa_no_sign [of n] utoa_nonempty [of n] hd_in_set by metis+
  show ?thesis
  proof (cases "i < 0")
    case True
    with assms have k: "nat (- i) \<le> 2 ^ (bits - 1)" by (simp add: nat_le_iff)
    then have "nat (- i) < 2 ^ bits" using half zero_less_power [of "2::nat" "bits - 1"] by linarith
    with k True show ?thesis
      by (simp add: parse_int_def itoa_def parse_uint_utoa)
  next
    case False
    with assms have k: "nat i < 2 ^ (bits - 1)" by (simp add: nat_less_iff)
    then have "nat i < 2 ^ bits" using half by linarith
    with k False show ?thesis
      by (simp add: parse_int_def itoa_def parse_uint_utoa hd_sign)
  qed
qed

lemma atoi_itoa: "- (2 ^ 63) \<le> i \<Longrightarrow> i < 2 ^ 63 \<Longrightarrow> atoi (itoa i) = (i, None)"
  unfolding atoi_def by (rule parse_int_itoa) simp_all

lemma parse_int_range:
  assumes "0 < bits" "parse_int bits s = (i, None)"
  shows "- (2 ^ (bits - 1)) \<le> i \<and> i < 2 ^ (bits - 1)"
proof -
  define neg where "neg \<longleftrightarrow> s \<noteq> [] \<and> hd s = CHR ''-''"
  obtain un where
    "(neg \<longrightarrow> un \<le> 2 ^ (bits - 1) \<and> i = - int un) \<and>
     (\<not> neg \<longrightarrow> un < 2 ^ (bits - 1) \<and> i = int un)"
    using assms(2)
    by (fastforce simp: parse_int_def neg_def [symmetric] Let_def not_le not_less
        split: prod.splits option.splits num_error.splits if_splits)
  moreover have "int un \<le> 2 ^ (bits - 1) \<longleftrightarrow> un \<le> 2 ^ (bits - 1)"
    and "int un < 2 ^ (bits - 1) \<longleftrightarrow> un < 2 ^ (bits - 1)"
    by simp_all
  moreover have "(0::int) < 2 ^ (bits - 1)" by simp
  ultimately show ?thesis by (cases neg) (linarith, linarith)
qed


section \<open>Evaluation\<close>

text \<open>The definitions that the simplifier unfolds to evaluate a closed term.\<close>

lemmas str_eval [go_eval] = split_def splitn2_def has_prefix_def has_suffix_def atoi_def parse_int_def
  parse_uint_def digit_val_def to_lower_def lower_char_def to_upper_def upper_char_def fields_func_def
  str_fields_def is_space_def space_chars_def trim_space_def trim_def trim_left_def trim_right_def
  replace_all_def itoa_def digit_char_def

lemmas word_eval [go_eval] = mask_eq_exp_minus_1

end
