(* ===== verification/Cron_Spec.thy ===== *)
theory Cron_Spec
  imports Go_Prelude
begin

text \<open>
  The cron expressions of \<^verbatim>\<open>task/task.go\<close>: the bounds of the six fields, the bit sets
  (\<^verbatim>\<open>getBits\<close>, \<^verbatim>\<open>all\<close>), the range and field parsers (\<^verbatim>\<open>getRange\<close>, \<^verbatim>\<open>getField\<close>) and
  \<^verbatim>\<open>Task.parse\<close>/\<^verbatim>\<open>parseSpec\<close>. A field is a 64-bit word whose bit \<open>i\<close> says that the value
  \<open>i\<close> is in the set, bit 63 being the star marker. The loop of \<^verbatim>\<open>getBits\<close> does not end for
  step 0, so its model may diverge.
\<close>

unbundle bit_operations_syntax

section \<open>Data\<close>

record bounds =
  bmin :: u64
  bmax :: u64
  names :: "(string \<rightharpoonup> u64) option"

definition seconds :: bounds where
  "seconds = \<lparr>bmin = 0, bmax = 59, names = None\<rparr>"

definition minutes :: bounds where
  "minutes = \<lparr>bmin = 0, bmax = 59, names = None\<rparr>"

definition hours :: bounds where
  "hours = \<lparr>bmin = 0, bmax = 23, names = None\<rparr>"

definition days :: bounds where
  "days = \<lparr>bmin = 1, bmax = 31, names = None\<rparr>"

definition months :: bounds where
  "months = \<lparr>bmin = 1, bmax = 12, names = Some (map_of
     [(''jan'', 1), (''feb'', 2), (''mar'', 3), (''apr'', 4), (''may'', 5), (''jun'', 6),
      (''jul'', 7), (''aug'', 8), (''sep'', 9), (''oct'', 10), (''nov'', 11), (''dec'', 12)])\<rparr>"

definition weeks :: bounds where
  "weeks = \<lparr>bmin = 0, bmax = 6, names = Some (map_of
     [(''sun'', 0), (''mon'', 1), (''tue'', 2), (''wed'', 3), (''thu'', 4), (''fri'', 5),
      (''sat'', 6)])\<rparr>"

definition starBit :: u64 where
  "starBit = push_bit 63 1"

record Schedule =
  Second :: u64
  Minute :: u64
  Hour :: u64
  Day :: u64
  Month :: u64
  Week :: u64

text \<open>One constructor for each \<^verbatim>\<open>log.Panicf\<close> of the parser, with the values it prints.\<close>

datatype cron_panic =
    FieldCount nat string
  | UnrecognizedDescriptor string
  | TooManyHyphens string
  | TooManySlashes string
  | BelowMinimum u64 u64 string
  | AboveMaximum u64 u64 string
  | BeginBeyondEnd u64 u64 string
  | ParseIntFailed string num_error
  | NegativeNumber int string

section \<open>Bit sets\<close>

partial_function (option) getBits_loop :: "u64 \<Rightarrow> u64 \<Rightarrow> u64 \<Rightarrow> u64 \<Rightarrow> u64 option" where
  "getBits_loop i mx step bits =
     (if i \<le> mx then getBits_loop (i + step) mx step (bits OR push_bit (unat i) 1)
      else Some bits)"

definition getBits :: "u64 \<Rightarrow> u64 \<Rightarrow> u64 \<Rightarrow> u64 option" where
  "getBits mn mx step =
     (if step = 1
      then Some (NOT (push_bit (unat (mx + 1)) (- 1)) AND push_bit (unat mn) (- 1))
      else getBits_loop mn mx step 0)"

text \<open>\<^verbatim>\<open>all\<close> calls \<^verbatim>\<open>getBits\<close> with step 1, the branch that always returns.\<close>

definition all_bits :: "bounds \<Rightarrow> u64" where
  "all_bits r = (case getBits (bmin r) (bmax r) 1 of Some b \<Rightarrow> b OR starBit | None \<Rightarrow> starBit)"

text \<open>The expression \<^verbatim>\<open>1 << r.min\<close> of the descriptors.\<close>

definition min_bit :: "bounds \<Rightarrow> u64" where
  "min_bit r = push_bit (unat (bmin r)) 1"

section \<open>Parsing\<close>

definition mustParseInt :: "string \<Rightarrow> cron_panic + u64" where
  "mustParseInt expr =
     (case atoi expr of
        (_, Some e) \<Rightarrow> Inl (ParseIntFailed expr e)
      | (num, None) \<Rightarrow> if num < 0 then Inl (NegativeNumber num expr) else Inr (word_of_int num))"

definition parseIntOrName :: "string \<Rightarrow> (string \<rightharpoonup> u64) option \<Rightarrow> cron_panic + u64" where
  "parseIntOrName expr nms =
     (case nms of
        Some m \<Rightarrow> (case m (to_lower expr) of Some v \<Rightarrow> Inr v | None \<Rightarrow> mustParseInt expr)
      | None \<Rightarrow> mustParseInt expr)"

text \<open>
  The three stages of \<^verbatim>\<open>getRange\<close>: the start, end and star bit; the step, and the end it may
  widen; the checks and the bits.
\<close>

definition range_bounds :: "string \<Rightarrow> string list \<Rightarrow> bounds \<Rightarrow> cron_panic + (u64 \<times> u64 \<times> u64)" where
  "range_bounds expr lowAndHigh r =
     (if hd lowAndHigh = ''*'' \<or> hd lowAndHigh = ''?'' then Inr (bmin r, bmax r, starBit)
      else res_bind (parseIntOrName (hd lowAndHigh) (names r)) (\<lambda>start.
        if length lowAndHigh = 1 then Inr (start, start, 0)
        else if length lowAndHigh = 2 then
          res_bind (parseIntOrName (lowAndHigh ! 1) (names r)) (\<lambda>end. Inr (start, end, 0))
        else Inl (TooManyHyphens expr)))"

definition range_step :: "string \<Rightarrow> string list \<Rightarrow> bool \<Rightarrow> bounds \<Rightarrow> u64 \<Rightarrow> cron_panic + (u64 \<times> u64)" where
  "range_step expr rangeAndStep singleDigit r end =
     (if length rangeAndStep = 1 then Inr (end, 1)
      else if length rangeAndStep = 2 then
        res_bind (mustParseInt (rangeAndStep ! 1)) (\<lambda>step.
          Inr (if singleDigit then bmax r else end, step))
      else Inl (TooManySlashes expr))"

definition range_args :: "string \<Rightarrow> bounds \<Rightarrow> cron_panic + (u64 \<times> u64 \<times> u64 \<times> u64)" where
  "range_args expr r =
     (let rangeAndStep = split expr ''/'';
          lowAndHigh = split (hd rangeAndStep) ''-'';
          singleDigit = (length lowAndHigh = 1)
      in res_bind (range_bounds expr lowAndHigh r) (\<lambda>(start, end0, extrastar).
         res_bind (range_step expr rangeAndStep singleDigit r end0) (\<lambda>(end, step).
           if start < bmin r then Inl (BelowMinimum start (bmin r) expr)
           else if end > bmax r then Inl (AboveMaximum end (bmax r) expr)
           else if start > end then Inl (BeginBeyondEnd start end expr)
           else Inr (start, end, step, extrastar))))"

definition getRange :: "string \<Rightarrow> bounds \<Rightarrow> (cron_panic, u64) run" where
  "getRange expr r =
     (case range_args expr r of
        Inl e \<Rightarrow> run_panic e
      | Inr (start, end, step, extrastar) \<Rightarrow>
          (case getBits start end step of
             None \<Rightarrow> None
           | Some b \<Rightarrow> run_ret (b OR extrastar)))"

fun getField_loop :: "string list \<Rightarrow> bounds \<Rightarrow> u64 \<Rightarrow> (cron_panic, u64) run" where
  "getField_loop [] r bits = run_ret bits"
| "getField_loop (expr # rest) r bits =
     run_bind (getRange expr r) (\<lambda>b. getField_loop rest r (bits OR b))"

definition getField :: "string \<Rightarrow> bounds \<Rightarrow> (cron_panic, u64) run" where
  "getField field r = getField_loop (fields_func field (\<lambda>c. c = CHR '','')) r 0"

definition parseSpec :: "string \<Rightarrow> (cron_panic, Schedule) run" where
  "parseSpec spec =
     (if spec = ''@yearly'' \<or> spec = ''@annually'' then
        run_ret \<lparr>Second = min_bit seconds, Minute = min_bit minutes,
          Hour = min_bit hours, Day = min_bit days,
          Month = min_bit months, Week = all_bits weeks\<rparr>
      else if spec = ''@monthly'' then
        run_ret \<lparr>Second = min_bit seconds, Minute = min_bit minutes,
          Hour = min_bit hours, Day = min_bit days,
          Month = all_bits months, Week = all_bits weeks\<rparr>
      else if spec = ''@weekly'' then
        run_ret \<lparr>Second = min_bit seconds, Minute = min_bit minutes,
          Hour = min_bit hours, Day = all_bits days,
          Month = all_bits months, Week = min_bit weeks\<rparr>
      else if spec = ''@daily'' \<or> spec = ''@midnight'' then
        run_ret \<lparr>Second = min_bit seconds, Minute = min_bit minutes,
          Hour = min_bit hours, Day = all_bits days,
          Month = all_bits months, Week = all_bits weeks\<rparr>
      else if spec = ''@hourly'' then
        run_ret \<lparr>Second = min_bit seconds, Minute = min_bit minutes,
          Hour = all_bits hours, Day = all_bits days,
          Month = all_bits months, Week = all_bits weeks\<rparr>
      else run_panic (UnrecognizedDescriptor spec))"

definition parse_fields :: "string list \<Rightarrow> (cron_panic, Schedule) run" where
  "parse_fields fs =
     run_bind (getField (fs ! 0) seconds) (\<lambda>s.
     run_bind (getField (fs ! 1) minutes) (\<lambda>m.
     run_bind (getField (fs ! 2) hours) (\<lambda>h.
     run_bind (getField (fs ! 3) days) (\<lambda>d.
     run_bind (getField (fs ! 4) months) (\<lambda>mo.
     run_bind (getField (fs ! 5) weeks) (\<lambda>w.
       run_ret \<lparr>Second = s, Minute = m, Hour = h, Day = d, Month = mo, Week = w\<rparr>))))))"

definition parse :: "string \<Rightarrow> (cron_panic, Schedule) run" where
  "parse spec =
     (if spec \<noteq> [] \<and> hd spec = CHR ''@'' then parseSpec spec
      else let fs = str_fields spec in
        if length fs \<noteq> 5 \<and> length fs \<noteq> 6 then run_panic (FieldCount (length fs) spec)
        else parse_fields (if length fs = 5 then fs @ [''*''] else fs))"


section \<open>Bit sets: what they hold, and when the loop ends\<close>

lemma bit_2_exp [simp]: "bit (2 ^ n :: u64) k \<longleftrightarrow> k = n \<and> k < 64"
  by (auto simp: bit_exp_iff)

lemma bit_starBit [simp]: "bit starBit k \<longleftrightarrow> k = 63"
  unfolding starBit_def bit_push_bit_iff by (auto simp: bit_1_iff)

lemma unat_add_small:
  fixes a b :: u64
  assumes "unat a + unat b < 2 ^ 64"
  shows "unat (a + b) = unat a + unat b"
  using assms by (simp add: unat_word_ariths)

text \<open>With a positive step that cannot wrap around, the loop ends and adds every \<open>step\<close>-th bit.\<close>

lemma getBits_loop_correct:
  fixes i mx step bits :: u64
  assumes step: "step \<noteq> 0" and nowrap: "unat mx + unat step < 2 ^ 64"
  shows "\<exists>b. getBits_loop i mx step bits = Some b \<and>
     (\<forall>k. bit b k \<longleftrightarrow> bit bits k \<or> (k < 64 \<and> k \<le> unat mx \<and> (\<exists>j. k = unat i + j * unat step)))"
proof (induction "Suc (unat mx) - unat i" arbitrary: i bits rule: less_induct)
  case less
  show ?case
  proof (cases "i \<le> mx")
    case False
    then have "unat mx < unat i" by (simp add: not_le word_less_nat_alt)
    with False show ?thesis by (subst getBits_loop.simps) auto
  next
    case True
    then have le: "unat i \<le> unat mx" by (simp add: word_le_nat_alt)
    have sp: "0 < unat step" using step by (simp add: unat_gt_0)
    have next_i: "unat (i + step) = unat i + unat step"
      using le nowrap by (intro unat_add_small) linarith
    have "Suc (unat mx) - unat (i + step) < Suc (unat mx) - unat i"
      using le sp next_i by linarith
    from less [OF this, of "bits OR push_bit (unat i) 1"] obtain b
      where b: "getBits_loop (i + step) mx step (bits OR push_bit (unat i) 1) = Some b"
        and bb: "\<And>k. bit b k \<longleftrightarrow> bit (bits OR push_bit (unat i) 1) k \<or>
           (k < 64 \<and> k \<le> unat mx \<and> (\<exists>j. k = unat (i + step) + j * unat step))"
      by blast
    have eq: "(\<exists>j. k = unat i + j * unat step) \<longleftrightarrow>
        k = unat i \<or> (\<exists>j. k = unat (i + step) + j * unat step)" (is "?L \<longleftrightarrow> ?R") for k
    proof
      assume ?L
      then obtain j where "k = unat i + j * unat step" ..
      then show ?R using next_i by (cases j) auto
    next
      assume ?R
      then show ?L
      proof
        assume "k = unat i"
        then show ?L by (intro exI [of _ 0]) simp
      next
        assume "\<exists>j. k = unat (i + step) + j * unat step"
        then obtain j where "k = unat (i + step) + j * unat step" ..
        then show ?L using next_i by (intro exI [of _ "Suc j"]) simp
      qed
    qed
    have "getBits_loop i mx step bits = Some b"
      using True b by (subst getBits_loop.simps) simp
    moreover have "bit b k \<longleftrightarrow> bit bits k \<or>
        (k < 64 \<and> k \<le> unat mx \<and> (\<exists>j. k = unat i + j * unat step))" for k
      using bb [of k] eq [of k] le by (auto simp: bit_or_iff)
    ultimately show ?thesis by blast
  qed
qed

text \<open>With step 0 the index never moves: the loop does not end.\<close>

lemma getBits_loop_returns:
  assumes ret: "getBits_loop i mx step bits = Some b"
  shows "i \<le> mx \<longrightarrow> step \<noteq> 0"
proof (rule getBits_loop.raw_induct [where P = "\<lambda>i mx step bits r. i \<le> mx \<longrightarrow> step \<noteq> 0", OF _ ret])
  fix f :: "u64 \<Rightarrow> u64 \<Rightarrow> u64 \<Rightarrow> u64 \<Rightarrow> u64 option" and i mx step bits r :: u64
  assume IH: "\<And>i mx step bits r. f i mx step bits = Some r \<Longrightarrow> i \<le> mx \<longrightarrow> step \<noteq> 0"
    and eq: "(if i \<le> mx then f (i + step) mx step (bits OR push_bit (unat i) 1) else Some bits) = Some r"
  show "i \<le> mx \<longrightarrow> step \<noteq> 0"
  proof (intro impI notI)
    assume "i \<le> mx" "step = 0"
    with eq have "f i mx step (bits OR push_bit (unat i) 1) = Some r" by simp
    from IH [OF this] \<open>i \<le> mx\<close> \<open>step = 0\<close> show False by simp
  qed
qed

lemma getBits_loop_step_zero: "i \<le> mx \<Longrightarrow> getBits_loop i mx 0 bits = None"
  using getBits_loop_returns [of i mx 0 bits] by (cases "getBits_loop i mx 0 bits") auto

text \<open>The shift formula of the step 1 branch holds exactly the bits from \<open>mn\<close> to \<open>mx\<close>.\<close>

lemma getBits_one_bits:
  fixes mn mx :: u64
  assumes "unat mx < 63"
  shows "bit (NOT (push_bit (unat (mx + 1)) (- 1)) AND push_bit (unat mn) (- 1 :: u64)) k
     \<longleftrightarrow> unat mn \<le> k \<and> k \<le> unat mx"
proof -
  have "unat (mx + 1) = unat mx + 1" using assms unat_add_small [of mx 1] by simp
  with assms show ?thesis by (auto simp: bit_simps)
qed

lemma getBits_bits:
  fixes mn mx step :: u64
  assumes step: "step \<noteq> 0" "unat step < 2 ^ 63" and mx: "unat mx < 63"
  shows "\<exists>b. getBits mn mx step = Some b \<and>
     (\<forall>k. bit b k \<longleftrightarrow> k \<le> unat mx \<and> (\<exists>j. k = unat mn + j * unat step))"
proof (cases "step = 1")
  case True
  then show ?thesis
    using getBits_one_bits [OF mx, of mn] by (auto simp: getBits_def le_iff_add)
next
  case False
  have "unat mx + unat step < 2 ^ 64" using step(2) mx by simp
  from getBits_loop_correct [OF step(1) this, of mn 0] obtain b where
    "getBits_loop mn mx step 0 = Some b"
    "\<And>k. bit b k \<longleftrightarrow> k < 64 \<and> k \<le> unat mx \<and> (\<exists>j. k = unat mn + j * unat step)"
    by auto
  with False mx show ?thesis by (fastforce simp: getBits_def)
qed


section \<open>The parser: what a range, a field and an expression denote\<close>

text \<open>The bounds the parser is used with: the maximum stays below the star bit.\<close>

definition bounds_ok :: "bounds \<Rightarrow> bool" where
  "bounds_ok r \<longleftrightarrow> unat (bmax r) < 63"

text \<open>The values that a field's bits stand for, the star marker apart.\<close>

definition field_set :: "u64 \<Rightarrow> nat set" where
  "field_set b = {k. k < 63 \<and> bit b k}"

definition has_star :: "u64 \<Rightarrow> bool" where
  "has_star b \<longleftrightarrow> bit b 63"

text \<open>
  The reference meaning of a range: every \<open>step\<close>-th value from its start to its end. It is
  stated on the numbers the range names, without bit operations.
\<close>

definition range_vals :: "u64 \<times> u64 \<times> u64 \<times> u64 \<Rightarrow> nat set" where
  "range_vals a = (case a of (start, end, step, _) \<Rightarrow>
     {k. \<exists>j. k = unat start + j * unat step \<and> k \<le> unat end})"

definition field_ok :: "bounds \<Rightarrow> u64 \<Rightarrow> bool" where
  "field_ok r b \<longleftrightarrow> field_set b \<subseteq> {unat (bmin r)..unat (bmax r)}"

definition schedule_ok :: "Schedule \<Rightarrow> bool" where
  "schedule_ok s \<longleftrightarrow> field_ok seconds (Second s) \<and> field_ok minutes (Minute s) \<and>
     field_ok hours (Hour s) \<and> field_ok days (Day s) \<and> field_ok months (Month s) \<and>
     field_ok weeks (Week s)"

lemma bounds_ok_fields [simp]:
  "bounds_ok seconds" "bounds_ok minutes" "bounds_ok hours"
  "bounds_ok days" "bounds_ok months" "bounds_ok weeks"
  by (simp_all add: bounds_ok_def seconds_def minutes_def hours_def days_def months_def weeks_def)

lemma field_set_or: "field_set (a OR b) = field_set a \<union> field_set b"
  by (auto simp: field_set_def bit_or_iff)

lemma field_set_0 [simp]: "field_set 0 = {}"
  by (simp add: field_set_def)

lemma field_set_starBit [simp]: "field_set starBit = {}"
  by (auto simp: field_set_def)

lemma field_set_exp: "n < 63 \<Longrightarrow> field_set (2 ^ n) = {n}"
  by (auto simp: field_set_def)

lemma mustParseInt_less: "mustParseInt expr = Inr v \<Longrightarrow> unat v < 2 ^ 63"
proof -
  assume "mustParseInt expr = Inr v"
  then obtain n where n: "atoi expr = (n, None)" "0 \<le> n" "v = word_of_int n"
    by (auto simp: mustParseInt_def split: prod.splits option.splits if_splits)
  then have "n < 2 ^ 63" using parse_int_range [of 64 expr n] by (simp add: atoi_def)
  with n show ?thesis by (simp add: unat_eq_nat_uint uint_word_of_int nat_less_iff)
qed

lemma range_args_ok:
  assumes "range_args expr r = Inr (start, end, step, star)"
  shows "bmin r \<le> start" "start \<le> end" "end \<le> bmax r" "unat step < 2 ^ 63"
    "star = 0 \<or> star = starBit"
  using assms
  by (auto simp: range_args_def range_step_def range_bounds_def res_bind_Inr_iff Let_def not_less
      dest: mustParseInt_less split: if_splits)

lemma range_step_nonzero_bits:
  assumes r: "bounds_ok r" and a: "range_args expr r = Inr (start, end, step, star)" and "step \<noteq> 0"
  shows "\<exists>b. getBits start end step = Some b \<and> field_set b = range_vals (start, end, step, star)
     \<and> \<not> has_star b"
proof -
  have e: "unat end < 63"
    using r range_args_ok(3) [OF a] by (simp add: bounds_ok_def word_le_nat_alt)
  from getBits_bits [OF \<open>step \<noteq> 0\<close> range_args_ok(4) [OF a] e, of start] obtain b where
    "getBits start end step = Some b"
    "\<forall>k. bit b k \<longleftrightarrow> k \<le> unat end \<and> (\<exists>j. k = unat start + j * unat step)" by blast
  with e show ?thesis
    by (intro exI [of _ b]) (auto simp: field_set_def range_vals_def has_star_def)
qed

lemma getRange_panic: "range_args expr r = Inl e \<Longrightarrow> getRange expr r = run_panic e"
  by (simp add: getRange_def)

lemma getRange_step_zero:
  assumes "range_args expr r = Inr (start, end, 0, star)"
  shows "getRange expr r = None"
  using assms range_args_ok(2) [OF assms]
  by (simp add: getRange_def getBits_def getBits_loop_step_zero)

lemma getRange_bits:
  assumes r: "bounds_ok r" and a: "range_args expr r = Inr (start, end, step, star)" and "step \<noteq> 0"
  shows "\<exists>b. getRange expr r = run_ret b \<and> field_set b = range_vals (start, end, step, star)
     \<and> has_star b = (star = starBit)"
proof -
  from range_step_nonzero_bits [OF assms] obtain b where
    b: "getBits start end step = Some b" "field_set b = range_vals (start, end, step, star)"
      "\<not> has_star b" by blast
  have "starBit \<noteq> 0" using bit_starBit [of 63] by (intro notI) simp
  then have "has_star (b OR star) = (star = starBit)"
    using b(3) range_args_ok(5) [OF a] by (auto simp: has_star_def bit_or_iff)
  moreover have "field_set star = {}" using range_args_ok(5) [OF a] by auto
  then have "field_set (b OR star) = range_vals (start, end, step, star)"
    using b(2) by (simp add: field_set_or)
  moreover have "getRange expr r = run_ret (b OR star)" using a b(1) by (simp add: getRange_def)
  ultimately show ?thesis by blast
qed

lemma range_vals_within:
  assumes "range_args expr r = Inr a"
  shows "range_vals a \<subseteq> {unat (bmin r)..unat (bmax r)}"
proof (cases a)
  case (fields start "end" step star)
  with assms have ok: "bmin r \<le> start" "end \<le> bmax r"
    using range_args_ok [of expr r start "end" step star] by auto
  from fields show ?thesis
  proof (clarsimp simp: range_vals_def)
    fix j
    assume "unat start + j * unat step \<le> unat end"
    with ok show "unat (bmin r) \<le> unat start + j * unat step \<and> unat start + j * unat step \<le> unat (bmax r)"
      by (auto simp: word_le_nat_alt)
  qed
qed


text \<open>A range expression parses when its arguments do and its step is not 0.\<close>

definition range_good :: "bounds \<Rightarrow> string \<Rightarrow> bool" where
  "range_good r expr \<longleftrightarrow> (case range_args expr r of
     Inl _ \<Rightarrow> False | Inr (_, _, step, _) \<Rightarrow> step \<noteq> 0)"

definition range_hangs :: "bounds \<Rightarrow> string \<Rightarrow> bool" where
  "range_hangs r expr \<longleftrightarrow> (case range_args expr r of
     Inl _ \<Rightarrow> False | Inr (_, _, step, _) \<Rightarrow> step = 0)"

definition expr_vals :: "bounds \<Rightarrow> string \<Rightarrow> nat set" where
  "expr_vals r expr = (case range_args expr r of Inl _ \<Rightarrow> {} | Inr a \<Rightarrow> range_vals a)"

lemma getRange_cases [consumes 1, case_names panic hangs good]:
  assumes "bounds_ok r"
  obtains (panic) e where "range_args expr r = Inl e" "getRange expr r = run_panic e"
  | (hangs) "range_hangs r expr" "getRange expr r = None"
  | (good) b where "range_good r expr" "getRange expr r = run_ret b" "field_set b = expr_vals r expr"
proof (cases "range_args expr r")
  case (Inl e)
  then show ?thesis using panic getRange_panic by blast
next
  case (Inr a)
  obtain start "end" step star where a: "a = (start, end, step, star)" by (cases a)
  show ?thesis
  proof (cases "step = 0")
    case True
    with Inr a have "range_hangs r expr" "getRange expr r = None"
      using getRange_step_zero by (auto simp: range_hangs_def)
    then show ?thesis by (rule hangs)
  next
    case False
    from getRange_bits [OF assms Inr [unfolded a] False] obtain b where
      "getRange expr r = run_ret b" "field_set b = range_vals a" using a by blast
    with Inr a False show ?thesis by (intro good [of b]) (simp_all add: range_good_def expr_vals_def)
  qed
qed

lemma range_good_not_hangs: "range_good r expr \<Longrightarrow> \<not> range_hangs r expr"
  by (auto simp: range_good_def range_hangs_def split: sum.splits)

lemma getField_loop_good:
  assumes "bounds_ok r" "\<forall>expr \<in> set es. range_good r expr"
  shows "\<exists>b. getField_loop es r bits = run_ret b \<and>
     field_set b = field_set bits \<union> (\<Union>expr \<in> set es. expr_vals r expr)"
  using assms(2)
proof (induction es arbitrary: bits)
  case Nil
  then show ?case by (auto intro: exI [of _ bits])
next
  case (Cons expr es)
  from Cons.prems have g: "range_good r expr" by simp
  from assms(1) show ?case
  proof (cases rule: getRange_cases [where expr = expr])
    case (good b)
    from Cons.IH [of "bits OR b"] Cons.prems good show ?thesis
      by (auto simp: field_set_or Un_assoc)
  qed (use g in \<open>auto simp: range_good_def range_hangs_def split: sum.splits\<close>)
qed

lemma getField_loop_ret:
  assumes "bounds_ok r" "getField_loop es r bits = run_ret b"
  shows "\<forall>expr \<in> set es. range_good r expr"
  using assms(2)
proof (induction es arbitrary: bits)
  case (Cons expr es)
  from assms(1) show ?case
  proof (cases rule: getRange_cases [where expr = expr])
    case (good c)
    with Cons show ?thesis by auto
  qed (use Cons.prems in \<open>auto simp: run_ret_def run_panic_def\<close>)
qed simp

text \<open>A list of ranges hangs exactly when one with step 0 comes before every one that panics.\<close>

fun exprs_hang :: "bounds \<Rightarrow> string list \<Rightarrow> bool" where
  "exprs_hang r [] \<longleftrightarrow> False"
| "exprs_hang r (expr # es) \<longleftrightarrow> range_hangs r expr \<or> (range_good r expr \<and> exprs_hang r es)"

lemma getField_loop_hangs:
  assumes "bounds_ok r"
  shows "getField_loop es r bits = None \<longleftrightarrow> exprs_hang r es"
proof (induction es arbitrary: bits)
  case Nil
  then show ?case by (simp add: run_ret_def)
next
  case (Cons expr es)
  from assms show ?case
  proof (cases rule: getRange_cases [where expr = expr])
    case (panic e)
    then show ?thesis by (simp add: range_good_def range_hangs_def run_panic_def)
  next
    case hangs
    then show ?thesis by simp
  next
    case (good b)
    with Cons.IH [of "bits OR b"] show ?thesis by (simp add: range_good_not_hangs)
  qed
qed

definition field_exprs :: "string \<Rightarrow> string list" where
  "field_exprs field = fields_func field (\<lambda>c. c = CHR '','')"

lemma getField_ret_iff:
  assumes "bounds_ok r"
  shows "(\<exists>b. getField field r = run_ret b) \<longleftrightarrow> (\<forall>expr \<in> set (field_exprs field). range_good r expr)"
  using getField_loop_good [OF assms, of "field_exprs field" 0]
    getField_loop_ret [OF assms, of "field_exprs field" 0]
  by (auto simp: getField_def field_exprs_def)

lemma getField_vals:
  assumes "bounds_ok r" "getField field r = run_ret b"
  shows "field_set b = (\<Union>expr \<in> set (field_exprs field). expr_vals r expr)"
proof -
  have "\<forall>expr \<in> set (field_exprs field). range_good r expr"
    using getField_ret_iff [OF assms(1)] assms(2) by blast
  from getField_loop_good [OF assms(1) this, of 0] assms(2) show ?thesis
    by (auto simp: getField_def field_exprs_def run_ret_def)
qed

lemma expr_vals_within: "expr_vals r expr \<subseteq> {unat (bmin r)..unat (bmax r)}"
  using range_vals_within [of expr r] by (simp add: expr_vals_def split: sum.splits)

lemma getField_ok: "bounds_ok r \<Longrightarrow> getField field r = run_ret b \<Longrightarrow> field_ok r b"
  unfolding field_ok_def using getField_vals expr_vals_within by blast


lemma parse_fields_ret:
  assumes "parse_fields fs = run_ret s"
  shows "getField (fs ! 0) seconds = run_ret (Second s)" "getField (fs ! 1) minutes = run_ret (Minute s)"
    "getField (fs ! 2) hours = run_ret (Hour s)" "getField (fs ! 3) days = run_ret (Day s)"
    "getField (fs ! 4) months = run_ret (Month s)" "getField (fs ! 5) weeks = run_ret (Week s)"
  using assms by (auto simp: parse_fields_def run_ret_def run_bind_ret_iff)

lemma parse_fields_ok: "parse_fields fs = run_ret s \<Longrightarrow> schedule_ok s"
  unfolding schedule_ok_def using parse_fields_ret [of fs s] getField_ok bounds_ok_fields by blast

lemma getBits_1_field_set:
  assumes "unat mx < 63" "getBits mn mx 1 = Some b"
  shows "field_set b = {unat mn..unat mx}"
proof -
  from getBits_bits [of 1 mx mn] assms
  have "bit b k \<longleftrightarrow> k \<le> unat mx \<and> (\<exists>j. k = unat mn + j)" for k by auto
  with assms(1) show ?thesis by (auto simp: field_set_def le_iff_add)
qed

lemma all_bits_field_set:
  assumes "bounds_ok r"
  shows "field_set (all_bits r) = {unat (bmin r)..unat (bmax r)}"
proof -
  obtain b where b: "getBits (bmin r) (bmax r) 1 = Some b"
    unfolding getBits_def by (simp only: refl if_True)
  then have "all_bits r = b OR starBit" by (simp add: all_bits_def)
  moreover have "field_set b = {unat (bmin r)..unat (bmax r)}"
    using assms b by (intro getBits_1_field_set) (simp_all add: bounds_ok_def)
  ultimately show ?thesis by (simp add: field_set_or)
qed

lemma all_bits_ok: "bounds_ok r \<Longrightarrow> field_ok r (all_bits r)"
  by (simp add: field_ok_def all_bits_field_set)

lemma min_bit_ok:
  assumes "bounds_ok r" "bmin r \<le> bmax r"
  shows "field_ok r (min_bit r)"
  using assms field_set_exp [of "unat (bmin r)"]
  by (simp add: field_ok_def min_bit_def bounds_ok_def word_le_nat_alt)

lemma bounds_ordered [simp]:
  "bmin seconds \<le> bmax seconds" "bmin minutes \<le> bmax minutes" "bmin hours \<le> bmax hours"
  "bmin days \<le> bmax days" "bmin months \<le> bmax months" "bmin weeks \<le> bmax weeks"
  by (simp_all add: seconds_def minutes_def hours_def days_def months_def weeks_def)

lemmas field_oks = all_bits_ok min_bit_ok

lemma parseSpec_ok: "parseSpec spec = run_ret s \<Longrightarrow> schedule_ok s"
  unfolding parseSpec_def run_ret_def run_panic_def
  by (simp split: if_split_asm; clarify; simp add: schedule_ok_def field_oks)

lemma parse_ok:
  assumes "parse spec = run_ret s"
  shows "schedule_ok s"
proof (cases "spec \<noteq> [] \<and> hd spec = CHR ''@''")
  case True
  with assms have "parseSpec spec = run_ret s" by (simp add: parse_def)
  then show ?thesis by (rule parseSpec_ok)
next
  case False
  have "(if length fs \<noteq> 5 \<and> length fs \<noteq> 6 then run_panic e else parse_fields gs) = run_ret s \<Longrightarrow>
    parse_fields gs = run_ret s" for fs :: "string list" and e gs
    by (simp add: run_panic_def run_ret_def split: if_splits)
  with assms False obtain gs where "parse_fields gs = run_ret s"
    unfolding parse_def Let_def by (simp only: if_False) blast
  then show ?thesis by (rule parse_fields_ok)
qed


lemmas cron_eval [go_eval] = mustParseInt_def parseIntOrName_def range_bounds_def range_step_def
  range_args_def getRange_def getField_def getBits_def getBits_loop.simps starBit_def
  seconds_def minutes_def hours_def days_def months_def weeks_def

section \<open>Properties\<close>



text \<open>
  C38. Parsing a field does not return exactly when one of its ranges has
  step 0 and every range before it is fine: the loop of \<^verbatim>\<open>getBits\<close> then adds 0 for ever, where
  every other malformed range panics.
\<close>

theorem getField_diverges:
  assumes "bounds_ok r"
  shows "getField field r = None \<longleftrightarrow> exprs_hang r (field_exprs field)"
  using getField_loop_hangs [OF assms] by (simp add: getField_def field_exprs_def)

theorem getField_diverges_witness: "bounds_ok minutes \<and> getField ''*/0'' minutes = None"
proof -
  have "exprs_hang minutes (field_exprs ''*/0'')"
    by (simp add: field_exprs_def range_hangs_def go_eval)
  moreover have "bounds_ok minutes" by simp
  ultimately show ?thesis using getField_diverges [OF \<open>bounds_ok minutes\<close>, of "''*/0''"] by blast
qed

text \<open>
   The shift formula that \<^verbatim>\<open>getBits\<close> uses for step 1 gives the
  same word as its loop.
\<close>

theorem getBits_fast_path:
  assumes "unat mx < 63"
  shows "getBits mn mx 1 = getBits_loop mn mx 1 0"
proof -
  have "unat mx + unat (1::u64) < 2 ^ 64" using assms by simp
  from getBits_loop_correct [OF _ this, of mn 0] obtain b where b: "getBits_loop mn mx 1 0 = Some b"
    "\<And>k. bit b k \<longleftrightarrow> k < 64 \<and> k \<le> unat mx \<and> (\<exists>j. k = unat mn + j)" by auto
  from getBits_bits [of 1 mx mn] assms obtain c where c: "getBits mn mx 1 = Some c"
    "\<And>k. bit c k \<longleftrightarrow> k \<le> unat mx \<and> (\<exists>j. k = unat mn + j)" by auto
  have "b = c" by (rule bit_eqI) (use b(2) c(2) assms in auto)
  with b(1) c(1) show ?thesis by simp
qed

theorem getBits_fast_path_witness:
  "unat (31::u64) < 63 \<and> getBits 1 31 1 = getBits_loop 1 31 1 0"
  using getBits_fast_path [of 31 1] by simp

text \<open>
  C36. Whatever expression is given, descriptor or five or six fields, a
  schedule that \<^verbatim>\<open>parse\<close> returns only holds values within the bounds of each field.
\<close>

theorem parse_in_bounds:
  assumes "parse spec = run_ret s"
  shows "field_set (Second s) \<subseteq> {0..59} \<and> field_set (Minute s) \<subseteq> {0..59} \<and> field_set (Hour s) \<subseteq> {0..23} \<and>
    field_set (Day s) \<subseteq> {1..31} \<and> field_set (Month s) \<subseteq> {1..12} \<and> field_set (Week s) \<subseteq> {0..6}"
  using parse_ok [OF assms]
  by (simp add: schedule_ok_def field_ok_def seconds_def minutes_def hours_def days_def months_def weeks_def)

definition monday_at_five :: Schedule where
  "monday_at_five = \<lparr>Second = 1, Minute = 1, Hour = 131072, Day = 0x80000000FFFFFFFE,
     Month = 0x8000000000001FFE, Week = 2\<rparr>"

lemma parse_monday_at_five: "parse ''0 0 17 * * 1'' = run_ret monday_at_five"
  by (simp add: parse_def parse_fields_def monday_at_five_def go_eval)

theorem parse_in_bounds_witness:
  "parse ''0 0 17 * * 1'' = run_ret monday_at_five \<and> field_set (Day monday_at_five) \<subseteq> {1..31}"
  using parse_in_bounds [OF parse_monday_at_five] parse_monday_at_five by blast

text \<open>
   The descriptors mean the expressions they abbreviate.
\<close>

theorem parse_descriptors:
  "parse ''@yearly'' = parse ''0 0 0 1 1 *'' \<and> parse ''@annually'' = parse ''0 0 0 1 1 *'' \<and>
   parse ''@monthly'' = parse ''0 0 0 1 * *'' \<and> parse ''@weekly'' = parse ''0 0 0 * * 0'' \<and>
   parse ''@daily'' = parse ''0 0 0 * * *'' \<and> parse ''@midnight'' = parse ''0 0 0 * * *'' \<and>
   parse ''@hourly'' = parse ''0 0 * * * *''"
  by (intro conjI; simp add: parse_def parseSpec_def parse_fields_def min_bit_def all_bits_def go_eval)

end
