(* ===== verification/Go_Time.thy ===== *)
theory Go_Time
  imports Go_Prelude
begin

text \<open>
  The wall-clock part of Go's \<^verbatim>\<open>time.Time\<close> that the scheduler uses: a civil date and time
  in a location of constant offset (no daylight-saving jumps), with the steps the code takes
  (\<^verbatim>\<open>Add\<close> of one second, minute or hour, \<^verbatim>\<open>AddDate\<close> of one day or one month, which normalises
  a day past the end of the month into the next one), the proleptic Gregorian calendar and the
  order of instants.
\<close>

record time =
  year :: int
  month :: nat
  day :: nat
  hour :: nat
  minute :: nat
  second :: nat
  nsec :: nat

definition leap :: "int \<Rightarrow> bool" where
  "leap y \<longleftrightarrow> y mod 4 = 0 \<and> (y mod 100 \<noteq> 0 \<or> y mod 400 = 0)"

definition days_in :: "int \<Rightarrow> nat \<Rightarrow> nat" where
  "days_in y m = (if m = 2 then (if leap y then 29 else 28)
     else if m \<in> {4, 6, 9, 11} then 30 else 31)"

definition valid :: "time \<Rightarrow> bool" where
  "valid t \<longleftrightarrow> 1 \<le> month t \<and> month t \<le> 12 \<and> 1 \<le> day t \<and> day t \<le> days_in (year t) (month t) \<and>
     hour t < 24 \<and> minute t < 60 \<and> second t < 60 \<and> nsec t < 1000000000"

text \<open>\<^verbatim>\<open>time.Time{}\<close>, the zero time: January 1, year 1.\<close>

definition zero_time :: time where
  "zero_time = \<lparr>year = 1, month = 1, day = 1, hour = 0, minute = 0, second = 0, nsec = 0\<rparr>"

definition next_month :: "int \<times> nat \<Rightarrow> int \<times> nat" where
  "next_month ym = (if snd ym = 12 then (fst ym + 1, 1) else (fst ym, snd ym + 1))"

text \<open>\<^verbatim>\<open>t.AddDate(0, 1, 0)\<close>\<close>

definition add_month :: "time \<Rightarrow> time" where
  "add_month t =
     (let (y, m) = next_month (year t, month t); d = days_in y m
      in if day t \<le> d then t\<lparr>year := y, month := m\<rparr>
         else (let (y', m') = next_month (y, m) in t\<lparr>year := y', month := m', day := day t - d\<rparr>))"

text \<open>\<^verbatim>\<open>t.AddDate(0, 0, 1)\<close>\<close>

definition add_day :: "time \<Rightarrow> time" where
  "add_day t =
     (if day t < days_in (year t) (month t) then t\<lparr>day := day t + 1\<rparr>
      else (let (y, m) = next_month (year t, month t) in t\<lparr>year := y, month := m, day := 1\<rparr>))"

text \<open>\<^verbatim>\<open>t.Add(1 * time.Hour)\<close>, \<^verbatim>\<open>t.Add(1 * time.Minute)\<close>, \<^verbatim>\<open>t.Add(1 * time.Second)\<close>\<close>

definition add_hour :: "time \<Rightarrow> time" where
  "add_hour t = (if hour t < 23 then t\<lparr>hour := hour t + 1\<rparr> else add_day (t\<lparr>hour := 0\<rparr>))"

definition add_minute :: "time \<Rightarrow> time" where
  "add_minute t = (if minute t < 59 then t\<lparr>minute := minute t + 1\<rparr> else add_hour (t\<lparr>minute := 0\<rparr>))"

definition add_second :: "time \<Rightarrow> time" where
  "add_second t = (if second t < 59 then t\<lparr>second := second t + 1\<rparr> else add_minute (t\<lparr>second := 0\<rparr>))"

text \<open>Days since January 1, year 1 (a Monday), and the weekday, Sunday being 0.\<close>

definition days_before_year :: "int \<Rightarrow> int" where
  "days_before_year y = 365 * (y - 1) + (y - 1) div 4 - (y - 1) div 100 + (y - 1) div 400"

definition days_before_month :: "int \<Rightarrow> nat \<Rightarrow> int" where
  "days_before_month y m = (\<Sum>k \<leftarrow> [1..<m]. int (days_in y k))"

definition abs_day :: "time \<Rightarrow> int" where
  "abs_day t = days_before_year (year t) + days_before_month (year t) (month t) + int (day t) - 1"

definition weekday :: "time \<Rightarrow> nat" where
  "weekday t = nat ((abs_day t + 1) mod 7)"

text \<open>
  \<^verbatim>\<open>t.Before(u)\<close> on civil fields is the lexicographic order. \<open>stamp\<close> packs the fields of a
  valid time into one number with the same order (the proofs use it for linear arithmetic).
\<close>

definition before :: "time \<Rightarrow> time \<Rightarrow> bool" where
  "before t u \<longleftrightarrow> year t < year u \<or> year t = year u \<and>
     (month t < month u \<or> month t = month u \<and>
     (day t < day u \<or> day t = day u \<and>
     (hour t < hour u \<or> hour t = hour u \<and>
     (minute t < minute u \<or> minute t = minute u \<and>
     (second t < second u \<or> second t = second u \<and> nsec t < nsec u)))))"

definition pack :: "nat \<Rightarrow> int \<Rightarrow> nat \<Rightarrow> int" where
  "pack n a x = a * int n + int x"

definition stamp :: "time \<Rightarrow> int" where
  "stamp t = pack 1000000000 (pack 60 (pack 60 (pack 24 (pack 32 (pack 13 (year t) (month t)) (day t))
     (hour t)) (minute t)) (second t)) (nsec t)"

section \<open>Calendar lemmas\<close>

lemma days_in_bounds: "28 \<le> days_in y m" "days_in y m \<le> 31"
  by (simp_all add: days_in_def)

lemma valid_day_le: "valid t \<Longrightarrow> day t \<le> 31"
  using days_in_bounds(2) [of "year t" "month t"] by (simp add: valid_def)

lemma pack_less:
  assumes "x < n" "y < n"
  shows "pack n a x < pack n b y \<longleftrightarrow> a < b \<or> a = b \<and> x < y"
proof (cases a b rule: linorder_cases)
  case less
  then have "(a + 1) * int n \<le> b * int n" by (intro mult_right_mono) auto
  with less assms show ?thesis by (simp add: pack_def distrib_right)
next
  case equal
  then show ?thesis by (simp add: pack_def)
next
  case greater
  then have "(b + 1) * int n \<le> a * int n" by (intro mult_right_mono) auto
  with greater assms show ?thesis by (simp add: pack_def distrib_right)
qed

lemma pack_eq:
  assumes "x < n" "y < n"
  shows "pack n a x = pack n b y \<longleftrightarrow> a = b \<and> x = y"
  using pack_less [OF assms, of a b] pack_less [OF assms(2,1), of b a] by auto

text \<open>On valid times the packed number has the order of the fields, and is injective.\<close>

lemma before_stamp:
  assumes "valid t" "valid u"
  shows "before t u \<longleftrightarrow> stamp t < stamp u"
proof -
  have "day t \<le> 31" "day u \<le> 31" using assms valid_day_le by auto
  with assms show ?thesis
    by (simp add: before_def stamp_def valid_def pack_less pack_eq) blast
qed

lemma stamp_inj:
  assumes "valid t" "valid u" "stamp t = stamp u"
  shows "t = u"
proof -
  have "day t \<le> 31" "day u \<le> 31" using assms valid_day_le by auto
  with assms show ?thesis
    by (simp add: stamp_def valid_def pack_eq)
qed


lemma before_irrefl [simp]: "\<not> before t t"
  by (simp add: before_def)

lemma before_trans: "valid t \<Longrightarrow> valid u \<Longrightarrow> valid v \<Longrightarrow> before t u \<Longrightarrow> before u v \<Longrightarrow> before t v"
  by (simp add: before_stamp)

lemma not_before_trans:
  "valid t \<Longrightarrow> valid u \<Longrightarrow> valid v \<Longrightarrow> \<not> before u t \<Longrightarrow> \<not> before v u \<Longrightarrow> \<not> before v t"
  by (simp add: before_stamp)

section \<open>Truncation and steps\<close>

text \<open>The truncations \<^verbatim>\<open>time.Date(t.Year(), t.Month(), 1, 0, \<dots>)\<close> and its finer versions.\<close>

definition month_floor :: "time \<Rightarrow> time" where
  "month_floor t = t\<lparr>day := 1, hour := 0, minute := 0, second := 0, nsec := 0\<rparr>"

definition day_floor :: "time \<Rightarrow> time" where
  "day_floor t = t\<lparr>hour := 0, minute := 0, second := 0, nsec := 0\<rparr>"

definition hour_floor :: "time \<Rightarrow> time" where
  "hour_floor t = t\<lparr>minute := 0, second := 0, nsec := 0\<rparr>"

definition minute_floor :: "time \<Rightarrow> time" where
  "minute_floor t = t\<lparr>second := 0, nsec := 0\<rparr>"

definition second_floor :: "time \<Rightarrow> time" where
  "second_floor t = t\<lparr>nsec := 0\<rparr>"

lemmas floor_defs = month_floor_def day_floor_def hour_floor_def minute_floor_def second_floor_def

lemma one_le_days_in [simp]: "Suc 0 \<le> days_in y m" "0 < days_in y m"
  using days_in_bounds(1) [of y m] by simp_all

lemma valid_floors [simp]:
  "valid t \<Longrightarrow> valid (month_floor t)" "valid t \<Longrightarrow> valid (day_floor t)"
  "valid t \<Longrightarrow> valid (hour_floor t)" "valid t \<Longrightarrow> valid (minute_floor t)"
  "valid t \<Longrightarrow> valid (second_floor t)"
  by (simp_all add: floor_defs valid_def)

lemma nsec_floors [simp]:
  "nsec (month_floor t) = 0" "nsec (day_floor t) = 0" "nsec (hour_floor t) = 0"
  "nsec (minute_floor t) = 0" "nsec (second_floor t) = 0"
  by (simp_all add: floor_defs)

lemma add_month_floor_fields:
  "year (add_month (month_floor t)) = fst (next_month (year t, month t))"
  "month (add_month (month_floor t)) = snd (next_month (year t, month t))"
  "day (add_month (month_floor t)) = 1" "hour (add_month (month_floor t)) = 0"
  "minute (add_month (month_floor t)) = 0" "second (add_month (month_floor t)) = 0"
  "nsec (add_month (month_floor t)) = 0"
  by (simp_all add: add_month_def month_floor_def Let_def split: prod.splits)

lemma add_day_fields:
  "hour (add_day t) = hour t" "minute (add_day t) = minute t" "second (add_day t) = second t"
  "nsec (add_day t) = nsec t"
  by (simp_all add: add_day_def Let_def split: prod.splits)

lemma next_month_valid: "1 \<le> m \<Longrightarrow> m \<le> 12 \<Longrightarrow> next_month (y, m) = (y', m') \<Longrightarrow> 1 \<le> m' \<and> m' \<le> 12"
  by (auto simp: next_month_def split: if_splits)

lemma valid_add_month: "valid t \<Longrightarrow> valid (add_month (month_floor t))"
  using next_month_valid [of "month t" "year t" "fst (next_month (year t, month t))" "snd (next_month (year t, month t))"]
  by (simp add: valid_def add_month_floor_fields)

lemma valid_add_day: "valid t \<Longrightarrow> valid (add_day t)"
  by (auto simp: add_day_def valid_def Let_def split: prod.splits dest: next_month_valid [rotated 2])

lemma valid_add_hour: "valid t \<Longrightarrow> valid (add_hour t)"
  using valid_add_day [of "t\<lparr>hour := 0\<rparr>"] by (auto simp: add_hour_def valid_def)

lemma valid_add_minute: "valid t \<Longrightarrow> valid (add_minute t)"
  using valid_add_hour [of "t\<lparr>minute := 0\<rparr>"] by (auto simp: add_minute_def valid_def)

lemma valid_add_second: "valid t \<Longrightarrow> valid (add_second t)"
  using valid_add_minute [of "t\<lparr>second := 0\<rparr>"] by (auto simp: add_second_def valid_def)

lemmas valid_steps [simp] = valid_add_month valid_add_day valid_add_hour valid_add_minute valid_add_second

lemma month_gap:
  assumes "valid t" "valid u" "\<not> before u t" "before u (add_month (month_floor t))"
  shows "year u = year t \<and> month u = month t"
proof -
  have lo: "year t < year u \<or> year t = year u \<and> month t \<le> month u"
    using assms(3) by (auto simp: before_def)
  have "1 \<le> day u" using assms(2) by (simp add: valid_def)
  then have "year u < fst (next_month (year t, month t)) \<or> year u = fst (next_month (year t, month t)) \<and>
      month u < snd (next_month (year t, month t))"
    using assms(4) by (simp add: before_def add_month_floor_fields)
  moreover have "month t \<le> 12" "month u \<le> 12" "1 \<le> month u"
    using assms(1,2) by (simp_all add: valid_def)
  ultimately show ?thesis using lo by (cases "month t = 12") (simp_all add: next_month_def, linarith+)
qed

lemma date_less_add_day:
  assumes "valid t" "valid u"
    "year u < year (add_day t) \<or> year u = year (add_day t) \<and> (month u < month (add_day t) \<or>
       month u = month (add_day t) \<and> day u < day (add_day t))"
  shows "year u < year t \<or> year u = year t \<and> (month u < month t \<or> month u = month t \<and> day u \<le> day t)"
proof (cases "day t < days_in (year t) (month t)")
  case True
  with assms(3) show ?thesis by (auto simp: add_day_def)
next
  case False
  with assms(1) have last: "day t = days_in (year t) (month t)" by (simp add: valid_def)
  have u: "day u \<le> days_in (year u) (month u)" "1 \<le> day u" "month u \<le> 12" "1 \<le> month u"
    using assms(2) by (simp_all add: valid_def)
  show ?thesis
  proof (cases "month t = 12")
    case True
    with False assms(3) u last show ?thesis
      by (auto simp: add_day_def next_month_def)
  next
    case nd: False
    with False assms(3) u last show ?thesis
      by (auto simp: add_day_def next_month_def less_Suc_eq)
  qed
qed

lemma day_gap:
  assumes "valid t" "valid u" "\<not> before u t" "before u (add_day (day_floor t))"
  shows "year u = year t \<and> month u = month t \<and> day u = day t"
proof -
  have "year u < year (add_day (day_floor t)) \<or> year u = year (add_day (day_floor t)) \<and>
      (month u < month (add_day (day_floor t)) \<or> month u = month (add_day (day_floor t)) \<and>
       day u < day (add_day (day_floor t)))"
    using assms(4) by (simp add: before_def add_day_fields day_floor_def)
  then have "year u < year t \<or> year u = year t \<and> (month u < month t \<or> month u = month t \<and> day u \<le> day t)"
    using date_less_add_day [OF valid_floors(2) [OF assms(1)] assms(2)] by (simp add: day_floor_def)
  with assms(3) show ?thesis by (auto simp: before_def)
qed


lemma floor_roll:
  "(hour_floor t)\<lparr>hour := 0\<rparr> = day_floor t"
  "(minute_floor t)\<lparr>minute := 0\<rparr> = hour_floor t"
  "(second_floor t)\<lparr>second := 0\<rparr> = minute_floor t"
  by (cases t; simp add: floor_defs)+

lemma floor_sel [simp]:
  "hour (hour_floor t) = hour t" "minute (minute_floor t) = minute t" "second (second_floor t) = second t"
  by (simp_all add: floor_defs)

lemma step_floor:
  "add_hour (hour_floor t) = (if hour t < 23 then (hour_floor t)\<lparr>hour := hour t + 1\<rparr> else add_day (day_floor t))"
  "add_minute (minute_floor t) = (if minute t < 59 then (minute_floor t)\<lparr>minute := minute t + 1\<rparr> else add_hour (hour_floor t))"
  "add_second (second_floor t) = (if second t < 59 then (second_floor t)\<lparr>second := second t + 1\<rparr> else add_minute (minute_floor t))"
  by (simp_all add: add_hour_def add_minute_def add_second_def floor_roll)

definition same_hour :: "time \<Rightarrow> time \<Rightarrow> bool" where
  "same_hour u t \<longleftrightarrow> year u = year t \<and> month u = month t \<and> day u = day t \<and> hour u = hour t"

lemma hour_gap:
  assumes "valid t" "valid u" "\<not> before u t" "before u (add_hour (hour_floor t))"
  shows "same_hour u t"
proof (cases "hour t < 23")
  case True
  then have "add_hour (hour_floor t) = (hour_floor t)\<lparr>hour := hour t + 1\<rparr>"
    by (simp add: step_floor)
  with assms(3,4) show ?thesis by (auto simp: before_def hour_floor_def same_hour_def)
next
  case False
  then have "add_hour (hour_floor t) = add_day (day_floor t)"
    by (simp add: step_floor)
  with assms(4) day_gap [OF assms(1-3)]
  have d: "year u = year t \<and> month u = month t \<and> day u = day t" by simp
  moreover have "hour u < 24" "hour t < 24" using assms(1,2) by (simp_all add: valid_def)
  ultimately show ?thesis using assms(3) False by (auto simp: before_def same_hour_def)
qed

definition same_minute :: "time \<Rightarrow> time \<Rightarrow> bool" where
  "same_minute u t \<longleftrightarrow> same_hour u t \<and> minute u = minute t"

lemma minute_gap:
  assumes "valid t" "valid u" "\<not> before u t" "before u (add_minute (minute_floor t))"
  shows "same_minute u t"
proof (cases "minute t < 59")
  case True
  then have "add_minute (minute_floor t) = (minute_floor t)\<lparr>minute := minute t + 1\<rparr>"
    by (simp add: step_floor)
  with assms(3,4) show ?thesis
    by (auto simp: before_def minute_floor_def same_minute_def same_hour_def)
next
  case False
  then have "add_minute (minute_floor t) = add_hour (hour_floor t)"
    by (simp add: step_floor)
  with assms(4) hour_gap [OF assms(1-3)] have d: "same_hour u t" by simp
  moreover have "minute u < 60" "minute t < 60" using assms(1,2) by (simp_all add: valid_def)
  ultimately show ?thesis using assms(3) False by (auto simp: before_def same_minute_def same_hour_def)
qed

lemma second_gap:
  assumes "valid t" "valid u" "\<not> before u t" "before u (add_second (second_floor t))"
  shows "same_minute u t \<and> second u = second t"
proof (cases "second t < 59")
  case True
  then have "add_second (second_floor t) = (second_floor t)\<lparr>second := second t + 1\<rparr>"
    by (simp add: step_floor)
  with assms(3,4) show ?thesis
    by (auto simp: before_def second_floor_def same_minute_def same_hour_def)
next
  case False
  then have "add_second (second_floor t) = add_minute (minute_floor t)"
    by (simp add: step_floor)
  with assms(4) minute_gap [OF assms(1-3)] have d: "same_minute u t" by simp
  moreover have "second u < 60" "second t < 60" using assms(1,2) by (simp_all add: valid_def)
  ultimately show ?thesis using assms(3) False
    by (auto simp: before_def same_minute_def same_hour_def)
qed

text \<open>Each step moves strictly forward, by less than the next coarser unit.\<close>

lemma before_add_month: "before t (add_month (month_floor t))"
  by (simp add: before_def add_month_floor_fields next_month_def)

lemma before_add_day: "valid t \<Longrightarrow> before t (add_day (day_floor t))"
  by (auto simp: before_def add_day_def day_floor_def next_month_def valid_def Let_def)

lemma before_add_hour: "valid t \<Longrightarrow> before t (add_hour (hour_floor t))"
  using before_add_day [of t] by (simp add: step_floor) (simp add: before_def hour_floor_def)

lemma before_add_minute: "valid t \<Longrightarrow> before t (add_minute (minute_floor t))"
  using before_add_hour [of t] by (simp add: step_floor(2)) (simp add: before_def minute_floor_def)

lemma before_add_second: "valid t \<Longrightarrow> before t (add_second (second_floor t))"
  using before_add_minute [of t] by (simp add: step_floor(3)) (simp add: before_def second_floor_def)

lemmas before_steps [simp] = before_add_month before_add_day before_add_hour before_add_minute before_add_second

lemma nsec_steps [simp]:
  "nsec (add_month t) = nsec t" "nsec (add_day t) = nsec t" "nsec (add_hour t) = nsec t"
  "nsec (add_minute t) = nsec t" "nsec (add_second t) = nsec t"
  by (simp_all add: add_month_def add_day_def add_hour_def add_minute_def add_second_def Let_def
      split: prod.splits)

end
