(* ===== verification/Cron_Next.thy ===== *)
theory Cron_Next
  imports Cron_Spec Go_Time
begin

text \<open>
  \<^verbatim>\<open>Schedule.Next\<close> of \<^verbatim>\<open>task/task.go\<close>. The Go function is five loops with a backward
  \<^verbatim>\<open>goto WRAP\<close>; it is modelled as the machine of its program points: \<open>next_step\<close> runs the body
  at one point and names the next, \<open>next_run\<close> iterates it. The results say that the machine
  always returns, and that it returns the earliest later second that the schedule matches.
\<close>

unbundle bit_operations_syntax

section \<open>The machine\<close>

datatype point = WRAP | MonthLoop | DayLoop | HourLoop | MinuteLoop | SecondLoop

definition month_ok :: "Schedule \<Rightarrow> time \<Rightarrow> bool" where
  "month_ok s t \<longleftrightarrow> push_bit (month t) 1 AND Month s \<noteq> 0"

definition dayMatches :: "Schedule \<Rightarrow> time \<Rightarrow> bool" where
  "dayMatches s t =
     (let domMatch = push_bit (day t) 1 AND Day s > 0;
          dowMatch = push_bit (weekday t) 1 AND Week s > 0
      in if Day s AND starBit > 0 \<or> Week s AND starBit > 0 then domMatch \<and> dowMatch
         else domMatch \<or> dowMatch)"

definition hour_ok :: "Schedule \<Rightarrow> time \<Rightarrow> bool" where
  "hour_ok s t \<longleftrightarrow> push_bit (hour t) 1 AND Hour s \<noteq> 0"

definition minute_ok :: "Schedule \<Rightarrow> time \<Rightarrow> bool" where
  "minute_ok s t \<longleftrightarrow> push_bit (minute t) 1 AND Minute s \<noteq> 0"

definition second_ok :: "Schedule \<Rightarrow> time \<Rightarrow> bool" where
  "second_ok s t \<longleftrightarrow> push_bit (second t) 1 AND Second s \<noteq> 0"

fun next_step :: "Schedule \<Rightarrow> int \<Rightarrow> point \<times> time \<times> bool \<Rightarrow> time + (point \<times> time \<times> bool)" where
  "next_step s yearLimit (WRAP, t, added) =
     (if year t > yearLimit then Inl zero_time else Inr (MonthLoop, t, added))"
| "next_step s yearLimit (MonthLoop, t, added) =
     (if month_ok s t then Inr (DayLoop, t, added)
      else let t' = add_month (if added then t else month_floor t)
        in Inr (if month t' = 1 then WRAP else MonthLoop, t', True))"
| "next_step s yearLimit (DayLoop, t, added) =
     (if dayMatches s t then Inr (HourLoop, t, added)
      else let t' = add_day (if added then t else day_floor t)
        in Inr (if day t' = 1 then WRAP else DayLoop, t', True))"
| "next_step s yearLimit (HourLoop, t, added) =
     (if hour_ok s t then Inr (MinuteLoop, t, added)
      else let t' = add_hour (if added then t else hour_floor t)
        in Inr (if hour t' = 0 then WRAP else HourLoop, t', True))"
| "next_step s yearLimit (MinuteLoop, t, added) =
     (if minute_ok s t then Inr (SecondLoop, t, added)
      else let t' = add_minute (if added then t else minute_floor t)
        in Inr (if minute t' = 0 then WRAP else MinuteLoop, t', True))"
| "next_step s yearLimit (SecondLoop, t, added) =
     (if second_ok s t then Inl t
      else let t' = add_second (if added then t else second_floor t)
        in Inr (if second t' = 0 then WRAP else SecondLoop, t', True))"

partial_function (option) next_run ::
  "Schedule \<Rightarrow> int \<Rightarrow> point \<times> time \<times> bool \<Rightarrow> time option" where
  "next_run s yearLimit st =
     (case next_step s yearLimit st of Inl r \<Rightarrow> Some r | Inr st' \<Rightarrow> next_run s yearLimit st')"

text \<open>The first candidate is the upcoming whole second; the search stops after five years.\<close>

definition upcoming :: "time \<Rightarrow> time" where
  "upcoming t = add_second (second_floor t)"

definition Next :: "Schedule \<Rightarrow> time \<Rightarrow> time option" where
  "Next s t = (let t1 = upcoming t in next_run s (year t1 + 5) (WRAP, t1, False))"

section \<open>What a schedule matches\<close>

definition matches :: "Schedule \<Rightarrow> time \<Rightarrow> bool" where
  "matches s t \<longleftrightarrow> month_ok s t \<and> dayMatches s t \<and> hour_ok s t \<and> minute_ok s t \<and> second_ok s t"

definition gap :: "Schedule \<Rightarrow> time \<Rightarrow> time \<Rightarrow> bool" where
  "gap s t t' \<longleftrightarrow> (\<forall>u. valid u \<longrightarrow> nsec u = 0 \<longrightarrow> \<not> before u t \<longrightarrow> before u t' \<longrightarrow> \<not> matches s u)"

lemma gap_trans: "gap s t t' \<Longrightarrow> gap s t' t'' \<Longrightarrow> gap s t t''"
  by (auto simp: gap_def)

lemma gap_refl: "gap s t t"
  by (simp add: gap_def)

text \<open>Whether a field matches depends on that part of the time only.\<close>

lemma month_ok_cong: "month u = month t \<Longrightarrow> month_ok s u = month_ok s t"
  by (simp add: month_ok_def)

lemma dayMatches_cong:
  "year u = year t \<Longrightarrow> month u = month t \<Longrightarrow> day u = day t \<Longrightarrow> dayMatches s u = dayMatches s t"
  by (simp add: dayMatches_def weekday_def abs_day_def)

lemma hour_ok_cong: "hour u = hour t \<Longrightarrow> hour_ok s u = hour_ok s t"
  by (simp add: hour_ok_def)

lemma minute_ok_cong: "minute u = minute t \<Longrightarrow> minute_ok s u = minute_ok s t"
  by (simp add: minute_ok_def)

lemma second_ok_cong: "second u = second t \<Longrightarrow> second_ok s u = second_ok s t"
  by (simp add: second_ok_def)

text \<open>Each loop skips only times that do not match.\<close>

lemma month_skip: "valid t \<Longrightarrow> \<not> month_ok s t \<Longrightarrow> gap s t (add_month (month_floor t))"
  unfolding gap_def matches_def using month_gap month_ok_cong by blast

lemma day_skip: "valid t \<Longrightarrow> \<not> dayMatches s t \<Longrightarrow> gap s t (add_day (day_floor t))"
  unfolding gap_def matches_def using day_gap dayMatches_cong by blast

lemma hour_skip: "valid t \<Longrightarrow> \<not> hour_ok s t \<Longrightarrow> gap s t (add_hour (hour_floor t))"
  unfolding gap_def matches_def using hour_gap hour_ok_cong same_hour_def by blast

lemma minute_skip: "valid t \<Longrightarrow> \<not> minute_ok s t \<Longrightarrow> gap s t (add_minute (minute_floor t))"
  unfolding gap_def matches_def using minute_gap minute_ok_cong same_minute_def by blast

lemma second_skip: "valid t \<Longrightarrow> \<not> second_ok s t \<Longrightarrow> gap s t (add_second (second_floor t))"
  unfolding gap_def matches_def using second_gap second_ok_cong by blast


section \<open>Alignment\<close>

text \<open>
  Once \<^verbatim>\<open>added\<close> is set, the code no longer truncates. This is right because the time then is
  aligned: wherever a field does not match, the finer fields are already at their start.
\<close>

lemma floor_iff:
  "month_floor t = t \<longleftrightarrow> day t = 1 \<and> hour t = 0 \<and> minute t = 0 \<and> second t = 0 \<and> nsec t = 0"
  "day_floor t = t \<longleftrightarrow> hour t = 0 \<and> minute t = 0 \<and> second t = 0 \<and> nsec t = 0"
  "hour_floor t = t \<longleftrightarrow> minute t = 0 \<and> second t = 0 \<and> nsec t = 0"
  "minute_floor t = t \<longleftrightarrow> second t = 0 \<and> nsec t = 0"
  "second_floor t = t \<longleftrightarrow> nsec t = 0"
  by (cases t; auto simp: floor_defs)+

definition aligned :: "Schedule \<Rightarrow> time \<Rightarrow> bool" where
  "aligned s t \<longleftrightarrow> (month_ok s t \<or> month_floor t = t) \<and> (dayMatches s t \<or> day_floor t = t) \<and>
     (hour_ok s t \<or> hour_floor t = t) \<and> (minute_ok s t \<or> minute_floor t = t)"

definition day_aligned :: "Schedule \<Rightarrow> time \<Rightarrow> bool" where
  "day_aligned s t \<longleftrightarrow> day_floor t = t \<and> (month_ok s t \<or> day t = 1)"

lemma day_aligned_aligned: "day_aligned s t \<Longrightarrow> aligned s t"
  by (auto simp: day_aligned_def aligned_def floor_iff)

lemma month_step_aligned: "day_aligned s (add_month (month_floor t))"
  by (simp add: day_aligned_def floor_iff add_month_floor_fields)

lemma day_step:
  "day_floor (add_day (day_floor t)) = add_day (day_floor t)"
  "day (add_day (day_floor t)) \<noteq> 1 \<Longrightarrow> month (add_day (day_floor t)) = month t"
  by (simp_all add: floor_iff add_day_fields)
    (simp_all add: day_floor_def add_day_def Let_def split: prod.splits if_splits)

lemma day_step_aligned: "month_ok s t \<Longrightarrow> day_aligned s (add_day (day_floor t))"
  using day_step [of t] month_ok_cong [of "add_day (day_floor t)" t s]
  by (auto simp: day_aligned_def)

lemma hour_step:
  "add_hour (hour_floor t) = add_day (day_floor t) \<or>
   (same_hour (add_hour (hour_floor t)) (t\<lparr>hour := hour t + 1\<rparr>) \<and> hour_floor (add_hour (hour_floor t)) = add_hour (hour_floor t))"
  by (simp add: step_floor(1)) (auto simp: same_hour_def hour_floor_def floor_iff)

lemma minute_step:
  "add_minute (minute_floor t) = add_hour (hour_floor t) \<or>
   (same_hour (add_minute (minute_floor t)) t \<and> minute (add_minute (minute_floor t)) = minute t + 1 \<and>
    minute_floor (add_minute (minute_floor t)) = add_minute (minute_floor t))"
  by (simp add: step_floor(2)) (auto simp: same_hour_def minute_floor_def floor_iff)

lemma second_step:
  "add_second (second_floor t) = add_minute (minute_floor t) \<or>
   (same_minute (add_second (second_floor t)) t \<and> second (add_second (second_floor t)) = second t + 1)"
  by (simp add: step_floor(3)) (auto simp: same_minute_def same_hour_def second_floor_def)

lemma step_zero [simp]:
  "hour (add_day (day_floor t)) = 0"
  "minute (add_hour (hour_floor t)) = 0"
  "second (add_minute (minute_floor t)) = 0"
  by (simp_all add: step_floor(1,2) add_day_fields) (simp_all add: floor_defs)

lemma hour_step_aligned:
  assumes "month_ok s t" "dayMatches s t"
  shows "aligned s (add_hour (hour_floor t))"
    "hour (add_hour (hour_floor t)) \<noteq> 0 \<Longrightarrow>
     month_ok s (add_hour (hour_floor t)) \<and> dayMatches s (add_hour (hour_floor t))"
proof -
  let ?t' = "add_hour (hour_floor t)"
  consider "?t' = add_day (day_floor t)"
    | "same_hour ?t' (t\<lparr>hour := hour t + 1\<rparr>)" "hour_floor ?t' = ?t'"
    using hour_step by blast
  then have "aligned s ?t' \<and> (hour ?t' \<noteq> 0 \<longrightarrow> month_ok s ?t' \<and> dayMatches s ?t')"
  proof cases
    case 1
    then show ?thesis
      using day_aligned_aligned [OF day_step_aligned [OF assms(1)]] by simp
  next
    case 2
    then have "month_ok s ?t'" "dayMatches s ?t'"
      using assms month_ok_cong [of ?t' t s] dayMatches_cong [of ?t' t s] by (simp_all add: same_hour_def)
    with 2 show ?thesis by (auto simp: aligned_def floor_iff)
  qed
  then show "aligned s ?t'" "hour ?t' \<noteq> 0 \<Longrightarrow> month_ok s ?t' \<and> dayMatches s ?t'" by blast+
qed

lemma minute_step_aligned:
  assumes "month_ok s t" "dayMatches s t" "hour_ok s t"
  shows "aligned s (add_minute (minute_floor t))"
    "minute (add_minute (minute_floor t)) \<noteq> 0 \<Longrightarrow> month_ok s (add_minute (minute_floor t)) \<and>
     dayMatches s (add_minute (minute_floor t)) \<and> hour_ok s (add_minute (minute_floor t))"
proof -
  let ?t' = "add_minute (minute_floor t)"
  consider "?t' = add_hour (hour_floor t)" | "same_hour ?t' t" "minute_floor ?t' = ?t'"
    using minute_step by blast
  then have "aligned s ?t' \<and> (minute ?t' \<noteq> 0 \<longrightarrow> month_ok s ?t' \<and> dayMatches s ?t' \<and> hour_ok s ?t')"
  proof cases
    case 1
    with hour_step_aligned(1) [OF assms(1,2)] show ?thesis by simp
  next
    case 2
    then have "month_ok s ?t'" "dayMatches s ?t'" "hour_ok s ?t'"
      using assms month_ok_cong [of ?t' t s] dayMatches_cong [of ?t' t s] hour_ok_cong [of ?t' t s]
      by (simp_all add: same_hour_def)
    with 2 show ?thesis by (auto simp: aligned_def floor_iff)
  qed
  then show "aligned s ?t'"
    "minute ?t' \<noteq> 0 \<Longrightarrow> month_ok s ?t' \<and> dayMatches s ?t' \<and> hour_ok s ?t'" by blast+
qed

lemma second_step_aligned:
  assumes "month_ok s t" "dayMatches s t" "hour_ok s t" "minute_ok s t"
  shows "aligned s (add_second (second_floor t))"
    "second (add_second (second_floor t)) \<noteq> 0 \<Longrightarrow> month_ok s (add_second (second_floor t)) \<and>
     dayMatches s (add_second (second_floor t)) \<and> hour_ok s (add_second (second_floor t)) \<and>
     minute_ok s (add_second (second_floor t))"
proof -
  let ?t' = "add_second (second_floor t)"
  consider "?t' = add_minute (minute_floor t)" | "same_minute ?t' t"
    using second_step by blast
  then have "aligned s ?t' \<and> (second ?t' \<noteq> 0 \<longrightarrow>
      month_ok s ?t' \<and> dayMatches s ?t' \<and> hour_ok s ?t' \<and> minute_ok s ?t')"
  proof cases
    case 1
    with minute_step_aligned(1) [OF assms(1-3)] show ?thesis by simp
  next
    case 2
    then have "month_ok s ?t'" "dayMatches s ?t'" "hour_ok s ?t'" "minute_ok s ?t'"
      using assms month_ok_cong [of ?t' t s] dayMatches_cong [of ?t' t s] hour_ok_cong [of ?t' t s]
        minute_ok_cong [of ?t' t s]
      by (simp_all add: same_minute_def same_hour_def)
    then show ?thesis by (auto simp: aligned_def)
  qed
  then show "aligned s ?t'" "second ?t' \<noteq> 0 \<Longrightarrow>
    month_ok s ?t' \<and> dayMatches s ?t' \<and> hour_ok s ?t' \<and> minute_ok s ?t'" by blast+
qed


section \<open>The invariant of the machine\<close>

fun passed :: "Schedule \<Rightarrow> point \<Rightarrow> time \<Rightarrow> bool" where
  "passed s WRAP t \<longleftrightarrow> True"
| "passed s MonthLoop t \<longleftrightarrow> True"
| "passed s DayLoop t \<longleftrightarrow> month_ok s t"
| "passed s HourLoop t \<longleftrightarrow> month_ok s t \<and> dayMatches s t"
| "passed s MinuteLoop t \<longleftrightarrow> month_ok s t \<and> dayMatches s t \<and> hour_ok s t"
| "passed s SecondLoop t \<longleftrightarrow> month_ok s t \<and> dayMatches s t \<and> hour_ok s t \<and> minute_ok s t"

definition next_inv :: "Schedule \<Rightarrow> int \<Rightarrow> time \<Rightarrow> point \<times> time \<times> bool \<Rightarrow> bool" where
  "next_inv s lim t1 st = (case st of (pc, t, added) \<Rightarrow>
     valid t \<and> nsec t = 0 \<and> \<not> before t t1 \<and> gap s t1 t \<and> (added \<longrightarrow> aligned s t) \<and>
     passed s pc t \<and> (if pc = WRAP then year t \<le> lim + 1 else year t \<le> lim))"

text \<open>What the machine may return from the first candidate \<open>t1\<close>.\<close>

definition next_post :: "Schedule \<Rightarrow> int \<Rightarrow> time \<Rightarrow> time \<Rightarrow> bool" where
  "next_post s lim t1 r \<longleftrightarrow>
     (valid r \<and> nsec r = 0 \<and> \<not> before r t1 \<and> year r \<le> lim \<and> matches s r \<and> gap s t1 r) \<or>
     (r = zero_time \<and> (\<forall>u. valid u \<longrightarrow> nsec u = 0 \<longrightarrow> \<not> before u t1 \<longrightarrow> year u \<le> lim \<longrightarrow> \<not> matches s u))"

lemma year_steps:
  "year (add_month (month_floor t)) \<le> year t + 1"
  "month (add_month (month_floor t)) \<noteq> 1 \<Longrightarrow> year (add_month (month_floor t)) = year t"
  "year (add_day (day_floor t)) \<le> year t + 1"
  "day (add_day (day_floor t)) \<noteq> 1 \<Longrightarrow> year (add_day (day_floor t)) = year t"
  by (auto simp: add_month_floor_fields add_day_def day_floor_def next_month_def Let_def split: if_splits)

lemma year_step_hour:
  "year (add_hour (hour_floor t)) \<le> year t + 1"
  "hour (add_hour (hour_floor t)) \<noteq> 0 \<Longrightarrow> year (add_hour (hour_floor t)) = year t"
  using year_steps(3) [of t] step_zero(1) [of t]
  by (cases "hour t < 23"; simp add: step_floor(1); simp add: hour_floor_def)+

lemma year_step_minute:
  "year (add_minute (minute_floor t)) \<le> year t + 1"
  "minute (add_minute (minute_floor t)) \<noteq> 0 \<Longrightarrow> year (add_minute (minute_floor t)) = year t"
  using year_step_hour(1) [of t] step_zero(2) [of t]
  by (cases "minute t < 59"; simp add: step_floor(2); simp add: minute_floor_def)+

lemma year_step_second:
  "year (add_second (second_floor t)) \<le> year t + 1"
  "second (add_second (second_floor t)) \<noteq> 0 \<Longrightarrow> year (add_second (second_floor t)) = year t"
  using year_step_minute(1) [of t] step_zero(3) [of t]
  by (cases "second t < 59"; simp add: step_floor(3); simp add: second_floor_def)+

lemmas year_step_simps = year_steps year_step_hour year_step_minute year_step_second

lemma advance_inv:
  assumes "valid t" "valid t'" "\<not> before t t1" "gap s t1 t" "gap s t t'" "before t t'" "valid t1"
  shows "\<not> before t' t1 \<and> gap s t1 t'"
proof
  show "gap s t1 t'" using assms(4,5) by (rule gap_trans)
  show "\<not> before t' t1" using assms by (simp add: before_stamp)
qed

lemma next_inv_init: "valid t1 \<Longrightarrow> nsec t1 = 0 \<Longrightarrow> year t1 \<le> lim + 1 \<Longrightarrow> next_inv s lim t1 (WRAP, t1, False)"
  by (simp add: next_inv_def gap_refl)


text \<open>Under the invariant a failing loop test moves to the aligned next boundary.\<close>

lemma trunc_aligned:
  assumes "added \<longrightarrow> aligned s t" "nsec t = 0"
  shows "\<not> month_ok s t \<Longrightarrow> (if added then t else month_floor t) = month_floor t"
    "\<not> dayMatches s t \<Longrightarrow> (if added then t else day_floor t) = day_floor t"
    "\<not> hour_ok s t \<Longrightarrow> (if added then t else hour_floor t) = hour_floor t"
    "\<not> minute_ok s t \<Longrightarrow> (if added then t else minute_floor t) = minute_floor t"
    "(if added then t else second_floor t) = second_floor t"
  using assms floor_iff(5) [of t] by (auto simp: aligned_def)

text \<open>The measure: how far the time is from the limit, and how far the point from the end.\<close>

fun rank :: "point \<Rightarrow> nat" where
  "rank WRAP = 5"
| "rank MonthLoop = 4"
| "rank DayLoop = 3"
| "rank HourLoop = 2"
| "rank MinuteLoop = 1"
| "rank SecondLoop = 0"

definition horizon :: "int \<Rightarrow> int" where
  "horizon lim = stamp \<lparr>year = lim + 2, month = 0, day = 0, hour = 0, minute = 0, second = 0, nsec = 0\<rparr>"

definition next_measure :: "int \<Rightarrow> point \<times> time \<times> bool \<Rightarrow> nat" where
  "next_measure lim st = (case st of (pc, t, _) \<Rightarrow> 6 * nat (horizon lim - stamp t) + rank pc)"

lemma stamp_less_horizon: "valid t \<Longrightarrow> year t \<le> lim + 1 \<Longrightarrow> stamp t < horizon lim"
  using valid_day_le [of t] by (simp add: horizon_def stamp_def valid_def pack_less pack_eq)

lemma next_measure_advance:
  assumes "valid t" "valid t'" "before t t'" "year t' \<le> lim + 1"
  shows "next_measure lim (pc', t', a') < next_measure lim (pc, t, a)"
proof -
  have "stamp t < stamp t'" "stamp t' < horizon lim"
    using assms by (simp_all add: before_stamp stamp_less_horizon)
  then have "nat (horizon lim - stamp t') < nat (horizon lim - stamp t)" by simp
  moreover have "rank pc' < 6" by (cases pc') simp_all
  ultimately show ?thesis unfolding next_measure_def prod.case by linarith
qed

lemma next_step_inv:
  assumes inv: "next_inv s lim t1 st" and "valid t1"
  shows "case next_step s lim st of Inl r \<Rightarrow> next_post s lim t1 r
     | Inr st' \<Rightarrow> next_inv s lim t1 st' \<and> next_measure lim st' < next_measure lim st"
proof -
  obtain pc t added where st: "st = (pc, t, added)" by (cases st)
  from inv st have t: "valid t" "nsec t = 0" "\<not> before t t1" "gap s t1 t" "added \<longrightarrow> aligned s t"
    and p: "passed s pc t" and y: "if pc = WRAP then year t \<le> lim + 1 else year t \<le> lim"
    by (simp_all add: next_inv_def)
  have go: "next_inv s lim t1 (pc', t', True) \<and> next_measure lim (pc', t', True) < next_measure lim st"
    if "valid t'" "nsec t' = 0" "gap s t t'" "before t t'" "aligned s t'" "passed s pc' t'"
      "year t' \<le> lim + 1" "pc' \<noteq> WRAP \<longrightarrow> year t' \<le> lim" for pc' t'
    using that advance_inv [OF t(1) that(1) t(3,4) that(3,4) assms(2)]
      next_measure_advance [OF t(1) that(1,4,7)] by (simp add: next_inv_def st)
  show ?thesis
  proof (cases pc)
    case WRAP
    have late: "\<not> matches s u" if "lim < year t" "valid u" "nsec u = 0" "\<not> before u t1" "year u \<le> lim" for u
    proof -
      have "before u t" using that by (simp add: before_def)
      with t(4) that show ?thesis by (simp add: gap_def)
    qed
    with WRAP st t p show ?thesis by (auto simp: next_inv_def next_post_def next_measure_def)
  next
    case MonthLoop
    then show ?thesis
      using st t p y go [of "add_month (month_floor t)" "if month (add_month (month_floor t)) = 1 then WRAP else MonthLoop"]
        trunc_aligned(1) [OF t(5,2)] month_skip [OF t(1)] day_aligned_aligned [OF month_step_aligned [of s t]]
        year_steps(1,2) [of t]
      by (auto simp: next_inv_def next_measure_def Let_def)
  next
    case DayLoop
    then show ?thesis
      using st t p y go [of "add_day (day_floor t)" "if day (add_day (day_floor t)) = 1 then WRAP else DayLoop"]
        trunc_aligned(2) [OF t(5,2)] day_skip [OF t(1)] day_aligned_aligned [OF day_step_aligned [of s t]]
        year_steps(3,4) [of t] day_step(2) [of t] month_ok_cong [of "add_day (day_floor t)" t s]
      by (auto simp: next_inv_def next_measure_def Let_def)
  next
    case HourLoop
    then show ?thesis
      using st t p y go [of "add_hour (hour_floor t)" "if hour (add_hour (hour_floor t)) = 0 then WRAP else HourLoop"]
        trunc_aligned(3) [OF t(5,2)] hour_skip [OF t(1)] hour_step_aligned [of s t] year_step_hour [of t]
      by (auto simp: next_inv_def next_measure_def Let_def)
  next
    case MinuteLoop
    then show ?thesis
      using st t p y go [of "add_minute (minute_floor t)" "if minute (add_minute (minute_floor t)) = 0 then WRAP else MinuteLoop"]
        trunc_aligned(4) [OF t(5,2)] minute_skip [OF t(1)] minute_step_aligned [of s t] year_step_minute [of t]
      by (auto simp: next_inv_def next_measure_def Let_def)
  next
    case SecondLoop
    then show ?thesis
      using st t p y go [of "add_second (second_floor t)" "if second (add_second (second_floor t)) = 0 then WRAP else SecondLoop"]
        trunc_aligned(5) [OF t(5,2)] second_skip [OF t(1)] second_step_aligned [of s t] year_step_second [of t]
      by (auto simp: next_inv_def next_measure_def next_post_def matches_def Let_def)
  qed
qed

text \<open>Total correctness of the machine: it returns, and what it returns satisfies the postcondition.\<close>

lemma next_run_total:
  assumes "next_inv s lim t1 st" "valid t1"
  shows "\<exists>r. next_run s lim st = Some r \<and> next_post s lim t1 r"
  using assms(1)
proof (induction "next_measure lim st" arbitrary: st rule: less_induct)
  case less
  from next_step_inv [OF less.prems assms(2)] show ?case
  proof (cases "next_step s lim st")
    case (Inl r)
    with next_step_inv [OF less.prems assms(2)] show ?thesis
      by (subst next_run.simps) simp
  next
    case (Inr st')
    with next_step_inv [OF less.prems assms(2)] less.hyps [of st'] show ?thesis
      by (subst next_run.simps) simp
  qed
qed

lemma upcoming_props: "valid t \<Longrightarrow> valid (upcoming t) \<and> nsec (upcoming t) = 0 \<and> before t (upcoming t)"
  by (simp add: upcoming_def)

lemma Next_total:
  assumes "valid t"
  shows "\<exists>r. Next s t = Some r \<and> next_post s (year (upcoming t) + 5) (upcoming t) r"
  unfolding Next_def Let_def using upcoming_props [OF assms]
  by (intro next_run_total next_inv_init) simp_all


lemma upcoming_least:
  assumes "valid t" "valid u" "nsec u = 0" "before t u"
  shows "\<not> before u (upcoming t)"
proof
  assume "before u (upcoming t)"
  moreover have "\<not> before u t" using assms by (simp add: before_stamp)
  ultimately have "same_minute u t \<and> second u = second t"
    using second_gap [OF assms(1,2)] by (simp add: upcoming_def)
  with assms(3,4) show False by (simp add: before_def same_minute_def same_hour_def)
qed

lemma upcoming_later:
  assumes "valid t" "valid r" "\<not> before r (upcoming t)"
  shows "before t r"
proof -
  have "valid (upcoming t)" "before t (upcoming t)" using upcoming_props [OF assms(1)] by simp_all
  with assms show ?thesis by (simp add: before_stamp)
qed

section \<open>What the tests of the loops mean\<close>

lemma exp_and_neq_0: "(push_bit n 1 AND (w::u64) \<noteq> 0) = bit w n"
  unfolding bit_iff_and_push_bit_not_eq_0 by (simp only: and.commute)

lemma word_gt_0_iff: "((w::u64) > 0) = (w \<noteq> 0)"
  by (simp add: word_gt_0)

text \<open>
  The meaning of a match on a valid time, on the sets of values the fields stand for: the day
  of the month and the weekday are alternatives, unless one of them was given with a star.
\<close>

definition day_spec :: "Schedule \<Rightarrow> time \<Rightarrow> bool" where
  "day_spec s t = (if has_star (Day s) \<or> has_star (Week s)
     then day t \<in> field_set (Day s) \<and> weekday t \<in> field_set (Week s)
     else day t \<in> field_set (Day s) \<or> weekday t \<in> field_set (Week s))"

definition matches_spec :: "Schedule \<Rightarrow> time \<Rightarrow> bool" where
  "matches_spec s t \<longleftrightarrow> month t \<in> field_set (Month s) \<and> day_spec s t \<and> hour t \<in> field_set (Hour s) \<and>
     minute t \<in> field_set (Minute s) \<and> second t \<in> field_set (Second s)"

lemma weekday_less: "weekday t < 7"
  by (simp add: weekday_def nat_less_iff)

lemma dayMatches_spec: "valid t \<Longrightarrow> dayMatches s t = day_spec s t"
proof -
  assume "valid t"
  then have "day t < 63" using valid_day_le [of t] by simp
  moreover have "weekday t < 63" using weekday_less [of t] by simp
  moreover have "(w AND starBit \<noteq> 0) = has_star w" for w :: u64
    using exp_and_neq_0 [of 63 w] by (simp only: has_star_def starBit_def and.commute)
  ultimately show ?thesis
    using exp_and_neq_0 [of "day t" "Day s"] exp_and_neq_0 [of "weekday t" "Week s"]
    by (simp add: dayMatches_def day_spec_def word_gt_0_iff field_set_def Let_def)
qed

lemma matches_iff: "valid t \<Longrightarrow> matches s t = matches_spec s t"
  using dayMatches_spec [of t s] exp_and_neq_0 [of "month t" "Month s"] exp_and_neq_0 [of "hour t" "Hour s"]
    exp_and_neq_0 [of "minute t" "Minute s"] exp_and_neq_0 [of "second t" "Second s"]
  by (simp add: matches_def matches_spec_def month_ok_def hour_ok_def minute_ok_def second_ok_def
      field_set_def valid_def)

section \<open>Properties\<close>


definition tuesday_evening :: time where
  "tuesday_evening = \<lparr>year = 2024, month = 2, day = 27, hour = 18, minute = 5, second = 7, nsec = 12\<rparr>"


end
