(* ===== verification/Task_Manager.thy ===== *)
theory Task_Manager
  imports Cron_Next "HOL-Library.Multiset" "HOL-Library.AList" "HOL-Library.Product_Lexorder"
begin

text \<open>
  The tasks and the task manager of \<^verbatim>\<open>task/task.go\<close>. A \<^verbatim>\<open>*Task\<close> is an address into a heap
  of records, since the manager's map and the sorted snapshots share them. The user's function is
  code outside the repository: the outcome of a run (an error text or nothing) is an argument.
  The goroutines (the \<^verbatim>\<open>run\<close> loop, the senders on \<^verbatim>\<open>changed\<close> and \<^verbatim>\<open>stop\<close>, the running tasks)
  interleave as the rules of \<open>mstep\<close>; what happens under one lock is one step.
\<close>

section \<open>Tasks\<close>

record taskerr =
  err_t :: time
  errinfo :: string

record Task =
  Taskname :: string
  Spec :: Schedule
  SpecStr :: string
  PrevTime :: time
  NextTime :: time
  Timeout :: int
  Errlist :: "taskerr option list"
  ErrLimit :: int
  errCnt :: int

datatype task_panic = DivideByZero | IndexOutOfRange int | CronPanic cron_panic

text \<open>Go's remainder, with the sign of the dividend.\<close>

definition go_rem :: "int \<Rightarrow> int \<Rightarrow> int" where
  "go_rem a b = (if a < 0 then - ((- a) mod \<bar>b\<bar>) else a mod \<bar>b\<bar>)"

definition SetCron :: "string \<Rightarrow> Task \<Rightarrow> (cron_panic, Task) run" where
  "SetCron spec t = run_bind (parse spec) (\<lambda>s. run_ret (t\<lparr>Spec := s\<rparr>))"

definition empty_schedule :: Schedule where
  "empty_schedule = \<lparr>Second = 0, Minute = 0, Hour = 0, Day = 0, Month = 0, Week = 0\<rparr>"

definition NewTask :: "string \<Rightarrow> string \<Rightarrow> (Task \<Rightarrow> Task) list \<Rightarrow> (cron_panic, Task) run" where
  "NewTask tname spec opts =
     SetCron spec (fold (\<lambda>opt t. opt t) opts
       \<lparr>Taskname = tname, Spec = empty_schedule, SpecStr = spec, PrevTime = zero_time,
        NextTime = zero_time, Timeout = 0, Errlist = replicate 100 None, ErrLimit = 100, errCnt = 0\<rparr>)"

definition TimeoutOption :: "int \<Rightarrow> Task \<Rightarrow> Task" where
  "TimeoutOption timeout t = t\<lparr>Timeout := timeout\<rparr>"

text \<open>\<^verbatim>\<open>time.Time.String\<close> is passed as an argument.\<close>

definition GetStatus :: "(time \<Rightarrow> string) \<Rightarrow> Task \<Rightarrow> string" where
  "GetStatus time_string t = concat (map (\<lambda>v. case v of None \<Rightarrow> []
     | Some e \<Rightarrow> time_string (err_t e) @ '':'' @ errinfo e @ ''<br>'') (Errlist t))"

definition Run :: "string option \<Rightarrow> Task \<Rightarrow> task_panic + (Task \<times> string option)" where
  "Run outcome t =
     (case outcome of
        None \<Rightarrow> Inr (t, None)
      | Some err \<Rightarrow>
          if ErrLimit t = 0 then Inl DivideByZero
          else let index = go_rem (errCnt t) (ErrLimit t) in
            if index < 0 \<or> int (length (Errlist t)) \<le> index then Inl (IndexOutOfRange index)
            else Inr (t\<lparr>Errlist := (Errlist t)[nat index := Some \<lparr>err_t = NextTime t, errinfo = err\<rparr>],
                      errCnt := errCnt t + 1\<rparr>, Some err))"

text \<open>
  \<^verbatim>\<open>Next\<close> always returns on a valid time (\<open>Next_total\<close>), so the last case of
  \<open>SetNext\<close> is never taken there.
\<close>

definition SetNext :: "time \<Rightarrow> Task \<Rightarrow> Task" where
  "SetNext now t = (case Next (Spec t) now of Some n \<Rightarrow> t\<lparr>NextTime := n\<rparr> | None \<Rightarrow> t)"

definition SetPrev :: "time \<Rightarrow> Task \<Rightarrow> Task" where
  "SetPrev now t = t\<lparr>PrevTime := now\<rparr>"

section \<open>The ordering of the snapshot\<close>

definition IsZero :: "time \<Rightarrow> bool" where
  "IsZero t \<longleftrightarrow> t = zero_time"

definition Less :: "Task \<Rightarrow> Task \<Rightarrow> bool" where
  "Less a b = (if IsZero (NextTime a) then False
     else if IsZero (NextTime b) then True
     else before (NextTime a) (NextTime b))"

type_synonym addr = nat
type_synonym task_heap = "addr \<Rightarrow> Task"

text \<open>The manager's map is an association list with distinct keys.\<close>

type_synonym task_map = "(string \<times> addr) list"

text \<open>
  \<^verbatim>\<open>NewMapSorter\<close> walks the map in an order that Go leaves open: any enumeration of its keys.
  \<^verbatim>\<open>sort.Sort\<close> leaves open the order of equal elements: any ordered permutation.
\<close>

record MapSorter =
  Keys :: "string list"
  Vals :: "addr list"

definition NewMapSorter :: "task_map \<Rightarrow> string list \<Rightarrow> MapSorter" where
  "NewMapSorter m order = \<lparr>Keys = order, Vals = map (\<lambda>k. the (map_of m k)) order\<rparr>"

definition key_order :: "task_map \<Rightarrow> string list \<Rightarrow> bool" where
  "key_order m order \<longleftrightarrow> distinct order \<and> set order = fst ` set m"

definition Sorted :: "task_heap \<Rightarrow> MapSorter \<Rightarrow> MapSorter \<Rightarrow> bool" where
  "Sorted h ms ms' \<longleftrightarrow> mset (zip (Keys ms') (Vals ms')) = mset (zip (Keys ms) (Vals ms)) \<and>
     length (Keys ms') = length (Vals ms') \<and>
     sorted_wrt (\<lambda>a b. \<not> Less (h b) (h a)) (Vals ms')"

text \<open>One such sort, by insertion.\<close>

fun insert_by :: "task_heap \<Rightarrow> string \<times> addr \<Rightarrow> (string \<times> addr) list \<Rightarrow> (string \<times> addr) list" where
  "insert_by h x [] = [x]"
| "insert_by h x (y # ys) = (if Less (h (snd y)) (h (snd x)) then y # insert_by h x ys else x # y # ys)"

definition Sort :: "task_heap \<Rightarrow> MapSorter \<Rightarrow> MapSorter" where
  "Sort h ms = (let l = foldr (insert_by h) (zip (Keys ms) (Vals ms)) []
     in \<lparr>Keys = map fst l, Vals = map snd l\<rparr>)"

section \<open>The manager\<close>

datatype loop_state =
    LInit
  | LTop time
  | LSorted time "addr list"
  | LSelect time "addr list" time
  | LPanic

record taskManager =
  adminTaskList :: task_map
  heap :: task_heap
  started :: bool
  loops :: "loop_state list"
  sendChanged :: nat
  sendStop :: nat
  wait :: nat
  graceSend :: nat
  graceWait :: nat
  graceDone :: nat

definition newTaskManager :: "task_heap \<Rightarrow> taskManager" where
  "newTaskManager h = \<lparr>adminTaskList = [], heap = h, started = False, loops = [],
     sendChanged = 0, sendStop = 0, wait = 0, graceSend = 0, graceWait = 0, graceDone = 0\<rparr>"

definition StartTask :: "taskManager \<Rightarrow> taskManager" where
  "StartTask m = (if started m then m else m\<lparr>started := True, loops := LInit # loops m\<rparr>)"

definition StopTask :: "taskManager \<Rightarrow> taskManager" where
  "StopTask m = m\<lparr>sendStop := sendStop m + 1\<rparr>"

definition GracefulShutdown :: "taskManager \<Rightarrow> taskManager" where
  "GracefulShutdown m = m\<lparr>graceSend := graceSend m + 1\<rparr>"

definition AddTask :: "string \<Rightarrow> addr \<Rightarrow> time \<Rightarrow> taskManager \<Rightarrow> taskManager" where
  "AddTask taskname t now m =
     (let m' = m\<lparr>heap := (heap m)(t := SetNext now (heap m t)),
                 adminTaskList := AList.update taskname t (adminTaskList m)\<rparr>
      in if started m then m'\<lparr>sendChanged := sendChanged m + 1\<rparr> else m')"

definition DeleteTask :: "string \<Rightarrow> taskManager \<Rightarrow> taskManager" where
  "DeleteTask taskname m =
     (let m' = m\<lparr>adminTaskList := AList.delete taskname (adminTaskList m)\<rparr>
      in if started m then m'\<lparr>sendChanged := sendChanged m + 1\<rparr> else m')"

definition ClearTask :: "taskManager \<Rightarrow> taskManager" where
  "ClearTask m =
     (let m' = m\<lparr>adminTaskList := []\<rparr>
      in if started m then m'\<lparr>sendChanged := sendChanged m + 1\<rparr> else m')"

definition GetAllTasks :: "taskManager \<Rightarrow> string list \<Rightarrow> addr list" where
  "GetAllTasks m order = map (\<lambda>k. the (map_of (adminTaskList m) k)) order"

definition setTasksStartTime :: "time \<Rightarrow> taskManager \<Rightarrow> taskManager" where
  "setTasksStartTime now m =
     m\<lparr>heap := (\<lambda>a. if a \<in> snd ` set (adminTaskList m) then SetNext now (heap m a) else heap m a)\<rparr>"

definition markManagerStop :: "taskManager \<Rightarrow> taskManager" where
  "markManagerStop m = (if started m then m\<lparr>started := False\<rparr> else m)"

text \<open>
  \<^verbatim>\<open>runNextTasks\<close>: each task from the front whose next time is the effective one is started
  (one more in the wait group) and rescheduled; the first other one ends the loop. The second
  component lists the tasks started.
\<close>

fun runNextTasks :: "addr list \<Rightarrow> time \<Rightarrow> taskManager \<Rightarrow> taskManager \<times> addr list" where
  "runNextTasks [] effective m = (m, [])"
| "runNextTasks (e # es) effective m =
     (if NextTime (heap m e) \<noteq> effective then (m, [])
      else let t = SetPrev (NextTime (heap m e)) (heap m e);
               m' = m\<lparr>wait := wait m + 1, heap := (heap m)(e := SetNext effective t)\<rparr>;
               (m'', ran_es) = runNextTasks es effective m'
           in (m'', e # ran_es))"

text \<open>\<^verbatim>\<open>now.AddDate(10, 0, 0)\<close>: February 29 becomes March 1 where the year is not a leap year.\<close>

definition add_ten_years :: "time \<Rightarrow> time" where
  "add_ten_years t = (if day t \<le> days_in (year t + 10) (month t) then t\<lparr>year := year t + 10\<rparr>
     else t\<lparr>year := year t + 10, month := month t + 1, day := day t - days_in (year t + 10) (month t)\<rparr>)"

text \<open>
  The choice of the effective time after the snapshot has been sorted and the lock released:
  the map is read again, so an empty snapshot of a map that is no longer empty is indexed.
\<close>

definition effective_time :: "taskManager \<Rightarrow> time \<Rightarrow> addr list \<Rightarrow> loop_state" where
  "effective_time m now vals =
     (if adminTaskList m = [] then LSelect now vals (add_ten_years now)
      else case vals of
             [] \<Rightarrow> LPanic
           | v # _ \<Rightarrow> if IsZero (NextTime (heap m v)) then LSelect now vals (add_ten_years now)
                      else LSelect now vals (NextTime (heap m v)))"


section \<open>Interleaving\<close>

text \<open>
  One rule per atomic action: the calls of the API, the stages of a \<^verbatim>\<open>run\<close> goroutine, the
  receives of its \<^verbatim>\<open>select\<close>, the end of a task with its outcome, the end of a graceful shutdown.
\<close>

datatype mevent =
    EStart | EStop | EGraceful | EAdd string addr time | EDelete string | EClear
  | EInit time | ESort | EEffective
  | EFire time "addr list" | EChanged time | EStopRecv | EGraceRecv
  | ETaskDone addr "string option" | EGraceDone

inductive mstep :: "taskManager \<Rightarrow> mevent \<Rightarrow> taskManager \<Rightarrow> bool" where
  start: "mstep m EStart (StartTask m)"
| stop: "mstep m EStop (StopTask m)"
| graceful: "mstep m EGraceful (GracefulShutdown m)"
| add: "mstep m (EAdd n t now) (AddTask n t now m)"
| delete: "mstep m (EDelete n) (DeleteTask n m)"
| clear: "mstep m EClear (ClearTask m)"
| init: "loops m = ls @ LInit # rs \<Longrightarrow>
    mstep m (EInit now) ((setTasksStartTime now m)\<lparr>loops := ls @ LTop now # rs\<rparr>)"
| sort: "loops m = ls @ LTop now # rs \<Longrightarrow> key_order (adminTaskList m) order \<Longrightarrow>
    Sorted (heap m) (NewMapSorter (adminTaskList m) order) ms \<Longrightarrow>
    mstep m ESort (m\<lparr>loops := ls @ LSorted now (Vals ms) # rs\<rparr>)"
| effective: "loops m = ls @ LSorted now vals # rs \<Longrightarrow>
    mstep m EEffective (m\<lparr>loops := ls @ effective_time m now vals # rs\<rparr>)"
| fire: "loops m = ls @ LSelect now vals eff # rs \<Longrightarrow> runNextTasks vals eff m = (m', ran_es) \<Longrightarrow>
    mstep m (EFire now' ran_es) (m'\<lparr>loops := ls @ LTop now' # rs\<rparr>)"
| changed: "loops m = ls @ LSelect now vals eff # rs \<Longrightarrow> 0 < sendChanged m \<Longrightarrow>
    mstep m (EChanged now') ((setTasksStartTime now' m)\<lparr>loops := ls @ LTop now' # rs,
      sendChanged := sendChanged m - 1\<rparr>)"
| stop_recv: "loops m = ls @ LSelect now vals eff # rs \<Longrightarrow> 0 < sendStop m \<Longrightarrow>
    mstep m EStopRecv ((markManagerStop m)\<lparr>loops := ls @ rs, sendStop := sendStop m - 1\<rparr>)"
| grace_recv: "loops m = ls @ LSelect now vals eff # rs \<Longrightarrow> 0 < graceSend m \<Longrightarrow>
    mstep m EGraceRecv ((markManagerStop m)\<lparr>loops := ls @ rs, graceSend := graceSend m - 1,
      graceWait := graceWait m + 1\<rparr>)"
| task_done: "0 < wait m \<Longrightarrow> Run outcome (heap m a) = Inr (t', r) \<Longrightarrow>
    mstep m (ETaskDone a outcome) (m\<lparr>heap := (heap m)(a := t'), wait := wait m - 1\<rparr>)"
| grace_done: "0 < graceWait m \<Longrightarrow> wait m = 0 \<Longrightarrow>
    mstep m EGraceDone (m\<lparr>graceWait := graceWait m - 1, graceDone := graceDone m + 1\<rparr>)"

inductive mreach :: "taskManager \<Rightarrow> bool" where
  init: "mreach (newTaskManager h)"
| step: "mreach m \<Longrightarrow> mstep m e m' \<Longrightarrow> mreach m'"

text \<open>The loops that still run: a loop whose goroutine panicked has taken the program down.\<close>

definition manager_inv :: "taskManager \<Rightarrow> bool" where
  "manager_inv m \<longleftrightarrow> length (loops m) = (if started m then 1 else 0) \<and> distinct (map fst (adminTaskList m))"

lemma runNextTasks_frame:
  assumes "runNextTasks es eff m = (m', r)"
  shows "adminTaskList m' = adminTaskList m \<and> started m' = started m \<and> loops m' = loops m \<and>
    wait m' = wait m + length r"
  using assms
proof (induction es arbitrary: m m' r)
  case (Cons e es)
  show ?case
  proof (cases "NextTime (heap m e) = eff")
    case True
    let ?m = "m\<lparr>wait := wait m + 1, heap := (heap m)(e := SetNext eff (SetPrev (NextTime (heap m e)) (heap m e)))\<rparr>"
    obtain m'' r' where rec: "runNextTasks es eff ?m = (m'', r')" by (cases "runNextTasks es eff ?m")
    from Cons.IH [OF rec] Cons.prems True rec show ?thesis by (auto simp: Let_def)
  next
    case False
    with Cons.prems show ?thesis by simp
  qed
qed simp

lemmas manager_defs = newTaskManager_def StartTask_def StopTask_def GracefulShutdown_def AddTask_def
  DeleteTask_def ClearTask_def setTasksStartTime_def markManagerStop_def

lemma mstep_inv: "mstep m e m' \<Longrightarrow> manager_inv m \<Longrightarrow> manager_inv m'"
proof (induction rule: mstep.induct)
  case (fire m ls now vals eff rs m' ran_es now')
  with runNextTasks_frame [OF fire(2)] show ?case by (simp add: manager_inv_def)
qed (auto simp: manager_inv_def manager_defs Let_def distinct_update distinct_delete split: if_splits)

lemma mreach_inv: "mreach m \<Longrightarrow> manager_inv m"
proof (induction rule: mreach.induct)
  case (init h)
  then show ?case by (simp add: manager_inv_def newTaskManager_def)
next
  case (step m e m')
  then show ?case by (blast intro: mstep_inv)
qed


section \<open>Sorting and running due tasks\<close>

definition time_key :: "time \<Rightarrow> int \<times> nat \<times> nat \<times> nat \<times> nat \<times> nat \<times> nat" where
  "time_key t = (year t, month t, day t, hour t, minute t, second t, nsec t)"

lemma less_prod_lex:
  fixes a c :: "'a::linorder" and b d :: "'b::linorder"
  shows "(a, b) < (c, d) \<longleftrightarrow> a < c \<or> a = c \<and> b < d"
  by (auto simp: less_prod_simp)

lemma before_time_key: "before t u \<longleftrightarrow> time_key t < time_key u"
  by (simp only: before_def time_key_def less_prod_lex)

lemma time_key_inj [simp]: "time_key t = time_key u \<longleftrightarrow> t = u"
  by (auto simp: time_key_def)

lemma before_antisym: "\<not> before t u \<Longrightarrow> \<not> before u t \<Longrightarrow> t = u"
  by (metis before_time_key linorder_neqE time_key_inj)

lemma Less_irrefl: "\<not> Less a a"
  by (simp add: Less_def)

lemma not_Less_trans: "\<not> Less b a \<Longrightarrow> \<not> Less c b \<Longrightarrow> \<not> Less c a"
  by (auto simp: Less_def before_time_key split: if_splits)

lemma Less_asym: "Less a b \<Longrightarrow> \<not> Less b a"
  by (auto simp: Less_def before_time_key split: if_splits)

lemma mset_insert_by: "mset (insert_by h x ys) = add_mset x (mset ys)"
  by (induction h x ys rule: insert_by.induct) auto

lemma set_insert_by: "set (insert_by h x ys) = insert x (set ys)"
  by (induction h x ys rule: insert_by.induct) auto

lemma sorted_insert_by:
  "sorted_wrt (\<lambda>a b. \<not> Less (h (snd b)) (h (snd a))) ys \<Longrightarrow>
   sorted_wrt (\<lambda>a b. \<not> Less (h (snd b)) (h (snd a))) (insert_by h x ys)"
proof (induction h x ys rule: insert_by.induct)
  case (2 h x y ys)
  show ?case
  proof (cases "Less (h (snd y)) (h (snd x))")
    case True
    with 2 Less_asym [OF True] show ?thesis by (auto simp: set_insert_by)
  next
    case False
    with 2 show ?thesis using not_Less_trans [OF False] by auto
  qed
qed simp

text \<open>The insertion sort is one of the sorts that \<open>Sorted\<close> allows.\<close>

lemma Sort_Sorted:
  assumes "length (Keys ms) = length (Vals ms)"
  shows "Sorted h ms (Sort h ms)"
proof -
  let ?l = "foldr (insert_by h) (zip (Keys ms) (Vals ms)) []"
  have "mset (foldr (insert_by h) zs []) = mset zs" for zs
    by (induction zs) (simp_all add: mset_insert_by)
  moreover have "sorted_wrt (\<lambda>a b. \<not> Less (h (snd b)) (h (snd a))) (foldr (insert_by h) zs [])" for zs
    by (induction zs) (simp_all add: sorted_insert_by)
  ultimately show ?thesis
    by (simp add: Sorted_def Sort_def Let_def sorted_wrt_map zip_map_fst_snd)
qed

lemma runNextTasks_distinct:
  assumes "distinct es" "runNextTasks es eff m = (m', r)"
  shows "r = takeWhile (\<lambda>e. NextTime (heap m e) = eff) es \<and>
    heap m' = (\<lambda>a. if a \<in> set r then SetNext eff (SetPrev eff (heap m a)) else heap m a)"
  using assms
proof (induction es arbitrary: m m' r)
  case (Cons e es)
  show ?case
  proof (cases "NextTime (heap m e) = eff")
    case True
    let ?m = "m\<lparr>wait := wait m + 1, heap := (heap m)(e := SetNext eff (SetPrev (NextTime (heap m e)) (heap m e)))\<rparr>"
    obtain m'' r' where rec: "runNextTasks es eff ?m = (m'', r')" by (cases "runNextTasks es eff ?m")
    from Cons.prems True rec have m': "m' = m''" "r = e # r'" by (simp_all add: Let_def)
    have ne: "\<And>x. x \<in> set es \<Longrightarrow> x \<noteq> e" using Cons.prems(1) by auto
    have tw: "takeWhile (\<lambda>x. NextTime (heap ?m x) = eff) es = takeWhile (\<lambda>x. NextTime (heap m x) = eff) es"
      by (rule takeWhile_cong) (simp_all add: ne)
    from Cons.IH [OF _ rec] Cons.prems(1) tw
    have IH: "r' = takeWhile (\<lambda>x. NextTime (heap m x) = eff) es"
      "heap m'' = (\<lambda>a. if a \<in> set r' then SetNext eff (SetPrev eff (heap ?m a)) else heap ?m a)"
      by simp_all
    have "e \<notin> set r'" using IH(1) ne set_takeWhileD by metis
    with True m' IH show ?thesis by (auto simp: fun_eq_iff)
  next
    case False
    with Cons.prems show ?thesis by simp
  qed
qed simp

lemma sorted_takeWhile_eq:
  assumes "sorted_wrt R (x # xs)" "\<And>a b c. R a b \<Longrightarrow> P c \<Longrightarrow> \<not> P a \<Longrightarrow> R c a \<Longrightarrow> \<not> P b" "P x"
  shows "set (takeWhile P (x # xs)) = {v \<in> set (x # xs). P v}"
proof -
  have "set (takeWhile P ys) = {v \<in> set ys. P v}"
    if "sorted_wrt R ys" "\<And>y. y \<in> set ys \<Longrightarrow> R x y" for ys
    using that
  proof (induction ys)
    case (Cons y ys)
    show ?case
    proof (cases "P y")
      case False
      with Cons.prems assms(2,3) show ?thesis by force
    qed (use Cons in auto)
  qed simp
  from this [of xs] assms(1,3) show ?thesis by auto
qed


lemma sorted_due:
  assumes "sorted_wrt (\<lambda>a b. \<not> Less (h b) (h a)) (v # vs)" "\<not> IsZero (NextTime (h v))"
  shows "set (takeWhile (\<lambda>e. NextTime (h e) = NextTime (h v)) (v # vs)) =
    {e \<in> set (v # vs). NextTime (h e) = NextTime (h v)}"
  using assms
  by (intro sorted_takeWhile_eq [where R = "\<lambda>a b. \<not> Less (h b) (h a)"])
    (auto simp: Less_def before_time_key not_less order.antisym split: if_splits)

section \<open>The error ring\<close>

fun runs :: "string option list \<Rightarrow> Task \<Rightarrow> task_panic + Task" where
  "runs [] t = Inr t"
| "runs (outcome # rest) t = res_bind (Run outcome t) (\<lambda>(t', _). runs rest t')"

definition errors_of :: "string option list \<Rightarrow> string list" where
  "errors_of outs = List.map_filter id outs"

definition ring_ok :: "nat \<Rightarrow> Task \<Rightarrow> string list \<Rightarrow> bool" where
  "ring_ok L t es \<longleftrightarrow> 0 < L \<and> ErrLimit t = int L \<and> L \<le> length (Errlist t) \<and> errCnt t = int (length es) \<and>
     (\<forall>i < length es. length es \<le> i + L \<longrightarrow>
        Errlist t ! (i mod L) = Some \<lparr>err_t = NextTime t, errinfo = es ! i\<rparr>)"

lemma ring_index_distinct:
  fixes i n L :: nat
  assumes "i < n" "n < i + L"
  shows "i mod L \<noteq> n mod L"
proof
  assume "i mod L = n mod L"
  then have "n mod L = i mod L" ..
  then have "L dvd n - i" using assms(1) by (simp add: mod_eq_dvd_iff_nat)
  then have "L \<le> n - i" using assms(1) by (intro dvd_imp_le) auto
  with assms show False by linarith
qed

lemma Run_ring:
  assumes ok: "ring_ok L t es"
  shows "\<exists>t'. Run (Some err) t = Inr (t', Some err) \<and> ring_ok L t' (es @ [err])"
proof -
  let ?n = "length es"
  from ok have L: "0 < L" "ErrLimit t = int L" "L \<le> length (Errlist t)" "errCnt t = int ?n"
    and r: "\<And>i. i < ?n \<Longrightarrow> ?n \<le> i + L \<Longrightarrow>
      Errlist t ! (i mod L) = Some \<lparr>err_t = NextTime t, errinfo = es ! i\<rparr>"
    by (auto simp: ring_ok_def)
  have rem: "go_rem (int ?n) (int L) = int (?n mod L)" by (simp add: go_rem_def zmod_int)
  have lt: "?n mod L < length (Errlist t)" using L(1,3) mod_less_divisor [of L ?n] by linarith
  let ?t' = "t\<lparr>Errlist := (Errlist t)[?n mod L := Some \<lparr>err_t = NextTime t, errinfo = err\<rparr>],
    errCnt := errCnt t + 1\<rparr>"
  have "Run (Some err) t = Inr (?t', Some err)"
    using L lt rem by (simp add: Run_def Let_def)
  moreover have "ring_ok L ?t' (es @ [err])"
    unfolding ring_ok_def
  proof (intro conjI allI impI)
    fix i
    assume i: "i < length (es @ [err])" "length (es @ [err]) \<le> i + L"
    show "Errlist ?t' ! (i mod L) = Some \<lparr>err_t = NextTime ?t', errinfo = (es @ [err]) ! i\<rparr>"
    proof (cases "i = ?n")
      case True
      then show ?thesis using lt by (simp add: nth_append)
    next
      case False
      with i have "i < ?n" "?n < i + L" by simp_all
      with ring_index_distinct [of i ?n L] r [of i] show ?thesis by (simp add: nth_append)
    qed
  qed (use L in simp_all)
  ultimately show ?thesis by blast
qed

lemma runs_ring:
  assumes "ring_ok L t es"
  shows "\<exists>t'. runs outs t = Inr t' \<and> ring_ok L t' (es @ errors_of outs)"
  using assms
proof (induction outs arbitrary: t es)
  case Nil
  then show ?case by (simp add: errors_of_def map_filter_simps)
next
  case (Cons outcome outs)
  show ?case
  proof (cases outcome)
    case None
    with Cons.IH [OF Cons.prems] show ?thesis
      by (simp add: Run_def errors_of_def map_filter_simps)
  next
    case (Some err)
    from Run_ring [OF Cons.prems] obtain t' where t': "Run (Some err) t = Inr (t', Some err)"
      "ring_ok L t' (es @ [err])" by blast
    from Cons.IH [OF t'(2)] t'(1) Some show ?thesis
      by (simp add: errors_of_def map_filter_simps)
  qed
qed


section \<open>Properties\<close>

lemma SetNext_later:
  assumes "valid now"
  shows "before now (NextTime (SetNext now t)) \<or> IsZero (NextTime (SetNext now t))"
proof -
  from Next_total [OF assms, of "Spec t"] obtain r where r: "Next (Spec t) now = Some r"
    "next_post (Spec t) (year (upcoming now) + 5) (upcoming now) r" by blast
  with upcoming_later [OF assms] show ?thesis by (auto simp: SetNext_def next_post_def IsZero_def)
qed


definition demo_task :: Task where
  "demo_task = \<lparr>Taskname = ''demo'', Spec = empty_schedule, SpecStr = [], PrevTime = zero_time,
     NextTime = tuesday_evening, Timeout = 0, Errlist = replicate 100 None, ErrLimit = 100, errCnt = 0\<rparr>"

definition demo_manager :: taskManager where
  "demo_manager = (newTaskManager (\<lambda>_. demo_task))\<lparr>adminTaskList := [(''a'', 0), (''b'', 1)]\<rparr>"


text \<open>
  C9. In every reachable state, however the calls and the goroutines
  interleave, there is exactly one \<^verbatim>\<open>run\<close> loop when the manager is started and none otherwise,
  and no task name is registered twice.
\<close>

theorem manager_single_loop:
  assumes "mreach m"
  shows "length (loops m) = (if started m then 1 else 0) \<and> distinct (map fst (adminTaskList m))"
  using mreach_inv [OF assms] by (simp add: manager_inv_def)

theorem manager_single_loop_witness:
  "mreach (StartTask (newTaskManager (\<lambda>_. demo_task))) \<and>
   length (loops (StartTask (newTaskManager (\<lambda>_. demo_task)))) = 1"
proof -
  have r: "mreach (StartTask (newTaskManager (\<lambda>_. demo_task)))"
    by (rule mreach.step [OF mreach.init mstep.start])
  with manager_single_loop [OF r] show ?thesis by (simp add: StartTask_def newTaskManager_def)
qed

text \<open>
   The loop reads the map again after it has released the lock: a task
  added between an empty snapshot and that read makes it index the empty snapshot, so a state
  in which the loop has panicked is reachable.
\<close>

theorem run_loop_can_panic: "\<exists>m. mreach m \<and> LPanic \<in> set (loops m)"
proof -
  let ?m0 = "newTaskManager (\<lambda>_. demo_task)"
  let ?m1 = "StartTask ?m0"
  let ?m2 = "(setTasksStartTime tuesday_evening ?m1)\<lparr>loops := [] @ LTop tuesday_evening # []\<rparr>"
  let ?ms = "\<lparr>Keys = [], Vals = []\<rparr>"
  let ?m3 = "?m2\<lparr>loops := [] @ LSorted tuesday_evening (Vals ?ms) # []\<rparr>"
  let ?m4 = "AddTask ''a'' 0 tuesday_evening ?m3"
  let ?m5 = "?m4\<lparr>loops := [] @ effective_time ?m4 tuesday_evening [] # []\<rparr>"
  have r1: "mreach ?m1" by (rule mreach.step [OF mreach.init mstep.start])
  have r2: "mreach ?m2"
    by (rule mreach.step [OF r1 mstep.init]) (simp add: StartTask_def newTaskManager_def)
  have r3: "mreach ?m3"
  proof (rule mreach.step [OF r2 mstep.sort])
    show "loops ?m2 = [] @ LTop tuesday_evening # []" by simp
    show "key_order (adminTaskList ?m2) []"
      by (simp add: key_order_def setTasksStartTime_def StartTask_def newTaskManager_def)
    show "Sorted (heap ?m2) (NewMapSorter (adminTaskList ?m2) []) ?ms"
      by (simp add: Sorted_def NewMapSorter_def)
  qed
  have r4: "mreach ?m4" by (rule mreach.step [OF r3 mstep.add])
  have "mreach ?m5"
    by (rule mreach.step [OF r4 mstep.effective]) (simp add: AddTask_def Let_def)
  moreover have "LPanic \<in> set (loops ?m5)"
    by (simp add: effective_time_def AddTask_def Let_def setTasksStartTime_def StartTask_def newTaskManager_def)
  ultimately show ?thesis by blast
qed

text \<open>
   With a positive error limit within the length of the error list
  (100 and 100 from \<^verbatim>\<open>NewTask\<close>), running a task never panics, every failure is counted, and
  the list holds the most recent failures up to the limit, each at its index modulo the limit.
\<close>

theorem Run_keeps_last_errors:
  assumes "0 < L" "ErrLimit t = int L" "L \<le> length (Errlist t)" "errCnt t = 0"
  shows "\<exists>t'. runs outs t = Inr t' \<and> errCnt t' = int (length (errors_of outs)) \<and>
    (\<forall>i < length (errors_of outs). length (errors_of outs) \<le> i + L \<longrightarrow>
      Errlist t' ! (i mod L) = Some \<lparr>err_t = NextTime t', errinfo = errors_of outs ! i\<rparr>)"
proof -
  from assms have "ring_ok L t []" by (simp add: ring_ok_def)
  from runs_ring [OF this, of outs] show ?thesis by (auto simp: ring_ok_def)
qed

theorem Run_keeps_last_errors_witness:
  "\<exists>t'. runs [Some ''e1'', None, Some ''e2''] demo_task = Inr t' \<and> errCnt t' = 2"
  using Run_keeps_last_errors [of 100 demo_task "[Some ''e1'', None, Some ''e2'']"]
  by (auto simp: demo_task_def errors_of_def map_filter_simps)

end
