(* ===== verification/Kv_Store.thy ===== *)
theory Kv_Store
  imports Go_Prelude
begin

text \<open>
  The contract that the key-value components of the program share: route parameters, session
  values, the safe map, configuration sections and the cache all promise that a lookup sees the
  last value stored under a key. The contract is a locale; each component's theory interprets
  it on its own definitions, and the loops that store many pairs are reasoned about here, once.
\<close>

fun put_all :: "('s \<Rightarrow> 'k \<Rightarrow> 'v \<Rightarrow> 'e + 's) \<Rightarrow> 's \<Rightarrow> ('k \<times> 'v) list \<Rightarrow> 'e + 's" where
  "put_all put s [] = Inr s"
| "put_all put s ((k, v) # kvs) = res_bind (put s k v) (\<lambda>s'. put_all put s' kvs)"

lemma put_all_append:
  "put_all put s (xs @ ys) = res_bind (put_all put s xs) (\<lambda>s'. put_all put s' ys)"
  by (induction put s xs rule: put_all.induct) (auto simp: res_bind_def split: sum.splits)

locale kv_store =
  fixes get :: "'s \<Rightarrow> 'k \<Rightarrow> 'r"
    and put :: "'s \<Rightarrow> 'k \<Rightarrow> 'v \<Rightarrow> 'e + 's"
    and enc :: "'v \<Rightarrow> 'r"
    and inv :: "'s \<Rightarrow> bool"
    and okey :: "'k \<Rightarrow> bool"
  assumes put_ok: "inv s \<Longrightarrow> okey k \<Longrightarrow> \<exists>s'. put s k v = Inr s' \<and> inv s'"
    and get_put_same: "inv s \<Longrightarrow> okey k \<Longrightarrow> put s k v = Inr s' \<Longrightarrow> get s' k = enc v"
    and get_put_other: "inv s \<Longrightarrow> okey k \<Longrightarrow> put s k v = Inr s' \<Longrightarrow> k' \<noteq> k \<Longrightarrow> get s' k' = get s k'"
begin

lemma get_put:
  "inv s \<Longrightarrow> okey k \<Longrightarrow> put s k v = Inr s' \<Longrightarrow> get s' k' = (if k' = k then enc v else get s k')"
  using get_put_same get_put_other by auto

lemma put_obtain:
  assumes "inv s" "okey k"
  obtains s' where "put s k v = Inr s'" "inv s'" "\<And>k'. get s' k' = (if k' = k then enc v else get s k')"
  using put_ok [OF assms, of v] get_put [OF assms] by blast

text \<open>A loop of stores never fails, and every key then has the last value stored under it.\<close>

lemma put_all_ok:
  assumes "inv s" "list_all (\<lambda>(k, v). okey k) kvs"
  shows "\<exists>s'. put_all put s kvs = Inr s' \<and> inv s' \<and>
    (\<forall>k. get s' k = (case map_of (rev kvs) k of Some v \<Rightarrow> enc v | None \<Rightarrow> get s k))"
  using assms
proof (induction kvs arbitrary: s)
  case Nil
  then show ?case by simp
next
  case (Cons kv kvs)
  obtain k v where kv: "kv = (k, v)" by (cases kv)
  obtain s1 where s1: "put s k v = Inr s1" "inv s1" "\<And>k'. get s1 k' = (if k' = k then enc v else get s k')"
    using put_obtain [OF Cons.prems(1)] Cons.prems(2) kv by auto
  from Cons.IH [OF s1(2)] Cons.prems(2) obtain s2 where s2: "put_all put s1 kvs = Inr s2" "inv s2"
    "\<And>k. get s2 k = (case map_of (rev kvs) k of Some v \<Rightarrow> enc v | None \<Rightarrow> get s1 k)" by auto
  have "get s2 k' = (case map_of (rev (kv # kvs)) k' of Some v \<Rightarrow> enc v | None \<Rightarrow> get s k')" for k'
    using s2(3) [of k'] s1(3) [of k'] kv by (auto simp: map_add_def split: option.splits)
  with s1(1) s2(1,2) kv show ?case by auto
qed

text \<open>Storing two values under different keys commutes, as far as lookups can tell.\<close>

lemma put_commute:
  assumes "inv s" "okey k1 \<and> okey k2 \<and> k1 \<noteq> k2" "put_all put s [(k1, v1), (k2, v2)] = Inr s1"
    "put_all put s [(k2, v2), (k1, v1)] = Inr s2"
  shows "get s1 k = get s2 k"
proof -
  have "get s1 k = (case map_of (rev [(k1, v1), (k2, v2)]) k of Some v \<Rightarrow> enc v | None \<Rightarrow> get s k)"
    using put_all_ok [OF assms(1), of "[(k1, v1), (k2, v2)]"] assms(2,3) by auto
  moreover have "get s2 k = (case map_of (rev [(k2, v2), (k1, v1)]) k of Some v \<Rightarrow> enc v | None \<Rightarrow> get s k)"
    using put_all_ok [OF assms(1), of "[(k2, v2), (k1, v1)]"] assms(2,4) by auto
  ultimately show ?thesis using assms(2) by auto
qed

end

text \<open>A store from which keys can also be removed.\<close>

locale kv_store_del = kv_store get put enc inv okey
  for get :: "'s \<Rightarrow> 'k \<Rightarrow> 'r" and put :: "'s \<Rightarrow> 'k \<Rightarrow> 'v \<Rightarrow> 'e + 's" and enc :: "'v \<Rightarrow> 'r" and inv :: "'s \<Rightarrow> bool"
    and okey :: "'k \<Rightarrow> bool" +
  fixes del :: "'s \<Rightarrow> 'k \<Rightarrow> 's"
    and absent :: 'r
  assumes inv_del: "inv s \<Longrightarrow> inv (del s k)"
    and get_del: "inv s \<Longrightarrow> get (del s k) k' = (if k' = k then absent else get s k')"
begin

lemma get_fold_del:
  assumes "inv s"
  shows "inv (fold (\<lambda>k s. del s k) ks s) \<and>
    get (fold (\<lambda>k s. del s k) ks s) k' = (if k' \<in> set ks then absent else get s k')"
  using assms
proof (induction ks arbitrary: s)
  case (Cons k ks)
  from Cons.IH [OF inv_del [OF Cons.prems, of k]] get_del [OF Cons.prems, of k k'] show ?case
    by auto
qed simp

text \<open>Deleting what was just stored leaves no trace that a lookup can see.\<close>

lemma del_put: "inv s \<Longrightarrow> okey k \<Longrightarrow> put s k v = Inr s' \<Longrightarrow> get s k = absent \<Longrightarrow> get (del s' k) k' = get s k'"
  using put_ok [of s k v] get_put [of s k v s' k'] get_del [of s' k k'] by auto

end

end
