(* ===== verification/Input_Params.thy ===== *)
theory Input_Params
  imports Kv_Store
begin

text \<open>
  The route parameters of \<^verbatim>\<open>BeegoInput\<close> (\<^verbatim>\<open>server/web/context/input.go\<close>): two parallel
  slices of names and values, searched from the front. The guards of the code compare an index
  with the length of the values by \<^verbatim>\<open><=\<close>, so an index one past the end would panic; the
  invariant that both slices have the same length rules that out.
\<close>

record BeegoInput =
  pnames :: "string list"
  pvalues :: "string list"

datatype index_panic = OutOfRange nat nat

definition new_input :: BeegoInput where
  "new_input = \<lparr>pnames = [], pvalues = []\<rparr>"

text \<open>The first index at which a loop over the names stops: name and guard.\<close>

fun find_name :: "string \<Rightarrow> nat \<Rightarrow> string list \<Rightarrow> nat \<Rightarrow> nat option" where
  "find_name key nv [] i = None"
| "find_name key nv (v # vs) i = (if v = key \<and> i \<le> nv then Some i else find_name key nv vs (Suc i))"

definition ParamsLen :: "BeegoInput \<Rightarrow> nat" where
  "ParamsLen inp = length (pnames inp)"

definition Param :: "BeegoInput \<Rightarrow> string \<Rightarrow> index_panic + string" where
  "Param inp key =
     (case find_name key (length (pvalues inp)) (pnames inp) 0 of
        None \<Rightarrow> Inr []
      | Some i \<Rightarrow> if i < length (pvalues inp) then Inr (pvalues inp ! i)
                 else Inl (OutOfRange i (length (pvalues inp))))"

fun Params_loop :: "string list \<Rightarrow> string list \<Rightarrow> nat \<Rightarrow> (string \<rightharpoonup> string) \<Rightarrow> index_panic + (string \<rightharpoonup> string)" where
  "Params_loop vals [] i m = Inr m"
| "Params_loop vals (v # vs) i m =
     (if i \<le> length vals then
        (if i < length vals then Params_loop vals vs (Suc i) (m(v \<mapsto> vals ! i))
         else Inl (OutOfRange i (length vals)))
      else Params_loop vals vs (Suc i) m)"

definition Params :: "BeegoInput \<Rightarrow> index_panic + (string \<rightharpoonup> string)" where
  "Params inp = Params_loop (pvalues inp) (pnames inp) 0 Map.empty"

definition SetParam :: "BeegoInput \<Rightarrow> string \<Rightarrow> string \<Rightarrow> index_panic + BeegoInput" where
  "SetParam inp key val =
     (case find_name key (length (pvalues inp)) (pnames inp) 0 of
        Some i \<Rightarrow> if i < length (pvalues inp) then Inr (inp\<lparr>pvalues := (pvalues inp)[i := val]\<rparr>)
                 else Inl (OutOfRange i (length (pvalues inp)))
      | None \<Rightarrow> Inr (inp\<lparr>pvalues := pvalues inp @ [val], pnames := pnames inp @ [key]\<rparr>))"

definition ResetParams :: "BeegoInput \<Rightarrow> BeegoInput" where
  "ResetParams inp = inp\<lparr>pnames := [], pvalues := []\<rparr>"

definition params_inv :: "BeegoInput \<Rightarrow> bool" where
  "params_inv inp \<longleftrightarrow> length (pnames inp) = length (pvalues inp) \<and> distinct (pnames inp)"

lemma find_name_Some:
  "find_name key nv vs i = Some j \<Longrightarrow> i \<le> j \<and> j < i + length vs \<and> vs ! (j - i) = key"
proof (induction key nv vs i rule: find_name.induct)
  case (2 key nv v vs i)
  then show ?case by (cases "v = key \<and> i \<le> nv") (auto simp: nth_Cons' Suc_le_eq)
qed simp

lemma find_name_None:
  "find_name key nv vs i = None \<Longrightarrow> i + length vs \<le> Suc nv \<Longrightarrow> key \<notin> set vs"
  by (induction key nv vs i rule: find_name.induct) (auto split: if_splits)

lemma find_name_in:
  assumes "j < length vs" "vs ! j = key" "distinct vs" "i + length vs \<le> Suc nv"
  shows "find_name key nv vs i = Some (i + j)"
  using assms
proof (induction key nv vs i arbitrary: j rule: find_name.induct)
  case (2 key nv v vs i)
  show ?case
  proof (cases j)
    case 0
    with 2 show ?thesis by simp
  next
    case (Suc j')
    with 2 have "v \<noteq> key" by auto
    with 2 Suc show ?thesis by simp
  qed
qed simp

lemma find_name_notin: "key \<notin> set vs \<Longrightarrow> find_name key nv vs i = None"
  by (induction key nv vs i rule: find_name.induct) auto

lemma Param_lookup:
  assumes "params_inv inp"
  shows "Param inp key = Inr (case map_of (zip (pnames inp) (pvalues inp)) key of Some v \<Rightarrow> v | None \<Rightarrow> [])"
proof (cases "key \<in> set (pnames inp)")
  case True
  then obtain j where j: "j < length (pnames inp)" "pnames inp ! j = key" by (auto simp: in_set_conv_nth)
  with assms have "find_name key (length (pvalues inp)) (pnames inp) 0 = Some j"
    using find_name_in [of j "pnames inp" key 0] by (simp add: params_inv_def)
  moreover from j assms have "map_of (zip (pnames inp) (pvalues inp)) key = Some (pvalues inp ! j)"
    using map_of_zip_nth [of "pnames inp" "pvalues inp" j] by (simp add: params_inv_def)
  ultimately show ?thesis using j assms by (simp add: Param_def params_inv_def)
next
  case False
  with assms have "map_of (zip (pnames inp) (pvalues inp)) key = None"
    by (simp add: params_inv_def map_of_zip_is_None)
  with False show ?thesis by (simp add: Param_def find_name_notin)
qed

lemma params_inv_new [simp]: "params_inv new_input"
  by (simp add: params_inv_def new_input_def)

lemma params_inv_ResetParams [simp]: "params_inv (ResetParams inp)"
  by (simp add: params_inv_def ResetParams_def)

lemma Param_new [simp]: "Param new_input k = Inr []"
  by (simp add: Param_def new_input_def)

lemma SetParam_fresh:
  assumes "params_inv inp" "key \<notin> set (pnames inp)"
  shows "SetParam inp key v = Inr \<lparr>pnames = pnames inp @ [key], pvalues = pvalues inp @ [v]\<rparr>"
  using assms by (cases inp) (simp add: SetParam_def find_name_notin)

lemma SetParam_present:
  assumes "params_inv inp" "j < length (pnames inp)" "pnames inp ! j = key"
  shows "SetParam inp key v = Inr (inp\<lparr>pvalues := (pvalues inp)[j := v]\<rparr>)"
  using assms find_name_in [of j "pnames inp" key 0 "length (pvalues inp)"]
  by (simp add: SetParam_def params_inv_def)

lemma map_of_zip_update:
  "length ks = length vs \<Longrightarrow> distinct ks \<Longrightarrow> j < length ks \<Longrightarrow>
   map_of (zip ks (vs[j := v])) = (map_of (zip ks vs))(ks ! j \<mapsto> v)"
proof (induction ks vs arbitrary: j rule: list_induct2)
  case (Cons x xs y ys)
  then show ?case by (cases j) (auto simp: fun_eq_iff)
qed simp

lemma SetParam_spec:
  assumes "params_inv inp"
  shows "\<exists>inp'. SetParam inp key v = Inr inp' \<and> params_inv inp' \<and>
    map_of (zip (pnames inp') (pvalues inp')) = (map_of (zip (pnames inp) (pvalues inp)))(key \<mapsto> v)"
proof (cases "key \<in> set (pnames inp)")
  case True
  then obtain j where j: "j < length (pnames inp)" "pnames inp ! j = key" by (auto simp: in_set_conv_nth)
  from SetParam_present [OF assms this] map_of_zip_update [of "pnames inp" "pvalues inp" j v] j assms
  show ?thesis by (simp add: params_inv_def)
next
  case False
  from assms have eq: "length (pnames inp) = length (pvalues inp)" by (simp add: params_inv_def)
  have "map_of (zip (pnames inp) (pvalues inp)) key = None"
    using eq False map_of_zip_is_None [of "pnames inp" "pvalues inp" key] by blast
  then have "map_of (zip (pnames inp @ [key]) (pvalues inp @ [v])) = (map_of (zip (pnames inp) (pvalues inp)))(key \<mapsto> v)"
    using eq by (simp add: map_add_def fun_eq_iff del: map_of_zip_is_None split: option.split)
  with SetParam_fresh [OF assms False] False assms show ?thesis by (simp add: params_inv_def)
qed

interpretation input_params: kv_store Param SetParam Inr params_inv "\<lambda>_. True"
proof
  fix s k v
  assume "params_inv s"
  then show "\<exists>s'. SetParam s k v = Inr s' \<and> params_inv s'"
    using SetParam_spec by blast
next
  fix s k v s'
  assume *: "params_inv s" "SetParam s k v = Inr s'"
  from SetParam_spec [OF *(1), of k v] * have **: "params_inv s'"
    "map_of (zip (pnames s') (pvalues s')) = (map_of (zip (pnames s) (pvalues s)))(k \<mapsto> v)" by auto
  then show "Param s' k = Inr v" by (simp add: Param_lookup)
  show "Param s' k' = Param s k'" if "k' \<noteq> k" for k'
    using ** that *(1) by (simp add: Param_lookup)
qed

text \<open>The map of all parameters that \<^verbatim>\<open>Params\<close> builds agrees with the single lookups.\<close>

lemma Params_loop_eq:
  "i + length ks \<le> length vals \<Longrightarrow> distinct ks \<Longrightarrow>
   Params_loop vals ks i m = Inr (m ++ map_of (zip ks (drop i vals)))"
proof (induction vals ks i m rule: Params_loop.induct)
  case (2 vals v vs i m)
  then have "i < length vals" by simp
  then have "drop i vals = vals ! i # drop (Suc i) vals" by (simp add: Cons_nth_drop_Suc)
  moreover have "v \<notin> dom (map_of (zip vs (drop (Suc i) vals)))"
    using 2 by (auto dest: map_of_SomeD set_zip_leftD)
  ultimately have "m ++ map_of (zip (v # vs) (drop i vals)) = m(v \<mapsto> vals ! i) ++ map_of (zip vs (drop (Suc i) vals))"
    by (simp add: map_add_upd_left)
  moreover have "Params_loop vals vs (Suc i) (m(v \<mapsto> vals ! i)) = Inr (m(v \<mapsto> vals ! i) ++ map_of (zip vs (drop (Suc i) vals)))"
    using 2 \<open>i < length vals\<close> by (simp del: fun_upd_apply)
  ultimately show ?case using \<open>i < length vals\<close> by (simp del: fun_upd_apply)
qed simp

text \<open> After any sequence of SetParam calls on fresh route parameters nothing has
  panicked, Param returns the last value stored under every name (the empty string for a name never
  set), Params returns the map of exactly those pairs, and ParamsLen counts the distinct names.\<close>

theorem Params_after_sets:
  "\<exists>inp. put_all SetParam (ResetParams inp0) kvs = Inr inp \<and>
     (\<forall>k. Param inp k = Inr (case map_of (rev kvs) k of Some v \<Rightarrow> v | None \<Rightarrow> [])) \<and>
     Params inp = Inr (map_of (rev kvs)) \<and>
     ParamsLen inp = card (fst ` set kvs)"
proof -
  have "\<exists>inp. put_all SetParam s kvs = Inr inp \<and> params_inv inp \<and>
     map_of (zip (pnames inp) (pvalues inp)) = map_of (zip (pnames s) (pvalues s)) ++ map_of (rev kvs)"
    if "params_inv s" for s
    using that
  proof (induction kvs arbitrary: s)
    case (Cons kv kvs)
    obtain k v where kv: "kv = (k, v)" by (cases kv)
    from SetParam_spec [OF Cons.prems, of k v] obtain s1 where s1: "SetParam s k v = Inr s1" "params_inv s1"
      "map_of (zip (pnames s1) (pvalues s1)) = (map_of (zip (pnames s) (pvalues s)))(k \<mapsto> v)" by blast
    have "(map_of (zip (pnames s) (pvalues s)))(k \<mapsto> v) ++ map_of (rev kvs) =
        map_of (zip (pnames s) (pvalues s)) ++ map_of (rev (kv # kvs))"
      by (auto simp: kv map_add_def fun_eq_iff split: option.split)
    with Cons.IH [OF s1(2)] s1(3) have "\<exists>inp. put_all SetParam s1 kvs = Inr inp \<and> params_inv inp \<and>
        map_of (zip (pnames inp) (pvalues inp)) = map_of (zip (pnames s) (pvalues s)) ++ map_of (rev (kv # kvs))"
      by metis
    with s1(1) kv show ?case by simp
  qed simp
  from this [OF params_inv_ResetParams, of inp0] obtain inp where inp: "put_all SetParam (ResetParams inp0) kvs = Inr inp"
    "params_inv inp" "map_of (zip (pnames inp) (pvalues inp)) = map_of (rev kvs)"
    by (auto simp: ResetParams_def)
  then have eq: "length (pnames inp) = length (pvalues inp)" "distinct (pnames inp)" by (auto simp: params_inv_def)
  have "Params inp = Inr (map_of (rev kvs))"
    using Params_loop_eq [of 0 "pnames inp" "pvalues inp" Map.empty] inp eq by (simp add: Params_def)
  moreover have "set (pnames inp) = fst ` set kvs"
    using arg_cong [OF inp(3), of dom] eq dom_map_of_zip [OF eq(1)] by (simp add: dom_map_of_conv_image_fst)
  then have "ParamsLen inp = card (fst ` set kvs)"
    using eq distinct_card [of "pnames inp"] by (simp add: ParamsLen_def)
  ultimately show ?thesis using inp by (auto simp: Param_lookup)
qed

end
