(* ===== verification/Router_Tree.thy ===== *)
theory Router_Tree
  imports Input_Params Go_Path
begin

text \<open>
  The routing tree of \<^verbatim>\<open>server/web/tree.go\<close>: splitting of route patterns, insertion of a
  route and the matching of a request path, which binds the route parameters in the request's
  \<^typ>\<open>BeegoInput\<close>. The objects that routes lead to are an arbitrary type (\<^const>\<open>None\<close> is
  Go's nil); the regular expression engine is a parameter. Go strings are bytes: the loop of
  \<^verbatim>\<open>splitSegment\<close> over the runes of a segment does the same on the bytes of valid UTF-8.
  Slices of parameter names are values here, so the sharing of spare capacity by the two
  insertions of an optional segment is not represented.
\<close>

section \<open>Patterns\<close>

definition allowSuffixExt :: "string list" where
  "allowSuffixExt = [''.json'', ''.xml'', ''.html'']"

definition splitPath :: "string \<Rightarrow> string list" where
  "splitPath key = (let key = trim key ''/ '' in if key = [] then [] else split key ''/'')"

record seg_state =
  paramsNum :: nat
  out :: string
  start :: bool
  startexp :: bool
  param :: string
  expt :: string
  skipnum :: nat
  params :: "string list"

definition seg_init :: seg_state where
  "seg_init = \<lparr>paramsNum = 0, out = [], start = False, startexp = False, param = [], expt = [],
     skipnum = 0, params = []\<rparr>"

definition param_char :: "char \<Rightarrow> bool" where
  "param_char c = (let n = of_char c :: nat in
     48 \<le> n \<and> n \<le> 57 \<or> 65 \<le> n \<and> n \<le> 90 \<or> 97 \<le> n \<and> n \<le> 122 \<or> n = 95)"

definition end_param :: "string \<Rightarrow> nat \<Rightarrow> seg_state \<Rightarrow> seg_state" where
  "end_param re skip st = st\<lparr>out := out st @ re, params := params st @ ['':'' @ param st],
     start := False, startexp := False, skipnum := skip, param := [], paramsNum := Suc (paramsNum st)\<rparr>"

text \<open>The part of the loop body after the tests for a running parameter or expression.\<close>

definition seg_plain :: "string \<Rightarrow> nat \<Rightarrow> char \<Rightarrow> seg_state \<Rightarrow> seg_state" where
  "seg_plain key i v st =
     (if 0 < i \<and> key ! (i - 1) = CHR 0x5C then st\<lparr>out := out st @ [v]\<rparr>
      else if v = CHR '':'' then st\<lparr>param := [], start := True\<rparr>
      else if v = CHR ''('' then
        (let st = st\<lparr>startexp := True, start := False\<rparr>;
             st = (if param st \<noteq> [] then st\<lparr>params := params st @ ['':'' @ param st], param := []\<rparr> else st)
         in st\<lparr>paramsNum := Suc (paramsNum st), expt := ''(''\<rparr>)
      else if v = CHR '')'' then
        st\<lparr>startexp := False, expt := expt st @ '')'', out := out st @ expt st @ '')'', param := []\<rparr>
      else if v = CHR ''?'' then st\<lparr>params := params st @ ['':'']\<rparr>
      else st\<lparr>out := out st @ [v]\<rparr>)"

definition seg_expr :: "string \<Rightarrow> nat \<Rightarrow> char \<Rightarrow> seg_state \<Rightarrow> seg_state" where
  "seg_expr key i v st =
     (if startexp st \<and> v \<noteq> CHR '')'' then st\<lparr>expt := expt st @ [v]\<rparr> else seg_plain key i v st)"

definition seg_step :: "string \<Rightarrow> nat \<Rightarrow> char \<Rightarrow> seg_state \<Rightarrow> seg_state" where
  "seg_step key i v st =
     (if 0 < skipnum st then st\<lparr>skipnum := skipnum st - 1\<rparr>
      else if start st then
        (if v = CHR '':'' \<and> i + 4 \<le> length key \<and> take 3 (drop (i + 1) key) = ''int'' then
           end_param ''([0-9]+)'' 3 st
         else if v = CHR '':'' \<and> i + 7 \<le> length key \<and> take 6 (drop (i + 1) key) = ''string'' then
           end_param ([CHR ''('', CHR ''['', CHR 0x5C] @ ''w]+)'') 6 st
         else if param_char v then st\<lparr>param := param st @ [v]\<rparr>
         else if v \<noteq> CHR ''('' then seg_expr key i v (end_param ''(.+)'' 0 st)
         else seg_expr key i v st)
      else seg_expr key i v st)"

fun seg_loop :: "string \<Rightarrow> nat \<Rightarrow> string \<Rightarrow> seg_state \<Rightarrow> seg_state" where
  "seg_loop key i [] st = st"
| "seg_loop key i (v # vs) st = seg_loop key (Suc i) vs (seg_step key i v st)"

definition splitSegment :: "string \<Rightarrow> bool \<times> string list \<times> string" where
  "splitSegment key =
     (if has_prefix key ''*'' then
        (if key = ''*.*'' then (True, [''.'', '':path'', '':ext''], []) else (True, ['':splat''], []))
      else if CHR '':'' \<in> set key then
        (let st = seg_loop key 0 key seg_init
         in if param st \<noteq> [] then
              (True, params st @ ['':'' @ param st], if 0 < paramsNum st then out st @ ''(.+)'' else out st)
            else (True, params st, out st))
      else (False, [], []))"

section \<open>The tree\<close>

record 'a leafInfo =
  wildcards :: "string list"
  regexps :: "string option"
  runObject :: "'a option"

datatype 'a Tree = Tree (prefix: string) (fixrouters: "'a Tree list") (wildcard: "'a Tree option")
  (leaves: "'a leafInfo list")

definition NewTree :: "'a Tree" where
  "NewTree = Tree [] [] None []"

datatype tree_panic =
    BadRegexp string          \<comment> \<open>regexp.MustCompile\<close>
  | BadIndex int nat          \<comment> \<open>index, length\<close>
  | BadParam index_panic

text \<open>
  The standard library's regular expressions: which sources compile, and the submatches of a
  text (\<^verbatim>\<open>FindStringSubmatch\<close>; \<^const>\<open>None\<close> when \<^verbatim>\<open>MatchString\<close> is false).
\<close>

record regexp_engine =
  re_compiles :: "string \<Rightarrow> bool"
  re_submatch :: "string \<Rightarrow> string \<Rightarrow> string list option"

definition MustCompile :: "regexp_engine \<Rightarrow> string \<Rightarrow> tree_panic + string" where
  "MustCompile E src = (if re_compiles E src then Inr src else Inl (BadRegexp src))"

definition no_regexps :: regexp_engine where
  "no_regexps = \<lparr>re_compiles = (\<lambda>_. False), re_submatch = (\<lambda>_ _. None)\<rparr>"

section \<open>Insertion\<close>

fun wild_regexp :: "string list \<Rightarrow> string" where
  "wild_regexp [] = []"
| "wild_regexp (w # ws) = (if w = '':splat'' then ''(.+)/'' else ''([^/]+)/'') @ wild_regexp ws"

text \<open>The expression and the parameters that a wildcard segment adds to the route so far.\<close>

definition wild_segment ::
    "string \<Rightarrow> string list \<Rightarrow> string \<Rightarrow> string list \<Rightarrow> string \<Rightarrow> string list \<times> string" where
  "wild_segment seg ps regexpStr ws reg =
     (if regexpStr \<noteq> [] then
        (ps, if reg = [] then wild_regexp ws @ regexpStr else ''/'' @ regexpStr)
      else if reg \<noteq> [] then
        (if seg = ''*.*'' then (tl ps, ''/([^.]+).(.+)'')
         else (ps, concat (map (\<lambda>_. ''/([^/]+)'') ps)))
      else (if seg = ''*.*'' then tl ps else ps, regexpStr))"

definition newLeaf :: "regexp_engine \<Rightarrow> 'a option \<Rightarrow> string list \<Rightarrow> string \<Rightarrow> tree_panic + 'a leafInfo" where
  "newLeaf E route ws reg =
     (if reg \<noteq> [] then res_bind (MustCompile E (''^'' @ reg @ ''$''))
        (\<lambda>re. Inr \<lparr>wildcards = ws, regexps = Some re, runObject = route\<rparr>)
      else Inr \<lparr>wildcards = ws, regexps = None, runObject = route\<rparr>)"

text \<open>The first fixed subtree with a prefix is updated, or a new one is appended.\<close>

fun update_fix :: "string \<Rightarrow> ('a Tree \<Rightarrow> tree_panic + 'a Tree) \<Rightarrow> 'a Tree list \<Rightarrow> tree_panic + 'a Tree list" where
  "update_fix seg f [] = res_bind (f (Tree seg [] None [])) (\<lambda>t. Inr [t])"
| "update_fix seg f (t # ts) =
     (if prefix t = seg then res_bind (f t) (\<lambda>t'. Inr (t' # ts))
      else res_bind (update_fix seg f ts) (\<lambda>ts'. Inr (t # ts')))"

fun addseg :: "regexp_engine \<Rightarrow> string list \<Rightarrow> 'a option \<Rightarrow> string list \<Rightarrow> string \<Rightarrow> 'a Tree \<Rightarrow> tree_panic + 'a Tree" where
  "addseg E [] route ws reg t =
     res_bind (newLeaf E route ws reg)
       (\<lambda>l. Inr (Tree (prefix t) (fixrouters t) (wildcard t) (l # leaves t)))"
| "addseg E (seg # segs) route ws reg t =
     (let (iswild, ps, regexpStr) = splitSegment seg;
          optional = (ps \<noteq> [] \<and> hd ps = '':'')
      in res_bind (if optional then addseg E segs route ws reg t else Inr t) (\<lambda>t.
        let ps = (if optional then tl ps else ps);
            splatted = (\<not> iswild \<and> '':splat'' \<in> set ws);
            iswild = (iswild \<or> splatted);
            regexpStr = (if splatted then seg else regexpStr);
            regexpStr = (if seg = ''*'' \<and> ws \<noteq> [] \<and> reg = [] then ''(.+)'' else regexpStr)
        in if iswild then
             (let (ps, regexpStr) = wild_segment seg ps regexpStr ws reg;
                  sub = (case wildcard t of None \<Rightarrow> NewTree | Some w \<Rightarrow> w)
              in res_bind (addseg E segs route (ws @ ps) (reg @ regexpStr) sub)
                   (\<lambda>w. Inr (Tree (prefix t) (fixrouters t) (Some w) (leaves t))))
           else
             res_bind (update_fix seg (addseg E segs route ws reg) (fixrouters t))
               (\<lambda>fs. Inr (Tree (prefix t) fs (wildcard t) (leaves t)))))"

definition AddRouter :: "regexp_engine \<Rightarrow> 'a Tree \<Rightarrow> string \<Rightarrow> 'a option \<Rightarrow> tree_panic + 'a Tree" where
  "AddRouter E t pattern route = addseg E (splitPath pattern) route [] [] t"

section \<open>Matching\<close>

definition set_param :: "BeegoInput \<Rightarrow> string \<Rightarrow> string \<Rightarrow> tree_panic + BeegoInput" where
  "set_param inp k v = (case SetParam inp k v of Inl e \<Rightarrow> Inl (BadParam e) | Inr inp' \<Rightarrow> Inr inp')"

definition slice_nth :: "string list \<Rightarrow> int \<Rightarrow> tree_panic + string" where
  "slice_nth xs i = (if 0 \<le> i \<and> i < int (length xs) then Inr (xs ! nat i) else Inl (BadIndex i (length xs)))"

text \<open>SetParam for the leaf's names from an index on, each with the value at the same index.\<close>

fun set_params :: "string list \<Rightarrow> string list \<Rightarrow> nat \<Rightarrow> BeegoInput \<Rightarrow> tree_panic + BeegoInput" where
  "set_params [] vals i inp = Inr inp"
| "set_params (w # ws) vals i inp =
     res_bind (slice_nth vals (int i)) (\<lambda>v.
     res_bind (set_param inp w v) (\<lambda>inp. set_params ws vals (Suc i) inp))"

text \<open>SetParam for as many names as there are submatches.\<close>

fun set_matches :: "string list \<Rightarrow> string list \<Rightarrow> BeegoInput \<Rightarrow> tree_panic + BeegoInput" where
  "set_matches (w # ws) (m # ms) inp = res_bind (set_param inp w m) (\<lambda>inp. set_matches ws ms inp)"
| "set_matches ws ms inp = Inr inp"

definition path_ext :: "string list \<Rightarrow> string list \<Rightarrow> BeegoInput \<Rightarrow> tree_panic + BeegoInput" where
  "path_ext names vals inp =
     res_bind (set_params names vals 0 inp) (\<lambda>inp.
     res_bind (slice_nth vals (int (length vals) - 1)) (\<lambda>lastone.
     let strs = splitn2 lastone ''.''; index = length names in
     res_bind (if length strs = 2 then set_param inp '':ext'' (strs ! 1) else Inr inp) (\<lambda>inp.
       if int index > int (length vals) - 1 then set_param inp '':path'' []
       else set_param inp '':path''
         (path_Join [path_Join (drop index (butlast vals)), strs ! 0]))))"

definition leaf_match :: "regexp_engine \<Rightarrow> 'a leafInfo \<Rightarrow> string \<Rightarrow> string list \<Rightarrow> BeegoInput \<Rightarrow>
    tree_panic + (bool \<times> BeegoInput)" where
  "leaf_match E leaf treePattern vals inp =
     (let ws = wildcards leaf; n = length ws; yes = (\<lambda>r. res_bind r (\<lambda>inp. Inr (True, inp))) in
      case regexps leaf of
        None \<Rightarrow>
          if vals = [] \<and> ws = [] then Inr (True, inp)
          else if ws = ['':splat''] then yes (set_param inp '':splat'' treePattern)
          else if 2 \<le> n \<and> ws ! (n - 2) = '':path'' \<and> ws ! (n - 1) = '':ext'' then
            (if n = 2 then yes (path_ext [] vals inp)
             else if length vals < 2 then Inr (False, inp)
             else yes (path_ext (take (n - 2) ws) vals inp))
          else if n \<noteq> length vals then Inr (False, inp)
          else yes (set_params ws vals 0 inp)
      | Some re \<Rightarrow>
          (case re_submatch E re (path_Join vals) of
             None \<Rightarrow> Inr (False, inp)
           | Some ms \<Rightarrow> yes (set_matches ws (tl ms) inp)))"

fun match_leaves :: "regexp_engine \<Rightarrow> 'a leafInfo list \<Rightarrow> string \<Rightarrow> string list \<Rightarrow> BeegoInput \<Rightarrow>
    tree_panic + ('a leafInfo option \<times> BeegoInput)" where
  "match_leaves E [] treePattern vals inp = Inr (None, inp)"
| "match_leaves E (l # ls) treePattern vals inp =
     res_bind (leaf_match E l treePattern vals inp) (\<lambda>(ok, inp).
       if ok then Inr (Some l, inp) else match_leaves E ls treePattern vals inp)"

text \<open>The values of the segments that remain in a pattern (which is empty or starts with a slash).\<close>

fun rest_values :: "string \<Rightarrow> nat \<Rightarrow> nat \<Rightarrow> string \<Rightarrow> string list \<Rightarrow> string list" where
  "rest_values pattern st i [] vals =
     (if 0 < st then vals @ [drop st pattern] else vals)"
| "rest_values pattern st i (c # cs) vals =
     (if c = CHR ''/'' then
        rest_values pattern (Suc i) (Suc i) cs
          (if i \<noteq> 0 \<and> st < length pattern then vals @ [drop st (take i pattern)] else vals)
      else rest_values pattern st (Suc i) cs vals)"

definition strip_slashes :: "string \<Rightarrow> string" where
  "strip_slashes p = dropWhile (\<lambda>c. c = CHR ''/'') p"

definition first_seg :: "string \<Rightarrow> string" where
  "first_seg p = takeWhile (\<lambda>c. c \<noteq> CHR ''/'') p"

definition after_seg :: "string \<Rightarrow> string" where
  "after_seg p = dropWhile (\<lambda>c. c \<noteq> CHR ''/'') p"

text \<open>
  The recursive search. \<^term>\<open>match_fix\<close> is the loop over the fixed subtrees, which also leaves
  the last assigned \<^verbatim>\<open>treePattern\<close> behind; \<^term>\<open>match_ext\<close> and \<^term>\<open>match_sub\<close> are
  the two loops over the suffixes and the subtrees, which run to their ends. A segment is never
  empty here, since the leading slashes were removed before it was cut.
\<close>

function (sequential) tree_match :: "regexp_engine \<Rightarrow> 'a Tree \<Rightarrow> string \<Rightarrow> string \<Rightarrow> string list \<Rightarrow> BeegoInput \<Rightarrow>
      tree_panic + ('a option \<times> BeegoInput)"
  and match_fix :: "regexp_engine \<Rightarrow> 'a Tree list \<Rightarrow> string \<Rightarrow> string \<Rightarrow> string \<Rightarrow> string list \<Rightarrow> BeegoInput \<Rightarrow>
      tree_panic + ('a option \<times> string \<times> BeegoInput)"
  and match_ext :: "regexp_engine \<Rightarrow> string list \<Rightarrow> 'a Tree list \<Rightarrow> string \<Rightarrow> string \<Rightarrow> string \<Rightarrow> string list \<Rightarrow>
      'a option \<Rightarrow> BeegoInput \<Rightarrow> tree_panic + ('a option \<times> BeegoInput)"
  and match_sub :: "regexp_engine \<Rightarrow> string \<Rightarrow> 'a Tree list \<Rightarrow> string \<Rightarrow> string \<Rightarrow> string \<Rightarrow> string list \<Rightarrow>
      'a option \<Rightarrow> BeegoInput \<Rightarrow> tree_panic + ('a option \<times> BeegoInput)"
where
  "tree_match E (Tree pre fixs wild lvs) treePattern pattern0 vals inp =
     (let pattern1 = strip_slashes pattern0 in
      if pattern1 = [] then
        res_bind (match_leaves E lvs treePattern vals inp) (\<lambda>(r, inp).
          case r of
            Some l \<Rightarrow> Inr (runObject l, inp)
          | None \<Rightarrow>
              (case wild of
                 None \<Rightarrow> Inr (None, inp)
               | Some w \<Rightarrow> res_bind (match_leaves E (leaves w) treePattern vals inp) (\<lambda>(r, inp).
                   Inr (case r of Some l \<Rightarrow> runObject l | None \<Rightarrow> None, inp))))
      else
        (let seg = first_seg pattern1; pattern = after_seg pattern1 in
         res_bind (match_fix E fixs seg pattern treePattern vals inp) (\<lambda>(r, treePattern, inp).
         res_bind (if r = None then match_ext E allowSuffixExt fixs seg treePattern pattern vals r inp
                   else Inr (r, inp)) (\<lambda>(r, inp).
         res_bind (case (r, wild) of
                     (None, Some w) \<Rightarrow> tree_match E w treePattern pattern (vals @ [seg]) inp
                   | _ \<Rightarrow> Inr (r, inp)) (\<lambda>(r, inp).
         if r = None \<and> lvs \<noteq> [] then
           res_bind (match_leaves E lvs treePattern (rest_values pattern 0 0 pattern (vals @ [seg])) inp)
             (\<lambda>(r, inp). Inr (case r of Some l \<Rightarrow> runObject l | None \<Rightarrow> None, inp))
         else Inr (r, inp))))))"
| "match_fix E [] seg pattern treePattern vals inp = Inr (None, treePattern, inp)"
| "match_fix E (t # ts) seg pattern treePattern vals inp =
     (if prefix t = seg then
        (let treePattern = (if pattern \<noteq> [] \<and> hd pattern = CHR ''/'' then tl pattern else pattern) in
         res_bind (tree_match E t treePattern pattern vals inp) (\<lambda>(r, inp).
           if r \<noteq> None then Inr (r, treePattern, inp)
           else match_fix E ts seg pattern treePattern vals inp))
      else match_fix E ts seg pattern treePattern vals inp)"
| "match_ext E [] fixs seg treePattern pattern vals r inp = Inr (r, inp)"
| "match_ext E (str # strs) fixs seg treePattern pattern vals r inp =
     res_bind (if has_suffix seg str \<and> pattern = []
               then match_sub E str fixs seg treePattern pattern vals r inp else Inr (r, inp))
       (\<lambda>(r, inp). match_ext E strs fixs seg treePattern pattern vals r inp)"
| "match_sub E str [] seg treePattern pattern vals r inp = Inr (r, inp)"
| "match_sub E str (t # ts) seg treePattern pattern vals r inp =
     (if prefix t = take (length seg - length str) seg then
        res_bind (tree_match E t treePattern pattern vals inp) (\<lambda>(r, inp).
        res_bind (if r \<noteq> None then set_param inp '':ext'' (tl str) else Inr inp) (\<lambda>inp.
          match_sub E str ts seg treePattern pattern vals r inp))
      else match_sub E str ts seg treePattern pattern vals r inp)"
  by pat_completeness auto
termination
  by (relation "measures [\<lambda>x. case x of
        Inl (Inl (E, t, _)) \<Rightarrow> size t
      | Inl (Inr (E, ts, _)) \<Rightarrow> size_list size ts
      | Inr (Inl (E, strs, ts, _)) \<Rightarrow> size_list size ts
      | Inr (Inr (E, str, ts, _)) \<Rightarrow> size_list size ts,
      \<lambda>x. case x of
        Inl (Inl (E, t, _)) \<Rightarrow> 0
      | Inl (Inr (E, ts, _)) \<Rightarrow> 0
      | Inr (Inl (E, strs, ts, _)) \<Rightarrow> Suc (length strs)
      | Inr (Inr (E, str, ts, _)) \<Rightarrow> 0]")
    (auto split: option.splits)

definition Match :: "regexp_engine \<Rightarrow> 'a Tree \<Rightarrow> string \<Rightarrow> BeegoInput \<Rightarrow> tree_panic + ('a option \<times> BeegoInput)" where
  "Match E t pattern inp =
     (let pattern = path_Clean pattern in
      if pattern = [] \<or> hd pattern \<noteq> CHR ''/'' then Inr (None, inp)
      else tree_match E t (tl pattern) pattern [] inp)"

end
