(* ===== verification/Router_Static.thy ===== *)
theory Router_Static
  imports Router_Tree
begin

text \<open>
  Correctness of the routing tree: what \<^const>\<open>path_Clean\<close> leaves of a request path, and the
  refinement of a tree of static routes to a finite map from segment lists to objects.
\<close>

section \<open>Paths and segments\<close>

definition ok_seg :: "string \<Rightarrow> bool" where
  "ok_seg s \<longleftrightarrow> s \<noteq> [] \<and> CHR ''/'' \<notin> set s \<and> s \<noteq> ''.'' \<and> s \<noteq> ''..''"

lemma ok_seg_nonempty: "ok_seg s \<Longrightarrow> s \<noteq> []"
  by (simp add: ok_seg_def)

text \<open>The segments of a rooted path after cleaning, and the text of a list of segments.\<close>

definition clean_segs :: "string \<Rightarrow> string list" where
  "clean_segs p = rev (fold (clean_push True) (split p ''/'') [])"

fun url_of :: "string list \<Rightarrow> string" where
  "url_of [] = []"
| "url_of (s # ss) = CHR ''/'' # s @ url_of ss"

lemma clean_push_ok:
  "list_all ok_seg st \<Longrightarrow> CHR ''/'' \<notin> set c \<Longrightarrow> list_all ok_seg (clean_push True c st)"
  by (cases st) (auto simp: clean_push_def ok_seg_def)

lemma fold_clean_push_ok:
  "list_all ok_seg st \<Longrightarrow> \<forall>c \<in> set cs. CHR ''/'' \<notin> set c \<Longrightarrow> list_all ok_seg (fold (clean_push True) cs st)"
  by (induction cs arbitrary: st) (auto simp: clean_push_ok)

lemma clean_segs_ok: "list_all ok_seg (clean_segs p)"
  using fold_clean_push_ok [of "[]" "split p ''/''"] split_single_parts
  by (fastforce simp: clean_segs_def list_all_iff)

lemma path_Clean_rooted:
  "path_Clean (CHR ''/'' # p) = CHR ''/'' # join ''/'' (clean_segs (CHR ''/'' # p))"
  by (simp add: path_Clean_def clean_segs_def Let_def)

lemma fold_clean_push_id:
  "list_all ok_seg cs \<Longrightarrow> fold (clean_push True) cs st = rev cs @ st"
  by (induction cs arbitrary: st) (auto simp: clean_push_def ok_seg_def)

lemma join_url: "ss \<noteq> [] \<Longrightarrow> CHR ''/'' # join ''/'' ss = url_of ss"
  by (induction "''/''" ss rule: join.induct) auto

lemma clean_segs_url:
  assumes "list_all ok_seg ss"
  shows "clean_segs (CHR ''/'' # join ''/'' ss) = ss"
proof (cases "ss = []")
  case True
  then show ?thesis by (simp add: clean_segs_def split_def has_prefix_def clean_push_def)
next
  case False
  from assms have "split (join ''/'' ss) ''/'' = ss"
    by (intro split_join_single False) (auto simp: list_all_iff ok_seg_def)
  moreover have "split (CHR ''/'' # join ''/'' ss) ''/'' = [] # split (join ''/'' ss) ''/''"
    using split_single_append [of "CHR ''/''" "[]" "join ''/'' ss"] by simp
  ultimately show ?thesis
    using assms by (simp add: clean_segs_def fold_clean_push_id clean_push_def)
qed

text \<open> Cleaning a rooted path gives a rooted path whose segments are neither empty nor a
  dot nor a double dot, and cleaning again changes nothing.\<close>

theorem path_Clean_normal:
  "path_Clean (CHR ''/'' # p) = CHR ''/'' # join ''/'' (clean_segs (CHR ''/'' # p)) \<and>
   list_all ok_seg (clean_segs (CHR ''/'' # p)) \<and>
   path_Clean (path_Clean (CHR ''/'' # p)) = path_Clean (CHR ''/'' # p)"
  using clean_segs_url [OF clean_segs_ok] by (simp add: path_Clean_rooted clean_segs_ok)

lemma strip_slashes_url [simp]:
  "ok_seg s \<Longrightarrow> strip_slashes (CHR ''/'' # s @ r) = s @ r"
  by (cases s) (auto simp: strip_slashes_def ok_seg_def)

lemma url_of_shape: "url_of ss = [] \<or> (\<exists>r. url_of ss = CHR ''/'' # r)"
  by (cases ss) auto

lemma first_seg_append: "CHR ''/'' \<notin> set s \<Longrightarrow> first_seg (s @ CHR ''/'' # r) = s"
  by (induction s) (auto simp: first_seg_def)

lemma after_seg_append: "CHR ''/'' \<notin> set s \<Longrightarrow> after_seg (s @ CHR ''/'' # r) = CHR ''/'' # r"
  by (induction s) (auto simp: after_seg_def)

lemma first_seg_all: "CHR ''/'' \<notin> set s \<Longrightarrow> first_seg s = s"
  by (auto simp: first_seg_def takeWhile_eq_all_conv)

lemma after_seg_all: "CHR ''/'' \<notin> set s \<Longrightarrow> after_seg s = []"
  by (auto simp: after_seg_def)

lemma first_seg_url [simp]: "ok_seg s \<Longrightarrow> first_seg (s @ url_of ss) = s"
  by (cases ss) (auto simp: first_seg_append ok_seg_def first_seg_all)

lemma after_seg_url [simp]: "ok_seg s \<Longrightarrow> after_seg (s @ url_of ss) = url_of ss"
  by (cases ss) (auto simp: after_seg_append ok_seg_def after_seg_all)

lemma url_of_Nil_iff [simp]: "url_of ss = [] \<longleftrightarrow> ss = []"
  by (cases ss) auto

lemma hd_url_of [simp]: "ss \<noteq> [] \<Longrightarrow> hd (url_of ss) = CHR ''/''"
  by (cases ss) auto

lemma strip_slashes_simps [simp]: "strip_slashes [] = []" "strip_slashes ''/'' = []"
  by (simp_all add: strip_slashes_def)

text \<open>The values that remain are the segments that remain.\<close>

lemma rest_values_word:
  "CHR ''/'' \<notin> set s \<Longrightarrow> rest_values p st i (s @ cs) vals = rest_values p st (i + length s) cs vals"
  by (induction s arbitrary: i) auto

lemma rest_values_url_gen:
  assumes "list_all ok_seg ss" "p = pre @ s @ url_of ss" "CHR ''/'' \<notin> set s" "pre \<noteq> []" "s \<noteq> []"
  shows "rest_values p (length pre) (length pre) (s @ url_of ss) vals = vals @ s # ss"
  using assms
proof (induction ss arbitrary: pre s vals)
  case Nil
  then show ?case using rest_values_word [of s p "length pre" "length pre" "[]"] by simp
next
  case (Cons s' ss)
  have eq: "p = (pre @ s @ ''/'') @ s' @ url_of ss" using Cons.prems by simp
  have len: "Suc (length pre + length s) = length (pre @ s @ ''/'')" by simp
  have "rest_values p (length pre) (length pre) (s @ url_of (s' # ss)) vals =
      rest_values p (length (pre @ s @ ''/'')) (length (pre @ s @ ''/'')) (s' @ url_of ss)
        (vals @ [drop (length pre) (take (length pre + length s) p)])"
    using Cons.prems(3-5) len by (simp add: rest_values_word Cons.prems(2))
  also have "drop (length pre) (take (length pre + length s) p) = s" by (simp add: Cons.prems(2))
  also have "rest_values p (length (pre @ s @ ''/'')) (length (pre @ s @ ''/'')) (s' @ url_of ss) (vals @ [s]) =
      (vals @ [s]) @ s' # ss"
    by (rule Cons.IH) (use Cons.prems eq in \<open>auto simp: ok_seg_def\<close>)
  finally show ?case by simp
qed

lemma rest_values_url:
  assumes "list_all ok_seg ss"
  shows "rest_values (url_of ss) 0 0 (url_of ss) vals = vals @ ss"
proof (cases ss)
  case (Cons s ss')
  with assms rest_values_url_gen [of ss' "url_of ss" "''/''" s vals] show ?thesis
    by (simp add: ok_seg_def)
qed simp

section \<open>Trees of static routes\<close>

definition static_leaf :: "'a leafInfo \<Rightarrow> bool" where
  "static_leaf l \<longleftrightarrow> wildcards l = [] \<and> regexps l = None \<and> runObject l \<noteq> None"

fun static_tree :: "'a Tree \<Rightarrow> bool" where
  "static_tree (Tree pre fixs wild lvs) \<longleftrightarrow>
     wild = None \<and> list_all static_leaf lvs \<and> distinct (map prefix fixs) \<and> list_all static_tree fixs"

definition static_seg :: "string \<Rightarrow> bool" where
  "static_seg s \<longleftrightarrow> \<not> has_prefix s ''*'' \<and> CHR '':'' \<notin> set s"

fun find_fix :: "string \<Rightarrow> 'a Tree list \<Rightarrow> 'a Tree option" where
  "find_fix s [] = None"
| "find_fix s (t # ts) = (if prefix t = s then Some t else find_fix s ts)"

text \<open>The map from segment lists to objects that a tree holds.\<close>

fun routes_at :: "'a Tree \<Rightarrow> string list \<Rightarrow> 'a option" where
  "routes_at t [] = (case leaves t of [] \<Rightarrow> None | l # _ \<Rightarrow> runObject l)"
| "routes_at t (s # ss) = (case find_fix s (fixrouters t) of None \<Rightarrow> None | Some t' \<Rightarrow> routes_at t' ss)"

lemma splitSegment_static: "static_seg s \<Longrightarrow> splitSegment s = (False, [], [])"
  by (simp add: splitSegment_def static_seg_def)

lemma find_fix_static: "list_all static_tree ts \<Longrightarrow> find_fix s ts = Some t \<Longrightarrow> static_tree t"
  by (induction ts) (auto split: if_splits)

lemma update_fix_static:
  assumes "\<And>u. static_tree u \<Longrightarrow> \<exists>u'. f u = Inr u' \<and> static_tree u' \<and> prefix u' = prefix u \<and> P u u'"
    and "list_all static_tree ts" "distinct (map prefix ts)"
  shows "\<exists>ts'. update_fix s f ts = Inr ts' \<and> list_all static_tree ts' \<and> distinct (map prefix ts') \<and>
    set (map prefix ts') = insert s (set (map prefix ts)) \<and>
    (\<exists>u'. find_fix s ts' = Some u' \<and> P (case find_fix s ts of None \<Rightarrow> Tree s [] None [] | Some u \<Rightarrow> u) u') \<and>
    (\<forall>x. x \<noteq> s \<longrightarrow> find_fix x ts' = find_fix x ts)"
  using assms(2,3)
proof (induction ts)
  case Nil
  from assms(1) [of "Tree s [] None []"] show ?case by auto
next
  case (Cons t ts)
  show ?case
  proof (cases "prefix t = s")
    case True
    with assms(1) [of t] Cons.prems show ?thesis by auto
  next
    case False
    with Cons obtain ts' where "update_fix s f ts = Inr ts'" "list_all static_tree ts'" "distinct (map prefix ts')"
      "set (map prefix ts') = insert s (set (map prefix ts))"
      "\<exists>u'. find_fix s ts' = Some u' \<and> P (case find_fix s ts of None \<Rightarrow> Tree s [] None [] | Some u \<Rightarrow> u) u'"
      "\<forall>x. x \<noteq> s \<longrightarrow> find_fix x ts' = find_fix x ts" by auto
    with False Cons.prems show ?thesis by auto
  qed
qed

lemma addseg_static:
  assumes "static_tree t" "list_all static_seg segs"
  shows "\<exists>t'. addseg E segs (Some r) [] [] t = Inr t' \<and> static_tree t' \<and> prefix t' = prefix t \<and>
    routes_at t' = (routes_at t)(segs \<mapsto> r)"
  using assms
proof (induction segs arbitrary: t)
  case Nil
  obtain pre fixs wild lvs where t: "t = Tree pre fixs wild lvs" by (cases t)
  let ?t = "Tree pre fixs wild (\<lparr>wildcards = [], regexps = None, runObject = Some r\<rparr> # lvs)"
  have "routes_at ?t x = ((routes_at t)([] \<mapsto> r)) x" for x
    by (cases x) (auto simp: t)
  then show ?case using Nil.prems t by (auto simp: newLeaf_def static_leaf_def)
next
  case (Cons seg segs)
  obtain pre fixs lvs where t: "t = Tree pre fixs None lvs" using Cons.prems by (cases t) auto
  have ne: "seg = ''*'' \<longleftrightarrow> False" using Cons.prems by (auto simp: static_seg_def has_prefix_def)
  have st: "list_all static_tree fixs" "distinct (map prefix fixs)" using Cons.prems t by simp_all
  have IH: "\<exists>u'. addseg E segs (Some r) [] [] u = Inr u' \<and> static_tree u' \<and> prefix u' = prefix u \<and>
      routes_at u' = (routes_at u)(segs \<mapsto> r)" if "static_tree u" for u
    using Cons.IH [OF that] Cons.prems(2) by (simp del: fun_upd_apply)
  from update_fix_static [where f = "addseg E segs (Some r) [] []" and s = seg and ts = fixs
      and P = "\<lambda>u u'. routes_at u' = (routes_at u)(segs \<mapsto> r)", OF IH st]
  obtain fs where fs: "update_fix seg (addseg E segs (Some r) [] []) fixs = Inr fs"
    "list_all static_tree fs" "distinct (map prefix fs)"
    "\<exists>u'. find_fix seg fs = Some u' \<and>
       routes_at u' = (routes_at (case find_fix seg fixs of None \<Rightarrow> Tree seg [] None [] | Some u \<Rightarrow> u))(segs \<mapsto> r)"
    "\<forall>x. x \<noteq> seg \<longrightarrow> find_fix x fs = find_fix x fixs" by blast
  let ?t = "Tree pre fs None lvs"
  have empty: "routes_at (Tree seg [] None [] :: 'a Tree) xs = None" for xs
    by (cases xs) auto
  have "routes_at ?t x = ((routes_at t)(seg # segs \<mapsto> r)) x" for x
  proof (cases x)
    case (Cons a xs)
    then show ?thesis using fs(4,5) by (cases "a = seg") (auto simp: t empty split: option.splits)
  qed (simp add: t)
  then have "routes_at ?t = (routes_at t)(seg # segs \<mapsto> r)" by blast
  moreover have "addseg E (seg # segs) (Some r) [] [] t = Inr ?t"
    using Cons.prems fs(1) ne by (simp add: splitSegment_static t)
  moreover have "static_tree ?t" using fs(2,3) t Cons.prems by simp
  ultimately show ?case using t by (intro exI [of _ ?t]) (simp only: Tree.sel simp_thms)
qed

section \<open>Matching on static trees\<close>

text \<open>
  A request ending in one of the allowed extensions is also served by the route without it,
  and then binds \<^verbatim>\<open>:ext\<close>; an exact route wins.
\<close>

definition ext_split :: "string \<Rightarrow> (string \<times> string) option" where
  "ext_split s = (case find (\<lambda>e. has_suffix s e) allowSuffixExt of
     None \<Rightarrow> None | Some e \<Rightarrow> Some (take (length s - length e) s, tl e))"

definition static_find :: "(string list \<Rightarrow> 'a option) \<Rightarrow> string list \<Rightarrow> BeegoInput \<Rightarrow>
    tree_panic + ('a option \<times> BeegoInput)" where
  "static_find m segs inp =
     (case m segs of
        Some r \<Rightarrow> Inr (Some r, inp)
      | None \<Rightarrow>
          if segs = [] then Inr (None, inp)
          else (case ext_split (last segs) of
                  None \<Rightarrow> Inr (None, inp)
                | Some (base, ext) \<Rightarrow>
                    (case m (butlast segs @ [base]) of
                       None \<Rightarrow> Inr (None, inp)
                     | Some r \<Rightarrow> res_bind (set_param inp '':ext'' ext) (\<lambda>inp. Inr (Some r, inp)))))"

lemma match_leaves_static:
  assumes "list_all static_leaf ls"
  shows "match_leaves E ls tp [] inp = Inr (case ls of [] \<Rightarrow> None | l # _ \<Rightarrow> Some l, inp)"
    and "vals \<noteq> [] \<Longrightarrow> match_leaves E ls tp vals inp = Inr (None, inp)"
  using assms by (induction ls) (auto simp: leaf_match_def static_leaf_def Let_def)

lemma ext_cases:
  obtains (none) "\<not> has_suffix s ''.json''" "\<not> has_suffix s ''.xml''" "\<not> has_suffix s ''.html''"
  | (json) "has_suffix s ''.json''" "\<not> has_suffix s ''.xml''" "\<not> has_suffix s ''.html''"
  | (xml) "\<not> has_suffix s ''.json''" "has_suffix s ''.xml''" "\<not> has_suffix s ''.html''"
  | (html) "\<not> has_suffix s ''.json''" "\<not> has_suffix s ''.xml''" "has_suffix s ''.html''"
proof -
  have l: "rev s ! i = rev p ! i" if "has_suffix s p" "i < length p" for p i
    using that by (auto simp: has_suffix_iff nth_append)
  from l [of "''.json''" 0] l [of "''.xml''" 0] l [of "''.html''" 0] l [of "''.xml''" 2] l [of "''.html''" 2]
  show thesis by (cases "has_suffix s ''.json''"; cases "has_suffix s ''.xml''"; cases "has_suffix s ''.html''")
      (auto intro: that)
qed

lemma match_sub_static:
  assumes "list_all static_tree ts" "distinct (map prefix ts)"
  shows "match_sub E str ts seg tp [] [] None inp =
    (case find_fix (take (length seg - length str) seg) ts of
       None \<Rightarrow> Inr (None, inp)
     | Some u \<Rightarrow> (case routes_at u [] of
                   None \<Rightarrow> Inr (None, inp)
                 | Some r \<Rightarrow> res_bind (set_param inp '':ext'' (tl str)) (\<lambda>inp. Inr (Some r, inp))))"
proof -
  have skip: "take (length seg - length str) seg \<notin> set (map prefix us) \<Longrightarrow>
      match_sub E str us seg tp [] [] r inp = Inr (r, inp)" for us :: "'a Tree list" and r inp
    by (induction us) auto
  show ?thesis
    using assms
  proof (induction ts)
    case (Cons u us)
    obtain pre fixs lvs where u: "u = Tree pre fixs None lvs" "list_all static_leaf lvs"
      using Cons.prems by (cases u) auto
    have m: "tree_match E u tp [] [] inp = Inr (routes_at u [], inp)"
      using u match_leaves_static [where E = E and tp = tp and inp = inp and ls = lvs] by (cases lvs) auto
    show ?case
    proof (cases "prefix u = take (length seg - length str) seg")
      case True
      with Cons.prems have "take (length seg - length str) seg \<notin> set (map prefix us)" by auto
      from skip [OF this] True m show ?thesis
        by (cases "set_param inp '':ext'' (tl str)") (auto split: option.splits)
    next
      case False
      with Cons show ?thesis by simp
    qed
  qed simp
qed

lemma match_ext_static:
  assumes "list_all static_tree ts" "distinct (map prefix ts)"
  shows "match_ext E allowSuffixExt ts seg tp [] [] None inp =
    (case ext_split seg of
       None \<Rightarrow> Inr (None, inp)
     | Some (base, ext) \<Rightarrow>
         (case find_fix base ts of
            None \<Rightarrow> Inr (None, inp)
          | Some u \<Rightarrow> (case routes_at u [] of
                        None \<Rightarrow> Inr (None, inp)
                      | Some r \<Rightarrow> res_bind (set_param inp '':ext'' ext) (\<lambda>inp. Inr (Some r, inp)))))"
  using match_sub_static [OF assms]
  by (cases seg rule: ext_cases)
    (auto simp: allowSuffixExt_def ext_split_def res_bind_def split: option.splits sum.splits)

lemma match_ext_inner: "pattern \<noteq> [] \<Longrightarrow> match_ext E strs ts seg tp pattern vals r inp = Inr (r, inp)"
  by (induction strs) auto

lemma match_fix_static:
  assumes "distinct (map prefix ts)"
  shows "\<exists>tp'. match_fix E ts seg pattern tp vals inp =
    (case find_fix seg ts of
       None \<Rightarrow> Inr (None, tp, inp)
     | Some u \<Rightarrow> res_bind (tree_match E u (if pattern \<noteq> [] \<and> hd pattern = CHR ''/'' then tl pattern else pattern)
                  pattern vals inp) (\<lambda>(r, inp). Inr (r, tp', inp)))"
proof -
  have skip: "seg \<notin> set (map prefix us) \<Longrightarrow>
      match_fix E us seg pattern tp vals inp = Inr (None, tp, inp)" for us :: "'a Tree list" and tp inp
    by (induction us) auto
  show ?thesis
    using assms
  proof (induction ts)
    case (Cons u us)
    show ?case
    proof (cases "prefix u = seg")
      case True
      with Cons.prems have "seg \<notin> set (map prefix us)" by auto
      with True skip show ?thesis
        by (auto simp: Let_def res_bind_def fun_eq_iff split: sum.splits prod.splits)
    next
      case False
      with Cons show ?thesis by simp
    qed
  qed simp
qed

lemma no_wild:
  "(\<lambda>(r, inp). case r of None \<Rightarrow> Inr (None, inp) | Some a \<Rightarrow> Inr (Some a, inp)) =
   (Inr :: 'a option \<times> BeegoInput \<Rightarrow> tree_panic + 'a option \<times> BeegoInput)"
  by (auto simp: fun_eq_iff split: option.split)

lemma tree_match_static:
  assumes "static_tree t" "list_all ok_seg segs"
  shows "tree_match E t tp (url_of segs) [] inp = static_find (routes_at t) segs inp"
  using assms
proof (induction segs arbitrary: t tp inp)
  case Nil
  then obtain pre fixs lvs where t: "t = Tree pre fixs None lvs" "list_all static_leaf lvs" by (cases t) auto
  then show ?case using match_leaves_static [where E = E and tp = tp and inp = inp and ls = lvs]
    by (cases lvs) (auto simp: static_find_def static_leaf_def split: option.splits)
next
  case (Cons s ss)
  then obtain pre fixs lvs where t: "t = Tree pre fixs None lvs" and lvs: "list_all static_leaf lvs" 
    and fx: "list_all static_tree fixs" "distinct (map prefix fixs)" by (cases t) auto
  have ok: "ok_seg s" "list_all ok_seg ss" using Cons.prems by simp_all
  then have ne: "s \<noteq> []" by (auto simp: ok_seg_def)
  have vals: "rest_values p 0 0 q [s] \<noteq> []" for p q
  proof -
    have "rest_values p' k i q vs \<noteq> []" if "vs \<noteq> []" for p' k i vs
      using that by (induction p' k i q vs rule: rest_values.induct) auto
    then show ?thesis by simp
  qed
  note leaf = match_leaves_static(2) [OF lvs vals]
  from match_fix_static [OF fx(2), of E s "url_of ss" tp "[]" inp] obtain tp' where
    mf: "match_fix E fixs s (url_of ss) tp [] inp =
      (case find_fix s fixs of None \<Rightarrow> Inr (None, tp, inp)
       | Some u \<Rightarrow> res_bind (static_find (routes_at u) ss inp) (\<lambda>(r, inp). Inr (r, tp', inp)))"
    using Cons.IH [OF find_fix_static [OF fx(1)] ok(2)] by (cases "find_fix s fixs") auto
  have unfold: "tree_match E t tp (url_of (s # ss)) [] inp =
      res_bind (match_fix E fixs s (url_of ss) tp [] inp) (\<lambda>(r, tp, inp).
      res_bind (if r = None then match_ext E allowSuffixExt fixs s tp (url_of ss) [] r inp else Inr (r, inp)) Inr)"
  proof -
    have bind: "res_bind x (\<lambda>(r, inp). if r = None \<and> lvs \<noteq> [] then Inr (None, inp) else Inr (r, inp)) = res_bind x Inr"
      for x :: "tree_panic + 'a option \<times> BeegoInput"
      by (cases x) auto
    show ?thesis
      unfolding t url_of.simps tree_match.simps Let_def using ok(1) ne
      by (simp add: leaf bind no_wild cong: if_cong option.case_cong)
  qed
  show ?case
  proof (cases "ss = []")
    case True
    then have "match_ext E allowSuffixExt fixs s tp (url_of ss) [] None inp =
        (case ext_split s of None \<Rightarrow> Inr (None, inp)
         | Some (base, ext) \<Rightarrow> (case routes_at t [base] of None \<Rightarrow> Inr (None, inp)
             | Some r \<Rightarrow> res_bind (set_param inp '':ext'' ext) (\<lambda>inp. Inr (Some r, inp))))" for tp
      using match_ext_static [OF fx, of E s tp inp]
      by (auto simp: t split: option.splits)
    then show ?thesis unfolding unfold mf using True
      by (cases "find_fix s fixs"; cases "routes_at t [s]")
        (auto simp: t static_find_def cong: option.case_cong)
  next
    case False
    then show ?thesis unfolding unfold mf using match_ext_inner [of "url_of ss" E allowSuffixExt fixs s]
      by (auto simp: t static_find_def res_bind_def split: option.splits sum.splits)
  qed
qed

lemma static_tree_New [simp]: "static_tree NewTree" "routes_at NewTree = Map.empty"
  by (simp add: NewTree_def, rule ext, case_tac x, simp_all add: NewTree_def)

definition add_static :: "regexp_engine \<Rightarrow> 'a Tree \<Rightarrow> string list \<Rightarrow> 'a \<Rightarrow> tree_panic + 'a Tree" where
  "add_static E t segs r = addseg E segs (Some r) [] [] t"

lemma add_static_spec:
  assumes "static_tree t" "list_all static_seg segs"
  shows "\<exists>t'. add_static E t segs r = Inr t' \<and> static_tree t' \<and> routes_at t' = (routes_at t)(segs \<mapsto> r)"
  using addseg_static [OF assms, of E r] unfolding add_static_def by blast

interpretation static_router: kv_store routes_at "add_static E" Some static_tree "list_all static_seg" for E
proof
  fix s :: "'a Tree" and k v
  assume s: "static_tree s" "list_all static_seg k"
  note spec = add_static_spec [OF s, of E v]
  show "\<exists>s'. add_static E s k v = Inr s' \<and> static_tree s'" using spec by blast
  fix s'
  assume "add_static E s k v = Inr s'"
  with spec have r: "routes_at s' = (routes_at s)(k \<mapsto> v)" by auto
  show "routes_at s' k = Some v" unfolding r by simp
  show "routes_at s' k' = routes_at s k'" if "k' \<noteq> k" for k' unfolding r using that by simp
qed

lemma Match_static:
  assumes "static_tree t"
  shows "Match E t (CHR ''/'' # p) inp = static_find (routes_at t) (clean_segs (CHR ''/'' # p)) inp"
proof (cases "clean_segs (CHR ''/'' # p) = []")
  case True
  obtain pre fixs lvs where t: "t = Tree pre fixs None lvs" using assms by (cases t) auto
  have "tree_match E t tp ''/'' [] inp = tree_match E t tp (url_of []) [] inp" for tp
    by (simp add: t)
  with True tree_match_static [OF assms, of "[]"] show ?thesis
    by (simp add: Match_def path_Clean_rooted)
next
  case False
  with tree_match_static [OF assms clean_segs_ok] join_url [OF False] show ?thesis
    by (simp add: Match_def path_Clean_rooted Let_def)
qed

text \<open>C5. Registering any list of routes without parameters never panics, and the resulting
  tree answers every rooted request path the way a finite map from segment lists to objects
  does: the cleaned path is looked up, the last registration of a path wins, and if there is no
  such route and the path ends in .json, .xml or .html, the route without that suffix is taken
  and :ext is set.\<close>

theorem static_routes_refine_map:
  assumes "list_all (\<lambda>(pattern, r). list_all static_seg (splitPath pattern)) routes"
  shows "\<exists>t. put_all (\<lambda>t pattern r. AddRouter E t pattern (Some r)) NewTree routes = Inr t \<and>
    (\<forall>p inp. Match E t (CHR ''/'' # p) inp =
       static_find (map_of (rev (map (\<lambda>(pattern, r). (splitPath pattern, r)) routes)))
         (clean_segs (CHR ''/'' # p)) inp)"
proof -
  let ?kvs = "map (\<lambda>(pattern, r). (splitPath pattern, r)) routes"
  have eq: "put_all (\<lambda>t pattern r. AddRouter E t pattern (Some r)) t routes = put_all (add_static E) t ?kvs" for t
    by (induction routes arbitrary: t) (auto simp: AddRouter_def add_static_def res_bind_def split: sum.splits)
  have "list_all (\<lambda>(k, v). list_all static_seg k) ?kvs"
    using assms by (auto simp: list_all_iff)
  from static_router.put_all_ok [OF static_tree_New(1) this, of E] obtain t where
    t: "put_all (add_static E) NewTree ?kvs = Inr t" "static_tree t"
    "\<And>k. routes_at t k = (case map_of (rev ?kvs) k of Some v \<Rightarrow> Some v | None \<Rightarrow> routes_at NewTree k)" by auto
  have "routes_at t = map_of (rev ?kvs)"
    by (rule ext) (simp add: t(3) split: option.split)
  with t eq Match_static [OF t(2)] show ?thesis by auto
qed

theorem static_routes_refine_map_witness:
  "\<exists>t. put_all (\<lambda>t pattern r. AddRouter no_regexps t pattern (Some r)) NewTree [(''/user/list'', 1::nat), (''/'', 2)] = Inr t \<and>
     Match no_regexps t ''/user//./list.json'' new_input =
       Inr (Some 1, \<lparr>pnames = ['':ext''], pvalues = [''json'']\<rparr>)"
proof -
  have "list_all (\<lambda>(pattern, r :: nat). list_all static_seg (splitPath pattern)) [(''/user/list'', 1), (''/'', 2)]"
    by (simp add: static_seg_def splitPath_def go_eval)
  from static_routes_refine_map [OF this, of no_regexps] obtain t where
    t: "put_all (\<lambda>t pattern r. AddRouter no_regexps t pattern (Some r)) NewTree [(''/user/list'', 1::nat), (''/'', 2)] = Inr t"
    "\<And>p inp. Match no_regexps t (CHR ''/'' # p) inp =
       static_find (map_of (rev (map (\<lambda>(pattern, r). (splitPath pattern, r)) [(''/user/list'', 1), (''/'', 2)])))
         (clean_segs (CHR ''/'' # p)) inp" by blast
  have "clean_segs ''/user//./list.json'' = [''user'', ''list.json'']"
    by (simp add: clean_segs_def clean_push_def go_eval)
  then have "Match no_regexps t ''/user//./list.json'' new_input =
       Inr (Some 1, \<lparr>pnames = ['':ext''], pvalues = [''json'']\<rparr>)"
    unfolding t(2)
    by (simp add: static_find_def splitPath_def ext_split_def allowSuffixExt_def set_param_def SetParam_def
        new_input_def go_eval)
  with t(1) show ?thesis by blast
qed

end
