(* ===== verification/Router_Params.thy ===== *)
theory Router_Params
  imports Router_Static
begin

text \<open>
  Routes with named parameters: registering a route of fixed and \<^verbatim>\<open>:name\<close> segments and
  matching a request binds every name to its segment. The last section holds two behaviours of
  the catch-all routes \<^verbatim>\<open>*.*\<close> and \<^verbatim>\<open>*\<close> that the route documentation does not promise.
\<close>

datatype pat_seg = Fixed string | Named string

fun seg_text :: "pat_seg \<Rightarrow> string" where
  "seg_text (Fixed s) = s"
| "seg_text (Named n) = CHR '':'' # n"

fun ok_pat :: "pat_seg \<Rightarrow> bool" where
  "ok_pat (Fixed s) \<longleftrightarrow> static_seg s"
| "ok_pat (Named n) \<longleftrightarrow> n \<noteq> [] \<and> list_all param_char n \<and> n \<noteq> ''splat'' \<and> n \<noteq> ''path''"

fun names_of :: "pat_seg list \<Rightarrow> string list" where
  "names_of [] = []"
| "names_of (Fixed s # ps) = names_of ps"
| "names_of (Named n # ps) = (CHR '':'' # n) # names_of ps"

text \<open>What a route promises: the values of its names on a request, and the extension it dropped.\<close>

fun route_vals :: "pat_seg list \<Rightarrow> string list \<Rightarrow> (string list \<times> string option) option" where
  "route_vals [] [] = Some ([], None)"
| "route_vals (Fixed s # ps) (v # vs) =
     (if v = s then route_vals ps vs
      else if ps = [] \<and> vs = [] then
        (case ext_split v of None \<Rightarrow> None | Some (base, e) \<Rightarrow> if base = s then Some ([], Some e) else None)
      else None)"
| "route_vals (Named n # ps) (v # vs) = map_option (apfst ((#) v)) (route_vals ps vs)"
| "route_vals ps vs = None"

section \<open>Insertion\<close>

lemma param_char_plain: "param_char c \<Longrightarrow> c \<noteq> CHR '':'' \<and> c \<noteq> CHR ''*''"
  by (auto simp: param_char_def)

lemma seg_loop_name:
  "list_all param_char n \<Longrightarrow> start st \<Longrightarrow> skipnum st = 0 \<Longrightarrow>
   seg_loop key i n st = st\<lparr>param := param st @ n\<rparr>"
proof (induction n arbitrary: i st)
  case (Cons c n)
  then have "seg_step key i c st = st\<lparr>param := param st @ [c]\<rparr>"
    using param_char_plain [of c] by (simp add: seg_step_def)
  with Cons show ?case by simp
qed simp

lemma splitSegment_named:
  assumes "n \<noteq> []" "list_all param_char n"
  shows "splitSegment (CHR '':'' # n) = (True, [CHR '':'' # n], [])"
proof -
  have "seg_step (CHR '':'' # n) 0 (CHR '':'') seg_init = seg_init\<lparr>start := True\<rparr>"
    by (simp add: seg_step_def seg_expr_def seg_plain_def seg_init_def)
  with assms show ?thesis
    by (simp add: splitSegment_def has_prefix_def seg_loop_name seg_init_def Let_def)
qed

text \<open>The tree of a single route is a chain.\<close>

fun chain :: "string \<Rightarrow> pat_seg list \<Rightarrow> string list \<Rightarrow> 'a \<Rightarrow> 'a Tree" where
  "chain pre [] ws r = Tree pre [] None [\<lparr>wildcards = ws, regexps = None, runObject = Some r\<rparr>]"
| "chain pre (Fixed s # ps) ws r = Tree pre [chain s ps ws r] None []"
| "chain pre (Named n # ps) ws r = Tree pre [] (Some (chain [] ps (ws @ [CHR '':'' # n]) r)) []"

lemma prefix_chain [simp]: "prefix (chain pre ps ws r) = pre"
  by (induction pre ps ws r rule: chain.induct) auto

lemma static_seg_not_star: "static_seg s \<Longrightarrow> s \<noteq> ''*''"
  by (auto simp: static_seg_def has_prefix_def)

lemma addseg_chain:
  "'':splat'' \<notin> set ws \<Longrightarrow> list_all ok_pat ps \<Longrightarrow>
   addseg E (map seg_text ps) (Some r) ws [] (Tree pre [] None []) = Inr (chain pre ps ws r)"
proof (induction ps arbitrary: pre ws)
  case Nil
  then show ?case by (simp add: newLeaf_def)
next
  case (Cons p ps)
  show ?case
  proof (cases p)
    case (Fixed s)
    with Cons show ?thesis by (simp add: splitSegment_static static_seg_not_star)
  next
    case (Named n)
    with Cons have n: "n \<noteq> []" "list_all param_char n" "n \<noteq> ''splat''" by auto
    from Cons.IH [of "ws @ [CHR '':'' # n]" "[]"] Cons.prems n Named show ?thesis
      by (simp add: splitSegment_named wild_segment_def NewTree_def)
  qed
qed

section \<open>Matching\<close>

definition plain_names :: "string list \<Rightarrow> bool" where
  "plain_names ws \<longleftrightarrow> '':splat'' \<notin> set ws \<and> '':path'' \<notin> set ws"

lemma leaf_match_named:
  assumes "plain_names ws"
  shows "leaf_match E \<lparr>wildcards = ws, regexps = None, runObject = ro\<rparr> tp vals inp =
    (if length ws = length vals then res_bind (set_params ws vals 0 inp) (\<lambda>inp. Inr (True, inp))
     else Inr (False, inp))"
proof -
  have "ws ! (length ws - 2) \<noteq> '':path''" if "2 \<le> length ws"
  proof -
    from that have "ws ! (length ws - 2) \<in> set ws" by (intro nth_mem) linarith
    with assms show ?thesis by (auto simp: plain_names_def)
  qed
  with assms show ?thesis by (auto simp: leaf_match_def Let_def plain_names_def)
qed

definition bind_vals :: "'a \<Rightarrow> string list \<Rightarrow> string list \<Rightarrow> string option \<Rightarrow> BeegoInput \<Rightarrow>
    tree_panic + ('a option \<times> BeegoInput)" where
  "bind_vals r ws vals e inp =
     res_bind (set_params ws vals 0 inp) (\<lambda>inp.
     res_bind (case e of None \<Rightarrow> Inr inp | Some e \<Rightarrow> set_param inp '':ext'' e) (\<lambda>inp. Inr (Some r, inp)))"

lemma ext_split_shorter: "ext_split v = Some (b, e) \<Longrightarrow> b \<noteq> v"
proof
  assume "ext_split v = Some (b, e)" "b = v"
  then obtain x where x: "has_suffix v x" "x \<in> {''.json'', ''.xml'', ''.html''}" "take (length v - length x) v = v"
    by (auto simp: ext_split_def allowSuffixExt_def split: option.splits if_splits)
  then have "0 < length x" "length x \<le> length v" by (auto simp: has_suffix_def)
  with x(3) show False by (metis diff_less length_take less_le_trans min_def nat_less_le not_less)
qed

lemma route_vals_Nil: "route_vals ps [] = (if ps = [] then Some ([], None) else None)"
  by (cases ps rule: names_of.cases) auto

lemma match_ext_skip:
  assumes "\<forall>str \<in> set strs. \<not> has_suffix v str"
  shows "(\<lambda>(r, inp). match_ext E strs ts v tp p vals r inp) = Inr"
proof -
  have "match_ext E strs ts v tp p vals r inp = Inr (r, inp)" for r inp
    using assms by (induction strs) auto
  then show ?thesis by auto
qed

lemma match_ext_one:
  assumes "prefix u = s" and m: "\<And>tp. tree_match E u tp [] vals inp =
      (if b then bind_vals r ws vals None inp else Inr (None, inp))"
  shows "match_ext E allowSuffixExt [u] v tp [] vals None inp =
    (case ext_split v of
       Some (base, e) \<Rightarrow> if base = s \<and> b then bind_vals r ws vals (Some e) inp else Inr (None, inp)
     | None \<Rightarrow> Inr (None, inp))"
proof -
  have sub: "match_sub E str [u] v tp [] vals None inp =
      (if take (length v - length str) v = s \<and> b then bind_vals r ws vals (Some (tl str)) inp
       else Inr (None, inp))" for str
    by (cases "set_params ws vals 0 inp") (simp_all add: assms bind_vals_def res_bind_def split: sum.split)
  show ?thesis
    by (cases v rule: ext_cases)
      (simp_all add: allowSuffixExt_def ext_split_def sub match_ext_skip del: match_sub.simps)
qed

lemma bind_vals_found: "bind_vals r ws vals e inp = Inr (x, inp') \<Longrightarrow> x = Some r"
  by (auto simp: bind_vals_def res_bind_Inr_iff)

lemma match_leaves_chain_short:
  assumes "plain_names ws" "list_all ok_pat ps" "length vals < length ws"
  shows "match_leaves E (leaves (chain pre ps ws r)) tp vals inp = Inr (None, inp)"
  using assms by (cases ps rule: names_of.cases) (simp_all add: leaf_match_named)

lemma tree_match_chain:
  assumes "plain_names ws" "list_all ok_pat ps" "length vals = length ws" "list_all ok_seg vs"
  shows "tree_match E (chain pre ps ws r) tp (url_of vs) vals inp =
    (case route_vals ps vs of
       None \<Rightarrow> Inr (None, inp)
     | Some (xs, e) \<Rightarrow> bind_vals r (ws @ names_of ps) (vals @ xs) e inp)"
  using assms
proof (induction ps arbitrary: pre ws vals vs tp inp)
  case Nil
  show ?case
  proof (cases vs)
    case Nil
    with \<open>plain_names ws\<close> \<open>length vals = length ws\<close> show ?thesis
      by (simp add: leaf_match_named bind_vals_def res_bind_def split: sum.splits)
  next
    case (Cons v vs')
    with Nil.prems have ok: "ok_seg v" "v \<noteq> []" "list_all ok_seg vs'" by (auto dest: ok_seg_nonempty)
    have me: "match_ext E strs [] v tp p vals None inp = Inr (None, inp)" for strs p tp
      by (induction strs) auto
    from Cons ok Nil.prems show ?thesis
      by (simp add: Let_def me rest_values_url leaf_match_named)
  qed
next
  case (Cons p ps)
  show ?case
  proof (cases vs)
    case Nil
    then show ?thesis using Cons.prems match_leaves_chain_short [of _ ps vals E "[]" r tp inp]
      by (cases p) (auto simp: plain_names_def)
  next
    case vs: (Cons v vs')
    with Cons.prems have ok: "ok_seg v" "v \<noteq> []" "list_all ok_seg vs'" by (auto dest: ok_seg_nonempty)
    have me: "match_ext E strs [] v tp q vals None inp = Inr (None, inp)" for strs q tp
      by (induction strs) auto
    show ?thesis
    proof (cases p)
      case (Fixed s)
      let ?u = "chain s ps ws r"
      have IH: "tree_match E ?u tp (url_of vs') vals inp =
        (case route_vals ps vs' of None \<Rightarrow> Inr (None, inp)
         | Some (xs, e) \<Rightarrow> bind_vals r (ws @ names_of ps) (vals @ xs) e inp)" for tp inp
        using Cons.IH [OF Cons.prems(1) _ Cons.prems(3) ok(3)] Cons.prems(2) by simp
      have ext: "match_ext E allowSuffixExt [?u] v tp (url_of vs') vals None inp =
        (case if vs' = [] \<and> ps = [] then ext_split v else None of
           Some (base, e) \<Rightarrow> if base = s then bind_vals r ws vals (Some e) inp else Inr (None, inp)
         | None \<Rightarrow> Inr (None, inp))" for tp
      proof (cases "vs' = []")
        case True
        from IH True have "tree_match E ?u tp [] vals inp =
            (if ps = [] then bind_vals r ws vals None inp else Inr (None, inp))" for tp
          by (simp add: route_vals_Nil)
        from match_ext_one [OF prefix_chain this] True show ?thesis
          by (auto split: option.splits)
      next
        case False
        then show ?thesis by (simp add: match_ext_inner)
      qed
      have unf: "tree_match E (chain pre (p # ps) ws r) tp (url_of vs) vals inp =
          res_bind (match_fix E [?u] v (url_of vs') tp vals inp) (\<lambda>(r, tp, inp).
            if r = None then match_ext E allowSuffixExt [?u] v tp (url_of vs') vals None inp else Inr (r, inp))"
        using ok vs Fixed by (simp add: Let_def no_wild del: match_fix.simps match_ext.simps cong: if_cong option.case_cong)
      show ?thesis
      proof (cases "v = s")
        case True
        show ?thesis
        proof (cases "route_vals ps vs'")
          case None
          then show ?thesis unfolding unf
            using True IH ext vs Fixed ext_split_shorter [of v]
            by (auto simp: Let_def split: option.split)
        next
          case (Some xe)
          obtain xs e where xe: "xe = (xs, e)" by (cases xe)
          with Some True IH vs Fixed show ?thesis unfolding unf
            by (cases "bind_vals r (ws @ names_of ps) (vals @ xs) e inp")
              (auto simp: Let_def dest: bind_vals_found)
        qed
      next
        case False
        then show ?thesis unfolding unf using ext vs Fixed by (auto split: option.split)
      qed
    next
      case (Named n)
      from Named Cons.prems have "plain_names (ws @ [CHR '':'' # n])" by (auto simp: plain_names_def)
      from Cons.IH [OF this, of "vals @ [v]" vs'] Cons.prems ok vs Named show ?thesis
        by (simp add: me Let_def split: option.split)
    qed
  qed
qed

lemma set_params_zip:
  assumes "length ws + i = length vals"
  shows "set_params ws vals i inp = put_all set_param inp (zip ws (drop i vals))"
  using assms
proof (induction ws arbitrary: i inp)
  case (Cons w ws)
  then have "drop i vals = vals ! i # drop (Suc i) vals" by (simp add: Cons_nth_drop_Suc)
  moreover have "set_params ws vals (Suc i) = (\<lambda>inp. put_all set_param inp (zip ws (drop (Suc i) vals)))"
    using Cons by (intro ext) simp
  ultimately show ?case using Cons.prems by (simp add: slice_nth_def)
qed simp

lemma put_all_set_param:
  "put_all SetParam inp kvs = Inr inp' \<Longrightarrow> put_all set_param inp kvs = Inr inp'"
  by (induction SetParam inp kvs rule: put_all.induct) (auto simp: set_param_def res_bind_Inr_iff)

lemma route_vals_length: "route_vals ps vs = Some (xs, e) \<Longrightarrow> length xs = length (names_of ps)"
  by (induction ps vs arbitrary: xs e rule: route_vals.induct) (auto split: if_splits option.splits)

lemma bind_vals_ok:
  assumes "params_inv inp" "length xs = length ws"
  shows "\<exists>inp'. bind_vals r ws xs e inp = Inr (Some r, inp') \<and> params_inv inp' \<and>
    (\<forall>k. Param inp' k =
       (case map_of (rev (zip ws xs @ (case e of None \<Rightarrow> [] | Some e \<Rightarrow> [('':ext'', e)]))) k of
          Some v \<Rightarrow> Inr v | None \<Rightarrow> Param inp k))"
proof -
  let ?kvs = "zip ws xs @ (case e of None \<Rightarrow> [] | Some e \<Rightarrow> [('':ext'', e)])"
  from input_params.put_all_ok [OF assms(1), of ?kvs] obtain inp' where
    i: "put_all SetParam inp ?kvs = Inr inp'" "params_inv inp'"
    "\<forall>k. Param inp' k = (case map_of (rev ?kvs) k of Some v \<Rightarrow> Inr v | None \<Rightarrow> Param inp k)"
    by (auto simp: list_all_iff)
  have "bind_vals r ws xs e inp = res_bind (put_all set_param inp ?kvs) (\<lambda>inp. Inr (Some r, inp))"
    using set_params_zip [of ws 0 xs inp] assms(2)
    by (auto simp: bind_vals_def put_all_append res_bind_def split: sum.splits option.splits)
  with put_all_set_param [OF i(1)] i show ?thesis by auto
qed

text \<open>C12. Registering one route of fixed segments and named parameters never panics. A rooted
  request is then served exactly when its cleaned segments fit the route (a last fixed segment
  also with .json, .xml or .html appended), matching never panics on well-formed parameters, and
  afterwards every name of the route has the value of its segment (the last one, if a name
  repeats), :ext the dropped extension, and every other parameter its old value; a request that
  does not fit leaves the parameters unchanged.\<close>

theorem param_route_match:
  assumes "splitPath pattern = map seg_text ps" "list_all ok_pat ps" "params_inv inp"
  shows "\<exists>t. AddRouter E NewTree pattern (Some r) = Inr t \<and>
    (case route_vals ps (clean_segs (CHR ''/'' # p)) of
       None \<Rightarrow> Match E t (CHR ''/'' # p) inp = Inr (None, inp)
     | Some (xs, e) \<Rightarrow>
         (\<exists>inp'. Match E t (CHR ''/'' # p) inp = Inr (Some r, inp') \<and>
            (\<forall>k. Param inp' k =
               (case map_of (rev (zip (names_of ps) xs @ (case e of None \<Rightarrow> [] | Some e \<Rightarrow> [('':ext'', e)]))) k of
                  Some v \<Rightarrow> Inr v | None \<Rightarrow> Param inp k))))"
proof -
  let ?t = "chain [] ps [] r" and ?segs = "clean_segs (CHR ''/'' # p)"
  have t: "AddRouter E NewTree pattern (Some r) = Inr ?t"
    using assms(1,2) addseg_chain [of "[]" ps E r "[]"] by (simp add: AddRouter_def NewTree_def)
  have tm: "tree_match E ?t tp (url_of ?segs) [] inp =
      (case route_vals ps ?segs of None \<Rightarrow> Inr (None, inp) | Some (xs, e) \<Rightarrow> bind_vals r (names_of ps) xs e inp)" for tp
    using tree_match_chain [OF _ assms(2) _ clean_segs_ok, of "[]" "[]" E "[]" r tp "CHR ''/'' # p" inp]
    unfolding append_Nil by (simp add: plain_names_def)
  have m: "Match E ?t (CHR ''/'' # p) inp =
      (case route_vals ps ?segs of None \<Rightarrow> Inr (None, inp) | Some (xs, e) \<Rightarrow> bind_vals r (names_of ps) xs e inp)"
  proof (cases "?segs = []")
    case True
    have "tree_match E u tp ''/'' [] inp = tree_match E u tp [] [] inp" for u :: "'a Tree" and tp
      by (cases u) simp
    with True tm show ?thesis by (simp add: Match_def path_Clean_rooted)
  next
    case False
    with tm join_url [OF False] show ?thesis by (simp add: Match_def path_Clean_rooted Let_def)
  qed
  show ?thesis
  proof (cases "route_vals ps ?segs")
    case None
    with t m show ?thesis by auto
  next
    case (Some xe)
    obtain xs e where xe: "xe = (xs, e)" by (cases xe)
    from bind_vals_ok [OF assms(3) route_vals_length, of ps ?segs xs e r e] Some xe t m show ?thesis by auto
  qed
qed

theorem param_route_match_witness:
  "\<exists>t inp'. AddRouter no_regexps NewTree ''/user/:id/file/:name'' (Some (7 :: nat)) = Inr t \<and>
     Match no_regexps t ''/user/42//file/x.json'' new_input = Inr (Some 7, inp') \<and>
     Param inp' '':id'' = Inr ''42'' \<and> Param inp' '':name'' = Inr ''x.json'' \<and> Param inp' '':ext'' = Inr []"
proof -
  let ?ps = "[Fixed ''user'', Named ''id'', Fixed ''file'', Named ''name'']"
  have sp: "splitPath ''/user/:id/file/:name'' = map seg_text ?ps"
    by (simp add: splitPath_def go_eval)
  have ok: "list_all ok_pat ?ps" by (simp add: static_seg_def param_char_def go_eval)
  have c: "clean_segs ''/user/42//file/x.json'' = [''user'', ''42'', ''file'', ''x.json'']"
    by (simp add: clean_segs_def clean_push_def go_eval)
  from param_route_match [OF sp ok params_inv_new, of no_regexps 7 "''user/42//file/x.json''"] c
  show ?thesis by auto
qed

section \<open>Catch-all routes\<close>

text \<open> A tree with the route /*.* panics on a request for the root: the leaf of the wildcard is
  tried with no values at all and indexes the last of them.\<close>

theorem path_ext_route_panics_on_root:
  "res_bind (AddRouter E NewTree ''/*.*'' (Some r)) (\<lambda>t. Match E t ''/'' inp) = Inl (BadIndex (- 1) 0)"
  by (simp add: AddRouter_def splitPath_def splitSegment_def NewTree_def wild_segment_def newLeaf_def
      Match_def path_Clean_def clean_push_def leaf_match_def path_ext_def slice_nth_def go_eval)

text \<open> The value of :splat depends on unrelated routes. With the route /* alone, a request
  for /foo/x binds :splat to foo/x; when a fixed route /foo/bar is registered as well, the same
  request is still served by /*, but :splat is only x, because the failed search below foo has
  overwritten the remaining path.\<close>

theorem splat_depends_on_siblings:
  "res_bind (AddRouter E NewTree ''/*'' (Some r)) (\<lambda>t. Match E t ''/foo/x'' new_input) =
     Inr (Some r, \<lparr>pnames = ['':splat''], pvalues = [''foo/x'']\<rparr>) \<and>
   res_bind (AddRouter E NewTree ''/*'' (Some r)) (\<lambda>t. res_bind (AddRouter E t ''/foo/bar'' (Some r'))
     (\<lambda>t. Match E t ''/foo/x'' new_input)) =
     Inr (Some r, \<lparr>pnames = ['':splat''], pvalues = [''x'']\<rparr>)"
  by (simp add: AddRouter_def splitPath_def splitSegment_def NewTree_def wild_segment_def newLeaf_def
      Match_def path_Clean_def clean_push_def leaf_match_def strip_slashes_def first_seg_def after_seg_def
      set_param_def SetParam_def new_input_def allowSuffixExt_def Let_def go_eval)

end
