(* ===== verification/Berror.thy ===== *)
theory Berror
  imports Kv_Store
begin

text \<open>
  Error codes and errors (\<^verbatim>\<open>core/berror\<close>) with the code tables of the cache and the HTTP
  client. An error value is a package variable, an error made on the spot, or a wrapped error;
  \<^verbatim>\<open>errors.Is\<close> compares identities along the chain of wrapped errors. The documentation
  texts of the codes are a parameter, a function from the name of a code to its text.
\<close>

section \<open>Errors\<close>

datatype err =
    Sentinel string string   \<comment> \<open>package variable and text\<close>
  | Dynamic string           \<comment> \<open>fmt.Errorf or errors.New at run time\<close>
  | Wrapped string err       \<comment> \<open>fmt.Errorf with \<open>: %w\<close>\<close>

fun error_text :: "err \<Rightarrow> string" where
  "error_text (Sentinel n s) = s"
| "error_text (Dynamic s) = s"
| "error_text (Wrapped s e) = s @ '': '' @ error_text e"

text \<open>\<^verbatim>\<open>errors.Is(err, target)\<close> for a package variable as the target.\<close>

fun errors_is :: "err \<Rightarrow> err \<Rightarrow> bool" where
  "errors_is (Wrapped s e) target \<longleftrightarrow> Wrapped s e = target \<or> errors_is e target"
| "errors_is e target \<longleftrightarrow> e = target"

section \<open>The registry\<close>

record codeDefinition =
  code :: u32
  module :: string
  desc :: string
  name :: string

record codeRegistry =
  codes :: "u32 \<rightharpoonup> codeDefinition"

datatype code_panic = DuplicateCode u32

definition defaultCodeRegistry :: codeRegistry where
  "defaultCodeRegistry = \<lparr>codes = Map.empty\<rparr>"

definition DefineCode :: "u32 \<Rightarrow> string \<Rightarrow> string \<Rightarrow> string \<Rightarrow> codeRegistry \<Rightarrow>
    code_panic + (codeDefinition \<times> codeRegistry)" where
  "DefineCode c md nm ds cr =
     (let res = \<lparr>code = c, module = md, desc = ds, name = nm\<rparr>
      in if codes cr c \<noteq> None then Inl (DuplicateCode c)
         else Inr (res, cr\<lparr>codes := (codes cr)(c \<mapsto> res)\<rparr>))"

definition registry_Get :: "codeRegistry \<Rightarrow> u32 \<Rightarrow> codeDefinition option" where
  "registry_Get cr c = codes cr c"

definition Name :: "codeDefinition \<Rightarrow> string" where
  "Name c = name c"

definition Code :: "codeDefinition \<Rightarrow> u32" where
  "Code c = code c"

definition Module :: "codeDefinition \<Rightarrow> string" where
  "Module c = module c"

definition Desc :: "codeDefinition \<Rightarrow> string" where
  "Desc c = desc c"

section \<open>Making and reading errors\<close>

definition errFmt :: "u32 \<Rightarrow> string \<Rightarrow> string" where
  "errFmt c msg = ''ERROR-'' @ utoa (unat c) @ '', '' @ msg"

definition Error :: "codeDefinition \<Rightarrow> string \<Rightarrow> err" where
  "Error c msg = Dynamic (errFmt (Code c) msg)"

definition Wrap :: "err option \<Rightarrow> codeDefinition \<Rightarrow> string \<Rightarrow> err option" where
  "Wrap e c msg = (case e of None \<Rightarrow> None | Some e \<Rightarrow> Some (Wrapped (errFmt (Code c) msg) e))"

definition Unknown :: "(string \<Rightarrow> string) \<Rightarrow> codeDefinition" where
  "Unknown doc = \<lparr>code = 5000001, module = ''error'', desc = doc ''Unknown'', name = ''Unknown''\<rparr>"

definition FromError :: "(string \<Rightarrow> string) \<Rightarrow> codeRegistry \<Rightarrow> err \<Rightarrow> codeDefinition \<times> bool" where
  "FromError doc cr e =
     (let msg = error_text e; codeSeg = splitn2 msg '','' in
      if has_prefix (codeSeg ! 0) ''ERROR-'' then
        (let codeStr = splitn2 (codeSeg ! 0) ''-'' in
         if length codeStr < 2 then (Unknown doc, False)
         else (case parse_uint 32 (codeStr ! 1) of
                 (_, Some _) \<Rightarrow> (Unknown doc, False)
               | (codeInt, None) \<Rightarrow>
                   (case registry_Get cr (of_nat codeInt) of
                      Some c \<Rightarrow> (c, True)
                    | None \<Rightarrow> (Unknown doc, False))))
      else (Unknown doc, False))"

section \<open>The codes of the program\<close>

definition codeDef :: "u32 \<Rightarrow> string \<Rightarrow> string \<Rightarrow> (string \<Rightarrow> string) \<Rightarrow> codeDefinition" where
  "codeDef c md nm doc = \<lparr>code = c, module = md, desc = doc nm, name = nm\<rparr>"

definition cache_client_codes :: "(string \<Rightarrow> string) \<Rightarrow> codeDefinition list" where
  "cache_client_codes doc =
     [codeDef 4002001 ''cache'' ''NilCacheAdapter'' doc,
      codeDef 4002002 ''cache'' ''DuplicateAdapter'' doc,
      codeDef 4002003 ''cache'' ''UnknownAdapter'' doc,
      codeDef 4002004 ''cache'' ''IncrementOverflow'' doc,
      codeDef 4002005 ''cache'' ''DecrementOverflow'' doc,
      codeDef 4002006 ''cache'' ''NotIntegerType'' doc,
      codeDef 4002007 ''cache'' ''InvalidFileCacheDirectoryLevelCfg'' doc,
      codeDef 4002008 ''cache'' ''InvalidFileCacheEmbedExpiryCfg'' doc,
      codeDef 4002009 ''cache'' ''CreateFileCacheDirFailed'' doc,
      codeDef 4002010 ''cache'' ''InvalidFilePath'' doc,
      codeDef 4002011 ''cache'' ''ReadFileCacheContentFailed'' doc,
      codeDef 4002012 ''cache'' ''InvalidEncodedData'' doc,
      codeDef 4002013 ''cache'' ''GobEncodeDataFailed'' doc,
      codeDef 4002014 ''cache'' ''KeyExpired'' doc,
      codeDef 4002015 ''cache'' ''KeyNotExist'' doc,
      codeDef 4002016 ''cache'' ''MultiGetFailed'' doc,
      codeDef 4002017 ''cache'' ''InvalidMemoryCacheCfg'' doc,
      codeDef 4002018 ''cache'' ''InvalidMemCacheCfg'' doc,
      codeDef 4002019 ''cache'' ''InvalidMemCacheValue'' doc,
      codeDef 4002020 ''cache'' ''InvalidRedisCacheCfg'' doc,
      codeDef 4002021 ''cache'' ''InvalidSsdbCacheCfg'' doc,
      codeDef 4002022 ''cache'' ''InvalidSsdbCacheValue'' doc,
      codeDef 4002023 ''cache'' ''InvalidLoadFunc'' doc,
      codeDef 4002024 ''cache'' ''LoadFuncFailed'' doc,
      codeDef 4002025 ''cache'' ''InvalidInitParameters'' doc,
      codeDef 4002026 ''cache'' ''PersistCacheFailed'' doc]"

definition cache_server_codes :: "(string \<Rightarrow> string) \<Rightarrow> codeDefinition list" where
  "cache_server_codes doc =
     [codeDef 5002001 ''cache'' ''DeleteFileCacheItemFailed'' doc,
      codeDef 5002002 ''cache'' ''MemCacheError'' doc,
      codeDef 5002003 ''cache'' ''RedisCacheCurdFailed'' doc,
      codeDef 5002004 ''cache'' ''InvalidConnection'' doc,
      codeDef 5002005 ''cache'' ''DialFailed'' doc,
      codeDef 5002006 ''cache'' ''SsdbCacheCurdFailed'' doc,
      codeDef 5002007 ''cache'' ''SsdbBadResponse'' doc,
      codeDef 5002008 ''cache'' ''DeleteFailed'' doc]"

definition httplib_codes :: "(string \<Rightarrow> string) \<Rightarrow> codeDefinition list" where
  "httplib_codes doc =
     [codeDef 4001001 ''httplib'' ''InvalidUrl'' doc,
      codeDef 4001002 ''httplib'' ''InvalidUrlProtocolVersion'' doc,
      codeDef 4001003 ''httplib'' ''UnsupportedBodyType'' doc,
      codeDef 4001004 ''httplib'' ''InvalidXMLBody'' doc,
      codeDef 4001005 ''httplib'' ''InvalidYAMLBody'' doc,
      codeDef 4001006 ''httplib'' ''InvalidJSONBody'' doc,
      codeDef 4001007 ''httplib'' ''InvalidURLOrMethod'' doc,
      codeDef 5001001 ''httplib'' ''CreateFormFileFailed'' doc,
      codeDef 5001002 ''httplib'' ''ReadFileFailed'' doc,
      codeDef 5001003 ''httplib'' ''CopyFileFailed'' doc,
      codeDef 5001004 ''httplib'' ''CloseFileFailed'' doc,
      codeDef 5001005 ''httplib'' ''SendRequestRetryExhausted'' doc,
      codeDef 5001006 ''httplib'' ''BuildGzipReaderFailed'' doc,
      codeDef 5001007 ''httplib'' ''CreateFileIfNotExist'' doc,
      codeDef 5001008 ''httplib'' ''UnmarshalResponseToObjectFailed'' doc,
      codeDef 5001009 ''httplib'' ''UnmarshalResponseToObjectFailed'' doc,
      codeDef 5001010 ''httplib'' ''UnmarshalResponseToObjectFailed'' doc,
      codeDef 5001011 ''httplib'' ''UnmarshalResponseToObjectFailed'' doc]"

text \<open>Package initialisation: every variable declaration calls \<^const>\<open>DefineCode\<close>.\<close>

fun define_all :: "codeDefinition list \<Rightarrow> codeRegistry \<Rightarrow> code_panic + codeRegistry" where
  "define_all [] cr = Inr cr"
| "define_all (c # cs) cr =
     res_bind (DefineCode (code c) (module c) (name c) (desc c) cr) (\<lambda>(_, cr). define_all cs cr)"

definition program_codes :: "(string \<Rightarrow> string) \<Rightarrow> codeDefinition list" where
  "program_codes doc = Unknown doc # cache_client_codes doc @ cache_server_codes doc @ httplib_codes doc"

lemma define_all_ok:
  assumes "distinct (map code cs)" "\<forall>c \<in> set cs. codes cr (code c) = None"
  shows "\<exists>cr'. define_all cs cr = Inr cr' \<and>
    (\<forall>x. codes cr' x = (case find (\<lambda>c. code c = x) cs of Some c \<Rightarrow> Some c | None \<Rightarrow> codes cr x))"
  using assms
proof (induction cs arbitrary: cr)
  case (Cons c cs)
  let ?cr = "cr\<lparr>codes := (codes cr)(code c \<mapsto> c)\<rparr>"
  have "DefineCode (code c) (module c) (name c) (desc c) cr = Inr (c, ?cr)"
    using Cons.prems by (cases c) (simp add: DefineCode_def Let_def)
  moreover from Cons.prems have "\<exists>cr'. define_all cs ?cr = Inr cr' \<and>
      (\<forall>x. codes cr' x = (case find (\<lambda>c. code c = x) cs of Some c \<Rightarrow> Some c | None \<Rightarrow> codes ?cr x))"
    by (intro Cons.IH) (auto, metis image_eqI)
  moreover have "find (\<lambda>d. code d = code c) cs = None"
    using Cons.prems by (auto simp: find_None_iff) (metis image_eqI)
  ultimately show ?case by (fastforce split: option.splits)
qed simp

lemma define_all_dup:
  "codes cr (code c) \<noteq> None \<Longrightarrow> c \<in> set cs \<Longrightarrow> \<exists>e. define_all cs cr = Inl e"
  by (induction cs arbitrary: cr) (auto simp: DefineCode_def res_bind_def Let_def split: if_splits)

lemma FromError_prefix:
  assumes "registry_Get cr (code c) = Some c" "error_text e = errFmt (code c) rest"
  shows "FromError doc cr e = (c, True)"
proof -
  let ?n = "utoa (unat (code c))"
  have nodig: "x \<notin> set ?n" if "digit_val x = None" for x
    using that by (auto dest!: utoa_digits)
  have "CHR '','' \<notin> set (''ERROR-'' @ ?n)" using nodig [of "CHR '',''"] by (simp add: digit_val_def)
  from splitn2_append [OF this, of "CHR '' '' # rest"] assms(2)
  have seg: "splitn2 (error_text e) '','' = [''ERROR-'' @ ?n, CHR '' '' # rest]"
    by (simp add: errFmt_def)
  have str: "splitn2 (''ERROR-'' @ ?n) ''-'' = [''ERROR'', ?n]"
    using splitn2_append [of "CHR ''-''" "''ERROR''" ?n] by simp
  have "parse_uint 32 ?n = (unat (code c), None)"
    by (rule parse_uint_utoa) (use unsigned_less [of "code c", where 'a = nat] in simp)
  with assms(1) seg str show ?thesis by (simp add: FromError_def Let_def has_prefix_def)
qed

text \<open>C29. The initialisation of the program's packages defines all its error codes without
  a panic: the codes of the berror, cache and httplib packages are pairwise different, and
  afterwards the registry holds exactly them. Defining any of them a second time panics.\<close>

theorem program_codes_defined:
  "\<exists>cr. define_all (program_codes doc) defaultCodeRegistry = Inr cr \<and>
     (\<forall>c. registry_Get cr (code c) = Some c \<longleftrightarrow> c \<in> set (program_codes doc)) \<and>
     (\<forall>x c. registry_Get cr x = Some c \<longrightarrow> code c = x) \<and>
     (\<forall>c md nm ds. c \<in> set (program_codes doc) \<longrightarrow> DefineCode (code c) md nm ds cr = Inl (DuplicateCode (code c)))"
proof -
  have dist: "distinct (map code (program_codes doc))"
    by (simp add: program_codes_def cache_client_codes_def cache_server_codes_def httplib_codes_def codeDef_def Unknown_def)
  have emp: "codes defaultCodeRegistry x = None" for x by (simp add: defaultCodeRegistry_def)
  from define_all_ok [OF dist, of defaultCodeRegistry] obtain cr where cr:
    "define_all (program_codes doc) defaultCodeRegistry = Inr cr"
    "\<And>x. codes cr x = (case find (\<lambda>c. code c = x) (program_codes doc) of Some c \<Rightarrow> Some c | None \<Rightarrow> None)"
    by (auto simp: emp cong: option.case_cong)
  have inj: "find (\<lambda>d. code d = code c) cs = Some c \<longleftrightarrow> c \<in> set cs" if "distinct (map code cs)" for c :: codeDefinition and cs
    using that by (induction cs) (auto simp: image_iff)
  have sel: "code c = x" if "find (\<lambda>c. code c = x) cs = Some c" for c :: codeDefinition and cs x
    using that by (auto simp: find_Some_iff)
  have mem: "registry_Get cr (code c) = Some c \<longleftrightarrow> c \<in> set (program_codes doc)" for c
    using inj [OF dist, of c] cr(2) [of "code c"] by (auto simp: registry_Get_def split: option.splits)
  then have "DefineCode (code c) md nm ds cr = Inl (DuplicateCode (code c))" if "c \<in> set (program_codes doc)" for c md nm ds
    using that by (auto simp: DefineCode_def registry_Get_def Let_def)
  moreover have "code c = x" if "registry_Get cr x = Some c" for c x
    using that sel [of x "program_codes doc"] by (auto simp: registry_Get_def cr(2) split: option.splits)
  ultimately show ?thesis using cr(1) mem by auto
qed

theorem program_codes_defined_witness:
  "\<exists>cr. define_all (program_codes (\<lambda>n. [])) defaultCodeRegistry = Inr cr \<and>
     DefineCode 4002015 ''x'' ''y'' ''z'' cr = Inl (DuplicateCode 4002015)"
proof -
  have "codeDef 4002015 ''cache'' ''KeyNotExist'' (\<lambda>n. []) \<in> set (program_codes (\<lambda>n. []))"
    by (simp add: program_codes_def cache_client_codes_def)
  with program_codes_defined [of "\<lambda>n. []"] show ?thesis by (auto simp: codeDef_def)
qed

text \<open>C30. The code of an error made by Error, and of an error wrapped by Wrap, is read back by
  FromError whatever the message is, provided the code is registered.\<close>

theorem FromError_roundtrip:
  assumes "registry_Get cr (code c) = Some c"
  shows "FromError doc cr (Error c msg) = (c, True) \<and>
    FromError doc cr (the (Wrap (Some e) c msg)) = (c, True) \<and> Wrap None c msg = None"
  using FromError_prefix [OF assms, of "Error c msg" msg] FromError_prefix [OF assms, of "the (Wrap (Some e) c msg)" "msg @ '': '' @ error_text e"]
  by (simp add: Error_def Wrap_def Code_def errFmt_def)

theorem FromError_roundtrip_witness:
  "FromError (\<lambda>_. []) (defaultCodeRegistry\<lparr>codes := [code (Unknown (\<lambda>_. [])) \<mapsto> Unknown (\<lambda>_. [])]\<rparr>)
     (Error (Unknown (\<lambda>_. [])) ''a, ERROR-7, b'') = (Unknown (\<lambda>_. []), True)"
  using FromError_roundtrip [of "defaultCodeRegistry\<lparr>codes := [code (Unknown (\<lambda>_. [])) \<mapsto> Unknown (\<lambda>_. [])]\<rparr>" "Unknown (\<lambda>_. [])"]
  by (simp add: registry_Get_def)

text \<open> FromError reports success only with a registered code whose number stands between the
  prefix ERROR- and the first comma of the text; in every other case the code is Unknown.\<close>

theorem FromError_sound:
  assumes "FromError doc cr e = (c, ok)"
  shows "if ok then (\<exists>n digits rest. parse_uint 32 digits = (n, None) \<and> registry_Get cr (of_nat n) = Some c \<and>
             splitn2 (error_text e) '','' = (''ERROR-'' @ digits) # rest)
         else c = Unknown doc"
proof (cases ok)
  case False
  with assms show ?thesis
    by (auto simp: FromError_def Let_def split: if_splits prod.splits option.splits)
next
  case True
  obtain s rest where s: "splitn2 (error_text e) '','' = s # rest"
    by (cases "splitn2 (error_text e) '',''") (auto simp: splitn2_nonempty)
  from True assms s obtain n where n: "has_prefix s ''ERROR-''" "2 \<le> length (splitn2 s ''-'')"
    "parse_uint 32 (splitn2 s ''-'' ! 1) = (n, None)" "registry_Get cr (of_nat n) = Some c"
    by (auto simp: FromError_def Let_def split: if_splits prod.splits option.splits)
  from n(1) obtain d where d: "s = ''ERROR-'' @ d" by (auto simp: has_prefix_iff)
  then have "splitn2 s ''-'' = [''ERROR'', d]"
    using splitn2_append [of "CHR ''-''" "''ERROR''" d] by simp
  with n d s True show ?thesis by auto
qed

theorem FromError_sound_witness:
  "\<exists>c ok. FromError (\<lambda>_. []) defaultCodeRegistry (Dynamic ''EOF'') = (c, ok) \<and> c = Unknown (\<lambda>_. [])"
proof -
  have e: "FromError (\<lambda>_. []) defaultCodeRegistry (Dynamic ''EOF'') = (Unknown (\<lambda>_. []), False)"
    by (simp add: FromError_def splitn2_def has_prefix_def)
  with FromError_sound [OF this] show ?thesis by auto
qed

end
