(* ===== verification/Cache_Values.thy ===== *)
theory Cache_Values
  imports Berror "HOL-Library.AList"
begin

text \<open>
  The values of the cache (\<^verbatim>\<open>client/cache\<close>): counters (\<^verbatim>\<open>calc_utils.go\<close>) and the
  conversions of \<^verbatim>\<open>conv.go\<close>. A value of type \<^verbatim>\<open>interface{}\<close> is one of the integer types
  that counters support (\<^verbatim>\<open>int\<close> and \<^verbatim>\<open>uint\<close> are 64 bits wide), a string, bytes, a
  boolean, nil, or a value of another type, given by the text that \<^verbatim>\<open>fmt.Sprint\<close> prints for it.
\<close>

datatype gval =
    VNil
  | VInt "64 word" | VInt32 "32 word" | VInt64 "64 word"
  | VUint "64 word" | VUint32 "32 word" | VUint64 "64 word"
  | VString string | VBytes string | VBool bool
  | VOther string

definition ErrIncrementOverflow :: err where
  "ErrIncrementOverflow = Sentinel ''ErrIncrementOverflow'' (errFmt 4002004 ''this incr invocation will overflow.'')"

definition ErrDecrementOverflow :: err where
  "ErrDecrementOverflow = Sentinel ''ErrDecrementOverflow'' (errFmt 4002005 ''this decr invocation will overflow.'')"

definition ErrNotIntegerType :: err where
  "ErrNotIntegerType = Sentinel ''ErrNotIntegerType'' (errFmt 4002006 ''item val is not (u)int (u)int32 (u)int64'')"

section \<open>Counters\<close>

fun incr :: "gval \<Rightarrow> err + gval" where
  "incr (VInt v) = (let tmp = v + 1 in
     if 0 < sint v \<and> sint tmp < 0 then Inl ErrIncrementOverflow else Inr (VInt tmp))"
| "incr (VInt32 v) = (if v = 0x7FFFFFFF then Inl ErrIncrementOverflow else Inr (VInt32 (v + 1)))"
| "incr (VInt64 v) = (if v = 0x7FFFFFFFFFFFFFFF then Inl ErrIncrementOverflow else Inr (VInt64 (v + 1)))"
| "incr (VUint v) = (let tmp = v + 1 in if tmp < v then Inl ErrIncrementOverflow else Inr (VUint tmp))"
| "incr (VUint32 v) = (if v = 0xFFFFFFFF then Inl ErrIncrementOverflow else Inr (VUint32 (v + 1)))"
| "incr (VUint64 v) = (if v = 0xFFFFFFFFFFFFFFFF then Inl ErrIncrementOverflow else Inr (VUint64 (v + 1)))"
| "incr v = Inl ErrNotIntegerType"

fun decr :: "gval \<Rightarrow> err + gval" where
  "decr (VInt v) = (let tmp = v - 1 in
     if sint v < 0 \<and> 0 < sint tmp then Inl ErrDecrementOverflow else Inr (VInt tmp))"
| "decr (VInt32 v) = (if v = 0x80000000 then Inl ErrDecrementOverflow else Inr (VInt32 (v - 1)))"
| "decr (VInt64 v) = (if v = 0x8000000000000000 then Inl ErrDecrementOverflow else Inr (VInt64 (v - 1)))"
| "decr (VUint v) = (if v = 0 then Inl ErrDecrementOverflow else Inr (VUint (v - 1)))"
| "decr (VUint32 v) = (if v = 0 then Inl ErrDecrementOverflow else Inr (VUint32 (v - 1)))"
| "decr (VUint64 v) = (if v = 0 then Inl ErrDecrementOverflow else Inr (VUint64 (v - 1)))"
| "decr v = Inl ErrNotIntegerType"

section \<open>Conversions\<close>

fun GetString :: "gval \<Rightarrow> string" where
  "GetString (VString s) = s"
| "GetString (VBytes s) = s"
| "GetString VNil = []"
| "GetString (VInt v) = itoa (sint v)"
| "GetString (VInt32 v) = itoa (sint v)"
| "GetString (VInt64 v) = itoa (sint v)"
| "GetString (VUint v) = utoa (unat v)"
| "GetString (VUint32 v) = utoa (unat v)"
| "GetString (VUint64 v) = utoa (unat v)"
| "GetString (VBool b) = (if b then ''true'' else ''false'')"
| "GetString (VOther s) = s"

fun GetInt :: "gval \<Rightarrow> 64 word" where
  "GetInt (VInt v) = v"
| "GetInt (VInt32 v) = word_of_int (sint v)"
| "GetInt (VInt64 v) = v"
| "GetInt v = (let d = GetString v in if d \<noteq> [] then word_of_int (fst (atoi d)) else 0)"

fun GetInt64 :: "gval \<Rightarrow> 64 word" where
  "GetInt64 (VInt v) = v"
| "GetInt64 (VInt32 v) = word_of_int (sint v)"
| "GetInt64 (VInt64 v) = v"
| "GetInt64 v = (let d = GetString v in if d \<noteq> [] then word_of_int (fst (parse_int 64 d)) else 0)"

definition ParseBool :: "string \<Rightarrow> bool option" where
  "ParseBool s =
     (if s \<in> set [''1'', ''t'', ''T'', ''true'', ''TRUE'', ''True''] then Some True
      else if s \<in> set [''0'', ''f'', ''F'', ''false'', ''FALSE'', ''False''] then Some False
      else None)"

fun GetBool :: "gval \<Rightarrow> bool" where
  "GetBool (VBool b) = b"
| "GetBool v = (let d = GetString v in if d \<noteq> [] then ParseBool d = Some True else False)"

section \<open>Bounds\<close>

text \<open>The number a counter holds, and the range of its type.\<close>

fun num_of :: "gval \<Rightarrow> int option" where
  "num_of (VInt v) = Some (sint v)"
| "num_of (VInt32 v) = Some (sint v)"
| "num_of (VInt64 v) = Some (sint v)"
| "num_of (VUint v) = Some (uint v)"
| "num_of (VUint32 v) = Some (uint v)"
| "num_of (VUint64 v) = Some (uint v)"
| "num_of v = None"

fun num_range :: "gval \<Rightarrow> int \<times> int" where
  "num_range (VInt v) = (- (2 ^ 63), 2 ^ 63 - 1)"
| "num_range (VInt32 v) = (- (2 ^ 31), 2 ^ 31 - 1)"
| "num_range (VInt64 v) = (- (2 ^ 63), 2 ^ 63 - 1)"
| "num_range (VUint v) = (0, 2 ^ 64 - 1)"
| "num_range (VUint32 v) = (0, 2 ^ 32 - 1)"
| "num_range (VUint64 v) = (0, 2 ^ 64 - 1)"
| "num_range v = (0, 0)"

fun same_type :: "gval \<Rightarrow> gval \<Rightarrow> bool" where
  "same_type (VInt _) (VInt _) = True"
| "same_type (VInt32 _) (VInt32 _) = True"
| "same_type (VInt64 _) (VInt64 _) = True"
| "same_type (VUint _) (VUint _) = True"
| "same_type (VUint32 _) (VUint32 _) = True"
| "same_type (VUint64 _) (VUint64 _) = True"
| "same_type _ _ = False"

text \<open>What a counter step must do, for a step up or down and the end of the range it must respect.\<close>

definition counts :: "int \<Rightarrow> int \<Rightarrow> err \<Rightarrow> gval \<Rightarrow> err + gval \<Rightarrow> bool" where
  "counts d lim e v res \<longleftrightarrow>
     (case num_of v of
        None \<Rightarrow> res = Inl ErrNotIntegerType
      | Some n \<Rightarrow> fst (num_range v) \<le> n \<and> n \<le> snd (num_range v) \<and>
          (if n = lim then res = Inl e
           else \<exists>v'. res = Inr v' \<and> same_type v v' \<and> num_of v' = Some (n + d)))"

lemma incr_counts: "counts 1 (snd (num_range v)) ErrIncrementOverflow v (incr v)"
proof (cases v)
  case (VInt w)
  have "sint w = 2 ^ 63 - 1 \<longleftrightarrow> 0 < sint w \<and> sint (w + 1) < 0"
    using sint_succ [of w] sint_bounds [of w] sint_eqI [of w "0x7FFFFFFFFFFFFFFF"] by fastforce
  with VInt show ?thesis using sint_bounds [of w] sint_succ [of w] by (simp add: counts_def Let_def)
next
  case (VInt32 w)
  have "sint w = 2 ^ 31 - 1 \<longleftrightarrow> w = 0x7FFFFFFF" using sint_eqI [of w "0x7FFFFFFF"] by auto
  with VInt32 show ?thesis using sint_bounds [of w] sint_succ [of w] by (simp add: counts_def)
next
  case (VInt64 w)
  have "sint w = 2 ^ 63 - 1 \<longleftrightarrow> w = 0x7FFFFFFFFFFFFFFF" using sint_eqI [of w "0x7FFFFFFFFFFFFFFF"] by auto
  with VInt64 show ?thesis using sint_bounds [of w] sint_succ [of w] by (simp add: counts_def)
next
  case (VUint w)
  have "uint w = 2 ^ 64 - 1 \<longleftrightarrow> w + 1 < w"
    using uint_succ [of w] uint_lt2p [of w] uint_eqI [of w "0xFFFFFFFFFFFFFFFF"]
    by (cases "uint w = 2 ^ 64 - 1") (auto simp: word_less_def)
  with VUint show ?thesis using uint_lt2p [of w] uint_succ [of w] by (simp add: counts_def Let_def)
next
  case (VUint32 w)
  have "uint w = 2 ^ 32 - 1 \<longleftrightarrow> w = 0xFFFFFFFF" using uint_eqI [of w "0xFFFFFFFF"] by auto
  with VUint32 show ?thesis using uint_lt2p [of w] uint_succ [of w] by (simp add: counts_def)
next
  case (VUint64 w)
  have "uint w = 2 ^ 64 - 1 \<longleftrightarrow> w = 0xFFFFFFFFFFFFFFFF" using uint_eqI [of w "0xFFFFFFFFFFFFFFFF"] by auto
  with VUint64 show ?thesis using uint_lt2p [of w] uint_succ [of w] by (simp add: counts_def)
qed (simp_all add: counts_def)

lemma decr_counts: "counts (- 1) (fst (num_range v)) ErrDecrementOverflow v (decr v)"
proof (cases v)
  case (VInt w)
  have "sint w = - (2 ^ 63) \<longleftrightarrow> sint w < 0 \<and> 0 < sint (w - 1)"
    using sint_pred [of w] sint_bounds [of w] sint_eqI [of w "0x8000000000000000"] by fastforce
  with VInt show ?thesis using sint_bounds [of w] sint_pred [of w] by (simp add: counts_def Let_def)
next
  case (VInt32 w)
  have "sint w = - (2 ^ 31) \<longleftrightarrow> w = 0x80000000" using sint_eqI [of w "0x80000000"] by auto
  with VInt32 show ?thesis using sint_bounds [of w] sint_pred [of w] by (simp add: counts_def)
next
  case (VInt64 w)
  have "sint w = - (2 ^ 63) \<longleftrightarrow> w = 0x8000000000000000" using sint_eqI [of w "0x8000000000000000"] by auto
  with VInt64 show ?thesis using sint_bounds [of w] sint_pred [of w] by (simp add: counts_def)
next
  case (VUint w)
  then show ?thesis using uint_lt2p [of w] uint_pred [of w] by (simp add: counts_def uint_0_iff)
next
  case (VUint32 w)
  then show ?thesis using uint_lt2p [of w] uint_pred [of w] by (simp add: counts_def uint_0_iff)
next
  case (VUint64 w)
  then show ?thesis using uint_lt2p [of w] uint_pred [of w] by (simp add: counts_def uint_0_iff)
qed (simp_all add: counts_def)

lemma num_inj: "same_type v w \<Longrightarrow> num_of v = num_of w \<Longrightarrow> v = w"
  by (induction v w rule: same_type.induct) (auto intro: sint_eqI uint_eqI)

lemma same_type_range: "same_type v w \<Longrightarrow> num_range v = num_range w"
  by (induction v w rule: same_type.induct) auto

lemma same_type_trans: "same_type u v \<Longrightarrow> same_type v w \<Longrightarrow> same_type w u"
  by (induction u v rule: same_type.induct; cases w) auto

lemma same_type_num: "same_type v w \<Longrightarrow> num_of v \<noteq> None"
  by (induction v w rule: same_type.induct) auto

text \<open>C28. On every value of the six supported integer types, incr returns the value of the
  same type that is one greater, except at the greatest value of the type, where it reports the
  overflow and nothing wraps around; decr does the same downwards; any other value is rejected as
  not an integer. An increment that succeeds is undone by a decrement.\<close>

theorem counters_exact:
  "counts 1 (snd (num_range v)) ErrIncrementOverflow v (incr v) \<and>
   counts (- 1) (fst (num_range v)) ErrDecrementOverflow v (decr v) \<and>
   (\<forall>v'. incr v = Inr v' \<longrightarrow> decr v' = Inr v)"
proof -
  have "decr v' = Inr v" if inc: "incr v = Inr v'" for v'
  proof -
    obtain n where n: "num_of v = Some n" "fst (num_range v) \<le> n" "same_type v v'" "num_of v' = Some (n + 1)"
      using incr_counts [of v] inc by (auto simp: counts_def split: option.splits if_splits)
    with decr_counts [of v'] same_type_range [OF n(3)] obtain v'' where
      "decr v' = Inr v''" "same_type v' v''" "num_of v'' = Some n"
      by (auto simp: counts_def)
    moreover from this have "v'' = v" using n same_type_trans num_inj by metis
    ultimately show ?thesis by simp
  qed
  with incr_counts decr_counts show ?thesis by blast
qed

theorem counters_exact_witness:
  "decr (VInt32 0x7FFFFFFF) = Inr (VInt32 0x7FFFFFFE)"
proof -
  have "incr (VInt32 0x7FFFFFFE) = Inr (VInt32 0x7FFFFFFF)" by simp
  with counters_exact [of "VInt32 0x7FFFFFFE"] show ?thesis by blast
qed

lemma itoa_nonempty [simp]: "itoa i \<noteq> []"
  by (simp add: itoa_def)

lemma parse_itoa_sint: "parse_int 64 (itoa (sint (w :: 64 word))) = (sint w, None)"
  by (rule parse_int_itoa) (use sint_bounds [of w] in simp_all)

lemma parse_itoa_sint32: "parse_int 64 (itoa (sint (w :: 32 word))) = (sint w, None)"
  by (rule parse_int_itoa) (use sint_bounds [of w] in simp_all)

text \<open> Reading a cached value as an integer does not depend on whether it is stored as a
  signed integer or as its decimal text, and GetInt and GetInt64 agree on every value.\<close>

theorem GetInt64_of_text:
  "GetInt64 (VString (GetString (VInt w))) = GetInt64 (VInt w) \<and>
   GetInt64 (VBytes (GetString (VInt32 x))) = GetInt64 (VInt32 x) \<and>
   GetInt64 (VString (GetString (VInt64 w))) = GetInt64 (VInt64 w) \<and>
   GetInt v = GetInt64 v"
  by (cases v) (simp_all add: parse_itoa_sint parse_itoa_sint32 atoi_def)

end
