(* ===== verification/Memory_Cache.thy ===== *)
theory Memory_Cache
  imports Cache_Values
begin

text \<open>
  The in-memory cache (\<^verbatim>\<open>client/cache/memory.go\<close>). The clock is an argument: \<^term>\<open>now\<close> is
  the time in nanoseconds at which an operation runs. The map of items is an association list
  that is only read by key or, for the collection of expired keys, in some order. The goroutine
  that removes expired items is the sequence of its rounds; a round reads the expired keys under
  the read lock and deletes them under the write lock, so other operations can run in between.
\<close>

definition ErrKeyExpired :: err where
  "ErrKeyExpired = Sentinel ''ErrKeyExpired'' (errFmt 4002014 ''the key is expired'')"

definition ErrKeyNotExist :: err where
  "ErrKeyNotExist = Sentinel ''ErrKeyNotExist'' (errFmt 4002015 ''the key isn't exist'')"

record MemoryItem =
  val :: gval
  createdTime :: int
  lifespan :: int

record MemoryCache =
  dur :: int
  items :: "(string \<times> MemoryItem) list"
  Every :: int

definition DefaultEvery :: int where
  "DefaultEvery = 60"

definition isExpire :: "int \<Rightarrow> MemoryItem \<Rightarrow> bool" where
  "isExpire now mi = (if lifespan mi = 0 then False else now - createdTime mi > lifespan mi)"

definition NewMemoryCache :: MemoryCache where
  "NewMemoryCache = \<lparr>dur = 0, items = [], Every = 0\<rparr>"

definition mem_Get :: "int \<Rightarrow> MemoryCache \<Rightarrow> string \<Rightarrow> gval \<times> err option" where
  "mem_Get now bc key =
     (case map_of (items bc) key of
        Some itm \<Rightarrow> if isExpire now itm then (VNil, Some ErrKeyExpired) else (val itm, None)
      | None \<Rightarrow> (VNil, Some ErrKeyNotExist))"

text \<open>The loop of GetMulti, with the slice of values, the index and the collected messages.\<close>

fun GetMulti_loop :: "int \<Rightarrow> MemoryCache \<Rightarrow> string list \<Rightarrow> nat \<Rightarrow> gval list \<Rightarrow> string list \<Rightarrow> gval list \<times> string list" where
  "GetMulti_loop now bc [] i rc keysErr = (rc, keysErr)"
| "GetMulti_loop now bc (ki # ks) i rc keysErr =
     (case mem_Get now bc ki of
        (v, Some e) \<Rightarrow> GetMulti_loop now bc ks (Suc i) rc
           (keysErr @ [''key ['' @ ki @ ''] error: '' @ error_text e])
      | (v, None) \<Rightarrow> GetMulti_loop now bc ks (Suc i) (rc[i := v]) keysErr)"

definition mem_GetMulti :: "int \<Rightarrow> MemoryCache \<Rightarrow> string list \<Rightarrow> gval list \<times> err option" where
  "mem_GetMulti now bc keys =
     (let (rc, keysErr) = GetMulti_loop now bc keys 0 (replicate (length keys) VNil) []
      in if keysErr = [] then (rc, None)
         else (rc, Some (Dynamic (errFmt 4002016 (join ''; '' keysErr)))))"

definition mem_Put :: "int \<Rightarrow> MemoryCache \<Rightarrow> string \<Rightarrow> gval \<Rightarrow> int \<Rightarrow> MemoryCache" where
  "mem_Put now bc key v timeout =
     bc\<lparr>items := AList.update key \<lparr>val = v, createdTime = now, lifespan = timeout\<rparr> (items bc)\<rparr>"

definition mem_Delete :: "MemoryCache \<Rightarrow> string \<Rightarrow> MemoryCache" where
  "mem_Delete bc key = bc\<lparr>items := AList.delete key (items bc)\<rparr>"

definition mem_Incr :: "MemoryCache \<Rightarrow> string \<Rightarrow> err + MemoryCache" where
  "mem_Incr bc key =
     (case map_of (items bc) key of
        None \<Rightarrow> Inl ErrKeyNotExist
      | Some itm \<Rightarrow> res_bind (incr (val itm)) (\<lambda>v.
          Inr (bc\<lparr>items := AList.update key (itm\<lparr>val := v\<rparr>) (items bc)\<rparr>)))"

definition mem_Decr :: "MemoryCache \<Rightarrow> string \<Rightarrow> err + MemoryCache" where
  "mem_Decr bc key =
     (case map_of (items bc) key of
        None \<Rightarrow> Inl ErrKeyNotExist
      | Some itm \<Rightarrow> res_bind (decr (val itm)) (\<lambda>v.
          Inr (bc\<lparr>items := AList.update key (itm\<lparr>val := v\<rparr>) (items bc)\<rparr>)))"

definition mem_IsExist :: "int \<Rightarrow> MemoryCache \<Rightarrow> string \<Rightarrow> bool" where
  "mem_IsExist now bc key =
     (case map_of (items bc) key of Some v \<Rightarrow> \<not> isExpire now v | None \<Rightarrow> False)"

definition mem_ClearAll :: "MemoryCache \<Rightarrow> MemoryCache" where
  "mem_ClearAll bc = bc\<lparr>items := []\<rparr>"

text \<open>
  StartAndGC, from the decoded configuration on (\<^const>\<open>None\<close> is a JSON error); the result says
  whether the configuration was accepted, and \<^verbatim>\<open>vacuum\<close> starts its rounds only for a positive
  interval.
\<close>

definition mem_StartAndGC :: "(string \<rightharpoonup> int) option \<Rightarrow> MemoryCache \<Rightarrow> MemoryCache option" where
  "mem_StartAndGC cf bc =
     (case cf of
        None \<Rightarrow> None
      | Some cf \<Rightarrow>
          (let interval = (case cf ''interval'' of None \<Rightarrow> DefaultEvery | Some i \<Rightarrow> i)
           in Some (bc\<lparr>Every := interval, dur := interval * 1000000000\<rparr>)))"

definition vacuum_runs :: "MemoryCache \<Rightarrow> bool" where
  "vacuum_runs bc \<longleftrightarrow> \<not> Every bc < 1"

fun expired_loop :: "int \<Rightarrow> (string \<times> MemoryItem) list \<Rightarrow> string list" where
  "expired_loop now [] = []"
| "expired_loop now ((key, itm) # its) =
     (if isExpire now itm then key # expired_loop now its else expired_loop now its)"

definition expiredKeys :: "int \<Rightarrow> MemoryCache \<Rightarrow> string list" where
  "expiredKeys now bc = expired_loop now (items bc)"

definition clearItems :: "string list \<Rightarrow> MemoryCache \<Rightarrow> MemoryCache" where
  "clearItems keys bc = fold (\<lambda>key bc. bc\<lparr>items := AList.delete key (items bc)\<rparr>) keys bc"

text \<open>
  The operations that run between the two halves of a round of \<^verbatim>\<open>vacuum\<close>; a round collects
  keys at one time and removes them after some other operations.
\<close>

datatype mem_op =
    OpPut int string gval int
  | OpDelete string
  | OpIncr string
  | OpDecr string
  | OpClear

fun mem_step :: "MemoryCache \<Rightarrow> mem_op \<Rightarrow> MemoryCache" where
  "mem_step bc (OpPut now k v d) = mem_Put now bc k v d"
| "mem_step bc (OpDelete k) = mem_Delete bc k"
| "mem_step bc (OpIncr k) = (case mem_Incr bc k of Inl _ \<Rightarrow> bc | Inr bc' \<Rightarrow> bc')"
| "mem_step bc (OpDecr k) = (case mem_Decr bc k of Inl _ \<Rightarrow> bc | Inr bc' \<Rightarrow> bc')"
| "mem_step bc OpClear = mem_ClearAll bc"

definition vacuum_round :: "int \<Rightarrow> mem_op list \<Rightarrow> MemoryCache \<Rightarrow> MemoryCache" where
  "vacuum_round now ops bc =
     (let keys = expiredKeys now bc; bc' = foldl mem_step bc ops
      in if length keys \<noteq> 0 then clearItems keys bc' else bc')"

section \<open>Invariant and lookups\<close>

definition mem_inv :: "MemoryCache \<Rightarrow> bool" where
  "mem_inv bc \<longleftrightarrow> distinct (map fst (items bc))"

lemma map_of_update [simp]: "map_of (AList.update k v al) k' = (if k' = k then Some v else map_of al k')"
  by (simp add: update_conv')

lemma map_of_delete [simp]: "map_of (AList.delete k al) k' = (if k' = k then None else map_of al k')"
  by (simp add: delete_conv')

lemma mem_inv_ops [simp]:
  "mem_inv NewMemoryCache"
  "mem_inv bc \<Longrightarrow> mem_inv (mem_Put now bc k v d)"
  "mem_inv bc \<Longrightarrow> mem_inv (mem_Delete bc k)"
  "mem_inv (mem_ClearAll bc)"
  by (simp_all add: mem_inv_def NewMemoryCache_def mem_Put_def mem_Delete_def mem_ClearAll_def
      distinct_update distinct_delete)

lemma mem_inv_step: "mem_inv bc \<Longrightarrow> mem_inv (mem_step bc op)"
  by (cases op) (auto simp: mem_Incr_def mem_Decr_def res_bind_def mem_inv_def distinct_update
      mem_Put_def mem_Delete_def mem_ClearAll_def distinct_delete split: option.splits sum.splits)

text \<open>The contract of a key-value store with removal, at any instant of the clock.\<close>

definition put_now :: "int \<Rightarrow> MemoryCache \<Rightarrow> string \<Rightarrow> gval \<times> int \<Rightarrow> err + MemoryCache" where
  "put_now now bc k vd = Inr (mem_Put now bc k (fst vd) (snd vd))"

definition fresh_value :: "gval \<times> int \<Rightarrow> gval \<times> err option" where
  "fresh_value vd = (if snd vd < 0 then (VNil, Some ErrKeyExpired) else (fst vd, None))"

interpretation memory: kv_store_del "mem_Get now" "put_now now" fresh_value mem_inv "\<lambda>_. True"
    mem_Delete "(VNil, Some ErrKeyNotExist)" for now
  by unfold_locales
    (auto simp: put_now_def mem_Get_def mem_Put_def mem_Delete_def isExpire_def fresh_value_def
      mem_inv_def distinct_update distinct_delete split: option.splits)

lemma expired_loop_set:
  "distinct (map fst its) \<Longrightarrow> set (expired_loop now its) = {k. \<exists>itm. map_of its k = Some itm \<and> isExpire now itm}"
  by (induction now its rule: expired_loop.induct) (auto dest: map_of_SomeD simp: image_iff)

lemma map_of_clearItems: "map_of (items (clearItems keys bc)) k = (if k \<in> set keys then None else map_of (items bc) k)"
  unfolding clearItems_def by (induction keys arbitrary: bc) auto

lemma expiredKeys_set:
  "mem_inv bc \<Longrightarrow> k \<in> set (expiredKeys now bc) \<longleftrightarrow> (\<exists>itm. map_of (items bc) k = Some itm \<and> isExpire now itm)"
  by (simp add: expiredKeys_def expired_loop_set mem_inv_def)

lemma vacuum_round_items:
  "map_of (items (vacuum_round now ops bc)) k =
     (if k \<in> set (expiredKeys now bc) then None else map_of (items (foldl mem_step bc ops)) k)"
  by (auto simp: vacuum_round_def Let_def map_of_clearItems)

fun op_key :: "mem_op \<Rightarrow> string option" where
  "op_key (OpPut now k v d) = Some k"
| "op_key (OpDelete k) = Some k"
| "op_key (OpIncr k) = Some k"
| "op_key (OpDecr k) = Some k"
| "op_key OpClear = None"

definition leaves_alone :: "string \<Rightarrow> mem_op \<Rightarrow> bool" where
  "leaves_alone k op \<longleftrightarrow> (case op_key op of None \<Rightarrow> False | Some k' \<Rightarrow> k' \<noteq> k)"

lemma mem_step_other: "leaves_alone k op \<Longrightarrow> map_of (items (mem_step bc op)) k = map_of (items bc) k"
  by (cases op) (auto simp: leaves_alone_def mem_Put_def mem_Delete_def mem_Incr_def mem_Decr_def res_bind_def
      split: option.splits sum.splits)

lemma mem_steps_other:
  "list_all (leaves_alone k) ops \<Longrightarrow> map_of (items (foldl mem_step bc ops)) k = map_of (items bc) k"
  by (induction ops arbitrary: bc) (auto simp: mem_step_other)

section \<open>Properties\<close>

text \<open>C33. After Put of a value with a timeout, however many operations on other keys run, Get
  returns the value as long as the timeout has not passed (for ever if it is 0), and the error
  of an expired key afterwards; IsExist agrees.\<close>

theorem mem_Get_after_Put:
  assumes "list_all (leaves_alone k) ops"
  shows "mem_Get t' (foldl mem_step (mem_Put t bc k v d) ops) k =
     (if d = 0 \<or> t' - t \<le> d then (v, None) else (VNil, Some ErrKeyExpired)) \<and>
   mem_IsExist t' (foldl mem_step (mem_Put t bc k v d) ops) k = (d = 0 \<or> t' - t \<le> d)"
  using mem_steps_other [OF assms, of "mem_Put t bc k v d"]
  by (auto simp: mem_Get_def mem_IsExist_def isExpire_def mem_Put_def)

theorem mem_Get_after_Put_witness:
  "mem_Get 15 (foldl mem_step (mem_Put 10 NewMemoryCache ''a'' (VInt 7) 5) [OpPut 11 ''b'' VNil 0, OpDelete ''c'']) ''a''
     = (VInt 7, None)"
  using mem_Get_after_Put [of "''a''" "[OpPut 11 ''b'' VNil 0, OpDelete ''c'']" 15 10 NewMemoryCache "VInt 7" 5]
  by (simp add: leaves_alone_def)

lemma GetMulti_loop_spec:
  "i + length ks = length rc \<Longrightarrow> GetMulti_loop now bc ks i rc ke = (rc', ke') \<Longrightarrow>
   drop i rc = replicate (length ks) VNil \<Longrightarrow>
   rc' = take i rc @ map (\<lambda>k. fst (mem_Get now bc k)) ks \<and>
   (ke' = [] \<longleftrightarrow> ke = [] \<and> list_all (\<lambda>k. snd (mem_Get now bc k) = None) ks)"
proof (induction now bc ks i rc ke arbitrary: rc' ke' rule: GetMulti_loop.induct)
  case (2 now bc ki ks i rc ke)
  have i: "i < length rc" using 2 by simp
  then have d: "drop i rc = rc ! i # drop (Suc i) rc" by (simp add: Cons_nth_drop_Suc)
  with 2 have nil: "rc ! i = VNil" "drop (Suc i) rc = replicate (length ks) VNil" by auto
  obtain v e where ve: "mem_Get now bc ki = (v, e)" by (cases "mem_Get now bc ki")
  show ?case
  proof (cases e)
    case None
    with ve i nil 2 show ?thesis
      by (simp add: take_Suc_conv_app_nth)
  next
    case (Some e')
    from ve Some have "v = VNil" by (auto simp: mem_Get_def split: option.splits if_splits)
    with ve i nil Some 2 show ?thesis
      by (simp add: take_Suc_conv_app_nth)
  qed
qed simp

text \<open> GetMulti returns, in the order of the keys, what Get returns for each of them (nil for
  a key without a value), and reports an error exactly if Get does for one of the keys.\<close>

theorem GetMulti_is_Get:
  "fst (mem_GetMulti now bc keys) = map (\<lambda>k. fst (mem_Get now bc k)) keys \<and>
   (snd (mem_GetMulti now bc keys) = None \<longleftrightarrow> list_all (\<lambda>k. snd (mem_Get now bc k) = None) keys)"
proof -
  obtain rc ke where r: "GetMulti_loop now bc keys 0 (replicate (length keys) VNil) [] = (rc, ke)"
    by (cases "GetMulti_loop now bc keys 0 (replicate (length keys) VNil) []")
  from GetMulti_loop_spec [OF _ r] r show ?thesis by (auto simp: mem_GetMulti_def)
qed

text \<open> A round of the cleaning goroutine with no operation in between removes exactly the
  items that were expired when it looked: a lookup then finds what it found before, except that
  an expired key no longer exists.\<close>

theorem vacuum_round_spec:
  assumes "mem_inv bc"
  shows "mem_Get now (vacuum_round now [] bc) k =
    (if mem_Get now bc k = (VNil, Some ErrKeyExpired) then (VNil, Some ErrKeyNotExist) else mem_Get now bc k)"
  using vacuum_round_items [of now "[]" bc k] expiredKeys_set [OF assms, of k now]
  by (auto simp: mem_Get_def ErrKeyExpired_def ErrKeyNotExist_def split: option.splits)

theorem vacuum_round_spec_witness:
  "mem_Get 20 (vacuum_round 20 [] (mem_Put 10 NewMemoryCache ''a'' (VInt 7) 5)) ''a'' = (VNil, Some ErrKeyNotExist)"
  using vacuum_round_spec [of "mem_Put 10 NewMemoryCache ''a'' (VInt 7) 5" 20 "''a''"]
  by (simp add: mem_Get_def mem_Put_def isExpire_def NewMemoryCache_def mem_inv_def)

text \<open> The two halves of a round are not atomic: a value that is stored again under an
  expired key after the round has collected the expired keys is deleted by the round, although
  it is fresh.\<close>

theorem vacuum_drops_fresh_value:
  assumes "mem_inv bc" "mem_Get now bc k = (VNil, Some ErrKeyExpired)"
  shows "mem_Get now (vacuum_round now [OpPut now k v 0] bc) k = (VNil, Some ErrKeyNotExist)"
proof -
  have "k \<in> set (expiredKeys now bc)"
    using assms by (auto simp: expiredKeys_set mem_Get_def ErrKeyExpired_def ErrKeyNotExist_def
        split: option.splits if_splits)
  with vacuum_round_items [of now "[OpPut now k v 0]" bc k] show ?thesis by (simp add: mem_Get_def)
qed

theorem vacuum_drops_fresh_value_witness:
  "mem_Get 20 (vacuum_round 20 [OpPut 20 ''a'' (VInt 8) 0] (mem_Put 10 NewMemoryCache ''a'' (VInt 7) 5)) ''a''
     = (VNil, Some ErrKeyNotExist)"
  by (rule vacuum_drops_fresh_value) (simp_all add: mem_Get_def mem_Put_def isExpire_def NewMemoryCache_def mem_inv_def)

end
