(* ===== verification/Cache_Patterns.thy ===== *)
theory Cache_Patterns
  imports Memory_Cache "HOL-Library.Multiset"
begin

text \<open>
  The decorators of \<^verbatim>\<open>client/cache\<close>: write through, write delete and write double delete,
  read through, the Bloom filter cache and the random expiry cache. A decorator embeds a value
  of the interface \<^verbatim>\<open>Cache\<close>, here a record of operations on a cache state; the functions
  that load from and store to the backing store act on the state of that store. The contract of
  a cache is a locale, interpreted by the memory cache; the decorators are proved correct in it.
\<close>

record 's Cache =
  cGet :: "'s \<Rightarrow> string \<Rightarrow> gval \<times> err option"
  cPut :: "'s \<Rightarrow> string \<Rightarrow> gval \<Rightarrow> int \<Rightarrow> err option \<times> 's"
  cDelete :: "'s \<Rightarrow> string \<Rightarrow> err option \<times> 's"

type_synonym 'd storeFunc = "'d \<Rightarrow> string \<Rightarrow> gval \<Rightarrow> err option \<times> 'd"
type_synonym 'd loadFunc = "'d \<Rightarrow> string \<Rightarrow> gval \<times> err option"

definition DeadlineExceeded :: err where
  "DeadlineExceeded = Sentinel ''context.DeadlineExceeded'' ''context deadline exceeded''"

text \<open>The text of a value under the verb \<^verbatim>\<open>%v\<close>.\<close>

fun fmt_v :: "gval \<Rightarrow> string" where
  "fmt_v VNil = ''<nil>''"
| "fmt_v (VBytes s) = ''['' @ join '' '' (map (\<lambda>c. utoa (of_char c)) s) @ '']''"
| "fmt_v v = GetString v"

definition persist_failed :: "err \<Rightarrow> string \<Rightarrow> gval \<Rightarrow> err" where
  "persist_failed e key v = Wrapped (errFmt 4002026 (''key: '' @ key @ '', val: '' @ fmt_v v)) e"

section \<open>Writing\<close>

definition WriteThrough_Set :: "'s Cache \<Rightarrow> 'd storeFunc \<Rightarrow> string \<Rightarrow> gval \<Rightarrow> int \<Rightarrow> 'd \<times> 's \<Rightarrow> err option \<times> 'd \<times> 's" where
  "WriteThrough_Set C store key v expiration ds =
     (let (e, d) = store (fst ds) key v in
      case e of
        Some e \<Rightarrow> (Some (persist_failed e key v), d, snd ds)
      | None \<Rightarrow> (let (e, s) = cPut C (snd ds) key v expiration in (e, d, s)))"

definition WriteDelete_Set :: "'s Cache \<Rightarrow> 'd storeFunc \<Rightarrow> string \<Rightarrow> gval \<Rightarrow> 'd \<times> 's \<Rightarrow> err option \<times> 'd \<times> 's" where
  "WriteDelete_Set C store key v ds =
     (let (e, d) = store (fst ds) key v in
      if e \<noteq> None \<and> \<not> errors_is (the e) DeadlineExceeded
      then (Some (persist_failed (the e) key v), d, snd ds)
      else (let (e, s) = cDelete C (snd ds) key in (e, d, s)))"

text \<open>The second deletion is a timer: the keys whose deletion is due, with the time.\<close>

record 's timers =
  cstate :: 's
  due :: "(int \<times> string) list"

definition WriteDoubleDelete_Set :: "'s Cache \<Rightarrow> 'd storeFunc \<Rightarrow> int \<Rightarrow> int \<Rightarrow> string \<Rightarrow> gval \<Rightarrow> 'd \<times> 's timers \<Rightarrow>
    err option \<times> 'd \<times> 's timers" where
  "WriteDoubleDelete_Set C store now interval key v ds =
     (let (e, d) = store (fst ds) key v in
      if e \<noteq> None \<and> \<not> errors_is (the e) DeadlineExceeded
      then (Some (persist_failed (the e) key v), d, snd ds)
      else (let ts = (snd ds)\<lparr>due := due (snd ds) @ [(now + interval, key)]\<rparr>;
                (e, s) = cDelete C (cstate ts) key
            in (case e of None \<Rightarrow> None | Some e \<Rightarrow> Some (Wrapped (errFmt 5002008
                  (''write double delete pattern failed to delete the key: '' @ key)) e),
                d, ts\<lparr>cstate := s\<rparr>)))"

definition fire_timers :: "'s Cache \<Rightarrow> int \<Rightarrow> 's timers \<Rightarrow> 's timers" where
  "fire_timers C now ts =
     \<lparr>cstate = fold (\<lambda>(t, key) s. snd (cDelete C s key)) (filter (\<lambda>(t, key). t \<le> now) (due ts)) (cstate ts),
      due = filter (\<lambda>(t, key). now < t) (due ts)\<rparr>"

section \<open>Reading\<close>

definition load_failed :: "err \<Rightarrow> err" where
  "load_failed e = Wrapped (errFmt 4002024 ''cache unable to load data'') e"

definition ReadThrough_Get :: "'s Cache \<Rightarrow> int \<Rightarrow> 'd loadFunc \<Rightarrow> 'd \<Rightarrow> 's \<Rightarrow> string \<Rightarrow> (gval \<times> err option) \<times> 's" where
  "ReadThrough_Get C expiration load d s key =
     (let (v, e) = cGet C s key in
      if v = VNil \<or> e \<noteq> None then
        (let (v, e) = load d key in
         case e of
           Some e \<Rightarrow> ((VNil, Some (load_failed e)), s)
         | None \<Rightarrow> (let (e, s) = cPut C s key v expiration in
                    if e \<noteq> None then ((v, e), s) else ((v, None), s)))
      else ((v, None), s))"

text \<open>The Bloom filter is the test of the interface; filling it is the client's job.\<close>

definition BloomFilter_Get :: "'s Cache \<Rightarrow> (string \<Rightarrow> bool) \<Rightarrow> int \<Rightarrow> 'd loadFunc \<Rightarrow> 'd \<Rightarrow> 's \<Rightarrow> string \<Rightarrow>
    (gval \<times> err option) \<times> 's" where
  "BloomFilter_Get C blm expiration load d s key =
     (let (v, e) = cGet C s key in
      if e \<noteq> None \<and> \<not> errors_is (the e) ErrKeyNotExist then ((VNil, e), s)
      else if e \<noteq> None \<and> errors_is (the e) ErrKeyNotExist \<and> blm key then
        (let (v, e) = load d key in
         case e of
           Some e \<Rightarrow> ((VNil, Some (load_failed e)), s)
         | None \<Rightarrow> (let (e, s) = cPut C s key v expiration in
                    if e \<noteq> None then ((v, e), s) else ((v, None), s)))
      else ((v, None), s))"

section \<open>Random expiry\<close>

text \<open>
  The offsets are the durations of 3 to 7 seconds, shuffled by swaps with random indices (the
  results of \<^verbatim>\<open>rand.Intn(size)\<close>), and then handed out round robin by a 64-bit counter.
\<close>

definition swap_at :: "int list \<Rightarrow> nat \<Rightarrow> nat \<Rightarrow> int list" where
  "swap_at xs i n = xs[i := xs ! n, n := xs ! i]"

fun shuffle_loop :: "nat \<Rightarrow> nat list \<Rightarrow> int list \<Rightarrow> int list" where
  "shuffle_loop i [] xs = xs"
| "shuffle_loop i (n # ns) xs = shuffle_loop (Suc i) ns (swap_at xs i n)"

definition randTimes :: "nat list \<Rightarrow> int list" where
  "randTimes rands = shuffle_loop 0 rands (map (\<lambda>i. (int i + 3) * 1000000000) [0..<5])"

definition next_offset :: "int list \<Rightarrow> u64 \<Rightarrow> int \<times> u64" where
  "next_offset ts i = (let i = i + 1 in (ts ! unat (i mod 5), i))"

definition RandomExpire_Put :: "'s Cache \<Rightarrow> int \<Rightarrow> 's \<Rightarrow> string \<Rightarrow> gval \<Rightarrow> int \<Rightarrow> err option \<times> 's" where
  "RandomExpire_Put C offset s key v timeout = cPut C s key v (timeout + offset)"

section \<open>The contract of a cache\<close>

text \<open>
  A cache agrees with the backing store if every value it returns, nil excepted, is the one the
  store would load. The store functions of the client promise that a store that succeeds is
  seen by the next load, one that fails changes nothing unless its deadline was exceeded, and
  other keys are never touched.
\<close>

definition coherent :: "'s Cache \<Rightarrow> 'd loadFunc \<Rightarrow> 'd \<Rightarrow> 's \<Rightarrow> bool" where
  "coherent C load d s \<longleftrightarrow> (\<forall>k v. cGet C s k = (v, None) \<longrightarrow> v = VNil \<or> load d k = (v, None))"

definition store_ok :: "'d storeFunc \<Rightarrow> 'd loadFunc \<Rightarrow> bool" where
  "store_ok store load \<longleftrightarrow> (\<forall>d k v e d'. store d k v = (e, d') \<longrightarrow>
     (\<forall>k'. k' \<noteq> k \<longrightarrow> load d' k' = load d k') \<and>
     (case e of None \<Rightarrow> load d' k = (v, None)
      | Some x \<Rightarrow> errors_is x DeadlineExceeded \<or> load d' k = load d k))"

lemma store_okD:
  assumes "store_ok store load" "store d k v = (e, d')"
  shows "k' \<noteq> k \<Longrightarrow> load d' k' = load d k'" "e = None \<Longrightarrow> load d' k = (v, None)"
    "e = Some x \<Longrightarrow> \<not> errors_is x DeadlineExceeded \<Longrightarrow> load d' k = load d k"
  using assms unfolding store_ok_def by fastforce+

locale cache_contract =
  fixes C :: "'s Cache" and inv :: "'s \<Rightarrow> bool" and live :: "int \<Rightarrow> bool"
  assumes put_ok: "inv s \<Longrightarrow> \<exists>s'. cPut C s k v d = (None, s') \<and> inv s'"
    and get_put: "inv s \<Longrightarrow> live d \<Longrightarrow> cPut C s k v d = (e, s') \<Longrightarrow>
      cGet C s' k' = (if k' = k then (v, None) else cGet C s k')"
    and delete_ok: "inv s \<Longrightarrow> \<exists>s'. cDelete C s k = (None, s') \<and> inv s'"
    and get_delete: "inv s \<Longrightarrow> cDelete C s k = (e, s') \<Longrightarrow>
      cGet C s' k' = (if k' = k then (VNil, Some ErrKeyNotExist) else cGet C s k')"
begin

lemma put_coherent:
  assumes "inv s" "live d" "coherent C load db s" "load db k = (v, None)"
  obtains s' where "cPut C s k v d = (None, s')" "inv s'" "coherent C load db s'" "cGet C s' k = (v, None)"
proof -
  from put_ok [OF assms(1), of k v d] obtain s' where s': "cPut C s k v d = (None, s')" "inv s'" by blast
  note g = get_put [OF assms(1,2) s'(1)]
  then have "coherent C load db s'" using assms(3,4) by (auto simp: coherent_def)
  with s' g show ?thesis by (intro that) auto
qed

lemma delete_coherent:
  assumes "inv s" "coherent C load db s" "\<And>k'. k' \<noteq> k \<Longrightarrow> load db' k' = load db k'"
  obtains s' where "cDelete C s k = (None, s')" "inv s'" "coherent C load db' s'"
    "cGet C s' k = (VNil, Some ErrKeyNotExist)"
proof -
  from delete_ok [OF assms(1), of k] obtain s' where s': "cDelete C s k = (None, s')" "inv s'" by blast
  note g = get_delete [OF assms(1) s'(1)]
  then have "coherent C load db' s'" using assms(2,3) by (auto simp: coherent_def)
  with s' g show ?thesis by (intro that) auto
qed

lemma ReadThrough_Get_correct:
  assumes "inv s" "live x" "coherent C load d s"
  shows "\<exists>s'. ReadThrough_Get C x load d s k =
      ((case load d k of (v, None) \<Rightarrow> (v, None) | (_, Some e) \<Rightarrow> (VNil, Some (load_failed e))), s') \<and>
    inv s' \<and> coherent C load d s' \<and>
    (\<forall>v load' d'. load d k = (v, None) \<and> v \<noteq> VNil \<longrightarrow> ReadThrough_Get C x load' d' s' k = ((v, None), s'))"
proof -
  obtain v e where ve: "cGet C s k = (v, e)" by (cases "cGet C s k")
  obtain w f where wf: "load d k = (w, f)" by (cases "load d k")
  show ?thesis
  proof (cases "v = VNil \<or> e \<noteq> None")
    case False
    with ve assms(3) have "load d k = (v, None)" by (auto simp: coherent_def)
    with False ve assms show ?thesis by (auto simp: ReadThrough_Get_def)
  next
    case True
    show ?thesis
    proof (cases f)
      case None
      with wf obtain s' where s': "cPut C s k w x = (None, s')" "inv s'" "coherent C load d s'"
        "cGet C s' k = (w, None)" using put_coherent [OF assms] by metis
      with True None ve wf show ?thesis by (auto simp: ReadThrough_Get_def)
    next
      case (Some f')
      with True ve wf assms show ?thesis by (auto simp: ReadThrough_Get_def)
    qed
  qed
qed

lemma WriteDelete_Set_coherent:
  assumes "inv s" "coherent C load d s" "store_ok store load" "WriteDelete_Set C store k v (d, s) = (e, d', s')"
  shows "inv s' \<and> coherent C load d' s' \<and>
    (e = None \<longrightarrow> cGet C s' k = (VNil, Some ErrKeyNotExist))"
proof -
  obtain f db where f: "store d k v = (f, db)" by (cases "store d k v")
  note so = store_okD [OF assms(3) f]
  show ?thesis
  proof (cases "f \<noteq> None \<and> \<not> errors_is (the f) DeadlineExceeded")
    case True
    then obtain g where g: "f = Some g" "\<not> errors_is g DeadlineExceeded" by auto
    then have same: "load db k' = load d k'" for k' using so(1) [of k'] so(3) [OF g] by (cases "k' = k") auto
    have "e \<noteq> None" "d' = db" "s' = s" using assms(4) f True by (auto simp: WriteDelete_Set_def)
    with assms(1,2) same show ?thesis by (auto simp: coherent_def)
  next
    case False
    from delete_coherent [OF assms(1,2) so(1)] obtain t where t: "cDelete C s k = (None, t)" "inv t"
      "coherent C load db t" "cGet C t k = (VNil, Some ErrKeyNotExist)" by metis
    then have "WriteDelete_Set C store k v (d, s) = (None, db, t)"
      using f False by (auto simp: WriteDelete_Set_def)
    with t assms(4) show ?thesis by simp
  qed
qed

lemma WriteThrough_Set_coherent:
  assumes "inv s" "live x" "coherent C load d s" "store_ok store load"
    "WriteThrough_Set C store k v x (d, s) = (e, d', s')"
    "\<not> (\<exists>g db. store d k v = (Some g, db) \<and> errors_is g DeadlineExceeded)"
  shows "inv s' \<and> coherent C load d' s' \<and>
    (e = None \<longrightarrow> cGet C s' k = (v, None) \<and> load d' k = (v, None)) \<and> (e \<noteq> None \<longrightarrow> s' = s)"
proof -
  obtain f db where f: "store d k v = (f, db)" by (cases "store d k v")
  note so = store_okD [OF assms(4) f]
  show ?thesis
  proof (cases f)
    case (Some g)
    with assms(6) f have "\<not> errors_is g DeadlineExceeded" by blast
    with so Some have same: "load db k' = load d k'" for k' by (cases "k' = k") auto
    have "e \<noteq> None" "d' = db" "s' = s" using assms(5) f Some by (auto simp: WriteThrough_Set_def)
    with assms(1,3) same show ?thesis by (auto simp: coherent_def)
  next
    case None
    from put_ok [OF assms(1), of k v x] obtain t where t: "cPut C s k v x = (None, t)" "inv t" by blast
    note g = get_put [OF assms(1,2) t(1)]
    have "coherent C load db t"
      using assms(3) so(1) so(2) [OF None] g unfolding coherent_def by (metis prod.inject)
    moreover have "(e, d', s') = (None, db, t)" using assms(5) f None t by (simp add: WriteThrough_Set_def)
    ultimately show ?thesis using t(2) g so(2) [OF None] by simp
  qed
qed

lemma fold_delete:
  assumes "inv s"
  shows "inv (fold (\<lambda>(t, key) s. snd (cDelete C s key)) ds s) \<and>
    cGet C (fold (\<lambda>(t, key) s. snd (cDelete C s key)) ds s) k =
      (if k \<in> snd ` set ds then (VNil, Some ErrKeyNotExist) else cGet C s k)"
  using assms
proof (induction ds arbitrary: s)
  case (Cons tk ds)
  obtain t k' where tk: "tk = (t, k')" by (cases tk)
  from delete_ok [OF Cons.prems, of k'] obtain s' where s': "cDelete C s k' = (None, s')" "inv s'" by blast
  from Cons.IH [OF s'(2)] get_delete [OF Cons.prems s'(1), of k] s'(1) tk show ?case by auto
qed simp

lemma fire_timers_gone:
  assumes "inv (cstate ts)" "(t, k) \<in> set (due ts)" "t \<le> now"
  shows "inv (cstate (fire_timers C now ts)) \<and> cGet C (cstate (fire_timers C now ts)) k = (VNil, Some ErrKeyNotExist)"
proof -
  have "k \<in> snd ` set (filter (\<lambda>(t, key). t \<le> now) (due ts))" using assms(2,3) by force
  with fold_delete [OF assms(1), of "filter (\<lambda>(t, key). t \<le> now) (due ts)" k] show ?thesis
    by (simp add: fire_timers_def)
qed

end

text \<open>The memory cache at an instant of the clock keeps the contract, for timeouts that are not negative.\<close>

definition memory_ops :: "int \<Rightarrow> MemoryCache Cache" where
  "memory_ops now = \<lparr>cGet = mem_Get now, cPut = (\<lambda>s k v d. (None, mem_Put now s k v d)),
     cDelete = (\<lambda>s k. (None, mem_Delete s k))\<rparr>"

interpretation mem_cache: cache_contract "memory_ops now" mem_inv "\<lambda>d. 0 \<le> d" for now
proof
  fix s k v d e s' k'
  show "mem_inv s \<Longrightarrow> \<exists>s'. cPut (memory_ops now) s k v d = (None, s') \<and> mem_inv s'"
    by (simp add: memory_ops_def)
  show "mem_inv s \<Longrightarrow> 0 \<le> d \<Longrightarrow> cPut (memory_ops now) s k v d = (e, s') \<Longrightarrow>
      cGet (memory_ops now) s' k' = (if k' = k then (v, None) else cGet (memory_ops now) s k')"
    using memory.get_put [where now = now and s = s and k = k and v = "(v, d)" and s' = s' and k' = k'] by (simp add: memory_ops_def put_now_def fresh_value_def)
  show "mem_inv s \<Longrightarrow> \<exists>s'. cDelete (memory_ops now) s k = (None, s') \<and> mem_inv s'"
    by (simp add: memory_ops_def)
  show "mem_inv s \<Longrightarrow> cDelete (memory_ops now) s k = (e, s') \<Longrightarrow>
      cGet (memory_ops now) s' k' = (if k' = k then (VNil, Some ErrKeyNotExist) else cGet (memory_ops now) s k')"
    using memory.get_del [where now = now and s = s and k = k and k' = k'] by (auto simp: memory_ops_def)
qed

section \<open>Properties of the decorators over the memory cache\<close>

text \<open> If the memory cache agrees with the store, a read-through Get returns what the load
  function returns (with its error wrapped), keeps the agreement, and after a successful load the
  next Get of the key is answered from the cache, whatever the load function has become.\<close>

theorem read_through_memory:
  assumes "mem_inv s" "0 \<le> x" "coherent (memory_ops now) load d s"
  shows "\<exists>s'. ReadThrough_Get (memory_ops now) x load d s k =
      ((case load d k of (v, None) \<Rightarrow> (v, None) | (_, Some e) \<Rightarrow> (VNil, Some (load_failed e))), s') \<and>
    mem_inv s' \<and> coherent (memory_ops now) load d s' \<and>
    (\<forall>v load' d'. load d k = (v, None) \<and> v \<noteq> VNil \<longrightarrow>
       ReadThrough_Get (memory_ops now) x load' d' s' k = ((v, None), s'))"
  by (rule mem_cache.ReadThrough_Get_correct [OF assms])

text \<open>A store for the witnesses: a map that loads what was stored.\<close>

definition map_store :: "(string \<rightharpoonup> gval) storeFunc" where
  "map_store d k v = (None, d(k \<mapsto> v))"

definition map_load :: "(string \<rightharpoonup> gval) loadFunc" where
  "map_load d k = (case d k of Some v \<Rightarrow> (v, None) | None \<Rightarrow> (VNil, Some (Dynamic ''no row'')))"

lemma map_store_ok: "store_ok map_store map_load"
  by (auto simp: store_ok_def map_store_def map_load_def)

lemma coherent_empty: "coherent (memory_ops now) load d NewMemoryCache"
  by (simp add: coherent_def memory_ops_def mem_Get_def NewMemoryCache_def)

theorem read_through_memory_witness:
  "\<exists>s'. ReadThrough_Get (memory_ops 5) 0 map_load [''a'' \<mapsto> VInt 3] NewMemoryCache ''a'' = ((VInt 3, None), s')"
  using read_through_memory [OF mem_inv_ops(1) order_refl coherent_empty,
      of 5 map_load "[''a'' \<mapsto> VInt 3]" "''a''"]
  by (auto simp: map_load_def)



text \<open>C39. The write double delete pattern: after a Set that reports success the key is not in
  the cache, and once the interval has passed the second deletion removes whatever another
  goroutine has put under the key in the meantime, whatever the state of the cache has become.\<close>

theorem double_delete_clears:
  assumes "mem_inv (cstate ts)"
    "WriteDoubleDelete_Set (memory_ops now) store now interval k v (d, ts) = (None, d', ts')"
  shows "mem_Get now (cstate ts') k = (VNil, Some ErrKeyNotExist) \<and>
    (\<forall>s t. mem_inv s \<and> now + interval \<le> t \<longrightarrow>
       mem_Get t (cstate (fire_timers (memory_ops t) t (ts'\<lparr>cstate := s\<rparr>))) k = (VNil, Some ErrKeyNotExist))"
proof -
  have ts': "ts' = ts\<lparr>due := due ts @ [(now + interval, k)], cstate := mem_Delete (cstate ts) k\<rparr>"
    using assms(2) by (auto simp: WriteDoubleDelete_Set_def memory_ops_def Let_def split: prod.splits if_splits)
  have "mem_Get t (cstate (fire_timers (memory_ops t) t (ts'\<lparr>cstate := s\<rparr>))) k = (VNil, Some ErrKeyNotExist)"
    if "mem_inv s" "now + interval \<le> t" for s t
    using mem_cache.fire_timers_gone [of "ts'\<lparr>cstate := s\<rparr>" "now + interval" k t t] that
    by (simp add: ts' memory_ops_def)
  with ts' show ?thesis by (simp add: mem_Get_def mem_Delete_def)
qed

theorem double_delete_clears_witness:
  "\<exists>d' ts'. WriteDoubleDelete_Set (memory_ops 0) map_store 0 10 ''a'' (VInt 1)
       (Map.empty, \<lparr>cstate = NewMemoryCache, due = []\<rparr>) = (None, d', ts') \<and>
     mem_Get 11 (cstate (fire_timers (memory_ops 11) 11 (ts'\<lparr>cstate := mem_Put 5 NewMemoryCache ''a'' (VInt 0) 0\<rparr>))) ''a''
       = (VNil, Some ErrKeyNotExist)"
proof -
  let ?ts = "\<lparr>cstate = NewMemoryCache, due = []\<rparr>"
  have r: "WriteDoubleDelete_Set (memory_ops 0) map_store 0 10 ''a'' (VInt 1) (Map.empty, ?ts) =
      (None, [''a'' \<mapsto> VInt 1], \<lparr>cstate = NewMemoryCache, due = [(10, ''a'')]\<rparr>)"
    by (simp add: WriteDoubleDelete_Set_def map_store_def memory_ops_def mem_Delete_def NewMemoryCache_def)
  have "mem_inv (cstate ?ts)" by simp
  from double_delete_clears [OF this r] r show ?thesis by auto
qed

text \<open> The Bloom filter cache over the memory cache: a key that is not stored is loaded and
  cached if the filter may hold it, and answered by nil without a load if the filter excludes
  it; a stored value is returned. A key whose value has expired, and has not been removed yet,
  is neither loaded nor answered: Get returns the error of an expired key.\<close>

theorem bloom_get:
  "BloomFilter_Get (memory_ops now) blm x load d s k =
     (case mem_Get now s k of
        (v, None) \<Rightarrow> ((v, None), s)
      | (_, Some e) \<Rightarrow>
          if e = ErrKeyExpired then ((VNil, Some ErrKeyExpired), s)
          else if \<not> blm k then ((VNil, None), s)
          else (case load d k of
                  (_, Some e) \<Rightarrow> ((VNil, Some (load_failed e)), s)
                | (v, None) \<Rightarrow> ((v, None), mem_Put now s k v x)))"
proof -
  have "ErrKeyExpired \<noteq> ErrKeyNotExist" "\<not> errors_is ErrKeyExpired ErrKeyNotExist" "errors_is ErrKeyNotExist ErrKeyNotExist"
    by (simp_all add: ErrKeyExpired_def ErrKeyNotExist_def)
  then show ?thesis
    by (auto simp: BloomFilter_Get_def memory_ops_def mem_Get_def split: option.splits prod.splits)
qed

section \<open>Random offsets\<close>

lemma mset_swap_at: "i < length xs \<Longrightarrow> n < length xs \<Longrightarrow> mset (swap_at xs i n) = mset xs"
  by (simp add: swap_at_def mset_swap)

lemma shuffle_loop_mset:
  "i + length ns \<le> length xs \<Longrightarrow> list_all (\<lambda>n. n < length xs) ns \<Longrightarrow>
   mset (shuffle_loop i ns xs) = mset xs"
proof (induction i ns xs rule: shuffle_loop.induct)
  case (2 i n ns xs)
  then show ?case by (simp add: mset_swap_at) (simp add: swap_at_def)
qed simp

text \<open> The default offsets are a permutation of 3 to 7 seconds whatever the random numbers are,
  so every timeout handed to the cache is longer than the given one by at least 3 and less than 8
  seconds, at every value of the counter including its wrap-around, and never negative for a
  timeout that is not. A timeout of 0, which the memory cache keeps for ever, therefore expires.\<close>

theorem random_offsets:
  assumes "length rands = 5" "list_all (\<lambda>n. n < 5) rands" "0 \<le> timeout"
  shows "mset (randTimes rands) = mset [3000000000, 4000000000, 5000000000, 6000000000, 7000000000] \<and>
    (case next_offset (randTimes rands) i of (offset, i') \<Rightarrow>
       i' = i + 1 \<and> timeout + 3000000000 \<le> timeout + offset \<and> timeout + offset < timeout + 8000000000 \<and>
       mem_Get (now + offset + 1) (snd (RandomExpire_Put (memory_ops now) offset s k v 0)) k = (VNil, Some ErrKeyExpired))"
proof -
  let ?base = "map (\<lambda>i. (int i + 3) * 1000000000) [0..<5]"
  have base: "?base = [3000000000, 4000000000, 5000000000, 6000000000, 7000000000]" by (simp add: upt_rec)
  have perm: "mset (randTimes rands) = mset ?base"
    unfolding randTimes_def by (rule shuffle_loop_mset) (use assms in auto)
  then have len: "length (randTimes rands) = 5" and el: "set (randTimes rands) = set ?base"
    using mset_eq_length mset_eq_setD by fastforce+
  have "unat ((i + 1) mod 5) < 5" by (simp add: unat_mod_distrib)
  with len have "randTimes rands ! unat ((i + 1) mod 5) \<in> set ?base" unfolding el [symmetric] by (intro nth_mem) simp
  then have o: "3000000000 \<le> randTimes rands ! unat ((i + 1) mod 5)" "randTimes rands ! unat ((i + 1) mod 5) < 8000000000"
    unfolding base by auto
  then have "mem_Get (now + x + 1) (snd (RandomExpire_Put (memory_ops now) x s k v 0)) k = (VNil, Some ErrKeyExpired)"
    if "x = randTimes rands ! unat ((i + 1) mod 5)" for x
    using that by (simp add: RandomExpire_Put_def memory_ops_def mem_Get_def mem_Put_def isExpire_def)
  with perm [unfolded base] o show ?thesis by (simp add: next_offset_def Let_def)
qed

theorem random_offsets_witness:
  "mset (randTimes [4, 0, 2, 2, 1]) = mset [3000000000, 4000000000, 5000000000, 6000000000, 7000000000]"
  using random_offsets [of "[4, 0, 2, 2, 1]" 0 0 0 NewMemoryCache "[]" VNil] by simp

end
