(* ===== verification/Session_Memory.thy ===== *)
theory Session_Memory
  imports Kv_Store
begin

text \<open>
  The in-memory session provider (\<^verbatim>\<open>server/web/session/sess_mem.go\<close>). Session stores are
  objects shared by the map of sessions, by the list that orders them by last access (front
  first) and by the requests that hold them, so they live in a heap: the map and the list hold
  addresses. Time is in whole seconds. The goroutine that an access starts to refresh the access
  time is a step of its own, \<^term>\<open>SessionUpdate\<close>, which may run any time later.
\<close>

section \<open>A session store\<close>

record ('k, 'v) MemSessionStore =
  sid :: string
  timeAccessed :: int
  sess_value :: "'k \<rightharpoonup> 'v option"

definition sess_Set :: "('k, 'v) MemSessionStore \<Rightarrow> 'k \<Rightarrow> 'v option \<Rightarrow> ('k, 'v) MemSessionStore" where
  "sess_Set st key v = st\<lparr>sess_value := (sess_value st)(key \<mapsto> v)\<rparr>"

definition sess_Get :: "('k, 'v) MemSessionStore \<Rightarrow> 'k \<Rightarrow> 'v option" where
  "sess_Get st key = (case sess_value st key of Some v \<Rightarrow> v | None \<Rightarrow> None)"

definition sess_Delete :: "('k, 'v) MemSessionStore \<Rightarrow> 'k \<Rightarrow> ('k, 'v) MemSessionStore" where
  "sess_Delete st key = st\<lparr>sess_value := (sess_value st)(key := None)\<rparr>"

definition sess_Flush :: "('k, 'v) MemSessionStore \<Rightarrow> ('k, 'v) MemSessionStore" where
  "sess_Flush st = st\<lparr>sess_value := Map.empty\<rparr>"

definition SessionID :: "('k, 'v) MemSessionStore \<Rightarrow> string" where
  "SessionID st = sid st"

definition sess_put :: "('k, 'v) MemSessionStore \<Rightarrow> 'k \<Rightarrow> 'v option \<Rightarrow> unit + ('k, 'v) MemSessionStore" where
  "sess_put st key v = Inr (sess_Set st key v)"

interpretation session_values: kv_store_del sess_Get sess_put "\<lambda>v. v" "\<lambda>_. True" "\<lambda>_. True" sess_Delete None
  by unfold_locales (auto simp: sess_put_def sess_Set_def sess_Get_def sess_Delete_def)

section \<open>The provider\<close>

record ('k, 'v) MemProvider =
  sessions :: "string \<rightharpoonup> nat"
  plist :: "nat list"
  maxlifetime :: int
  savePath :: string
  heap :: "nat \<Rightarrow> ('k, 'v) MemSessionStore"
  fresh :: nat

definition mempder :: "('k, 'v) MemProvider" where
  "mempder = \<lparr>sessions = Map.empty, plist = [], maxlifetime = 0, savePath = [],
     heap = (\<lambda>_. \<lparr>sid = [], timeAccessed = 0, sess_value = Map.empty\<rparr>), fresh = 0\<rparr>"

definition SessionInit :: "int \<Rightarrow> string \<Rightarrow> ('k, 'v) MemProvider \<Rightarrow> ('k, 'v) MemProvider" where
  "SessionInit lifetime path p = p\<lparr>maxlifetime := lifetime, savePath := path\<rparr>"

text \<open>The code that allocates a store, pushes it to the front and registers it.\<close>

definition push_new :: "int \<Rightarrow> string \<Rightarrow> ('k, 'v) MemProvider \<Rightarrow> nat \<times> ('k, 'v) MemProvider" where
  "push_new now s p =
     (let a = fresh p
      in (a, p\<lparr>heap := (heap p)(a := \<lparr>sid = s, timeAccessed = now, sess_value = Map.empty\<rparr>),
               fresh := Suc a, plist := a # plist p, sessions := (sessions p)(s \<mapsto> a)\<rparr>))"

definition SessionRead :: "int \<Rightarrow> string \<Rightarrow> ('k, 'v) MemProvider \<Rightarrow> nat \<times> ('k, 'v) MemProvider" where
  "SessionRead now s p = (case sessions p s of Some a \<Rightarrow> (a, p) | None \<Rightarrow> push_new now s p)"

definition SessionExist :: "string \<Rightarrow> ('k, 'v) MemProvider \<Rightarrow> bool" where
  "SessionExist s p \<longleftrightarrow> sessions p s \<noteq> None"

definition SessionRegenerate :: "int \<Rightarrow> string \<Rightarrow> string \<Rightarrow> ('k, 'v) MemProvider \<Rightarrow> nat \<times> ('k, 'v) MemProvider" where
  "SessionRegenerate now oldsid s p =
     (case sessions p oldsid of
        Some a \<Rightarrow> (a, p\<lparr>heap := (heap p)(a := (heap p a)\<lparr>sid := s\<rparr>),
                      sessions := (sessions p)(s \<mapsto> a, oldsid := None)\<rparr>)
      | None \<Rightarrow> push_new now s p)"

definition SessionDestroy :: "string \<Rightarrow> ('k, 'v) MemProvider \<Rightarrow> ('k, 'v) MemProvider" where
  "SessionDestroy s p =
     (case sessions p s of
        Some a \<Rightarrow> p\<lparr>sessions := (sessions p)(s := None), plist := removeAll a (plist p)\<rparr>
      | None \<Rightarrow> p)"

definition SessionUpdate :: "int \<Rightarrow> string \<Rightarrow> ('k, 'v) MemProvider \<Rightarrow> ('k, 'v) MemProvider" where
  "SessionUpdate now s p =
     (case sessions p s of
        Some a \<Rightarrow> p\<lparr>heap := (heap p)(a := (heap p a)\<lparr>timeAccessed := now\<rparr>),
                   plist := a # removeAll a (plist p)\<rparr>
      | None \<Rightarrow> p)"

definition SessionAll :: "('k, 'v) MemProvider \<Rightarrow> nat" where
  "SessionAll p = length (plist p)"

definition expired :: "int \<Rightarrow> ('k, 'v) MemProvider \<Rightarrow> nat \<Rightarrow> bool" where
  "expired now p a \<longleftrightarrow> timeAccessed (heap p a) + maxlifetime p < now"

function SessionGC :: "int \<Rightarrow> ('k, 'v) MemProvider \<Rightarrow> ('k, 'v) MemProvider" where
  "SessionGC now p =
     (if plist p = [] then p
      else let a = last (plist p) in
        if expired now p a
        then SessionGC now (p\<lparr>plist := butlast (plist p), sessions := (sessions p)(sid (heap p a) := None)\<rparr>)
        else p)"
  by pat_completeness auto
termination
  by (relation "measure (\<lambda>(now, p). length (plist p))") auto

declare SessionGC.simps [simp del]

section \<open>Steps\<close>

text \<open>
  The operations in the order in which they take the provider's lock, each with the time at which
  it runs. Regeneration to an identifier already in use (or to the old one) is a step of its own.
\<close>

inductive sess_step :: "int \<Rightarrow> ('k, 'v) MemProvider \<Rightarrow> ('k, 'v) MemProvider \<Rightarrow> bool" where
  read: "sess_step now p (snd (SessionRead now s p))"
| regenerate: "\<not> SessionExist s p \<Longrightarrow> s \<noteq> old \<Longrightarrow> sess_step now p (snd (SessionRegenerate now old s p))"
| destroy: "sess_step now p (SessionDestroy s p)"
| update: "sess_step now p (SessionUpdate now s p)"
| gc: "sess_step now p (SessionGC now p)"
| store: "a < fresh p \<Longrightarrow> sess_step now p (p\<lparr>heap := (heap p)(a := (heap p a)\<lparr>sess_value := v\<rparr>)\<rparr>)"

inductive sess_reach :: "int \<Rightarrow> ('k, 'v) MemProvider \<Rightarrow> bool" where
  init: "sess_reach now (SessionInit lifetime path mempder)"
| tick: "sess_reach now p \<Longrightarrow> now \<le> now' \<Longrightarrow> sess_step now' p p' \<Longrightarrow> sess_reach now' p'"

inductive_cases sess_stepE: "sess_step now p p'"

text \<open>
  The invariant: the list holds every registered store exactly once and nothing else, a store is
  registered under its own identifier, and the list is ordered by access time.
\<close>

definition sess_inv :: "int \<Rightarrow> ('k, 'v) MemProvider \<Rightarrow> bool" where
  "sess_inv now p \<longleftrightarrow>
     distinct (plist p) \<and> (\<forall>a \<in> set (plist p). a < fresh p \<and> sessions p (sid (heap p a)) = Some a) \<and>
     (\<forall>s a. sessions p s = Some a \<longrightarrow> a \<in> set (plist p) \<and> sid (heap p a) = s) \<and>
     sorted_wrt (\<lambda>a b. timeAccessed (heap p b) \<le> timeAccessed (heap p a)) (plist p) \<and>
     (\<forall>a \<in> set (plist p). timeAccessed (heap p a) \<le> now)"

lemma sess_inv_mono: "sess_inv now p \<Longrightarrow> now \<le> now' \<Longrightarrow> sess_inv now' p"
  by (force simp: sess_inv_def)

lemma sorted_wrt_cong: "(\<And>a b. a \<in> set xs \<Longrightarrow> b \<in> set xs \<Longrightarrow> P a b = Q a b) \<Longrightarrow> sorted_wrt P xs = sorted_wrt Q xs"
  by (induction xs) auto

lemma sorted_wrt_removeAll: "sorted_wrt P xs \<Longrightarrow> sorted_wrt P (removeAll a xs)"
  by (induction xs) auto

lemma sess_invI:
  assumes "distinct (plist p)"
    and "\<And>a. a \<in> set (plist p) \<Longrightarrow> a < fresh p"
    and "\<And>a. a \<in> set (plist p) \<Longrightarrow> sessions p (sid (heap p a)) = Some a"
    and "\<And>s a. sessions p s = Some a \<Longrightarrow> a \<in> set (plist p)"
    and "\<And>s a. sessions p s = Some a \<Longrightarrow> sid (heap p a) = s"
    and "sorted_wrt (\<lambda>a b. timeAccessed (heap p b) \<le> timeAccessed (heap p a)) (plist p)"
    and "\<And>a. a \<in> set (plist p) \<Longrightarrow> timeAccessed (heap p a) \<le> now"
  shows "sess_inv now p"
  unfolding sess_inv_def using assms by blast

lemma sess_invD:
  assumes "sess_inv now p"
  shows "distinct (plist p)"
    and "\<And>a. a \<in> set (plist p) \<Longrightarrow> a < fresh p"
    and "\<And>a. a \<in> set (plist p) \<Longrightarrow> sessions p (sid (heap p a)) = Some a"
    and "\<And>s a. sessions p s = Some a \<Longrightarrow> a \<in> set (plist p)"
    and "\<And>s a. sessions p s = Some a \<Longrightarrow> sid (heap p a) = s"
    and "sorted_wrt (\<lambda>a b. timeAccessed (heap p b) \<le> timeAccessed (heap p a)) (plist p)"
    and "\<And>a. a \<in> set (plist p) \<Longrightarrow> timeAccessed (heap p a) \<le> now"
  using assms unfolding sess_inv_def by blast+

lemma sess_inv_push:
  assumes "sess_inv now p" "sessions p s = None"
  shows "sess_inv now (snd (push_new now s p))"
proof -
  note D = sess_invD [OF assms(1)]
  have nf: "fresh p \<notin> set (plist p)" using D(2) by blast
  have ne: "x \<noteq> fresh p" if "x \<in> set (plist p)" for x using nf that by blast
  let ?q = "snd (push_new now s p)"
  have h: "heap ?q x = heap p x" if "x \<in> set (plist p)" for x
    using ne [OF that] by (simp add: push_new_def Let_def)
  have l: "plist ?q = fresh p # plist p" "fresh ?q = Suc (fresh p)" "sessions ?q = (sessions p)(s \<mapsto> fresh p)"
    "heap ?q (fresh p) = \<lparr>sid = s, timeAccessed = now, sess_value = Map.empty\<rparr>"
    by (simp_all add: push_new_def Let_def)
  have "sorted_wrt (\<lambda>a b. timeAccessed (heap ?q b) \<le> timeAccessed (heap ?q a)) (plist p)"
    using D(6) sorted_wrt_cong [of "plist p" "\<lambda>a b. timeAccessed (heap ?q b) \<le> timeAccessed (heap ?q a)"
        "\<lambda>a b. timeAccessed (heap p b) \<le> timeAccessed (heap p a)"] h by simp
  moreover have sn: "sid (heap p x) \<noteq> s" if "x \<in> set (plist p)" for x
    using D(3) [OF that] assms(2) by auto
  ultimately show ?thesis
    by (intro sess_invI) (use D nf h l in \<open>auto simp: less_Suc_eq split: if_splits\<close>)
qed

lemma sess_inv_read: "sess_inv now p \<Longrightarrow> sess_inv now (snd (SessionRead now s p))"
  by (cases "sessions p s") (simp_all add: SessionRead_def sess_inv_push)

lemma sess_inv_destroy:
  assumes "sess_inv now p"
  shows "sess_inv now (SessionDestroy s p)"
proof (cases "sessions p s")
  case (Some a)
  note D = sess_invD [OF assms]
  have "sid (heap p x) \<noteq> s" if "x \<in> set (plist p)" "x \<noteq> a" for x
    using D(3) [OF that(1)] Some that(2) by auto
  moreover have "x \<noteq> a" if "sessions p t = Some x" "t \<noteq> s" for x t
    using D(5) [OF that(1)] D(5) [OF Some] that(2) by auto
  ultimately show ?thesis
    by (intro sess_invI)
      (use D Some in \<open>auto simp: SessionDestroy_def distinct_removeAll sorted_wrt_removeAll split: if_splits\<close>)
qed (use assms in \<open>simp add: SessionDestroy_def\<close>)

lemma sess_inv_update:
  assumes "sess_inv now p"
  shows "sess_inv now (SessionUpdate now s p)"
proof (cases "sessions p s")
  case (Some a)
  note D = sess_invD [OF assms]
  let ?q = "SessionUpdate now s p"
  have l: "plist ?q = a # removeAll a (plist p)" "fresh ?q = fresh p" "sessions ?q = sessions p"
    "sid (heap ?q x) = sid (heap p x)" "x \<noteq> a \<Longrightarrow> heap ?q x = heap p x" "timeAccessed (heap ?q a) = now" for x
    using Some by (simp_all add: SessionUpdate_def)
  have "sorted_wrt (\<lambda>x y. timeAccessed (heap ?q y) \<le> timeAccessed (heap ?q x)) (removeAll a (plist p))"
    using sorted_wrt_removeAll [OF D(6), of a] sorted_wrt_cong [of "removeAll a (plist p)"
        "\<lambda>x y. timeAccessed (heap ?q y) \<le> timeAccessed (heap ?q x)"
        "\<lambda>x y. timeAccessed (heap p y) \<le> timeAccessed (heap p x)"] l(5) by simp
  moreover have tm: "timeAccessed (heap ?q x) \<le> now" if "x \<in> set (plist p)" for x
    using D(7) [OF that] l(5,6) by (cases "x = a") auto
  moreover have "a < fresh p" using D(2) D(4) Some by blast
  ultimately show ?thesis
    by (intro sess_invI) (use D Some D(4) [OF Some] l in \<open>auto simp: distinct_removeAll\<close>)
qed (use assms in \<open>simp add: SessionUpdate_def\<close>)

lemma sess_inv_regenerate:
  assumes "sess_inv now p" "\<not> SessionExist s p" "s \<noteq> old"
  shows "sess_inv now (snd (SessionRegenerate now old s p))"
proof (cases "sessions p old")
  case None
  with assms show ?thesis by (simp add: SessionRegenerate_def SessionExist_def sess_inv_push)
next
  case (Some a)
  note D = sess_invD [OF assms(1)]
  let ?q = "snd (SessionRegenerate now old s p)"
  have l: "plist ?q = plist p" "fresh ?q = fresh p" "sessions ?q = (sessions p)(s \<mapsto> a, old := None)"
    "timeAccessed (heap ?q x) = timeAccessed (heap p x)" "x \<noteq> a \<Longrightarrow> heap ?q x = heap p x" "sid (heap ?q a) = s" for x
    using Some by (simp_all add: SessionRegenerate_def)
  have o: "sid (heap p x) \<noteq> old" "sid (heap p x) \<noteq> s" if "x \<in> set (plist p)" "x \<noteq> a" for x
    using D(3) [OF that(1)] Some that(2) assms(2) by (auto simp: SessionExist_def)
  have n: "x \<noteq> a" if "sessions p t = Some x" "t \<noteq> old" for x t
    using D(5) [OF that(1)] D(5) [OF Some] that(2) by auto
  have three: "sessions ?q (sid (heap ?q x)) = Some x" if "x \<in> set (plist p)" for x
    using that o [OF that] D(3) [OF that] l(3,5,6) assms(3) by (cases "x = a") auto
  show ?thesis
    by (intro sess_invI) (use D D(4) [OF Some] n l assms(3) three in \<open>auto split: if_splits\<close>)
qed

lemma sess_inv_store: "sess_inv now p \<Longrightarrow> sess_inv now (p\<lparr>heap := (heap p)(a := (heap p a)\<lparr>sess_value := v\<rparr>)\<rparr>)"
proof -
  assume "sess_inv now p"
  note D = sess_invD [OF this]
  let ?q = "p\<lparr>heap := (heap p)(a := (heap p a)\<lparr>sess_value := v\<rparr>)\<rparr>"
  have "sid (heap ?q x) = sid (heap p x)" "timeAccessed (heap ?q x) = timeAccessed (heap p x)" for x by simp_all
  then show ?thesis by (intro sess_invI) (use D in simp_all)
qed

text \<open>The stores that survive a collection are the ones that are not expired, and nothing else changes.\<close>

lemma SessionGC_spec:
  assumes "sess_inv now p"
  shows "sess_inv now (SessionGC now p) \<and>
    plist (SessionGC now p) = filter (\<lambda>a. \<not> expired now p a) (plist p) \<and>
    heap (SessionGC now p) = heap p \<and>
    (\<forall>s. sessions (SessionGC now p) s =
      (case sessions p s of None \<Rightarrow> None | Some a \<Rightarrow> if expired now p a then None else Some a))"
  using assms
proof (induction now p rule: SessionGC.induct)
  case (1 now p)
  note D = sess_invD [OF "1.prems"]
  show ?case
  proof (cases "plist p = [] \<or> \<not> expired now p (last (plist p))")
    case True
    have ne: "\<not> expired now p x" if "x \<in> set (plist p)" for x
    proof -
      from that True have l: "plist p \<noteq> []" "\<not> expired now p (last (plist p))" by auto
      have "timeAccessed (heap p (last (plist p))) \<le> timeAccessed (heap p x)"
        using D(6) that l(1) by (cases "plist p" rule: rev_cases) (auto simp: sorted_wrt_append)
      with l show ?thesis by (simp add: expired_def)
    qed
    from True have "SessionGC now p = p" by (subst SessionGC.simps) (auto simp: Let_def)
    with "1.prems" ne D(4) show ?thesis by (auto intro: filter_True [symmetric] split: option.splits)
  next
    case False
    then obtain xs a where xs: "plist p = xs @ [a]" and ex: "expired now p a"
      by (cases "plist p" rule: rev_cases) auto
    let ?q = "p\<lparr>plist := xs, sessions := (sessions p)(sid (heap p a) := None)\<rparr>"
    have sa: "sessions p (sid (heap p a)) = Some a" by (rule D(3)) (simp add: xs)
    have "sid (heap p x) \<noteq> sid (heap p a)" if "x \<in> set xs" for x
    proof
      assume "sid (heap p x) = sid (heap p a)"
      moreover have "sessions p (sid (heap p x)) = Some x" by (rule D(3)) (simp add: xs that)
      ultimately have "Some x = Some a" using sa by metis
      then have "x = a" by (rule option.inject [THEN iffD1])
      with that D(1) xs show False by simp
    qed
    moreover have "x \<in> set xs" if "sessions p t = Some x" "t \<noteq> sid (heap p a)" for x t
    proof -
      have "x \<noteq> a" using D(5) [OF that(1)] that(2) by auto
      with D(4) [OF that(1)] xs show ?thesis by simp
    qed
    ultimately have inv: "sess_inv now ?q"
      by (intro sess_invI) (use D xs in \<open>auto simp: sorted_wrt_append split: if_splits\<close>)
    have gc: "SessionGC now p = SessionGC now ?q" using xs ex by (subst SessionGC.simps) simp
    have e: "expired now ?q = expired now p" by (auto simp: expired_def)
    have ne: "plist p \<noteq> []" and ex': "expired now p (last (plist p))" using xs ex by simp_all
    have q: "p\<lparr>plist := butlast (plist p), sessions := (sessions p)(sid (heap p (last (plist p))) := None)\<rparr> = ?q"
      using xs by simp
    note IH = "1.IH" [OF ne refl ex', unfolded q, OF inv]
    have I: "sess_inv now (SessionGC now ?q)" "plist (SessionGC now ?q) = filter (\<lambda>a. \<not> expired now p a) xs"
      "heap (SessionGC now ?q) = heap p" "sessions (SessionGC now ?q) t =
          (case sessions ?q t of None \<Rightarrow> None | Some a \<Rightarrow> if expired now p a then None else Some a)" for t
    proof -
      have qs: "plist ?q = xs" "heap ?q = heap p" by simp_all
      show "sess_inv now (SessionGC now ?q)" "plist (SessionGC now ?q) = filter (\<lambda>a. \<not> expired now p a) xs"
        "heap (SessionGC now ?q) = heap p" "sessions (SessionGC now ?q) t =
          (case sessions ?q t of None \<Rightarrow> None | Some a \<Rightarrow> if expired now p a then None else Some a)"
        using IH unfolding e qs by blast+
    qed
    have "sessions (SessionGC now p) t =
        (case sessions p t of None \<Rightarrow> None | Some a \<Rightarrow> if expired now p a then None else Some a)" for t
      unfolding gc I(4) using sa ex by (cases "t = sid (heap p a)") simp_all
    with I(1-3) show ?thesis unfolding gc using ex xs by simp
  qed
qed

lemma sess_step_inv: "sess_step now p p' \<Longrightarrow> sess_inv now p \<Longrightarrow> sess_inv now p'"
  by (induction rule: sess_step.induct)
    (simp_all add: sess_inv_read sess_inv_regenerate sess_inv_destroy sess_inv_update SessionGC_spec sess_inv_store)

lemma sess_reach_inv: "sess_reach now p \<Longrightarrow> sess_inv now p"
proof (induction rule: sess_reach.induct)
  case (init now lifetime path)
  then show ?case by (intro sess_invI) (simp_all add: SessionInit_def mempder_def)
next
  case (tick now p now' p')
  then show ?case using sess_step_inv sess_inv_mono by blast
qed

section \<open>Properties\<close>



text \<open> Regenerating a session to an identifier that is already in use leaves the store
  that had it in the list; when that store expires, its collection removes the identifier from
  the map, and the regenerated session, accessed just now, is lost although its store is still
  in the list and still counted.\<close>

theorem regenerate_gc_loses_session:
  "let p = snd (SessionRead 5 ''b'' (snd (SessionRead 0 ''a'' (SessionInit 10 [] (mempder :: ('k, 'v) MemProvider)))));
       q = SessionUpdate 6 ''a'' (snd (SessionRegenerate 6 ''b'' ''a'' p))
   in SessionExist ''a'' q \<and> timeAccessed (heap q 1) = 6 \<and>
      \<not> SessionExist ''a'' (SessionGC 12 q) \<and> SessionAll (SessionGC 12 q) = 1"
proof -
  let ?s = "\<lambda>i t. \<lparr>sid = i, timeAccessed = t, sess_value = Map.empty\<rparr> :: ('k, 'v) MemSessionStore"
  let ?d = "\<lambda>_. ?s [] 0"
  have p: "snd (SessionRead 5 ''b'' (snd (SessionRead 0 ''a'' (SessionInit 10 [] (mempder :: ('k, 'v) MemProvider))))) =
      \<lparr>sessions = [''a'' \<mapsto> 0, ''b'' \<mapsto> 1], plist = [1, 0], maxlifetime = 10, savePath = [],
       heap = ?d(0 := ?s ''a'' 0, 1 := ?s ''b'' 5), fresh = 2\<rparr>"
    by (simp add: SessionRead_def push_new_def SessionInit_def mempder_def Let_def)
  have q: "SessionUpdate 6 ''a'' (snd (SessionRegenerate 6 ''b'' ''a''
      \<lparr>sessions = [''a'' \<mapsto> 0, ''b'' \<mapsto> 1], plist = [1, 0], maxlifetime = 10, savePath = [],
       heap = ?d(0 := ?s ''a'' 0, 1 := ?s ''b'' 5), fresh = 2\<rparr>)) =
      \<lparr>sessions = [''a'' \<mapsto> 1], plist = [1, 0], maxlifetime = 10, savePath = [],
       heap = ?d(0 := ?s ''a'' 0, 1 := ?s ''a'' 6), fresh = 2\<rparr>"
    by (simp add: SessionUpdate_def SessionRegenerate_def fun_upd_twist)
  show ?thesis unfolding p q Let_def
    by (simp add: SessionGC.simps SessionExist_def SessionAll_def expired_def)
qed

end
