(* ===== verification/Rate_Limit.thy ===== *)
theory Rate_Limit
  imports Go_Prelude "HOL-Library.Signed_Division"
begin

text \<open>
  The rate limiter filter (\<^verbatim>\<open>server/web/filter/ratelimit\<close>): token buckets with 64-bit counters
  and the limiter that keeps a bucket per session key. Times and durations are in nanoseconds;
  the clock is an argument. A request is its header lookup and the remote address.
\<close>

section \<open>Token bucket\<close>

record tokenBucket =
  remaining :: u64
  capacity :: u64
  lastCheckAt :: int
  rate :: int

definition newTokenBucket :: "int \<Rightarrow> (tokenBucket \<Rightarrow> tokenBucket) list \<Rightarrow> tokenBucket" where
  "newTokenBucket now opts = fold (\<lambda>opt b. opt b) opts \<lparr>remaining = 0, capacity = 0, lastCheckAt = now, rate = 0\<rparr>"

definition withCapacity :: "u64 \<Rightarrow> tokenBucket \<Rightarrow> tokenBucket" where
  "withCapacity c b = b\<lparr>capacity := c, remaining := c\<rparr>"

definition withRate :: "int \<Rightarrow> tokenBucket \<Rightarrow> tokenBucket" where
  "withRate r b = b\<lparr>rate := r\<rparr>"

definition getRemaining :: "tokenBucket \<Rightarrow> u64" where
  "getRemaining b = remaining b"

definition getRate :: "tokenBucket \<Rightarrow> int" where
  "getRate b = rate b"

definition getCapacity :: "tokenBucket \<Rightarrow> u64" where
  "getCapacity b = capacity b"

definition bucket_take :: "int \<Rightarrow> u64 \<Rightarrow> tokenBucket \<Rightarrow> bool \<times> tokenBucket" where
  "bucket_take now amount b =
     (if rate b \<le> 0 then (True, b)
      else
        let times = word_of_int ((now - lastCheckAt b) sdiv rate b) :: u64;
            b = b\<lparr>lastCheckAt := lastCheckAt b + sint (times * word_of_int (rate b))\<rparr>;
            b = b\<lparr>remaining := remaining b + times\<rparr>
        in if remaining b < amount then (False, b)
           else
             let b = b\<lparr>remaining := remaining b - amount\<rparr>
             in (True, if remaining b > capacity b then b\<lparr>remaining := capacity b\<rparr> else b))"

section \<open>Limiter\<close>

record request =
  header :: "string \<Rightarrow> string"
  remoteAddr :: string

record RejectionResponse =
  rcode :: int
  rbody :: string

record limiter =
  lcapacity :: u64
  lrate :: int
  buckets :: "string \<rightharpoonup> tokenBucket"
  sessionKey :: "request \<Rightarrow> string"
  resp :: RejectionResponse

definition perRequestConsumedAmount :: u64 where
  "perRequestConsumedAmount = 1"

definition defaultRejectionResponse :: RejectionResponse where
  "defaultRejectionResponse = \<lparr>rcode = 429, rbody = ''too many requests''\<rparr>"

definition defaultSessionKey :: "request \<Rightarrow> string" where
  "defaultSessionKey r = ''BEEGO_ALL''"

definition RemoteIPSessionKey :: "request \<Rightarrow> string" where
  "RemoteIPSessionKey r =
     (let ip = header r ''X-Real-Ip'';
          ip = (if ip = [] then header r ''X-Forwarded-For'' else ip)
      in if ip = [] then remoteAddr r else ip)"

definition WithSessionKey :: "(request \<Rightarrow> string) \<Rightarrow> limiter \<Rightarrow> limiter" where
  "WithSessionKey f l = l\<lparr>sessionKey := f\<rparr>"

definition WithRate :: "int \<Rightarrow> limiter \<Rightarrow> limiter" where
  "WithRate r l = l\<lparr>lrate := r\<rparr>"

definition WithCapacity :: "u64 \<Rightarrow> limiter \<Rightarrow> limiter" where
  "WithCapacity c l = l\<lparr>lcapacity := c\<rparr>"

definition WithRejectionResponse :: "RejectionResponse \<Rightarrow> limiter \<Rightarrow> limiter" where
  "WithRejectionResponse r l = l\<lparr>resp := r\<rparr>"

definition NewLimiter :: "(limiter \<Rightarrow> limiter) list \<Rightarrow> limiter" where
  "NewLimiter opts = fold (\<lambda>opt l. opt l) opts
     \<lparr>lcapacity = 100, lrate = 10000000, buckets = Map.empty, sessionKey = defaultSessionKey,
      resp = defaultRejectionResponse\<rparr>"

definition createBucket :: "int \<Rightarrow> string \<Rightarrow> limiter \<Rightarrow> tokenBucket \<times> limiter" where
  "createBucket now key l =
     (case buckets l key of
        Some b \<Rightarrow> (b, l)
      | None \<Rightarrow> (let b = newTokenBucket now [withCapacity (lcapacity l), withRate (lrate l)]
                 in (b, l\<lparr>buckets := (buckets l)(key \<mapsto> b)\<rparr>)))"

definition getBucket :: "int \<Rightarrow> request \<Rightarrow> limiter \<Rightarrow> tokenBucket \<times> limiter" where
  "getBucket now r l =
     (let key = sessionKey l r in
      case buckets l key of Some b \<Rightarrow> (b, l) | None \<Rightarrow> createBucket now key l)"

text \<open>The bucket is shared by reference, so its new state is written back under its key.\<close>

definition limiter_take :: "int \<Rightarrow> u64 \<Rightarrow> request \<Rightarrow> limiter \<Rightarrow> bool \<times> limiter" where
  "limiter_take now amount r l =
     (let (b, l) = getBucket now r l; (ok, b) = bucket_take now amount b
      in (ok, l\<lparr>buckets := (buckets l)(sessionKey l r \<mapsto> b)\<rparr>))"

text \<open>The filter function: a rejected request gets the rejection response.\<close>

definition filter_request :: "int \<Rightarrow> request \<Rightarrow> limiter \<Rightarrow> (int \<times> string) option \<times> limiter" where
  "filter_request now r l =
     (case limiter_take now perRequestConsumedAmount r l of
        (True, l) \<Rightarrow> (None, l)
      | (False, l) \<Rightarrow> (Some (rcode (resp l), rbody (resp l)), l))"

text \<open>A run of requests, and the number of them that were let through under a key.\<close>

fun serve :: "(int \<times> request) list \<Rightarrow> limiter \<Rightarrow> (request \<times> bool) list \<times> limiter" where
  "serve [] l = ([], l)"
| "serve ((now, r) # rs) l =
     (let (rej, l) = filter_request now r l; (log, l) = serve rs l in ((r, rej = None) # log, l))"

definition passed :: "(request \<Rightarrow> string) \<Rightarrow> string \<Rightarrow> (request \<times> bool) list \<Rightarrow> nat" where
  "passed f key log = length (filter (\<lambda>(r, ok). ok \<and> f r = key) log)"

section \<open>One take\<close>

lemma sint_word_of_int_small:
  "0 \<le> i \<Longrightarrow> i < 2 ^ 63 \<Longrightarrow> sint (word_of_int i :: u64) = i"
  by (simp add: sint_sbintrunc' signed_take_bit_int_eq_self)

lemma uint_word_of_int_small: "0 \<le> i \<Longrightarrow> i < 2 ^ 64 \<Longrightarrow> uint (word_of_int i :: u64) = i"
  by (simp add: uint_word_of_int)

lemma div_mult_le: "0 < r \<Longrightarrow> (d :: int) div r * r \<le> d"
  using div_mult_mod_eq [of d r] pos_mod_sign [of r d] by linarith

lemma sdiv_nonneg: "0 \<le> a \<Longrightarrow> 0 < b \<Longrightarrow> (a :: int) sdiv b = a div b"
  by (simp add: signed_divide_int_def sgn_if)

text \<open>
  A take makes \<open>k = (now - last) div rate\<close> new tokens and moves the last check by exactly the time
  they stand for; it succeeds iff there is a token.
\<close>

lemma bucket_take_one:
  assumes "0 < rate b" "lastCheckAt b \<le> now" "now - lastCheckAt b < 2 ^ 63"
    "uint (remaining b) + (now - lastCheckAt b) div rate b < 2 ^ 64"
    "bucket_take now 1 b = (ok, b')"
  defines "k \<equiv> (now - lastCheckAt b) div rate b"
  shows "rate b' = rate b \<and> capacity b' = capacity b \<and> lastCheckAt b' = lastCheckAt b + k * rate b \<and> lastCheckAt b' \<le> now \<and>
    0 \<le> k \<and> ok = (0 < uint (remaining b) + k) \<and>
    uint (remaining b') = (if ok then min (uint (capacity b)) (uint (remaining b) + k - 1) else 0)"
proof -
  let ?d = "now - lastCheckAt b" and ?t = "word_of_int k :: u64"
  have k0: "0 \<le> k" using assms(1,2) by (simp add: k_def pos_imp_zdiv_nonneg_iff)
  have kr: "k * rate b \<le> ?d"
    unfolding k_def by (rule div_mult_le [OF assms(1)])
  have kk: "k \<le> k * rate b" using k0 assms(1) mult_left_mono [of 1 "rate b" k] by simp
  have sd: "?d sdiv rate b = k" using assms(1,2) by (simp add: k_def sdiv_nonneg)
  have last: "sint (word_of_int k * word_of_int (rate b) :: u64) = k * rate b"
  proof -
    have "word_of_int k * word_of_int (rate b) = (word_of_int (k * rate b) :: u64)" by simp
    moreover have "0 \<le> k * rate b" "k * rate b < 2 ^ 63" using k0 kr kk assms(3) by linarith+
    ultimately show ?thesis by (simp only: sint_word_of_int_small)
  qed
  have ut: "uint ?t = k"
  proof (rule uint_word_of_int_small)
    have "k < 2 ^ 63" using kr kk assms(3) by linarith
    then show "k < 2 ^ 64" by simp
  qed (rule k0)
  have up: "uint (remaining b + ?t) = uint (remaining b) + k"
    using assms(4) ut k0 uint_ge_0 [of "remaining b"] unfolding k_def [symmetric] by (simp add: uint_word_ariths)
  let ?r = "remaining b + ?t"
  have bt: "bucket_take now 1 b =
     (if ?r < 1 then (False, b\<lparr>lastCheckAt := lastCheckAt b + k * rate b, remaining := ?r\<rparr>)
      else (True, b\<lparr>lastCheckAt := lastCheckAt b + k * rate b,
               remaining := if ?r - 1 > capacity b then capacity b else ?r - 1\<rparr>))"
    using assms(1) by (simp add: bucket_take_def Let_def sd last)
  have "?r < 1 \<longleftrightarrow> uint ?r < 1" by (simp add: word_less_def)
  then have z: "?r < 1 \<longleftrightarrow> uint ?r = 0" using uint_ge_0 [of ?r] by linarith
  have m: "uint (?r - 1) = uint ?r - 1" if "\<not> ?r < 1"
    by (rule uint_pred) (use that in auto)
  show ?thesis
  proof (cases "?r < 1")
    case True
    then have "ok = False" "b' = b\<lparr>lastCheckAt := lastCheckAt b + k * rate b, remaining := ?r\<rparr>"
      using assms(5) bt by simp_all
    then show ?thesis using True z up k0 kr by simp
  next
    case False
    then have "ok = True" "b' = b\<lparr>lastCheckAt := lastCheckAt b + k * rate b,
               remaining := if ?r - 1 > capacity b then capacity b else ?r - 1\<rparr>"
      using assms(5) bt by simp_all
    then show ?thesis using False z up m k0 kr uint_ge_0 [of ?r] by (simp add: min_def word_less_def)
  qed
qed

section \<open>Runs\<close>

definition tokens :: "u64 \<Rightarrow> int" where
  "tokens w = uint w"

text \<open>The tokens handed out so far and the ones left never exceed the ones ever made.\<close>

definition bucket_ok :: "u64 \<Rightarrow> int \<Rightarrow> int \<Rightarrow> int \<Rightarrow> nat \<Rightarrow> tokenBucket \<Rightarrow> bool" where
  "bucket_ok cap r t0 now c b \<longleftrightarrow>
     rate b = r \<and> capacity b = cap \<and> lastCheckAt b \<le> now \<and>
     (\<exists>n. 0 \<le> n \<and> t0 + n * r \<le> lastCheckAt b \<and> int c + tokens (remaining b) \<le> tokens cap + n)"

lemma bucket_ok_new:
  "t0 \<le> now \<Longrightarrow> bucket_ok cap r t0 now 0 (newTokenBucket now [withCapacity cap, withRate r])"
  by (auto simp: bucket_ok_def newTokenBucket_def withCapacity_def withRate_def intro: exI [of _ 0])

lemma bucket_ok_mono: "bucket_ok cap r t0 now c b \<Longrightarrow> now \<le> now' \<Longrightarrow> bucket_ok cap r t0 now' c b"
  by (auto simp: bucket_ok_def)

lemma bucket_ok_take:
  assumes "bucket_ok cap r t0 now c b" "0 < r" "now \<le> now'" "now' - t0 < 2 ^ 62" "tokens cap < 2 ^ 63"
    "bucket_take now' 1 b = (ok, b')"
  shows "bucket_ok cap r t0 now' (if ok then Suc c else c) b'"
proof -
  from assms(1) obtain n where n: "rate b = r" "capacity b = cap" "lastCheckAt b \<le> now" "0 \<le> n"
    "t0 + n * r \<le> lastCheckAt b" "int c + tokens (remaining b) \<le> tokens cap + n" by (auto simp: bucket_ok_def)
  define k where "k = (now' - lastCheckAt b) div r"
  have nr: "0 \<le> n * r" "n \<le> n * r" using n(4) assms(2) mult_left_mono [of 1 r n] by simp_all
  have d: "0 \<le> now' - lastCheckAt b" "now' - lastCheckAt b < 2 ^ 62" using n(3,5) nr(1) assms(3,4) by linarith+
  have kr: "k * r \<le> now' - lastCheckAt b" "0 \<le> k"
    using div_mult_le [OF assms(2)] d(1) assms(2) unfolding k_def by (simp_all add: pos_imp_zdiv_nonneg_iff)
  have kk: "k \<le> k * r" using kr(2) assms(2) mult_left_mono [of 1 r k] by simp
  have "uint (remaining b) + k < 2 ^ 64"
  proof -
    have "n + k \<le> now' - t0" using nr kr kk n(3,5) by linarith
    moreover have "(2 :: int) ^ 63 + 2 ^ 62 \<le> 2 ^ 64" by simp
    ultimately show ?thesis using n(6) assms(4,5) unfolding tokens_def by linarith
  qed
  moreover have "now' - lastCheckAt b < 2 ^ 63" using d(2) by simp
  ultimately have T: "rate b' = rate b \<and> capacity b' = capacity b \<and> lastCheckAt b' = lastCheckAt b + k * rate b \<and> lastCheckAt b' \<le> now' \<and>
      0 \<le> k \<and> ok = (0 < uint (remaining b) + k) \<and>
      uint (remaining b') = (if ok then min (uint (capacity b)) (uint (remaining b) + k - 1) else 0)"
    using bucket_take_one [of b now' ok b'] assms(2,6) n(1) d(1) unfolding k_def by simp
  have "t0 + (n + k) * r \<le> lastCheckAt b'" using T n(1,5) by (simp add: algebra_simps)
  moreover have "int (if ok then Suc c else c) + tokens (remaining b') \<le> tokens cap + (n + k)"
  proof (cases ok)
    case True
    then show ?thesis using T n(6) unfolding tokens_def by simp
  next
    case False
    then have "uint (remaining b') = 0" "(if ok then Suc c else c) = c" using T by simp_all
    then show ?thesis using n(6) kr(2) uint_ge_0 [of "remaining b"] unfolding tokens_def by linarith
  qed
  ultimately show ?thesis using T n(1,2,4) kr(2) unfolding bucket_ok_def
    by (intro conjI exI [of _ "n + k"]) auto
qed

text \<open>The limiter keeps every bucket, with the requests it let through, within the limit.\<close>

definition limiter_ok :: "int \<Rightarrow> int \<Rightarrow> (string \<Rightarrow> nat) \<Rightarrow> limiter \<Rightarrow> bool" where
  "limiter_ok t0 now cnt l \<longleftrightarrow>
     (\<forall>k. case buckets l k of
            None \<Rightarrow> cnt k = 0
          | Some b \<Rightarrow> bucket_ok (lcapacity l) (lrate l) t0 now (cnt k) b)"

lemma limiter_ok_request:
  assumes "limiter_ok t0 now cnt l" "0 < lrate l" "t0 \<le> now" "now \<le> now'" "now' - t0 < 2 ^ 62"
    "tokens (lcapacity l) < 2 ^ 63" "filter_request now' r l = (rej, l')"
  shows "limiter_ok t0 now' (\<lambda>k. if k = sessionKey l r \<and> rej = None then Suc (cnt k) else cnt k) l' \<and>
    lcapacity l' = lcapacity l \<and> lrate l' = lrate l \<and> sessionKey l' = sessionKey l"
proof -
  define key where "key = sessionKey l r"
  obtain b l1 where g: "getBucket now' r l = (b, l1)" by (cases "getBucket now' r l")
  have l1: "lcapacity l1 = lcapacity l" "lrate l1 = lrate l" "sessionKey l1 = sessionKey l"
    "\<And>k. k \<noteq> key \<Longrightarrow> buckets l1 k = buckets l k"
    using g by (auto simp: getBucket_def createBucket_def key_def Let_def split: option.splits)
  have b: "bucket_ok (lcapacity l) (lrate l) t0 now' (cnt key) b"
  proof (cases "buckets l key")
    case None
    then have "b = newTokenBucket now' [withCapacity (lcapacity l), withRate (lrate l)]"
      using g by (auto simp: getBucket_def createBucket_def key_def Let_def)
    moreover have "cnt key = 0" using assms(1) None by (auto simp: limiter_ok_def dest!: spec [of _ key])
    ultimately show ?thesis using bucket_ok_new [of t0 now'] assms(3,4) by simp
  next
    case (Some b0)
    then have "b = b0" using g by (auto simp: getBucket_def key_def)
    moreover have "bucket_ok (lcapacity l) (lrate l) t0 now (cnt key) b0"
      using assms(1) Some by (auto simp: limiter_ok_def dest!: spec [of _ key])
    ultimately show ?thesis using bucket_ok_mono assms(4) by blast
  qed
  obtain ok b' where bt: "bucket_take now' 1 b = (ok, b')" by (cases "bucket_take now' 1 b")
  from bucket_ok_take [OF b assms(2) order_refl assms(5,6) bt]
  have b': "bucket_ok (lcapacity l) (lrate l) t0 now' (if ok then Suc (cnt key) else cnt key) b'" .
  have "limiter_take now' 1 r l = (ok, l1\<lparr>buckets := (buckets l1)(key \<mapsto> b')\<rparr>)"
    using g bt l1(3) by (simp add: limiter_take_def key_def)
  then have l': "l' = l1\<lparr>buckets := (buckets l1)(key \<mapsto> b')\<rparr>" and rej: "rej = None \<longleftrightarrow> ok"
    using assms(7) by (auto simp: filter_request_def perRequestConsumedAmount_def split: bool.splits)
  have "case buckets l' k of None \<Rightarrow> (if k = key \<and> rej = None then Suc (cnt k) else cnt k) = 0
      | Some b \<Rightarrow> bucket_ok (lcapacity l') (lrate l') t0 now' (if k = key \<and> rej = None then Suc (cnt k) else cnt k) b" for k
  proof (cases "k = key")
    case True
    with b' l' rej l1 show ?thesis by (cases ok) auto
  next
    case False
    then have e: "buckets l' k = buckets l k" "lcapacity l' = lcapacity l" "lrate l' = lrate l"
      using l' l1 by simp_all
    have "case buckets l' k of None \<Rightarrow> cnt k = 0
        | Some b \<Rightarrow> bucket_ok (lcapacity l') (lrate l') t0 now (cnt k) b"
      using assms(1) unfolding e limiter_ok_def by blast
    with False bucket_ok_mono assms(4) show ?thesis by (auto split: option.splits)
  qed
  with l' l1 show ?thesis unfolding limiter_ok_def key_def by simp
qed

lemma serve_ok:
  assumes "limiter_ok t0 now cnt l" "0 < lrate l" "t0 \<le> now" "tokens (lcapacity l) < 2 ^ 63"
    "sorted (now # map fst rs)" "\<forall>t \<in> set (map fst rs). t \<le> T" "now \<le> T" "T - t0 < 2 ^ 62" "serve rs l = (log, l')"
  shows "limiter_ok t0 T (\<lambda>k. cnt k + passed (sessionKey l) k log) l' \<and>
    lcapacity l' = lcapacity l \<and> lrate l' = lrate l"
  using assms
proof (induction rs arbitrary: now cnt l log)
  case Nil
  then have "limiter_ok t0 T cnt l" unfolding limiter_ok_def
    by (metis (mono_tags, lifting) bucket_ok_mono option.case_eq_if)
  with Nil show ?case by (simp add: passed_def)
next
  case (Cons tr rs)
  obtain t r where tr: "tr = (t, r)" by (cases tr)
  obtain rej l1 where f: "filter_request t r l = (rej, l1)" by (cases "filter_request t r l")
  obtain log1 where sv: "serve rs l1 = (log1, l')" and log: "log = (r, rej = None) # log1"
    using Cons.prems(9) tr f by (auto split: prod.splits)
  have t: "now \<le> t" "t \<le> T" using Cons.prems(5,6) tr by auto
  let ?cnt = "\<lambda>k. if k = sessionKey l r \<and> rej = None then Suc (cnt k) else cnt k"
  have "t - t0 < 2 ^ 62" using t Cons.prems(8) by linarith
  from limiter_ok_request [OF Cons.prems(1-3) t(1) this Cons.prems(4) f]
  have l1: "limiter_ok t0 t ?cnt l1" "lcapacity l1 = lcapacity l" "lrate l1 = lrate l" "sessionKey l1 = sessionKey l"
    by auto
  have "limiter_ok t0 T (\<lambda>k. ?cnt k + passed (sessionKey l1) k log1) l' \<and>
      lcapacity l' = lcapacity l1 \<and> lrate l' = lrate l1"
    by (rule Cons.IH [OF l1(1) _ _ _ _ _ t(2) Cons.prems(8) sv])
      (use Cons.prems tr t l1 in auto)
  moreover have "?cnt k + passed (sessionKey l1) k log1 = cnt k + passed (sessionKey l) k log" for k
    using log l1(4) by (simp add: passed_def)
  ultimately show ?case using l1 by simp
qed

text \<open>C19. The limiter enforces its rate: whatever the requests and their keys are, and as long as
  the clock does not run backwards, the number of requests of one key that are let through is at
  most the capacity plus the number of whole rate intervals since the limiter was created. (The
  bounds keep the 64-bit counters and durations within their ranges.)\<close>

theorem rate_limit_holds:
  assumes "l = NewLimiter [WithCapacity cap, WithRate r, WithSessionKey f]" "0 < r"
    "sorted (map fst rs)" "\<forall>t \<in> set (map fst rs). t0 \<le> t \<and> t \<le> T" "t0 \<le> T" "T - t0 < 2 ^ 62" "uint cap < 2 ^ 63"
    "serve rs l = (log, l')"
  shows "int (passed f key log) \<le> uint cap + (T - t0) div r"
proof -
  have l: "lcapacity l = cap" "lrate l = r" "sessionKey l = f" "buckets l = Map.empty"
    by (simp_all add: assms(1) NewLimiter_def WithCapacity_def WithRate_def WithSessionKey_def)
  have "tokens (lcapacity l) < 2 ^ 63" using assms(7) l(1) by (simp add: tokens_def)
  then have S: "limiter_ok t0 T (\<lambda>k. 0 + passed (sessionKey l) k log) l' \<and> lcapacity l' = lcapacity l \<and> lrate l' = lrate l"
    by (intro serve_ok [of t0 t0 "\<lambda>_. 0" l rs T]) (use assms l in \<open>auto simp: limiter_ok_def\<close>)
  show ?thesis
  proof (cases "buckets l' key")
    case None
    with S l(3) have "passed f key log = 0" by (auto simp: limiter_ok_def dest!: spec [of _ key])
    then show ?thesis using assms(2,5) by (simp add: pos_imp_zdiv_nonneg_iff)
  next
    case (Some b)
    with S l have "bucket_ok cap r t0 T (passed f key log) b"
      by (auto simp: limiter_ok_def dest!: spec [of _ key])
    then obtain n where n: "0 \<le> n" "t0 + n * r \<le> T" "int (passed f key log) + tokens (remaining b) \<le> tokens cap + n"
      by (auto simp: bucket_ok_def)
    have "n = (n * r) div r" using assms(2) by simp
    also have "\<dots> \<le> (T - t0) div r" using n(2) assms(2) by (intro zdiv_mono1) simp_all
    finally show ?thesis using n(3) uint_ge_0 [of "remaining b"] unfolding tokens_def by linarith
  qed
qed

theorem rate_limit_holds_witness:
  "let rs = map (\<lambda>t. (t, \<lparr>header = (\<lambda>_. []), remoteAddr = ''h''\<rparr>)) [0, 1, 2, 25];
       log = fst (serve rs (NewLimiter [WithCapacity 2, WithRate 10, WithSessionKey RemoteIPSessionKey]))
   in passed RemoteIPSessionKey ''h'' log \<le> 4"
proof -
  let ?rs = "map (\<lambda>t. (t, \<lparr>header = (\<lambda>_. []), remoteAddr = ''h''\<rparr>)) [0, 1, 2, 25]"
  let ?l = "NewLimiter [WithCapacity 2, WithRate 10, WithSessionKey RemoteIPSessionKey]"
  obtain log l' where s: "serve ?rs ?l = (log, l')" by (cases "serve ?rs ?l")
  have "int (passed RemoteIPSessionKey ''h'' log) \<le> uint (2 :: u64) + (25 - 0) div 10"
    by (rule rate_limit_holds [OF refl _ _ _ _ _ _ s]) simp_all
  with s show ?thesis by simp
qed

text \<open> After an idle period a bucket lets one more request through at a single instant than its
  capacity: the cap is applied only after the first token has been taken. With a capacity of 1,
  two requests pass at the same time.\<close>

theorem burst_exceeds_capacity:
  assumes "0 < r" "2 * r \<le> d" "d < 2 ^ 62"
  shows "case bucket_take (t + d) 1 (newTokenBucket t [withCapacity 1, withRate r]) of (ok1, b) \<Rightarrow>
    ok1 \<and> fst (bucket_take (t + d) 1 b)"
proof -
  let ?b = "newTokenBucket t [withCapacity 1, withRate r]"
  have b: "rate ?b = r" "lastCheckAt ?b = t" "remaining ?b = 1" "capacity ?b = 1"
    by (simp_all add: newTokenBucket_def withCapacity_def withRate_def)
  obtain ok1 b1 where t1: "bucket_take (t + d) 1 ?b = (ok1, b1)" by (cases "bucket_take (t + d) 1 ?b")
  have k2: "2 \<le> d div r" using assms(1,2) zdiv_mono1 [of "2 * r" d r] by simp
  then have "d div r * 1 \<le> d div r * r" using assms(1) by (intro mult_left_mono) simp_all
  with k2 have k: "2 \<le> d div r" "d div r \<le> d" using div_mult_le [OF assms(1), of d] by linarith+
  from bucket_take_one [OF _ _ _ _ t1] b k assms
  have b1: "rate b1 = r" "lastCheckAt b1 = t + d div r * r" "ok1" "uint (remaining b1) = 1" "lastCheckAt b1 \<le> t + d"
    by auto
  obtain ok2 b2 where t2: "bucket_take (t + d) 1 b1 = (ok2, b2)" by (cases "bucket_take (t + d) 1 b1")
  have "d - d div r * r < r" using assms(1) pos_mod_bound [of r d] by (simp add: minus_div_mult_eq_mod)
  then have z: "(t + d - lastCheckAt b1) div r = 0" using b1(2,5) by (intro div_pos_pos_trivial) simp_all
  have "0 \<le> d div r * r" using k assms(1) by simp
  then have "d - d div r * r < 2 ^ 63" using assms(3) by simp
  then have "ok2"
    using bucket_take_one [OF _ _ _ _ t2] b1 z assms k by simp
  with t1 t2 b1(3) show ?thesis by simp
qed

theorem burst_exceeds_capacity_witness:
  "fst (bucket_take 1000 1 (snd (bucket_take 1000 1 (newTokenBucket 0 [withCapacity 1, withRate 10]))))"
  using burst_exceeds_capacity [of 10 1000 0] by (auto split: prod.splits)

end
