(* ===== verification/Core_Utils.thy ===== *)
theory Core_Utils
  imports Kv_Store "HOL-Library.AList" "HOL-Library.Multiset"
begin

text \<open>
  Slices, the safe map and key-value collections of \<^verbatim>\<open>core/utils\<close>. Values of type
  \<^verbatim>\<open>interface{}\<close> are an arbitrary type with equality; where nil matters it is \<^const>\<open>None\<close>.
  The loops that may not end are partial functions whose value is then \<^const>\<open>None\<close>; random
  numbers are arguments.
\<close>

section \<open>Slices\<close>

fun InSliceIface :: "'a \<Rightarrow> 'a list \<Rightarrow> bool" where
  "InSliceIface v [] = False"
| "InSliceIface v (vv # sl) = (if vv = v then True else InSliceIface v sl)"

definition InSlice :: "string \<Rightarrow> string list \<Rightarrow> bool" where
  "InSlice v sl = InSliceIface v sl"

text \<open>The permutation of \<^verbatim>\<open>rand.Perm(length)\<close> is an argument.\<close>

definition SliceRandList :: "(nat \<Rightarrow> int list) \<Rightarrow> int \<Rightarrow> int \<Rightarrow> int list" where
  "SliceRandList perm mn mx =
     (let (mn, mx) = (if mx < mn then (mx, mn) else (mn, mx))
      in map (\<lambda>x. x + mn) (perm (nat (mx - mn + 1))))"

definition SliceMerge :: "'a list \<Rightarrow> 'a list \<Rightarrow> 'a list" where
  "SliceMerge sl1 sl2 = sl1 @ sl2"

fun SliceReduce_loop :: "'a list \<Rightarrow> ('a \<Rightarrow> 'b) \<Rightarrow> 'b list \<Rightarrow> 'b list" where
  "SliceReduce_loop [] a dslice = dslice"
| "SliceReduce_loop (v # vs) a dslice = SliceReduce_loop vs a (dslice @ [a v])"

definition SliceReduce :: "'a list \<Rightarrow> ('a \<Rightarrow> 'b) \<Rightarrow> 'b list" where
  "SliceReduce sl a = SliceReduce_loop sl a []"

datatype slice_panic = EmptyIntn | SliceBounds int int

definition SliceRand :: "(nat \<Rightarrow> nat) \<Rightarrow> 'a list \<Rightarrow> slice_panic + 'a" where
  "SliceRand intn a = (if a = [] then Inl EmptyIntn else Inr (a ! intn (length a)))"

fun SliceSum_loop :: "u64 list \<Rightarrow> u64 \<Rightarrow> u64" where
  "SliceSum_loop [] acc = acc"
| "SliceSum_loop (v # vs) acc = SliceSum_loop vs (acc + v)"

definition SliceSum :: "u64 list \<Rightarrow> u64" where
  "SliceSum intslice = SliceSum_loop intslice 0"

fun filter_loop :: "('a \<Rightarrow> bool) \<Rightarrow> 'a list \<Rightarrow> 'a list \<Rightarrow> 'a list" where
  "filter_loop a [] ft = ft"
| "filter_loop a (v # vs) ft = (if a v then filter_loop a vs (ft @ [v]) else filter_loop a vs ft)"

definition SliceFilter :: "'a list \<Rightarrow> ('a \<Rightarrow> bool) \<Rightarrow> 'a list" where
  "SliceFilter sl a = filter_loop a sl []"

definition SliceDiff :: "'a list \<Rightarrow> 'a list \<Rightarrow> 'a list" where
  "SliceDiff sl1 sl2 = filter_loop (\<lambda>v. \<not> InSliceIface v sl2) sl1 []"

definition SliceIntersect :: "'a list \<Rightarrow> 'a list \<Rightarrow> 'a list" where
  "SliceIntersect sl1 sl2 = filter_loop (\<lambda>v. InSliceIface v sl2) sl1 []"

partial_function (option) chunk_loop :: "'a list \<Rightarrow> int \<Rightarrow> int \<Rightarrow> int \<Rightarrow> 'a list list \<Rightarrow> (slice_panic, 'a list list) run" where
  "chunk_loop sl sz i en chunks =
     (if i \<le> int (length sl) - sz then
        (if 0 \<le> i \<and> i \<le> en \<and> en \<le> int (length sl) then
           chunk_loop sl sz (i + sz) (en + sz) (chunks @ [take (nat (en - i)) (drop (nat i) sl)])
         else run_panic (SliceBounds i en))
      else run_ret chunks)"

definition SliceChunk :: "'a list \<Rightarrow> int \<Rightarrow> (slice_panic, 'a list list) run" where
  "SliceChunk sl sz =
     (if sz \<ge> int (length sl) then run_ret [sl] else chunk_loop sl sz 0 sz [])"

partial_function (option) range_loop :: "u64 \<Rightarrow> u64 \<Rightarrow> u64 \<Rightarrow> u64 list \<Rightarrow> u64 list option" where
  "range_loop i en step acc =
     (if sint i \<le> sint en then range_loop (i + step) en step (acc @ [i]) else Some acc)"

definition SliceRange :: "u64 \<Rightarrow> u64 \<Rightarrow> u64 \<Rightarrow> u64 list option" where
  "SliceRange start en step = range_loop start en step []"

function pad_loop :: "nat \<Rightarrow> nat \<Rightarrow> 'a \<Rightarrow> 'a list \<Rightarrow> 'a list" where
  "pad_loop i sz v sl =
     (if int i < int sz - int (length sl) then pad_loop (Suc i) sz v (sl @ [v]) else sl)"
  by pat_completeness auto
termination
  by (relation "measure (\<lambda>(i, sz, v, sl). sz - i)") auto

declare pad_loop.simps [simp del]

definition SlicePad :: "'a list \<Rightarrow> nat \<Rightarrow> 'a \<Rightarrow> 'a list" where
  "SlicePad sl sz v = (if sz \<le> length sl then sl else pad_loop 0 sz v sl)"

fun unique_loop :: "'a list \<Rightarrow> 'a list \<Rightarrow> 'a list" where
  "unique_loop [] u = u"
| "unique_loop (v # vs) u = (if \<not> InSliceIface v u then unique_loop vs (u @ [v]) else unique_loop vs u)"

definition SliceUnique :: "'a list \<Rightarrow> 'a list" where
  "SliceUnique sl = unique_loop sl []"

definition swap :: "nat \<Rightarrow> nat \<Rightarrow> 'a list \<Rightarrow> 'a list" where
  "swap a b xs = xs[a := xs ! b, b := xs ! a]"

fun SliceShuffle :: "(nat \<times> nat) list \<Rightarrow> 'a list \<Rightarrow> 'a list" where
  "SliceShuffle [] sl = sl"
| "SliceShuffle ((a, b) # rands) sl = SliceShuffle rands (swap a b sl)"

section \<open>The safe map\<close>

record ('k, 'v) BeeMap =
  bm :: "('k \<times> 'v option) list"

definition NewBeeMap :: "('k, 'v) BeeMap" where
  "NewBeeMap = \<lparr>bm = []\<rparr>"

definition beemap_Get :: "('k, 'v) BeeMap \<Rightarrow> 'k \<Rightarrow> 'v option" where
  "beemap_Get m k = (case map_of (bm m) k of Some v \<Rightarrow> v | None \<Rightarrow> None)"

definition beemap_Set :: "('k, 'v) BeeMap \<Rightarrow> 'k \<Rightarrow> 'v option \<Rightarrow> bool \<times> ('k, 'v) BeeMap" where
  "beemap_Set m k v =
     (case map_of (bm m) k of
        None \<Rightarrow> (True, m\<lparr>bm := AList.update k v (bm m)\<rparr>)
      | Some w \<Rightarrow> if w \<noteq> v then (True, m\<lparr>bm := AList.update k v (bm m)\<rparr>) else (False, m))"

definition beemap_Check :: "('k, 'v) BeeMap \<Rightarrow> 'k \<Rightarrow> bool" where
  "beemap_Check m k \<longleftrightarrow> map_of (bm m) k \<noteq> None"

definition beemap_Delete :: "('k, 'v) BeeMap \<Rightarrow> 'k \<Rightarrow> ('k, 'v) BeeMap" where
  "beemap_Delete m k = m\<lparr>bm := AList.delete k (bm m)\<rparr>"

fun items_loop :: "('k \<times> 'v option) list \<Rightarrow> ('k \<times> 'v option) list \<Rightarrow> ('k \<times> 'v option) list" where
  "items_loop [] r = r"
| "items_loop ((k, v) # kvs) r = items_loop kvs (AList.update k v r)"

definition beemap_Items :: "('k, 'v) BeeMap \<Rightarrow> ('k \<times> 'v option) list" where
  "beemap_Items m = items_loop (bm m) []"

definition beemap_Count :: "('k, 'v) BeeMap \<Rightarrow> nat" where
  "beemap_Count m = length (bm m)"

section \<open>Key-value collections\<close>

record ('k, 'v) SimpleKV =
  Key :: 'k
  Value :: 'v

record ('k, 'v) SimpleKVs =
  kvs :: "'k \<rightharpoonup> 'v"

definition GetKey :: "('k, 'v) SimpleKV \<Rightarrow> 'k" where
  "GetKey s = Key s"

definition GetValue :: "('k, 'v) SimpleKV \<Rightarrow> 'v" where
  "GetValue s = Value s"

definition GetValueOr :: "('k, 'v) SimpleKVs \<Rightarrow> 'k \<Rightarrow> 'v \<Rightarrow> 'v" where
  "GetValueOr m key defValue = (case kvs m key of Some v \<Rightarrow> v | None \<Rightarrow> defValue)"

definition kvs_Contains :: "('k, 'v) SimpleKVs \<Rightarrow> 'k \<Rightarrow> bool" where
  "kvs_Contains m key \<longleftrightarrow> kvs m key \<noteq> None"

text \<open>The action of IfContains runs on a state.\<close>

definition IfContains :: "('k, 'v) SimpleKVs \<Rightarrow> 'k \<Rightarrow> ('v \<Rightarrow> 's \<Rightarrow> 's) \<Rightarrow> 's \<Rightarrow> 's \<times> ('k, 'v) SimpleKVs" where
  "IfContains m key action s = (case kvs m key of Some v \<Rightarrow> (action v s, m) | None \<Rightarrow> (s, m))"

fun NewKVs_loop :: "('k, 'v) SimpleKV list \<Rightarrow> ('k, 'v) SimpleKVs \<Rightarrow> ('k, 'v) SimpleKVs" where
  "NewKVs_loop [] res = res"
| "NewKVs_loop (kv # rest) res = NewKVs_loop rest (res\<lparr>kvs := (kvs res)(GetKey kv \<mapsto> GetValue kv)\<rparr>)"

definition NewKVs :: "('k, 'v) SimpleKV list \<Rightarrow> ('k, 'v) SimpleKVs" where
  "NewKVs xs = NewKVs_loop xs \<lparr>kvs = Map.empty\<rparr>"

section \<open>Properties of slices\<close>

lemma InSliceIface_iff [simp]: "InSliceIface v sl \<longleftrightarrow> v \<in> set sl"
  by (induction v sl rule: InSliceIface.induct) auto

lemma filter_loop_eq: "filter_loop a sl ft = ft @ filter a sl"
  by (induction a sl ft rule: filter_loop.induct) auto

lemma unique_loop_spec:
  "distinct u \<Longrightarrow> unique_loop sl u = u @ rev (remdups (rev (filter (\<lambda>x. x \<notin> set u) sl)))"
proof (induction sl u rule: unique_loop.induct)
  case (2 v vs u)
  have snoc: "rev (remdups (rev (v # xs))) = v # rev (remdups (rev (filter (\<lambda>x. x \<noteq> v) xs)))" for xs
    by (induction xs rule: rev_induct) auto
  show ?case
  proof (cases "v \<in> set u")
    case False
    with 2 have "unique_loop (v # vs) u = (u @ [v]) @ rev (remdups (rev (filter (\<lambda>x. x \<notin> set (u @ [v])) vs)))" by simp
    also have "filter (\<lambda>x. x \<notin> set (u @ [v])) vs = filter (\<lambda>x. x \<noteq> v) (filter (\<lambda>x. x \<notin> set u) vs)"
      by (auto intro: filter_cong)
    finally show ?thesis using False snoc [of "filter (\<lambda>x. x \<notin> set u) vs"] by simp
  qed (use 2 in simp)
qed simp

text \<open> The set operations on slices: SliceFilter, SliceDiff and SliceIntersect keep exactly the
  elements they promise, in order and with repetitions; SliceUnique keeps the first occurrence of
  every element.\<close>

theorem slice_sets:
  "SliceFilter sl a = filter a sl \<and>
   SliceDiff sl sl' = filter (\<lambda>v. v \<notin> set sl') sl \<and>
   SliceIntersect sl sl' = filter (\<lambda>v. v \<in> set sl') sl \<and>
   SliceUnique sl = rev (remdups (rev sl)) \<and> distinct (SliceUnique sl) \<and> set (SliceUnique sl) = set sl"
  by (simp add: SliceFilter_def SliceDiff_def SliceIntersect_def SliceUnique_def filter_loop_eq unique_loop_spec)

lemma take_take_drop: "take a xs @ take b (drop a xs) = take (a + b) xs"
  by (simp add: take_add)

lemma chunk_loop_spec:
  assumes "0 < n" "i = int (j * n)" "en = int (j * n + n)" "j * n \<le> length sl"
    "concat acc = take (j * n) sl" "\<forall>c \<in> set acc. length c = n"
  shows "\<exists>res. chunk_loop sl (int n) i en acc = run_ret res \<and>
    concat res = take (length sl div n * n) sl \<and> (\<forall>c \<in> set res. length c = n)"
  using assms
proof (induction "length sl - j * n" arbitrary: j i en acc rule: less_induct)
  case less
  show ?case
  proof (cases "j * n + n \<le> length sl")
    case True
    let ?c = "take n (drop (j * n) sl)"
    have c: "length ?c = n" using True by simp
    have "int (j * n + n) \<le> int (length sl)" using True by (simp only: of_nat_le_iff)
    then have le: "int n + int j * int n \<le> int (length sl)" by simp
    have "chunk_loop sl (int n) i en acc =
        chunk_loop sl (int n) (int (Suc j * n)) (int (Suc j * n + n)) (acc @ [?c])"
      using less.prems le by (subst chunk_loop.simps) (simp add: algebra_simps nat_mult_distrib)
    moreover have "\<exists>res. chunk_loop sl (int n) (int (Suc j * n)) (int (Suc j * n + n)) (acc @ [?c]) = run_ret res \<and>
        concat res = take (length sl div n * n) sl \<and> (\<forall>c \<in> set res. length c = n)"
    proof (rule less.hyps)
      show "length sl - Suc j * n < length sl - j * n" using less.prems(1) True by simp
      show "concat (acc @ [?c]) = take (Suc j * n) sl"
        using less.prems(5) take_take_drop [of "j * n" sl n] by (simp add: add.commute)
      show "\<forall>c \<in> set (acc @ [?c]). length c = n" using less.prems(6) c by auto
    qed (use less.prems True in \<open>simp_all add: add.commute\<close>)
    ultimately show ?thesis by simp
  next
    case False
    then have "\<not> int (j * n + n) \<le> int (length sl)" by (simp only: of_nat_le_iff not_False_eq_True)
    then have not_le: "\<not> int j * int n \<le> int (length sl) - int n" by simp
    have "length sl div n = j"
      using False less.prems(1,4) by (intro div_nat_eqI) (simp_all add: mult.commute)
    moreover have "chunk_loop sl (int n) i en acc = run_ret acc"
      using less.prems not_le by (subst chunk_loop.simps) simp
    ultimately show ?thesis using less.prems(5,6) by auto
  qed
qed

lemma chunk_loop_zero:
  assumes "chunk_loop sl sz i en acc = Some r"
  shows "\<not> (sz = 0 \<and> i = 0 \<and> en = 0)"
proof (rule chunk_loop.raw_induct [where P = "\<lambda>sl sz i en acc r. \<not> (sz = 0 \<and> i = 0 \<and> en = 0)", OF _ assms])
  fix f :: "'a list \<Rightarrow> int \<Rightarrow> int \<Rightarrow> int \<Rightarrow> 'a list list \<Rightarrow> (slice_panic, 'a list list) run" and sl sz i en acc r
  assume IH: "\<And>sl sz i en acc r. f sl sz i en acc = Some r \<Longrightarrow> \<not> (sz = 0 \<and> i = 0 \<and> en = 0)"
    and st: "(if i \<le> int (length sl) - sz then
        (if 0 \<le> i \<and> i \<le> en \<and> en \<le> int (length sl) then
           f sl sz (i + sz) (en + sz) (acc @ [take (nat (en - i)) (drop (nat i) sl)])
         else run_panic (SliceBounds i en))
      else run_ret acc) = Some r"
  show "\<not> (sz = 0 \<and> i = 0 \<and> en = 0)"
  proof
    assume z: "sz = 0 \<and> i = 0 \<and> en = 0"
    with st have "f sl 0 0 0 (acc @ [[]]) = Some r" by simp
    from IH [OF this] show False by simp
  qed
qed

text \<open> SliceChunk with a positive size below the length returns chunks of exactly that
  size that make up the slice up to the last multiple of the size: the elements of a shorter last
  chunk are dropped. With size 0 it never returns on a slice that is not empty, and with a
  negative size it panics.\<close>

theorem SliceChunk_behaviour:
  "(0 < n \<and> n < length sl \<longrightarrow> (\<exists>res. SliceChunk sl (int n) = run_ret res \<and>
      concat res = take (length sl div n * n) sl \<and> list_all (\<lambda>c. length c = n) res)) \<and>
   (length sl \<le> n \<longrightarrow> SliceChunk sl (int n) = run_ret [sl]) \<and>
   (sl \<noteq> [] \<longrightarrow> SliceChunk sl 0 = None) \<and>
   (sz < 0 \<longrightarrow> SliceChunk sl sz = run_panic (SliceBounds 0 sz))"
proof (intro conjI impI)
  assume n: "0 < n \<and> n < length sl"
  then show "\<exists>res. SliceChunk sl (int n) = run_ret res \<and> concat res = take (length sl div n * n) sl \<and>
      list_all (\<lambda>c. length c = n) res"
    using chunk_loop_spec [of n 0 0 "int n" sl "[]"] by (auto simp: SliceChunk_def list_all_iff)
next
  assume "sl \<noteq> []"
  then show "SliceChunk sl 0 = None"
    using chunk_loop_zero [of sl 0 0 0 "[]"] by (cases "chunk_loop sl 0 0 0 []") (auto simp: SliceChunk_def)
next
  assume "sz < 0"
  then show "SliceChunk sl sz = run_panic (SliceBounds 0 sz)"
    by (simp add: SliceChunk_def) (subst chunk_loop.simps, simp)
qed (simp add: SliceChunk_def)

theorem SliceChunk_behaviour_witness:
  "(\<exists>res. SliceChunk [1, 2, 3, 4, 5 :: nat] 2 = run_ret res \<and> concat res = [1, 2, 3, 4]) \<and>
   SliceChunk [1 :: nat] 0 = None \<and> SliceChunk [1 :: nat] (- 1) = run_panic (SliceBounds 0 (- 1))"
  using SliceChunk_behaviour [of 2 "[1, 2, 3, 4, 5 :: nat]" 0] SliceChunk_behaviour [of 5 "[1 :: nat]" "- 1"]
  by auto

lemma pad_loop_length: "length (pad_loop i sz v sl) = length sl + (sz - length sl - i + 1) div 2"
proof (induction i sz v sl rule: pad_loop.induct)
  case (1 i sz v sl)
  show ?case
  proof (cases "int i < int sz - int (length sl)")
    case True
    then have "pad_loop i sz v sl = pad_loop (Suc i) sz v (sl @ [v])" by (subst pad_loop.simps) simp
    with 1 True have "length (pad_loop i sz v sl) = length sl + 1 + (sz - (length sl + 1) - Suc i + 1) div 2" by simp
    moreover have "1 + (sz - (length sl + 1) - Suc i + 1) div 2 = (sz - length sl - i + 1) div 2"
    proof -
      have "Suc (length sl + i) \<le> sz" using True by linarith
      then obtain g where "sz = Suc (length sl + i) + g" using le_Suc_ex by blast
      then show ?thesis by (cases g) simp_all
    qed
    ultimately show ?thesis by linarith
  next
    case False
    then have "pad_loop i sz v sl = sl" by (subst pad_loop.simps) simp
    with False show ?thesis by simp
  qed
qed

text \<open> SlicePad does not pad to the requested size: its loop bound shrinks as the slice grows,
  so only half of the missing elements (rounded up) are appended.\<close>

theorem SlicePad_length:
  "length (SlicePad sl sz v) = (if sz \<le> length sl then length sl else length sl + (sz - length sl + 1) div 2)"
  by (simp add: SlicePad_def pad_loop_length)

lemma mset_swap_lengths: "a < length xs \<Longrightarrow> b < length xs \<Longrightarrow> mset (swap a b xs) = mset xs"
  by (simp add: swap_def mset_swap)

lemma SliceShuffle_perm:
  "list_all (\<lambda>(a, b). a < length sl \<and> b < length sl) rands \<Longrightarrow> mset (SliceShuffle rands sl) = mset sl"
proof (induction rands sl rule: SliceShuffle.induct)
  case (2 a b rands sl)
  then have "mset (SliceShuffle rands (swap a b sl)) = mset (swap a b sl)" by (simp add: swap_def)
  with 2 show ?case by (simp add: mset_swap_lengths)
qed simp

section \<open>Properties of the maps\<close>

definition beemap_inv :: "('k, 'v) BeeMap \<Rightarrow> bool" where
  "beemap_inv m \<longleftrightarrow> distinct (map fst (bm m))"

definition beemap_put :: "('k, 'v) BeeMap \<Rightarrow> 'k \<Rightarrow> 'v option \<Rightarrow> unit + ('k, 'v) BeeMap" where
  "beemap_put m k v = Inr (snd (beemap_Set m k v))"

lemma beemap_Set_lookup:
  "map_of (bm (snd (beemap_Set m k v))) k' = (if k' = k then Some v else map_of (bm m) k')"
  by (auto simp: beemap_Set_def update_conv' split: option.split)

lemma beemap_inv_ops [simp]:
  "beemap_inv NewBeeMap" "beemap_inv m \<Longrightarrow> beemap_inv (snd (beemap_Set m k v))"
  "beemap_inv m \<Longrightarrow> beemap_inv (beemap_Delete m k)"
  by (auto simp: beemap_inv_def NewBeeMap_def beemap_Set_def beemap_Delete_def distinct_update distinct_delete
      split: option.split)

interpretation beemap: kv_store_del beemap_Get beemap_put "\<lambda>v. v" beemap_inv "\<lambda>_. True" beemap_Delete None
  by unfold_locales
    (auto simp: beemap_put_def beemap_Get_def beemap_Set_lookup beemap_Delete_def delete_conv'
      beemap_inv_ops [unfolded beemap_Delete_def])

lemma items_loop_lookup: "distinct (map fst al) \<Longrightarrow>
    map_of (items_loop al r) k = (case map_of al k of Some v \<Rightarrow> Some v | None \<Rightarrow> map_of r k)"
proof (induction al r rule: items_loop.induct)
  case (2 j v al r)
  then show ?case by (auto simp: update_conv' dest: map_of_SomeD split: option.split)
    (metis image_eqI fst_conv map_of_SomeD)
qed simp

text \<open> The safe map: after any sequence of Set calls on a new map Get, Check, Items and Count
  agree with the finite map of the last values. Set returns false exactly if the key already had
  this very value; a different value is overwritten and true is returned.\<close>

theorem beemap_correct:
  "\<exists>m. put_all beemap_put NewBeeMap ps = Inr m \<and>
     (\<forall>k. beemap_Get m k = (case map_of (rev ps) k of Some v \<Rightarrow> v | None \<Rightarrow> None)) \<and>
     (\<forall>k. beemap_Check m k \<longleftrightarrow> k \<in> fst ` set ps) \<and>
     map_of (beemap_Items m) = map_of (rev ps) \<and> beemap_Count m = card (fst ` set ps) \<and>
     (\<forall>k v. fst (beemap_Set m k v) = (map_of (rev ps) k \<noteq> Some v) \<and>
            beemap_Get (snd (beemap_Set m k v)) k = v)"
proof -
  have "\<exists>m. put_all beemap_put s ps = Inr m \<and> beemap_inv m \<and>
     (\<forall>k. map_of (bm m) k = (case map_of (rev ps) k of Some v \<Rightarrow> Some v | None \<Rightarrow> map_of (bm s) k))"
    if "beemap_inv s" for s
    using that
  proof (induction ps arbitrary: s)
    case (Cons kv ps)
    obtain k v where kv: "kv = (k, v)" by (cases kv)
    from Cons.IH [OF beemap_inv_ops(2) [OF Cons.prems, of k v]] obtain m where
      "put_all beemap_put (snd (beemap_Set s k v)) ps = Inr m" "beemap_inv m"
      "\<And>k'. map_of (bm m) k' = (case map_of (rev ps) k' of Some v \<Rightarrow> Some v
         | None \<Rightarrow> map_of (bm (snd (beemap_Set s k v))) k')" by blast
    moreover have "beemap_put s k v = Inr (snd (beemap_Set s k v))" by (simp add: beemap_put_def)
    ultimately show ?case by (auto simp: kv beemap_Set_lookup map_add_def split: option.split)
  qed simp
  moreover have emp: "map_of (bm NewBeeMap) k = None" for k by (simp add: NewBeeMap_def)
  ultimately obtain m where m: "put_all beemap_put NewBeeMap ps = Inr m" "beemap_inv m"
    "\<And>k. map_of (bm m) k = (case map_of (rev ps) k of Some v \<Rightarrow> Some v | None \<Rightarrow> None)"
    using beemap_inv_ops(1) by (metis (no_types, lifting) option.case_eq_if)
  have eq: "map_of (bm m) = map_of (rev ps)" by (rule ext) (simp add: m(3) split: option.split)
  have dom: "fst ` set (bm m) = fst ` set ps"
    using arg_cong [OF eq, of dom] by (simp add: dom_map_of_conv_image_fst)
  have "map_of (beemap_Items m) = map_of (rev ps)"
    by (rule ext) (use m(2) eq items_loop_lookup [of "bm m" "[]"] in \<open>simp add: beemap_Items_def beemap_inv_def split: option.split\<close>)
  moreover have "beemap_Count m = card (fst ` set ps)"
    using m(2) distinct_card [of "map fst (bm m)"] dom by (simp add: beemap_Count_def beemap_inv_def)
  moreover have "beemap_Check m k \<longleftrightarrow> k \<in> fst ` set ps" for k
    using dom map_of_eq_None_iff [of "bm m" k] by (simp add: beemap_Check_def)
  moreover have "fst (beemap_Set m k v) = (map_of (rev ps) k \<noteq> Some v)" for k v
    using fun_cong [OF eq, of k] by (auto simp: beemap_Set_def split: option.split)
  ultimately show ?thesis using m(1) eq by (simp add: beemap_Get_def beemap_Set_lookup)
qed

end
