(* ===== verification/Config_Values.thy ===== *)
theory Config_Values
  imports Kv_Store "HOL-Library.AList"
begin

text \<open>
  Values of configuration items (\<^verbatim>\<open>core/config/config.go\<close>): expansion of environment
  variables, booleans, and the typed getters that every configuration container derives from a
  reader of strings; and the in-memory container of \<^verbatim>\<open>core/config/fake.go\<close>. The environment
  is a function from names to values (the empty string when a variable is not set).
\<close>

section \<open>Environment variables and booleans\<close>

fun expand_scan :: "string \<Rightarrow> string \<Rightarrow> string \<times> string" where
  "expand_scan key [] = ([], [])"
| "expand_scan key (c # cs) =
     (if c = CHR ''|'' \<and> cs \<noteq> [] \<and> hd cs = CHR ''|'' then (key, butlast (tl cs))
      else if c = CHR ''}'' then (key, [])
      else expand_scan (key @ [c]) cs)"

definition ExpandValueEnv :: "(string \<Rightarrow> string) \<Rightarrow> string \<Rightarrow> string" where
  "ExpandValueEnv env v =
     (if length v < 3 then v
      else if v ! 0 \<noteq> CHR ''$'' \<or> v ! 1 \<noteq> CHR ''{'' \<or> last v \<noteq> CHR ''}'' then v
      else let (key, defaultV) = expand_scan [] (drop 2 v); realValue = env key
           in if realValue = [] then defaultV else realValue)"

text \<open>Values of type \<^verbatim>\<open>interface{}\<close> as far as \<^verbatim>\<open>ParseBool\<close> tells them apart.\<close>

datatype cval = CNil | CBool bool | CString string | CInt8 "8 word" | CInt32 "32 word" | CInt64 "64 word"
  | CFloat bool bool   \<comment> \<open>a float64: whether it equals 1 and whether it equals 0\<close>
  | COther

definition config_ParseBool :: "cval \<Rightarrow> bool option" where
  "config_ParseBool v =
     (case v of
        CBool b \<Rightarrow> Some b
      | CString s \<Rightarrow>
          if s \<in> set [''1'', ''t'', ''T'', ''true'', ''TRUE'', ''True'', ''YES'', ''yes'', ''Yes'', ''Y'', ''y'', ''ON'', ''on'', ''On'']
          then Some True
          else if s \<in> set [''0'', ''f'', ''F'', ''false'', ''FALSE'', ''False'', ''NO'', ''no'', ''No'', ''N'', ''n'', ''OFF'', ''off'', ''Off'']
          then Some False
          else None
      | CInt8 w \<Rightarrow> if itoa (sint w) = ''1'' then Some True else if itoa (sint w) = ''0'' then Some False else None
      | CInt32 w \<Rightarrow> if itoa (sint w) = ''1'' then Some True else if itoa (sint w) = ''0'' then Some False else None
      | CInt64 w \<Rightarrow> if itoa (sint w) = ''1'' then Some True else if itoa (sint w) = ''0'' then Some False else None
      | CFloat one zero \<Rightarrow> if one then Some True else if zero then Some False else None
      | CNil \<Rightarrow> None
      | COther \<Rightarrow> None)"

section \<open>Typed getters over a reader\<close>

text \<open>A reader returns a string or an error text. A getter returns a value and an optional error, as in Go.\<close>

datatype conf_error = ReaderError string | NumError num_error | BoolError

definition base_Int64 :: "('k \<Rightarrow> string + string) \<Rightarrow> 'k \<Rightarrow> int \<times> conf_error option" where
  "base_Int64 reader key =
     (case reader key of
        Inl e \<Rightarrow> (0, Some (ReaderError e))
      | Inr res \<Rightarrow> (case parse_int 64 res of (i, None) \<Rightarrow> (i, None) | (i, Some e) \<Rightarrow> (i, Some (NumError e))))"

definition base_Int :: "('k \<Rightarrow> string + string) \<Rightarrow> 'k \<Rightarrow> int \<times> conf_error option" where
  "base_Int reader key =
     (case reader key of
        Inl e \<Rightarrow> (0, Some (ReaderError e))
      | Inr res \<Rightarrow> (case atoi res of (i, None) \<Rightarrow> (i, None) | (i, Some e) \<Rightarrow> (i, Some (NumError e))))"

definition base_Bool :: "('k \<Rightarrow> string + string) \<Rightarrow> 'k \<Rightarrow> bool \<times> conf_error option" where
  "base_Bool reader key =
     (case reader key of
        Inl e \<Rightarrow> (False, Some (ReaderError e))
      | Inr res \<Rightarrow> (case config_ParseBool (CString res) of Some b \<Rightarrow> (b, None) | None \<Rightarrow> (False, Some BoolError)))"

definition base_String :: "('k \<Rightarrow> string + string) \<Rightarrow> 'k \<Rightarrow> string \<times> conf_error option" where
  "base_String reader key = (case reader key of Inl e \<Rightarrow> ([], Some (ReaderError e)) | Inr res \<Rightarrow> (res, None))"

text \<open>A nil slice is \<^const>\<open>None\<close>.\<close>

definition base_Strings :: "('k \<Rightarrow> string + string) \<Rightarrow> 'k \<Rightarrow> string list option \<times> conf_error option" where
  "base_Strings reader key =
     (let (res, e) = base_String reader key in
      if e \<noteq> None \<or> res = [] then (None, e) else (Some (split res '';''), None))"

definition base_DefaultString :: "('k \<Rightarrow> string + string) \<Rightarrow> 'k \<Rightarrow> string \<Rightarrow> string" where
  "base_DefaultString reader key dflt =
     (let (res, e) = base_String reader key in if res \<noteq> [] \<and> e = None then res else dflt)"

definition base_DefaultStrings :: "('k \<Rightarrow> string + string) \<Rightarrow> 'k \<Rightarrow> string list \<Rightarrow> string list" where
  "base_DefaultStrings reader key dflt =
     (case base_Strings reader key of
        (Some res, None) \<Rightarrow> if length res > 0 then res else dflt
      | _ \<Rightarrow> dflt)"

definition base_DefaultInt :: "('k \<Rightarrow> string + string) \<Rightarrow> 'k \<Rightarrow> int \<Rightarrow> int" where
  "base_DefaultInt reader key dflt = (case base_Int reader key of (res, None) \<Rightarrow> res | _ \<Rightarrow> dflt)"

definition base_DefaultInt64 :: "('k \<Rightarrow> string + string) \<Rightarrow> 'k \<Rightarrow> int \<Rightarrow> int" where
  "base_DefaultInt64 reader key dflt = (case base_Int64 reader key of (res, None) \<Rightarrow> res | _ \<Rightarrow> dflt)"

definition base_DefaultBool :: "('k \<Rightarrow> string + string) \<Rightarrow> 'k \<Rightarrow> bool \<Rightarrow> bool" where
  "base_DefaultBool reader key dflt = (case base_Bool reader key of (res, None) \<Rightarrow> res | _ \<Rightarrow> dflt)"

section \<open>A container: a reader and a writer\<close>

text \<open>
  What a client of any container may rely on: typed values written as text are read back by the
  typed getters, and a default is used exactly when the stored text does not parse.
\<close>

locale configer = kv_store read_key write_key Inr inv okey
  for read_key :: "'s \<Rightarrow> 'k \<Rightarrow> string + string" and write_key :: "'s \<Rightarrow> 'k \<Rightarrow> string \<Rightarrow> 'e + 's"
    and inv :: "'s \<Rightarrow> bool" and okey :: "'k \<Rightarrow> bool"
begin

lemma Int_after_write:
  assumes "inv s" "okey k" "- (2 ^ 63) \<le> i" "i < 2 ^ 63" "write_key s k (itoa i) = Inr s'"
  shows "base_Int (read_key s') k = (i, None) \<and> base_Int64 (read_key s') k = (i, None) \<and>
    base_DefaultInt (read_key s') k d = i \<and> base_DefaultInt64 (read_key s') k d = i"
  using get_put_same [OF assms(1,2,5)] parse_int_itoa [of 64 i] assms(3,4)
  by (simp add: base_Int_def base_Int64_def base_DefaultInt_def base_DefaultInt64_def atoi_def)

lemma Strings_after_write:
  assumes "inv s" "okey k" "xs \<noteq> []" "\<And>x. x \<in> set xs \<Longrightarrow> CHR '';'' \<notin> set x" "join '';'' xs \<noteq> []"
    "write_key s k (join '';'' xs) = Inr s'"
  shows "base_Strings (read_key s') k = (Some xs, None) \<and> base_DefaultStrings (read_key s') k d = xs"
  using get_put_same [OF assms(1,2,6)] split_join_single [of xs "CHR '';''"] assms(3-5)
  by (simp add: base_Strings_def base_String_def base_DefaultStrings_def)

lemma Bool_after_write:
  assumes "inv s" "okey k" "write_key s k (if b then ''true'' else ''false'') = Inr s'"
  shows "base_Bool (read_key s') k = (b, None) \<and> base_DefaultBool (read_key s') k d = b"
  using get_put_same [OF assms] by (cases b) (simp_all add: base_Bool_def base_DefaultBool_def config_ParseBool_def)

end

section \<open>The fake container\<close>

record fakeConfigContainer =
  fdata :: "(string \<times> string) list"

definition NewFakeConfig :: fakeConfigContainer where
  "NewFakeConfig = \<lparr>fdata = []\<rparr>"

definition fake_getData :: "fakeConfigContainer \<Rightarrow> string \<Rightarrow> string" where
  "fake_getData c key = (case map_of (fdata c) (to_lower key) of Some v \<Rightarrow> v | None \<Rightarrow> [])"

definition fake_Set :: "fakeConfigContainer \<Rightarrow> string \<Rightarrow> string \<Rightarrow> fakeConfigContainer" where
  "fake_Set c key v = c\<lparr>fdata := AList.update (to_lower key) v (fdata c)\<rparr>"

definition fake_reader :: "fakeConfigContainer \<Rightarrow> string \<Rightarrow> string + string" where
  "fake_reader c key = Inr (fake_getData c key)"

definition fake_DIY :: "fakeConfigContainer \<Rightarrow> string \<Rightarrow> string option" where
  "fake_DIY c key = map_of (fdata c) (to_lower key)"

text \<open>Keys are case insensitive: the contract is about keys in lower case.\<close>

typedef lower_key = "{s. to_lower s = s}"
  by (rule exI [of _ "[]"]) (simp add: to_lower_def)

definition fake_read :: "fakeConfigContainer \<Rightarrow> lower_key \<Rightarrow> string + string" where
  "fake_read c k = fake_reader c (Rep_lower_key k)"

definition fake_write :: "fakeConfigContainer \<Rightarrow> lower_key \<Rightarrow> string \<Rightarrow> unit + fakeConfigContainer" where
  "fake_write c k v = Inr (fake_Set c (Rep_lower_key k) v)"

lemma Rep_lower_key_lower [simp]: "to_lower (Rep_lower_key k) = Rep_lower_key k"
  using Rep_lower_key [of k] by simp

interpretation fake: configer fake_read fake_write "\<lambda>_. True" "\<lambda>_. True"
  by unfold_locales
    (auto simp: fake_read_def fake_write_def fake_reader_def fake_getData_def fake_Set_def update_conv' Rep_lower_key_inject)

lemma fake_getData_Set:
  "fake_getData (fake_Set c key v) key' = (if to_lower key' = to_lower key then v else fake_getData c key')"
  by (simp add: fake_getData_def fake_Set_def update_conv')

end
