(* ===== verification/Ini_Config.thy ===== *)
theory Ini_Config
  imports Config_Values Go_Path
begin

text \<open>
  The INI configuration files of \<^verbatim>\<open>core/config/ini.go\<close>: the parser with its includes, the
  container with its getters and setters, and saving. A Go map of the container is an
  association list, whose order stands for the order in which Go happens to iterate. The file
  system is a function from paths to contents (\<^const>\<open>None\<close> when a file cannot be read) and
  the environment a function from names to values. Files that include each other in a circle
  are parsed for ever, so the parser is a partial function whose \<^const>\<open>None\<close> is divergence.
\<close>

section \<open>The container\<close>

definition defaultSection :: string where
  "defaultSection = ''default''"

record IniConfigContainer =
  idata :: "(string \<times> (string \<times> string) list) list"
  sectionComment :: "(string \<times> string) list"
  keyComment :: "(string \<times> string) list"

definition new_container :: IniConfigContainer where
  "new_container = \<lparr>idata = [], sectionComment = [], keyComment = []\<rparr>"

definition ensure_section :: "string \<Rightarrow> IniConfigContainer \<Rightarrow> IniConfigContainer" where
  "ensure_section sec c = (if map_of (idata c) sec = None then c\<lparr>idata := AList.update sec [] (idata c)\<rparr> else c)"

definition put_data :: "string \<Rightarrow> string \<Rightarrow> string \<Rightarrow> IniConfigContainer \<Rightarrow> IniConfigContainer" where
  "put_data sec k v c =
     c\<lparr>idata := AList.update sec (AList.update k v (the (map_of (idata c) sec))) (idata c)\<rparr>"

definition section_key :: "string \<Rightarrow> string \<times> string" where
  "section_key key =
     (let sectionKey = split (to_lower key) ''::''
      in if length sectionKey \<ge> 2 then (sectionKey ! 0, sectionKey ! 1) else (defaultSection, sectionKey ! 0))"

definition ini_lookup :: "IniConfigContainer \<Rightarrow> string \<Rightarrow> string \<Rightarrow> string option" where
  "ini_lookup c sec k = (case map_of (idata c) sec of Some v \<Rightarrow> map_of v k | None \<Rightarrow> None)"

definition ini_getdata :: "IniConfigContainer \<Rightarrow> string \<Rightarrow> string" where
  "ini_getdata c key =
     (if length key = 0 then []
      else let (sec, k) = section_key key in case ini_lookup c sec k of Some vv \<Rightarrow> vv | None \<Rightarrow> [])"

datatype ini_error = KeyIsEmpty | CannotRead string | BadLine string | NoSection | KeyNotFound

definition ini_Set :: "IniConfigContainer \<Rightarrow> string \<Rightarrow> string \<Rightarrow> ini_error + IniConfigContainer" where
  "ini_Set c key v =
     (if length key = 0 then Inl KeyIsEmpty
      else let (sec, k) = section_key key in Inr (put_data sec k v (ensure_section sec c)))"

definition ini_GetSection :: "IniConfigContainer \<Rightarrow> string \<Rightarrow> ini_error + (string \<times> string) list" where
  "ini_GetSection c sec = (case map_of (idata c) sec of Some v \<Rightarrow> Inr v | None \<Rightarrow> Inl NoSection)"

definition ini_DIY :: "IniConfigContainer \<Rightarrow> string \<Rightarrow> ini_error + (string \<times> string) list" where
  "ini_DIY c key = (case map_of (idata c) (to_lower key) of Some v \<Rightarrow> Inr v | None \<Rightarrow> Inl KeyNotFound)"

section \<open>Getters\<close>

definition ini_Bool :: "IniConfigContainer \<Rightarrow> string \<Rightarrow> bool \<times> conf_error option" where
  "ini_Bool c key = (case config_ParseBool (CString (ini_getdata c key)) of Some b \<Rightarrow> (b, None) | None \<Rightarrow> (False, Some BoolError))"

definition ini_DefaultBool :: "IniConfigContainer \<Rightarrow> string \<Rightarrow> bool \<Rightarrow> bool" where
  "ini_DefaultBool c key dflt = (let (v, e) = ini_Bool c key in if e \<noteq> None then dflt else v)"

definition ini_Int :: "IniConfigContainer \<Rightarrow> string \<Rightarrow> int \<times> conf_error option" where
  "ini_Int c key = (let (v, e) = atoi (ini_getdata c key) in (v, map_option NumError e))"

definition ini_DefaultInt :: "IniConfigContainer \<Rightarrow> string \<Rightarrow> int \<Rightarrow> int" where
  "ini_DefaultInt c key dflt = (let (v, e) = ini_Int c key in if e \<noteq> None then dflt else v)"

definition ini_Int64 :: "IniConfigContainer \<Rightarrow> string \<Rightarrow> int \<times> conf_error option" where
  "ini_Int64 c key = (let (v, e) = parse_int 64 (ini_getdata c key) in (v, map_option NumError e))"

definition ini_DefaultInt64 :: "IniConfigContainer \<Rightarrow> string \<Rightarrow> int \<Rightarrow> int" where
  "ini_DefaultInt64 c key dflt = (let (v, e) = ini_Int64 c key in if e \<noteq> None then dflt else v)"

definition ini_String :: "IniConfigContainer \<Rightarrow> string \<Rightarrow> string \<times> conf_error option" where
  "ini_String c key = (ini_getdata c key, None)"

definition ini_DefaultString :: "IniConfigContainer \<Rightarrow> string \<Rightarrow> string \<Rightarrow> string" where
  "ini_DefaultString c key dflt = (let (v, e) = ini_String c key in if v = [] \<or> e \<noteq> None then dflt else v)"

definition ini_Strings :: "IniConfigContainer \<Rightarrow> string \<Rightarrow> string list option \<times> conf_error option" where
  "ini_Strings c key = (let (v, e) = ini_String c key in if v = [] \<or> e \<noteq> None then (None, e) else (Some (split v '';''), None))"

definition ini_DefaultStrings :: "IniConfigContainer \<Rightarrow> string \<Rightarrow> string list \<Rightarrow> string list" where
  "ini_DefaultStrings c key dflt = (case ini_Strings c key of (Some v, None) \<Rightarrow> v | _ \<Rightarrow> dflt)"

section \<open>Parsing\<close>

definition drop_cr :: "string \<Rightarrow> string" where
  "drop_cr l = (if l \<noteq> [] \<and> last l = CHR 0x0D then butlast l else l)"

text \<open>The lines that \<^verbatim>\<open>ReadLine\<close> returns until the end of the data.\<close>

definition read_lines :: "string \<Rightarrow> string list" where
  "read_lines data = (let ls = split data [CHR 0x0A] in map drop_cr (if last ls = [] then butlast ls else ls))"

definition strip_bom :: "string \<Rightarrow> string" where
  "strip_bom data = (if has_prefix data [CHR 0xEF, CHR 0xBB, CHR 0xBF] then drop 3 data else data)"

text \<open>The variables of the loop: the container, the current section and the pending comment.\<close>

record ini_state =
  cfg :: IniConfigContainer
  cur :: string
  pending :: string

definition ini_start :: ini_state where
  "ini_start = \<lparr>cfg = new_container, cur = defaultSection, pending = []\<rparr>"

datatype line_result = Next_Line ini_state | Include_File string ini_state | Line_Error ini_error

definition comment_line :: "char \<Rightarrow> string \<Rightarrow> ini_state \<Rightarrow> ini_state" where
  "comment_line mark line st =
     st\<lparr>pending := pending st @ (if length (pending st) > 0 then [CHR 0x0A] else []) @ trim_left line [mark]\<rparr>"

definition section_line :: "string \<Rightarrow> ini_state \<Rightarrow> ini_state" where
  "section_line line st =
     (let sec = to_lower (butlast (tl line));
          c1 = (if length (pending st) > 0 then (cfg st)\<lparr>sectionComment := AList.update sec (pending st) (sectionComment (cfg st))\<rparr>
                else cfg st)
      in \<lparr>cfg = ensure_section sec c1, cur = sec, pending = []\<rparr>)"

definition pair_line :: "(string \<Rightarrow> string) \<Rightarrow> string \<Rightarrow> string \<Rightarrow> ini_state \<Rightarrow> ini_state" where
  "pair_line env key rawval st =
     (let v0 = trim_space rawval;
          v1 = (if has_prefix v0 ''\"'' then trim v0 ''\"'' else v0);
          c1 = put_data (cur st) key (ExpandValueEnv env v1) (cfg st);
          c2 = (if length (pending st) > 0 then c1\<lparr>keyComment := AList.update (cur st @ ''.'' @ key) (pending st) (keyComment c1)\<rparr>
                else c1)
      in st\<lparr>cfg := c2, pending := []\<rparr>)"

definition ini_line :: "(string \<Rightarrow> string) \<Rightarrow> string \<Rightarrow> string \<Rightarrow> ini_state \<Rightarrow> line_result" where
  "ini_line env dir raw st =
     (let line = trim_space raw in
      if line = [] then Next_Line st
      else if has_prefix line ''#'' then Next_Line (comment_line CHR ''#'' line st)
      else if has_prefix line '';'' then Next_Line (comment_line CHR '';'' line st)
      else if has_prefix line ''['' \<and> has_suffix line '']'' then Next_Line (section_line line st)
      else
        let st = st\<lparr>cfg := ensure_section (cur st) (cfg st)\<rparr>;
            keyValue = splitn2 line ''='';
            key = to_lower (trim_space (keyValue ! 0));
            includefiles = str_fields key
        in if length keyValue = 1 \<and> has_prefix key ''include'' \<and> includefiles ! 0 = ''include'' \<and> length includefiles = 2
           then let otherfile = trim (includefiles ! 1) ''\"''
                in Include_File (if path_IsAbs otherfile then otherfile else path_Join [dir, otherfile]) st
           else if length keyValue \<noteq> 2 then Line_Error (BadLine line)
           else Next_Line (pair_line env key (keyValue ! 1) st))"

text \<open>Merging an included container into the current one.\<close>

definition merge_section :: "string \<times> (string \<times> string) list \<Rightarrow> IniConfigContainer \<Rightarrow> IniConfigContainer" where
  "merge_section = (\<lambda>(sec, dt) c. fold (\<lambda>(k, v). put_data sec k v) dt (ensure_section sec c))"

definition merge_container :: "IniConfigContainer \<Rightarrow> IniConfigContainer \<Rightarrow> IniConfigContainer" where
  "merge_container i c =
     (let c1 = fold merge_section (idata i) c
      in c1\<lparr>sectionComment := fold (\<lambda>(sec, comm). AList.update sec comm) (sectionComment i) (sectionComment c1),
            keyComment := fold (\<lambda>(k, comm). AList.update k comm) (keyComment i) (keyComment c1)\<rparr>)"

partial_function (option) ini_loop ::
  "(string \<Rightarrow> string) \<Rightarrow> (string \<Rightarrow> string option) \<Rightarrow> string \<Rightarrow> string list \<Rightarrow> ini_state \<Rightarrow> (ini_error, ini_state) run" where
  "ini_loop env fs dir ls st =
     (case ls of
        [] \<Rightarrow> Some (Inr st)
      | raw # rest \<Rightarrow>
          (case ini_line env dir raw st of
             Line_Error e \<Rightarrow> Some (Inl e)
           | Next_Line st' \<Rightarrow> ini_loop env fs dir rest st'
           | Include_File other st' \<Rightarrow>
               (case fs other of
                  None \<Rightarrow> Some (Inl (CannotRead other))
                | Some data \<Rightarrow>
                    Option.bind (ini_loop env fs (path_Dir other) (read_lines (strip_bom data)) ini_start)
                      (\<lambda>r. case r of
                         Inl e \<Rightarrow> Some (Inl e)
                       | Inr i \<Rightarrow> ini_loop env fs dir rest (st'\<lparr>cfg := merge_container (cfg i) (cfg st')\<rparr>)))))"

definition parseData :: "(string \<Rightarrow> string) \<Rightarrow> (string \<Rightarrow> string option) \<Rightarrow> string \<Rightarrow> string \<Rightarrow> (ini_error, IniConfigContainer) run" where
  "parseData env fs dir data =
     run_bind (ini_loop env fs dir (read_lines (strip_bom data)) ini_start) (\<lambda>st. run_ret (cfg st))"

definition parseFile :: "(string \<Rightarrow> string) \<Rightarrow> (string \<Rightarrow> string option) \<Rightarrow> string \<Rightarrow> (ini_error, IniConfigContainer) run" where
  "parseFile env fs fname =
     (case fs fname of None \<Rightarrow> run_panic (CannotRead fname) | Some data \<Rightarrow> parseData env fs (path_Dir fname) data)"

section \<open>Saving\<close>

definition getCommentStr :: "IniConfigContainer \<Rightarrow> string \<Rightarrow> string \<Rightarrow> string" where
  "getCommentStr c sec key =
     (case (if length key = 0 then map_of (sectionComment c) sec else map_of (keyComment c) (sec @ ''.'' @ key)) of
        None \<Rightarrow> []
      | Some comment \<Rightarrow>
          if length comment = 0 \<or> length (trim_space comment) = 0 then ''#''
          else ''#'' @ replace_all comment [CHR 0x0A] (CHR 0x0A # ''#''))"

definition save_comment :: "IniConfigContainer \<Rightarrow> string \<Rightarrow> string \<Rightarrow> string" where
  "save_comment c sec key = (let v = getCommentStr c sec key in if length v > 0 then v @ [CHR 0x0A] else [])"

definition save_key :: "IniConfigContainer \<Rightarrow> string \<Rightarrow> string \<times> string \<Rightarrow> string" where
  "save_key c sec = (\<lambda>(key, v). if key \<noteq> '' '' then save_comment c sec key @ key @ ''='' @ v @ [CHR 0x0A] else [])"

definition save_section :: "IniConfigContainer \<Rightarrow> string \<times> (string \<times> string) list \<Rightarrow> string" where
  "save_section c = (\<lambda>(sec, dt).
     if sec \<noteq> defaultSection
     then save_comment c sec [] @ ''['' @ sec @ '']'' @ [CHR 0x0A] @ concat (map (save_key c sec) dt) @ [CHR 0x0A]
     else [])"

definition save_text :: "IniConfigContainer \<Rightarrow> string" where
  "save_text c =
     (case map_of (idata c) defaultSection of
        Some dt \<Rightarrow> concat (map (save_key c defaultSection) dt) @ [CHR 0x0A]
      | None \<Rightarrow> []) @ concat (map (save_section c) (idata c))"

text \<open>
  The file is opened for reading and writing and created if it does not exist, but not
  truncated: the text replaces the first bytes of an existing file.
\<close>

definition SaveConfigFile :: "IniConfigContainer \<Rightarrow> string \<Rightarrow> (string \<Rightarrow> string option) \<Rightarrow> (string \<Rightarrow> string option)" where
  "SaveConfigFile c filename fs =
     (let txt = save_text c; old = (case fs filename of Some d \<Rightarrow> d | None \<Rightarrow> [])
      in fs(filename \<mapsto> txt @ drop (length txt) old))"

section \<open>Lookups after updates\<close>

lemma ini_lookup_ensure [simp]: "ini_lookup (ensure_section sec c) = ini_lookup c"
  by (auto simp: fun_eq_iff ini_lookup_def ensure_section_def update_conv' split: option.splits)

lemma ensure_section_present [simp]: "map_of (idata (ensure_section sec c)) sec \<noteq> None"
  by (simp add: ensure_section_def update_conv')

lemma ensure_section_comments [simp]:
  "sectionComment (ensure_section sec c) = sectionComment c" "keyComment (ensure_section sec c) = keyComment c"
  by (simp_all add: ensure_section_def)

lemma put_data_comments [simp]:
  "sectionComment (put_data sec k v c) = sectionComment c" "keyComment (put_data sec k v c) = keyComment c"
  by (simp_all add: put_data_def)

lemma ini_lookup_put:
  "map_of (idata c) sec \<noteq> None \<Longrightarrow>
   ini_lookup (put_data sec k v c) s k' = (if s = sec \<and> k' = k then Some v else ini_lookup c s k')"
  by (auto simp: ini_lookup_def put_data_def update_conv' split: option.splits)

lemma ini_lookup_comments [simp]:
  "ini_lookup (c\<lparr>sectionComment := x\<rparr>) = ini_lookup c" "ini_lookup (c\<lparr>keyComment := y\<rparr>) = ini_lookup c"
  by (simp_all add: fun_eq_iff ini_lookup_def)

lemma ini_lookup_Set:
  assumes "key \<noteq> []" "ini_Set c key v = Inr c'"
  shows "ini_lookup c' s k = (if (s, k) = section_key key then Some v else ini_lookup c s k)"
proof -
  obtain sec k0 where sk: "section_key key = (sec, k0)" by (cases "section_key key")
  have "c' = put_data sec k0 v (ensure_section sec c)"
    using assms sk by (simp add: ini_Set_def)
  then show ?thesis using ini_lookup_put [where c = "ensure_section sec c" and sec = sec and k = k0 and v = v and s = s and k' = k] sk by simp
qed

section \<open>The contract of a container\<close>

text \<open>A name: a section and a key in lower case without colons, written section::key.\<close>

typedef ini_name = "{(s, k). to_lower s = s \<and> to_lower k = k \<and> CHR '':'' \<notin> set s \<and> CHR '':'' \<notin> set k}"
  by (rule exI [of _ "([], [])"]) (simp add: to_lower_def)

definition ini_key :: "ini_name \<Rightarrow> string" where
  "ini_key n = fst (Rep_ini_name n) @ ''::'' @ snd (Rep_ini_name n)"

definition ini_read :: "IniConfigContainer \<Rightarrow> ini_name \<Rightarrow> string + string" where
  "ini_read c n = Inr (ini_getdata c (ini_key n))"

definition ini_write :: "IniConfigContainer \<Rightarrow> ini_name \<Rightarrow> string \<Rightarrow> ini_error + IniConfigContainer" where
  "ini_write c n v = ini_Set c (ini_key n) v"

lemma split_colons:
  "CHR '':'' \<notin> set s \<Longrightarrow> CHR '':'' \<notin> set k \<Longrightarrow> split (s @ CHR '':'' # CHR '':'' # k) ''::'' = [s, k]"
proof -
  assume s: "CHR '':'' \<notin> set s" and k: "CHR '':'' \<notin> set k"
  have k': "split_aux ''::'' acc k = [rev acc @ k]" for acc
    using k by (induction k arbitrary: acc) (auto simp: has_prefix_def)
  have "split_aux ''::'' acc (s @ CHR '':'' # CHR '':'' # k) = [rev acc @ s, k]" for acc
    using s by (induction s arbitrary: acc) (auto simp: has_prefix_def k')
  from this [of "[]"] show ?thesis by (simp add: split_def)
qed

lemma section_key_name [simp]: "section_key (ini_key n) = Rep_ini_name n"
  and ini_key_nonempty [simp]: "ini_key n \<noteq> []"
  using Rep_ini_name [of n]
  by (auto simp: section_key_def ini_key_def split_colons to_lower_append Let_def to_lower_def lower_char_def)

lemma ini_getdata_name: "ini_getdata c (ini_key n) = (case ini_lookup c (fst (Rep_ini_name n)) (snd (Rep_ini_name n)) of Some v \<Rightarrow> v | None \<Rightarrow> [])"
  by (simp add: ini_getdata_def split: prod.splits)

interpretation ini: configer ini_read ini_write "\<lambda>_. True" "\<lambda>_. True"
proof unfold_locales
  fix s k v
  show "\<exists>s'. ini_write s k v = Inr s' \<and> True"
    by (simp add: ini_write_def ini_Set_def split: prod.splits)
next
  fix s k v s'
  assume w: "ini_write s k v = Inr s'"
  note look = ini_lookup_Set [OF ini_key_nonempty w [unfolded ini_write_def]]
  show "ini_read s' k = Inr v" by (simp add: ini_read_def ini_getdata_name look)
  fix k' assume "k' \<noteq> k"
  then have "Rep_ini_name k' \<noteq> Rep_ini_name k" by (simp add: Rep_ini_name_inject)
  then show "ini_read s' k' = ini_read s k'" by (simp add: ini_read_def ini_getdata_name look)
qed

section \<open>Getters and the base getters\<close>

definition ini_reader :: "IniConfigContainer \<Rightarrow> string \<Rightarrow> string + string" where
  "ini_reader c key = Inr (ini_getdata c key)"

lemma default_case: "(let (v, e) = x in if e \<noteq> None then d else v) = (case x of (res, None) \<Rightarrow> res | _ \<Rightarrow> d)"
  by (cases x) (simp split: option.split)

text \<open> The getters that the INI container redefines return what the getters of BaseConfiger
  return over the reader that the parser installs: values, errors and defaults agree for every key.\<close>

theorem ini_getters_are_base:
  "ini_Bool c key = base_Bool (ini_reader c) key \<and> ini_DefaultBool c key b = base_DefaultBool (ini_reader c) key b \<and>
   ini_Int c key = base_Int (ini_reader c) key \<and> ini_DefaultInt c key i = base_DefaultInt (ini_reader c) key i \<and>
   ini_Int64 c key = base_Int64 (ini_reader c) key \<and> ini_DefaultInt64 c key i = base_DefaultInt64 (ini_reader c) key i \<and>
   ini_String c key = base_String (ini_reader c) key \<and> ini_DefaultString c key s = base_DefaultString (ini_reader c) key s \<and>
   ini_Strings c key = base_Strings (ini_reader c) key \<and> ini_DefaultStrings c key ss = base_DefaultStrings (ini_reader c) key ss"
proof -
  have num: "ini_Int c key = base_Int (ini_reader c) key" "ini_Int64 c key = base_Int64 (ini_reader c) key"
    by (simp_all add: ini_Int_def base_Int_def ini_Int64_def base_Int64_def ini_reader_def split: prod.split option.split)
  have bool: "ini_Bool c key = base_Bool (ini_reader c) key"
    by (simp add: ini_Bool_def base_Bool_def ini_reader_def)
  have str: "ini_String c key = base_String (ini_reader c) key" "ini_Strings c key = base_Strings (ini_reader c) key"
    by (simp_all add: ini_String_def base_String_def ini_Strings_def base_Strings_def ini_reader_def)
  have "ini_DefaultString c key s = base_DefaultString (ini_reader c) key s"
    by (simp add: ini_DefaultString_def base_DefaultString_def str split: prod.split)
  moreover have "ini_DefaultStrings c key ss = base_DefaultStrings (ini_reader c) key ss"
    using split_nonempty [of "'';''" "ini_getdata c key"]
    by (simp add: ini_DefaultStrings_def base_DefaultStrings_def base_Strings_def base_String_def ini_Strings_def
        ini_String_def ini_reader_def)
  ultimately show ?thesis using num bool str
    unfolding ini_DefaultBool_def base_DefaultBool_def ini_DefaultInt_def base_DefaultInt_def ini_DefaultInt64_def
      base_DefaultInt64_def default_case by simp
qed

section \<open>Reading what was saved\<close>

text \<open>What the text format can express: the conditions under which a container survives saving.\<close>

definition trimmed :: "string \<Rightarrow> bool" where
  "trimmed s \<longleftrightarrow> s = [] \<or> \<not> is_space (hd s) \<and> \<not> is_space (last s)"

definition one_line :: "string \<Rightarrow> bool" where
  "one_line s \<longleftrightarrow> CHR 0x0A \<notin> set s"

definition clean_key :: "string \<Rightarrow> bool" where
  "clean_key k \<longleftrightarrow> k \<noteq> [] \<and> to_lower k = k \<and> trimmed k \<and> one_line k \<and> CHR ''='' \<notin> set k \<and>
     hd k \<notin> set ''#;['' \<and> hd k \<noteq> CHR 0xEF"

definition clean_value :: "(string \<Rightarrow> string) \<Rightarrow> string \<Rightarrow> bool" where
  "clean_value env v \<longleftrightarrow> trimmed v \<and> one_line v \<and> \<not> has_prefix v ''\"'' \<and> ExpandValueEnv env v = v"

definition clean_comment :: "string \<Rightarrow> bool" where
  "clean_comment cm \<longleftrightarrow> hd (split cm [CHR 0x0A]) \<noteq> [] \<and>
     list_all (\<lambda>l. l = [] \<or> hd l \<noteq> CHR ''#'' \<and> \<not> is_space (last l)) (split cm [CHR 0x0A])"

definition clean_section :: "(string \<Rightarrow> string) \<Rightarrow> string \<times> (string \<times> string) list \<Rightarrow> bool" where
  "clean_section env = (\<lambda>(s, dt). to_lower s = s \<and> one_line s \<and> distinct (map fst dt) \<and>
     list_all (\<lambda>(k, v). clean_key k \<and> clean_value env v) dt)"

definition clean_ini :: "(string \<Rightarrow> string) \<Rightarrow> IniConfigContainer \<Rightarrow> bool" where
  "clean_ini env c \<longleftrightarrow> distinct (map fst (idata c)) \<and> list_all (clean_section env) (idata c) \<and>
     list_all (\<lambda>(s, cm). clean_comment cm \<and> s \<noteq> defaultSection \<and> s \<in> set (map fst (idata c))) (sectionComment c) \<and>
     list_all (\<lambda>(i, cm). clean_comment cm \<and> list_ex (\<lambda>(s, dt). list_ex (\<lambda>(k, v). i = s @ ''.'' @ k) dt) (idata c)) (keyComment c)"

definition unlines :: "string list \<Rightarrow> string" where
  "unlines ls = concat (map (\<lambda>l. l @ [CHR 0x0A]) ls)"

lemma unlines_simps [simp]: "unlines [] = []" "unlines (l # ls) = l @ CHR 0x0A # unlines ls" "unlines (xs @ ys) = unlines xs @ unlines ys"
  by (simp_all add: unlines_def)

lemma read_lines_line: "one_line l \<Longrightarrow> read_lines (l @ CHR 0x0A # t) = drop_cr l # read_lines t"
  using split_single_append [of "CHR 0x0A" l t] split_nonempty [of "[CHR 0x0A]" t]
  by (simp add: read_lines_def one_line_def Let_def)

lemma read_unlines: "list_all one_line ls \<Longrightarrow> read_lines (unlines ls) = map drop_cr ls"
  by (induction ls) (simp_all add: read_lines_line, simp add: read_lines_def split_def)

lemma trim_space_drop_cr [simp]: "trim_space (drop_cr l) = trim_space l"
proof (cases "l \<noteq> [] \<and> last l = CHR 0x0D")
  case True
  then obtain b where l: "l = b @ [CHR 0x0D]" by (metis append_butlast_last_id)
  have "trim_space (b @ [CHR 0x0D]) = trim_space b"
  proof (cases "dropWhile (\<lambda>c. c \<in> set space_chars) b = []")
    case True
    moreover have "CHR 0x0D \<in> set space_chars" by (simp add: space_chars_def)
    ultimately have "dropWhile (\<lambda>c. c \<in> set space_chars) (b @ [CHR 0x0D]) = []"
      by (auto simp only: dropWhile_eq_Nil_conv set_append Un_iff list.set empty_iff insert_iff)
    with True show ?thesis by (simp only: trim_space_def trim_def trim_left_def)
  next
    case False
    then have "dropWhile (\<lambda>c. c \<in> set space_chars) (b @ [CHR 0x0D]) = dropWhile (\<lambda>c. c \<in> set space_chars) b @ [CHR 0x0D]"
      by (auto simp: dropWhile_append)
    moreover have "CHR 0x0D \<in> set space_chars" by (simp add: space_chars_def)
    ultimately show ?thesis by (simp add: trim_space_def trim_def trim_left_def trim_right_def)
  qed
  with l show ?thesis by (simp add: drop_cr_def)
qed (auto simp: drop_cr_def)

lemma ini_line_drop_cr [simp]: "ini_line env dir (drop_cr l) st = ini_line env dir l st"
  by (simp add: ini_line_def)

lemma trim_space_trimmed: "trimmed s \<Longrightarrow> trim_space s = s"
  by (cases "s = []") (simp_all add: trim_space_def trimmed_def is_space_def trim_no_cut)

lemma ini_loop_simps [simp]:
  "ini_loop env fs dir [] st = Some (Inr st)"
  "ini_line env dir raw st = Next_Line st' \<Longrightarrow> ini_loop env fs dir (raw # rest) st = ini_loop env fs dir rest st'"
  "ini_line env dir raw st = Line_Error e \<Longrightarrow> ini_loop env fs dir (raw # rest) st = Some (Inl e)"
  by (simp_all add: ini_loop.simps [of env fs dir "raw # rest"] ini_loop.simps [of env fs dir "[]"])

subsection \<open>The lines of a saved container\<close>

definition comment_lines :: "string option \<Rightarrow> string list" where
  "comment_lines cm = (case cm of None \<Rightarrow> [] | Some s \<Rightarrow> map (Cons CHR ''#'') (split s [CHR 0x0A]))"

definition key_lines :: "IniConfigContainer \<Rightarrow> string \<Rightarrow> string \<times> string \<Rightarrow> string list" where
  "key_lines c sec = (\<lambda>(k, v). comment_lines (map_of (keyComment c) (sec @ ''.'' @ k)) @ [k @ ''='' @ v])"

definition section_lines :: "IniConfigContainer \<Rightarrow> string \<times> (string \<times> string) list \<Rightarrow> string list" where
  "section_lines c = (\<lambda>(sec, dt). comment_lines (map_of (sectionComment c) sec) @ [''['' @ sec @ '']''] @
     concat (map (key_lines c sec) dt) @ [[]])"

lemma unlines_join: "ls \<noteq> [] \<Longrightarrow> unlines ls = join [CHR 0x0A] ls @ [CHR 0x0A]"
  by (induction ls rule: list_nonempty_induct) (simp_all add: join_Cons)

lemma join_marked:
  "ls \<noteq> [] \<Longrightarrow> CHR ''#'' # join (CHR 0x0A # ''#'') ls = join [CHR 0x0A] (map (Cons CHR ''#'') ls)"
  by (induction ls rule: list_nonempty_induct) (simp_all add: join_Cons)

lemma unlines_concat: "unlines (concat lss) = concat (map unlines lss)"
  by (induction lss) simp_all

lemma clean_comment_text:
  assumes "clean_comment cm"
  shows "trim_space cm \<noteq> []"
proof -
  obtain l ls where sp: "split cm [CHR 0x0A] = l # ls" using split_nonempty [of "[CHR 0x0A]" cm] by (cases "split cm [CHR 0x0A]") auto
  with assms have l: "l \<noteq> []" "\<not> is_space (last l)" by (auto simp: clean_comment_def)
  have "cm = join [CHR 0x0A] (l # ls)" using join_split [of "[CHR 0x0A]" cm] sp by simp
  then have "last l \<in> set cm" using l(1) by (cases ls) simp_all
  then have "dropWhile (\<lambda>c. c \<in> set space_chars) cm \<noteq> []"
    using l(2) unfolding dropWhile_eq_Nil_conv is_space_def by blast
  then have "\<not> hd (trim_left cm space_chars) \<in> set space_chars \<and> trim_left cm space_chars \<noteq> []"
    using hd_dropWhile [of "\<lambda>c. c \<in> set space_chars" cm] unfolding trim_left_def by blast
  then have "dropWhile (\<lambda>c. c \<in> set space_chars) (rev (trim_left cm space_chars)) \<noteq> []"
    unfolding dropWhile_eq_Nil_conv set_rev using hd_in_set by blast
  then show ?thesis unfolding trim_space_def trim_def trim_right_def by simp
qed

lemma comment_text:
  assumes "\<And>cm. x = Some cm \<Longrightarrow> clean_comment cm"
    "x = (if length key = 0 then map_of (sectionComment c) sec else map_of (keyComment c) (sec @ ''.'' @ key))"
  shows "save_comment c sec key = unlines (comment_lines x)"
proof (cases x)
  case (Some cm)
  have ne: "split cm [CHR 0x0A] \<noteq> []" by (rule split_nonempty) simp
  have "cm \<noteq> []" "trim_space cm \<noteq> []"
    using clean_comment_text [OF assms(1) [OF Some]] by (auto simp: trim_space_def)
  with Some assms(2) have "save_comment c sec key = CHR ''#'' # join (CHR 0x0A # ''#'') (split cm [CHR 0x0A]) @ [CHR 0x0A]"
    by (simp add: save_comment_def getCommentStr_def replace_all_def)
  also have "\<dots> = unlines (map (Cons CHR ''#'') (split cm [CHR 0x0A]))"
    using ne join_marked [OF ne] by (subst unlines_join) simp_all
  finally show ?thesis using Some by (simp add: comment_lines_def)
qed (use assms(2) in \<open>simp add: save_comment_def getCommentStr_def comment_lines_def\<close>)

lemma map_of_list_all: "list_all (\<lambda>(k, v). P k v) xs \<Longrightarrow> map_of xs k = Some v \<Longrightarrow> P k v"
  by (auto simp: list_all_iff dest!: map_of_SomeD)

lemma clean_comments:
  assumes "clean_ini env c"
  shows "map_of (sectionComment c) s = Some cm \<Longrightarrow> clean_comment cm \<and> s \<noteq> defaultSection \<and> s \<in> fst ` set (idata c)"
    and "map_of (keyComment c) i = Some cm \<Longrightarrow> clean_comment cm \<and> (\<exists>(s, dt) \<in> set (idata c). \<exists>(k, v) \<in> set dt. i = s @ ''.'' @ k)"
proof -
  show "clean_comment cm \<and> s \<noteq> defaultSection \<and> s \<in> fst ` set (idata c)" if "map_of (sectionComment c) s = Some cm"
    using assms map_of_list_all [OF _ that] by (fastforce simp: clean_ini_def)
  show "clean_comment cm \<and> (\<exists>(s, dt) \<in> set (idata c). \<exists>(k, v) \<in> set dt. i = s @ ''.'' @ k)" if "map_of (keyComment c) i = Some cm"
    using assms map_of_list_all [OF _ that] by (fastforce simp: clean_ini_def list_ex_iff)
qed

lemma save_key_lines:
  assumes "clean_ini env c" "clean_key (fst kv)"
  shows "save_key c sec kv = unlines (key_lines c sec kv)"
proof -
  obtain k v where kv: "kv = (k, v)" by (cases kv)
  with assms(2) have k: "k \<noteq> []" "k \<noteq> '' ''" by (auto simp: clean_key_def trimmed_def is_space_def space_chars_def)
  have "save_comment c sec k = unlines (comment_lines (map_of (keyComment c) (sec @ ''.'' @ k)))"
    by (rule comment_text) (use clean_comments(2) [OF assms(1)] k in auto)
  with k kv show ?thesis by (simp add: save_key_def key_lines_def)
qed

lemma save_keys_lines:
  assumes "clean_ini env c" "clean_section env (sec, dt)"
  shows "concat (map (save_key c sec) dt) = unlines (concat (map (key_lines c sec) dt))"
proof -
  have "map (save_key c sec) dt = map (unlines \<circ> key_lines c sec) dt"
    using assms(2) save_key_lines [OF assms(1)] by (auto simp: clean_section_def list_all_iff)
  then show ?thesis by (simp only: unlines_concat map_map)
qed

lemma save_section_lines:
  assumes "clean_ini env c" "clean_section env sdt" "fst sdt \<noteq> defaultSection"
  shows "save_section c sdt = unlines (section_lines c sdt)"
proof -
  obtain sec dt where sdt: "sdt = (sec, dt)" by (cases sdt)
  have "save_comment c sec [] = unlines (comment_lines (map_of (sectionComment c) sec))"
    by (rule comment_text) (use clean_comments(1) [OF assms(1)] in auto)
  with save_keys_lines [OF assms(1), of sec dt] assms(2,3) sdt show ?thesis
    by (simp add: save_section_def section_lines_def)
qed

definition ini_lines :: "IniConfigContainer \<Rightarrow> string list" where
  "ini_lines c =
     (case map_of (idata c) defaultSection of Some dt \<Rightarrow> concat (map (key_lines c defaultSection) dt) @ [[]] | None \<Rightarrow> []) @
     concat (map (section_lines c) (filter (\<lambda>(s, dt). s \<noteq> defaultSection) (idata c)))"

lemma save_text_lines:
  assumes "clean_ini env c"
  shows "save_text c = unlines (ini_lines c)"
proof -
  have cl: "clean_section env sdt" if "sdt \<in> set (idata c)" for sdt
    using assms that by (auto simp: clean_ini_def list_all_iff)
  have "concat (map (save_section c) xs) = unlines (concat (map (section_lines c) (filter (\<lambda>(s, dt). s \<noteq> defaultSection) xs)))"
    if "set xs \<subseteq> set (idata c)" for xs
    using that
  proof (induction xs)
    case (Cons x xs)
    then show ?case using save_section_lines [OF assms cl, of x] by (auto simp: save_section_def)
  qed simp
  moreover have "concat (map (save_key c defaultSection) dt) = unlines (concat (map (key_lines c defaultSection) dt))"
    if "map_of (idata c) defaultSection = Some dt" for dt
    using save_keys_lines [OF assms cl] map_of_SomeD [OF that] by blast
  ultimately show ?thesis by (auto simp: save_text_def ini_lines_def split: option.splits)
qed

subsection \<open>Parsing the lines of a saved container\<close>

definition opt_comment :: "string option \<Rightarrow> string" where
  "opt_comment cm = (case cm of None \<Rightarrow> [] | Some s \<Rightarrow> s)"

definition apply_key :: "IniConfigContainer \<Rightarrow> string \<Rightarrow> string \<times> string \<Rightarrow> ini_state \<Rightarrow> ini_state" where
  "apply_key c sec = (\<lambda>(k, v) st.
     \<lparr>cfg = put_data sec k v (ensure_section sec (cfg st))
        \<lparr>keyComment := (case map_of (keyComment c) (sec @ ''.'' @ k) of None \<Rightarrow> keyComment (cfg st)
           | Some cm \<Rightarrow> AList.update (sec @ ''.'' @ k) cm (keyComment (cfg st)))\<rparr>,
      cur = sec, pending = []\<rparr>)"

definition apply_section :: "IniConfigContainer \<Rightarrow> string \<times> (string \<times> string) list \<Rightarrow> ini_state \<Rightarrow> ini_state" where
  "apply_section c = (\<lambda>(sec, dt) st. fold (apply_key c sec) dt
     \<lparr>cfg = ensure_section sec ((cfg st)\<lparr>sectionComment := (case map_of (sectionComment c) sec of None \<Rightarrow> sectionComment (cfg st)
         | Some cm \<Rightarrow> AList.update sec cm (sectionComment (cfg st)))\<rparr>), cur = sec, pending = []\<rparr>)"

lemma comment_line_marked:
  assumes "l = [] \<or> hd l \<noteq> CHR ''#'' \<and> \<not> is_space (last l)"
  shows "ini_line env dir (CHR ''#'' # l) st =
    Next_Line (st\<lparr>pending := pending st @ (if pending st = [] then [] else [CHR 0x0A]) @ l\<rparr>)"
proof -
  have "trimmed (CHR ''#'' # l)" using assms by (auto simp: trimmed_def is_space_def space_chars_def)
  moreover have "trim_left (CHR ''#'' # l) ''#'' = l" using assms by (cases l) (auto simp: trim_left_def)
  ultimately show ?thesis by (simp add: ini_line_def trim_space_trimmed comment_line_def has_prefix_def)
qed

lemma loop_comment_more:
  assumes "list_all (\<lambda>l. l = [] \<or> hd l \<noteq> CHR ''#'' \<and> \<not> is_space (last l)) ls" "pending st \<noteq> []"
  shows "ini_loop env fs dir (map (Cons CHR ''#'') ls @ rest) st =
    ini_loop env fs dir rest (st\<lparr>pending := join [CHR 0x0A] (pending st # ls)\<rparr>)"
  using assms
proof (induction ls arbitrary: st)
  case (Cons l ls)
  have "ini_loop env fs dir (map (Cons CHR ''#'') (l # ls) @ rest) st =
      ini_loop env fs dir (map (Cons CHR ''#'') ls @ rest) (st\<lparr>pending := pending st @ CHR 0x0A # l\<rparr>)"
    using Cons.prems comment_line_marked [of l] by simp
  also have "\<dots> = ini_loop env fs dir rest (st\<lparr>pending := join [CHR 0x0A] ((pending st @ CHR 0x0A # l) # ls)\<rparr>)"
    using Cons.IH [of "st\<lparr>pending := pending st @ CHR 0x0A # l\<rparr>"] Cons.prems by simp
  also have "join [CHR 0x0A] ((pending st @ CHR 0x0A # l) # ls) = join [CHR 0x0A] (pending st # l # ls)"
    by (cases ls) simp_all
  finally show ?case .
qed simp

lemma loop_comment:
  assumes "\<And>s. cm = Some s \<Longrightarrow> clean_comment s" "pending st = []"
  shows "ini_loop env fs dir (comment_lines cm @ rest) st = ini_loop env fs dir rest (st\<lparr>pending := opt_comment cm\<rparr>)"
proof (cases cm)
  case None
  have "st\<lparr>pending := []\<rparr> = st" using assms(2) by simp
  with None show ?thesis by (simp add: comment_lines_def opt_comment_def)
next
  case (Some s)
  obtain l ls where sp: "split s [CHR 0x0A] = l # ls" using split_nonempty [of "[CHR 0x0A]" s] by (cases "split s [CHR 0x0A]") auto
  with assms(1) [OF Some] have l: "l \<noteq> []" "hd l \<noteq> CHR ''#''" "\<not> is_space (last l)"
    "list_all (\<lambda>l. l = [] \<or> hd l \<noteq> CHR ''#'' \<and> \<not> is_space (last l)) ls" by (auto simp: clean_comment_def)
  have "join [CHR 0x0A] (l # ls) = s" using join_split [of "[CHR 0x0A]" s] sp by simp
  with l sp Some assms(2) comment_line_marked [of l] loop_comment_more [OF l(4), of "st\<lparr>pending := l\<rparr>"]
  show ?thesis by (simp add: comment_lines_def opt_comment_def)
qed

lemma clean_comment_nonempty: "clean_comment cm \<Longrightarrow> cm \<noteq> []"
  using clean_comment_text [of cm] by (auto simp: trim_space_def)

lemma pair_line_clean:
  assumes "clean_key k" "clean_value env v"
  shows "ini_line env dir (k @ ''='' @ v) st = Next_Line (pair_line env k v (st\<lparr>cfg := ensure_section (cur st) (cfg st)\<rparr>))"
proof -
  let ?l = "k @ ''='' @ v"
  have "trimmed ?l" using assms
    by (cases v rule: rev_cases) (auto simp: trimmed_def clean_key_def clean_value_def is_space_def space_chars_def)
  moreover have "splitn2 ?l ''='' = [k, v]" using assms splitn2_append [of "CHR ''=''" k v] by (simp add: clean_key_def)
  moreover have "\<not> has_prefix ?l [ch]" if "ch \<in> set ''#;[''" for ch
    using assms that by (cases k) (auto simp: clean_key_def has_prefix_def)
  moreover have "to_lower (trim_space k) = k" using assms(1) by (simp add: clean_key_def trim_space_trimmed)
  ultimately show ?thesis by (simp add: ini_line_def trim_space_trimmed)
qed

lemma loop_key:
  assumes "clean_ini env c" "clean_key k" "clean_value env v" "cur st = sec" "pending st = []"
  shows "ini_loop env fs dir (key_lines c sec (k, v) @ rest) st = ini_loop env fs dir rest (apply_key c sec (k, v) st)"
proof -
  let ?cm = "map_of (keyComment c) (sec @ ''.'' @ k)"
  have cm: "\<And>s. ?cm = Some s \<Longrightarrow> clean_comment s" using clean_comments(2) [OF assms(1)] by blast
  have "pair_line env k v (st\<lparr>pending := opt_comment ?cm, cfg := ensure_section sec (cfg st)\<rparr>) = apply_key c sec (k, v) st"
    using assms clean_comment_nonempty [OF cm]
    by (auto simp: pair_line_def apply_key_def clean_value_def trim_space_trimmed opt_comment_def split: option.splits)
  then show ?thesis
    using loop_comment [OF cm assms(5), where rest = "(k @ ''='' @ v) # rest"] pair_line_clean [OF assms(2,3)] assms(4)
    by (simp add: key_lines_def)
qed

lemma loop_keys:
  assumes "clean_ini env c" "list_all (\<lambda>(k, v). clean_key k \<and> clean_value env v) dt" "cur st = sec" "pending st = []"
  shows "ini_loop env fs dir (concat (map (key_lines c sec) dt) @ rest) st = ini_loop env fs dir rest (fold (apply_key c sec) dt st)"
  using assms(2-)
proof (induction dt arbitrary: st)
  case (Cons kv dt)
  obtain k v where "kv = (k, v)" by (cases kv)
  moreover have "cur (apply_key c sec kv st) = sec" "pending (apply_key c sec kv st) = []"
    by (auto simp: apply_key_def split: prod.splits)
  ultimately show ?case using Cons loop_key [OF assms(1), of k v st sec] by simp
qed simp

lemma loop_blank [simp]: "ini_loop env fs dir ([] # rest) st = ini_loop env fs dir rest st"
  by (simp add: ini_line_def trim_space_def)

lemma fold_apply_key_state:
  "cur st = sec \<Longrightarrow> pending st = [] \<Longrightarrow> cur (fold (apply_key c sec) dt st) = sec \<and> pending (fold (apply_key c sec) dt st) = []"
  by (induction dt arbitrary: st) (auto simp: apply_key_def split: prod.splits)

lemma loop_section:
  assumes "clean_ini env c" "clean_section env (sec, dt)" "pending st = []"
  shows "ini_loop env fs dir (section_lines c (sec, dt) @ rest) st = ini_loop env fs dir rest (apply_section c (sec, dt) st)"
proof -
  let ?cm = "map_of (sectionComment c) sec"
  have cm: "\<And>s. ?cm = Some s \<Longrightarrow> clean_comment s" using clean_comments(1) [OF assms(1)] by blast
  let ?l = "''['' @ sec @ '']''"
  have "trimmed ?l" by (simp add: trimmed_def is_space_def space_chars_def)
  moreover have "\<not> has_prefix ?l ''#''" "\<not> has_prefix ?l '';''" "has_prefix ?l ''[''" by (simp_all add: has_prefix_def)
  moreover have "has_suffix ?l '']''" using has_suffix_append [of "''['' @ sec" "'']''"] by simp
  ultimately have line: "ini_line env dir ?l s = Next_Line (section_line ?l s)" for s
    by (simp add: ini_line_def trim_space_trimmed)
  define st1 where "st1 = section_line ?l (st\<lparr>pending := opt_comment ?cm\<rparr>)"
  have st1: "cur st1 = sec" "pending st1 = []" and fld: "fold (apply_key c sec) dt st1 = apply_section c (sec, dt) st"
    using assms(2) clean_comment_nonempty [OF cm]
    by (auto simp: st1_def section_line_def apply_section_def clean_section_def opt_comment_def split: option.splits)
  show ?thesis
    using loop_comment [OF cm assms(3), where rest = "?l # concat (map (key_lines c sec) dt) @ [] # rest"] line
      loop_keys [OF assms(1) _ st1, of dt fs dir "[] # rest"] assms(2) fld
    by (simp add: section_lines_def st1_def clean_section_def)
qed

lemma loop_sections:
  assumes "clean_ini env c" "list_all (clean_section env) xs" "pending st = []"
  shows "ini_loop env fs dir (concat (map (section_lines c) xs)) st = Some (Inr (fold (apply_section c) xs st))"
  using assms(2-)
proof (induction xs arbitrary: st)
  case (Cons x xs)
  obtain sec dt where "x = (sec, dt)" by (cases x)
  moreover have "pending (apply_section c x st) = []"
    using fold_apply_key_state by (auto simp: apply_section_def split: prod.splits)
  ultimately show ?case using Cons loop_section [OF assms(1), of sec dt st] by simp
qed simp

definition apply_all :: "IniConfigContainer \<Rightarrow> ini_state" where
  "apply_all c = fold (apply_section c) (filter (\<lambda>(s, dt). s \<noteq> defaultSection) (idata c))
     (fold (apply_key c defaultSection) (case map_of (idata c) defaultSection of Some dt \<Rightarrow> dt | None \<Rightarrow> []) ini_start)"

lemma loop_saved:
  assumes "clean_ini env c"
  shows "ini_loop env fs dir (ini_lines c) ini_start = Some (Inr (apply_all c))"
proof -
  have secs: "list_all (clean_section env) (filter (\<lambda>(s, dt). s \<noteq> defaultSection) (idata c))"
    using assms by (auto simp: clean_ini_def list_all_iff)
  have st: "cur ini_start = defaultSection" "pending ini_start = []" by (simp_all add: ini_start_def)
  show ?thesis
  proof (cases "map_of (idata c) defaultSection")
    case None
    then show ?thesis using loop_sections [OF assms secs st(2)] by (simp add: ini_lines_def apply_all_def)
  next
    case (Some dt)
    then have "list_all (\<lambda>(k, v). clean_key k \<and> clean_value env v) dt"
      using assms map_of_SomeD [OF Some] by (auto simp: clean_ini_def list_all_iff clean_section_def)
    with Some show ?thesis
      using loop_keys [OF assms _ st, of dt] loop_sections [OF assms secs conjunct2 [OF fold_apply_key_state [OF st]]]
      by (simp add: ini_lines_def apply_all_def)
  qed
qed

text \<open>What can be looked up after the keys and the sections have been applied.\<close>

lemma obs_apply_key:
  "ini_lookup (cfg (apply_key c sec (k, v) st)) = (\<lambda>s k'. if s = sec \<and> k' = k then Some v else ini_lookup (cfg st) s k')"
  "sectionComment (cfg (apply_key c sec (k, v) st)) = sectionComment (cfg st)"
  "map_of (keyComment (cfg (apply_key c sec (k, v) st))) =
    (\<lambda>i. if i = sec @ ''.'' @ k \<and> map_of (keyComment c) i \<noteq> None then map_of (keyComment c) i else map_of (keyComment (cfg st)) i)"
  using ini_lookup_put [OF ensure_section_present]
  by (auto simp: apply_key_def fun_eq_iff update_conv' split: option.splits)

lemma obs_apply_keys:
  assumes "distinct (map fst dt)"
  shows "ini_lookup (cfg (fold (apply_key c sec) dt st)) s k =
      (if s = sec \<and> k \<in> fst ` set dt then map_of dt k else ini_lookup (cfg st) s k) \<and>
    sectionComment (cfg (fold (apply_key c sec) dt st)) = sectionComment (cfg st) \<and>
    map_of (keyComment (cfg (fold (apply_key c sec) dt st))) i =
      (if (\<exists>k \<in> fst ` set dt. i = sec @ ''.'' @ k) \<and> map_of (keyComment c) i \<noteq> None then map_of (keyComment c) i
       else map_of (keyComment (cfg st)) i)"
  using assms
proof (induction dt arbitrary: st)
  case (Cons kv dt)
  obtain k0 v0 where kv: "kv = (k0, v0)" by (cases kv)
  with Cons.prems have "k0 \<notin> fst ` set dt" "distinct (map fst dt)" by auto
  with Cons.IH [of "apply_key c sec kv st"] kv show ?case by (auto simp: obs_apply_key)
qed simp

lemma obs_apply_section:
  assumes "distinct (map fst dt)"
  shows "ini_lookup (cfg (apply_section c (sec, dt) st)) s k =
      (if s = sec \<and> k \<in> fst ` set dt then map_of dt k else ini_lookup (cfg st) s k) \<and>
    map_of (sectionComment (cfg (apply_section c (sec, dt) st))) s =
      (if s = sec \<and> map_of (sectionComment c) s \<noteq> None then map_of (sectionComment c) s else map_of (sectionComment (cfg st)) s) \<and>
    map_of (keyComment (cfg (apply_section c (sec, dt) st))) i =
      (if (\<exists>k \<in> fst ` set dt. i = sec @ ''.'' @ k) \<and> map_of (keyComment c) i \<noteq> None then map_of (keyComment c) i
       else map_of (keyComment (cfg st)) i)"
  using obs_apply_keys [OF assms] by (auto simp: apply_section_def update_conv' split: option.splits)

lemma obs_apply_sections:
  assumes "distinct (map fst xs)" "list_all (\<lambda>(sec, dt). distinct (map fst dt)) xs"
  shows "ini_lookup (cfg (fold (apply_section c) xs st)) s k =
      (case map_of xs s of Some dt \<Rightarrow> if k \<in> fst ` set dt then map_of dt k else ini_lookup (cfg st) s k
       | None \<Rightarrow> ini_lookup (cfg st) s k) \<and>
    map_of (sectionComment (cfg (fold (apply_section c) xs st))) s =
      (if s \<in> fst ` set xs \<and> map_of (sectionComment c) s \<noteq> None then map_of (sectionComment c) s else map_of (sectionComment (cfg st)) s) \<and>
    map_of (keyComment (cfg (fold (apply_section c) xs st))) i =
      (if (\<exists>(sec, dt) \<in> set xs. \<exists>k \<in> fst ` set dt. i = sec @ ''.'' @ k) \<and> map_of (keyComment c) i \<noteq> None then map_of (keyComment c) i
       else map_of (keyComment (cfg st)) i)"
  using assms
proof (induction xs arbitrary: st)
  case (Cons x xs)
  obtain sec dt where x: "x = (sec, dt)" by (cases x)
  with Cons.prems have d: "sec \<notin> fst ` set xs" "distinct (map fst xs)" "distinct (map fst dt)" by auto
  have n: "map_of xs sec = None" using d(1) by (simp add: map_of_eq_None_iff)
  have "list_all (\<lambda>(sec, dt). distinct (map fst dt)) xs" using Cons.prems(2) by simp
  note IH = Cons.IH [OF d(2) this, of "apply_section c x st"]
  note ob = obs_apply_section [OF d(3), of c sec st]
  from IH ob n x d(1) show ?case by (auto split: option.splits)
qed simp

lemma obs_apply_all:
  assumes "clean_ini env c"
  shows "ini_lookup (cfg (apply_all c)) s k = ini_lookup c s k \<and>
    map_of (sectionComment (cfg (apply_all c))) s = map_of (sectionComment c) s \<and>
    map_of (keyComment (cfg (apply_all c))) i = map_of (keyComment c) i"
proof -
  let ?xs = "filter (\<lambda>(s, dt). s \<noteq> defaultSection) (idata c)"
  define d0 where "d0 = (case map_of (idata c) defaultSection of Some dt \<Rightarrow> dt | None \<Rightarrow> [])"
  have dist: "distinct (map fst (idata c))" and dts: "\<And>sec dt. (sec, dt) \<in> set (idata c) \<Longrightarrow> distinct (map fst dt)"
    using assms by (auto simp: clean_ini_def list_all_iff clean_section_def)
  have d: "distinct (map fst ?xs)" "list_all (\<lambda>(sec, dt). distinct (map fst dt)) ?xs"
    using dist dts by (auto intro: distinct_map_filter simp: list_all_iff)
  have d0: "distinct (map fst d0)" using dts map_of_SomeD by (fastforce simp: d0_def split: option.splits)
  note o1 = obs_apply_sections [OF d, of c "fold (apply_key c defaultSection) d0 ini_start"]
  note o0 = obs_apply_keys [OF d0, of c defaultSection ini_start]
  have start: "ini_lookup (cfg ini_start) s k = None" "sectionComment (cfg ini_start) = []" "keyComment (cfg ini_start) = []"
    by (simp_all add: ini_start_def new_container_def ini_lookup_def)
  have mo: "map_of (filter (\<lambda>(s, dt). s \<noteq> defaultSection) ys) s = (if s = defaultSection then None else map_of ys s)"
    for s and ys :: "(string \<times> (string \<times> string) list) list"
    by (induction ys) auto
  have md: "k \<notin> fst ` set dt \<Longrightarrow> map_of dt k = None" for dt :: "(string \<times> string) list"
    by (simp add: map_of_eq_None_iff)
  have "ini_lookup (cfg (apply_all c)) s k = ini_lookup c s k"
  proof (cases "s = defaultSection")
    case True
    have "ini_lookup (cfg (apply_all c)) s k = map_of d0 k"
      unfolding apply_all_def d0_def [symmetric] using o1 [of s k i] o0 [of s k i] start True by (simp add: mo md)
    with True show ?thesis by (simp add: ini_lookup_def d0_def split: option.split)
  next
    case False
    with o0 [of s k i] start have "ini_lookup (cfg (fold (apply_key c defaultSection) d0 ini_start)) s k = None" by simp
    with False o1 [of s k i] show ?thesis
      unfolding apply_all_def d0_def [symmetric] by (simp add: mo md ini_lookup_def [of c] split: option.split)
  qed
  moreover have "map_of (sectionComment (cfg (apply_all c))) s = map_of (sectionComment c) s"
  proof (cases "map_of (sectionComment c) s")
    case None
    then show ?thesis unfolding apply_all_def d0_def [symmetric] using o1 [of s k i] o0 [of s k i] start by simp
  next
    case (Some cm)
    with clean_comments(1) [OF assms Some] have "s \<in> fst ` set ?xs" by force
    with Some show ?thesis unfolding apply_all_def d0_def [symmetric] using o1 [of s k i] by simp
  qed
  moreover have "map_of (keyComment (cfg (apply_all c))) i = map_of (keyComment c) i"
  proof (cases "map_of (keyComment c) i")
    case None
    then show ?thesis unfolding apply_all_def d0_def [symmetric] using o1 [of s k i] o0 [of s k i] start by simp
  next
    case (Some cm)
    from clean_comments(2) [OF assms Some] obtain sec dt k0
      where e: "(sec, dt) \<in> set (idata c)" "k0 \<in> fst ` set dt" "i = sec @ ''.'' @ k0" by force
    show ?thesis
    proof (cases "sec = defaultSection")
      case True
      then have "d0 = dt" using e(1) dist by (simp add: d0_def map_of_is_SomeI)
      with e True have "\<exists>k \<in> fst ` set d0. i = defaultSection @ ''.'' @ k" by blast
      with Some show ?thesis unfolding apply_all_def d0_def [symmetric] using o1 [of s k i] o0 [of s k i] by simp
    next
      case False
      with e have "\<exists>(sec, dt) \<in> set ?xs. \<exists>k \<in> fst ` set dt. i = sec @ ''.'' @ k" by auto
      with Some show ?thesis unfolding apply_all_def d0_def [symmetric] using o1 [of s k i] by simp
    qed
  qed
  ultimately show ?thesis by blast
qed

definition ok_line :: "string \<Rightarrow> bool" where
  "ok_line l \<longleftrightarrow> one_line l \<and> (l = [] \<or> hd l \<noteq> CHR 0xEF)"

lemma ok_comment_lines: "l \<in> set (comment_lines cm) \<Longrightarrow> ok_line l"
  using split_single_parts by (auto simp: comment_lines_def ok_line_def one_line_def split: option.splits)

lemma ok_key_lines: "clean_key k \<Longrightarrow> clean_value env v \<Longrightarrow> l \<in> set (key_lines c sec (k, v)) \<Longrightarrow> ok_line l"
  using ok_comment_lines by (auto simp: key_lines_def ok_line_def one_line_def clean_key_def clean_value_def)

lemma ok_section_lines:
  assumes "clean_section env (sec, dt)"
  shows "l \<in> set (concat (map (key_lines c sec) dt)) \<Longrightarrow> ok_line l" "l \<in> set (section_lines c (sec, dt)) \<Longrightarrow> ok_line l"
proof -
  show k: "ok_line l" if "l \<in> set (concat (map (key_lines c sec) dt))" for l
    using assms ok_key_lines [of _ env _ l c sec] that by (fastforce simp: clean_section_def list_all_iff)
  have "ok_line (''['' @ sec @ '']'')" "ok_line []" using assms by (auto simp: clean_section_def ok_line_def one_line_def)
  then show "l \<in> set (section_lines c (sec, dt)) \<Longrightarrow> ok_line l"
    using k ok_comment_lines by (auto simp: section_lines_def)
qed

lemma ok_ini_lines:
  assumes "clean_ini env c"
  shows "list_all ok_line (ini_lines c)"
proof -
  have cl: "clean_section env (sec, dt)" if "(sec, dt) \<in> set (idata c)" for sec dt
    using assms that by (auto simp: clean_ini_def list_all_iff)
  have e: "ok_line []" by (simp add: ok_line_def one_line_def)
  have "ok_line l" if "l \<in> set (concat (map (section_lines c) (filter (\<lambda>(s, dt). s \<noteq> defaultSection) (idata c))))" for l
    using that ok_section_lines(2) [OF cl] by fastforce
  moreover have "ok_line l" if "map_of (idata c) defaultSection = Some dt" "l \<in> set (concat (map (key_lines c defaultSection) dt))" for l dt
    using ok_section_lines(1) [OF cl [OF map_of_SomeD [OF that(1)]] that(2)] .
  ultimately show ?thesis using e
    by (cases "map_of (idata c) defaultSection") (auto simp: ini_lines_def list_all_iff simp del: set_concat)
qed

lemma ini_loop_include [simp]:
  "ini_line env dir raw st = Include_File other st' \<Longrightarrow> ini_loop env fs dir (raw # rest) st =
     (case fs other of
        None \<Rightarrow> Some (Inl (CannotRead other))
      | Some data \<Rightarrow>
          Option.bind (ini_loop env fs (path_Dir other) (read_lines (strip_bom data)) ini_start)
            (\<lambda>r. case r of
               Inl e \<Rightarrow> Some (Inl e)
             | Inr i \<Rightarrow> ini_loop env fs dir rest (st'\<lparr>cfg := merge_container (cfg i) (cfg st')\<rparr>)))"
  by (simp add: ini_loop.simps [of env fs dir "raw # rest"])

lemma parse_saved:
  assumes "clean_ini env c"
  shows "parseData env fs dir (save_text c) = run_ret (cfg (apply_all c))"
proof -
  have ok: "list_all ok_line (ini_lines c)" by (rule ok_ini_lines [OF assms])
  have "\<not> has_prefix (unlines ls) [CHR 0xEF, CHR 0xBB, CHR 0xBF]" if "list_all ok_line ls" for ls
    using that by (cases ls; cases "hd ls") (auto simp: has_prefix_def ok_line_def)
  with ok have "strip_bom (save_text c) = unlines (ini_lines c)"
    by (simp add: strip_bom_def save_text_lines [OF assms])
  moreover have "list_all one_line (ini_lines c)" using ok by (auto simp: ok_line_def list_all_iff)
  moreover have "ini_loop env fs dir (map drop_cr ls) st = ini_loop env fs dir ls st" for ls st
  proof (induction ls arbitrary: st)
    case (Cons l ls)
    then show ?case by (cases "ini_line env dir l st") (simp_all cong: option.case_cong sum.case_cong)
  qed simp
  ultimately show ?thesis by (simp add: parseData_def read_unlines loop_saved [OF assms])
qed



definition demo_text :: string where
  "demo_text = ''a=11111'' @ [CHR 0x0A] @ ''b=22'' @ [CHR 0x0A]"

definition demo_config :: "string \<Rightarrow> IniConfigContainer" where
  "demo_config v = \<lparr>idata = [(''default'', [(''a'', v), (''b'', ''22'')])], sectionComment = [], keyComment = []\<rparr>"

definition demo_saved :: string where
  "demo_saved = ''a=1'' @ [CHR 0x0A] @ ''b=22'' @ [CHR 0x0A, CHR 0x0A]"

lemma demo_lines:
  "read_lines (strip_bom demo_text) = [''a=11111'', ''b=22'']"
  "read_lines (strip_bom (demo_saved @ ''22'' @ [CHR 0x0A])) = [''a=1'', ''b=22'', [], ''22'']"
  by (simp_all add: demo_text_def demo_saved_def read_lines_def strip_bom_def drop_cr_def go_eval)

lemmas line_eval = ini_line_def pair_line_def put_data_def ensure_section_def ExpandValueEnv_def ini_start_def new_container_def
  defaultSection_def

lemma demo_parse: "parseData (\<lambda>_. []) fs dir demo_text = run_ret (demo_config ''11111'')"
  by (simp add: parseData_def demo_lines line_eval go_eval demo_config_def)

lemma demo_parse_saved: "parseData (\<lambda>_. []) fs dir (demo_saved @ ''22'' @ [CHR 0x0A]) = run_panic (BadLine ''22'')"
  unfolding parseData_def demo_lines by (simp add: line_eval go_eval run_panic_def)

lemma demo_save: "ini_Set (demo_config ''11111'') ''a'' ''1'' = Inr (demo_config ''1'')" "save_text (demo_config ''1'') = demo_saved"
  by (simp_all add: ini_Set_def section_key_def put_data_def ensure_section_def demo_config_def save_text_def save_section_def
      save_key_def save_comment_def getCommentStr_def defaultSection_def demo_saved_def go_eval)

text \<open> SaveConfigFile does not truncate the file: after parsing a file, shortening one
  value with Set and saving to the same file, the end of the old text is left behind and the file can no longer be parsed.\<close>

theorem save_corrupts_longer_file:
  "\<exists>c c'. parseFile (\<lambda>_. []) [''app.conf'' \<mapsto> demo_text] ''app.conf'' = run_ret c \<and> ini_Set c ''a'' ''1'' = Inr c' \<and>
     parseFile (\<lambda>_. []) (SaveConfigFile c' ''app.conf'' [''app.conf'' \<mapsto> demo_text]) ''app.conf'' = run_panic (BadLine ''22'')"
proof (intro exI conjI)
  show "parseFile (\<lambda>_. []) [''app.conf'' \<mapsto> demo_text] ''app.conf'' = run_ret (demo_config ''11111'')"
    by (simp add: parseFile_def demo_parse)
  show "ini_Set (demo_config ''11111'') ''a'' ''1'' = Inr (demo_config ''1'')" by (rule demo_save)
  have "drop (length demo_saved) demo_text = ''22'' @ [CHR 0x0A]" by (simp add: demo_saved_def demo_text_def)
  then show "parseFile (\<lambda>_. []) (SaveConfigFile (demo_config ''1'') ''app.conf'' [''app.conf'' \<mapsto> demo_text]) ''app.conf'' =
      run_panic (BadLine ''22'')"
    using demo_parse_saved by (simp add: parseFile_def SaveConfigFile_def demo_save)
qed

section \<open>Includes and termination\<close>

text \<open>The file that a line includes; it depends on the line and the directory only.\<close>

definition include_of :: "string \<Rightarrow> string \<Rightarrow> string option" where
  "include_of dir raw = (case ini_line (\<lambda>_. []) dir raw ini_start of Include_File other _ \<Rightarrow> Some other | _ \<Rightarrow> None)"

lemma include_of_line: "ini_line env dir raw st = Include_File other st' \<Longrightarrow> include_of dir raw = Some other"
  by (auto simp: include_of_def ini_line_def Let_def split: if_splits)

lemma ini_loop_total:
  assumes "\<And>raw other data. raw \<in> set ls \<Longrightarrow> include_of dir raw = Some other \<Longrightarrow> fs other = Some data \<Longrightarrow>
      ini_loop env fs (path_Dir other) (read_lines (strip_bom data)) ini_start \<noteq> None"
  shows "ini_loop env fs dir ls st \<noteq> None"
  using assms
proof (induction ls arbitrary: st)
  case (Cons raw ls)
  have IH: "ini_loop env fs dir ls st' \<noteq> None" for st'
    by (rule Cons.IH, rule Cons.prems) auto
  show ?case
  proof (cases "ini_line env dir raw st")
    case (Include_File other st')
    show ?thesis
    proof (cases "fs other")
      case (Some data)
      with Cons.prems [OF _ include_of_line [OF Include_File] Some] obtain r
        where "ini_loop env fs (path_Dir other) (read_lines (strip_bom data)) ini_start = Some r" by auto
      with Include_File Some IH show ?thesis by (auto split: sum.splits)
    qed (simp add: Include_File)
  qed (use IH in auto)
qed simp

text \<open> Parsing a file returns a container or an error whenever the includes are well
  founded: some rank of files decreases along every include line. Only a circle of includes can keep the parser running.\<close>

theorem ini_parse_terminates:
  fixes rank :: "string \<Rightarrow> nat"
  assumes "\<And>g data raw other. fs g = Some data \<Longrightarrow> raw \<in> set (read_lines (strip_bom data)) \<Longrightarrow>
    include_of (path_Dir g) raw = Some other \<Longrightarrow> rank other < rank g"
  shows "\<exists>r. parseFile env fs f = Some r"
proof -
  have loop: "ini_loop env fs (path_Dir g) (read_lines (strip_bom data)) ini_start \<noteq> None" if "fs g = Some data" for g data
    using that
  proof (induction "rank g" arbitrary: g data rule: less_induct)
    case less
    show ?case
    proof (rule ini_loop_total)
      fix raw other d
      assume "raw \<in> set (read_lines (strip_bom data))" "include_of (path_Dir g) raw = Some other" "fs other = Some d"
      then show "ini_loop env fs (path_Dir other) (read_lines (strip_bom d)) ini_start \<noteq> None"
        using less assms by blast
    qed
  qed
  show ?thesis
  proof (cases "fs f")
    case (Some data)
    with loop obtain r where "ini_loop env fs (path_Dir f) (read_lines (strip_bom data)) ini_start = Some r" by blast
    then show ?thesis using Some by (cases r) (auto simp: parseFile_def parseData_def run_ret_def)
  qed (simp add: parseFile_def run_panic_def)
qed

lemma include_of_demo: "include_of ''/etc'' ''include db.conf'' = Some ''/etc/db.conf''" "include_of ''/etc'' ''a=1'' = None"
  by (simp_all add: include_of_def ini_line_def go_eval path_IsAbs_def path_Join_def path_Clean_def clean_push_def Let_def)

lemma path_Dir_demo: "path_Dir ''/etc/app.conf'' = ''/etc''" "path_Dir ''/etc/db.conf'' = ''/etc''"
  by (simp_all add: path_Dir_def path_Clean_def clean_push_def go_eval)

theorem ini_parse_terminates_witness:
  "\<exists>r. parseFile (\<lambda>_. []) [''/etc/app.conf'' \<mapsto> ''include db.conf'', ''/etc/db.conf'' \<mapsto> ''a=1''] ''/etc/app.conf'' = Some r"
proof (rule ini_parse_terminates [where rank = "\<lambda>g. if g = ''/etc/app.conf'' then 1 else 0"])
  fix g data raw other
  assume "[''/etc/app.conf'' \<mapsto> ''include db.conf'', ''/etc/db.conf'' \<mapsto> ''a=1''] g = Some data"
    "raw \<in> set (read_lines (strip_bom data))" "include_of (path_Dir g) raw = Some other"
  then show "(if other = ''/etc/app.conf'' then 1 else 0 :: nat) < (if g = ''/etc/app.conf'' then 1 else 0)"
    using include_of_demo by (auto simp: read_lines_def strip_bom_def drop_cr_def path_Dir_demo go_eval split: if_splits)
qed

text \<open> A file that includes itself is parsed for ever: parseFile does not return.\<close>

theorem ini_include_cycle:
  "parseFile env [''/a'' \<mapsto> ''include /a''] ''/a'' = None"
proof -
  have inc: "ini_line env dir ''include /a'' st = Include_File ''/a'' (st\<lparr>cfg := ensure_section (cur st) (cfg st)\<rparr>)" for env dir st
    by (simp add: ini_line_def go_eval path_IsAbs_def Let_def)
  have rl: "read_lines (strip_bom ''include /a'') = [''include /a'']"
    by (simp add: read_lines_def strip_bom_def drop_cr_def go_eval)
  have "fs = [''/a'' \<mapsto> ''include /a''] \<longrightarrow> ls \<noteq> [''include /a'']" if "ini_loop env fs dir ls st = Some r" for env fs dir ls st r
    using that
  proof (rule ini_loop.raw_induct [where P = "\<lambda>env fs dir ls st r. fs = [''/a'' \<mapsto> ''include /a''] \<longrightarrow> ls \<noteq> [''include /a'']", rotated])
    fix loop env fs dir ls st r
    assume IH: "\<And>env fs dir ls st r. loop env fs dir ls st = Some r \<Longrightarrow> fs = [''/a'' \<mapsto> ''include /a''] \<longrightarrow> ls \<noteq> [''include /a'']"
      and run: "(case ls of [] \<Rightarrow> Some (Inr st)
        | raw # rest \<Rightarrow> (case ini_line env dir raw st of Line_Error e \<Rightarrow> Some (Inl e) | Next_Line st' \<Rightarrow> loop env fs dir rest st'
           | Include_File other st' \<Rightarrow> (case fs other of None \<Rightarrow> Some (Inl (CannotRead other))
              | Some data \<Rightarrow> Option.bind (loop env fs (path_Dir other) (read_lines (strip_bom data)) ini_start)
                  (\<lambda>r. case r of Inl e \<Rightarrow> Some (Inl e) | Inr i \<Rightarrow> loop env fs dir rest (st'\<lparr>cfg := merge_container (cfg i) (cfg st')\<rparr>))))) = Some r"
    show "fs = [''/a'' \<mapsto> ''include /a''] \<longrightarrow> ls \<noteq> [''include /a'']"
    proof (intro impI notI)
      assume e: "fs = [''/a'' \<mapsto> ''include /a'']" "ls = [''include /a'']"
      with run obtain r' where "loop env fs (path_Dir ''/a'') [''include /a''] ini_start = Some r'"
        by (auto simp: inc rl bind_eq_Some_conv)
      with IH e(1) show False by blast
    qed
  qed
  then have "ini_loop env [''/a'' \<mapsto> ''include /a''] dir [''include /a''] st = None" for dir st
    by (metis not_None_eq)
  then show ?thesis by (simp add: parseFile_def parseData_def rl)
qed

end
