(* ===== verification/Sip_Rng.thy ===== *)
theory Sip_Rng
  imports Go_Prelude "HOL-Library.Signed_Division"
begin

text \<open>
  The random numbers of the captcha (\<^verbatim>\<open>server/web/captcha/siprng.go\<close>): SipHash-2-4 of a counter
  under a key read from the system's source of randomness, and the bounded draws by rejection.
  The source of randomness is a function from the number of the read to the sixteen bytes it
  returns. A draw that is rejected for ever does not return (\<^const>\<open>None\<close>).
\<close>

unbundle bit_operations_syntax

section \<open>SipHash\<close>

type_synonym sip = "u64 \<times> u64 \<times> u64 \<times> u64"

definition rotl :: "nat \<Rightarrow> u64 \<Rightarrow> u64" where
  "rotl k v = push_bit k v OR drop_bit (64 - k) v"

definition sip_round :: "sip \<Rightarrow> sip" where
  "sip_round = (\<lambda>(v0, v1, v2, v3).
     let v0 = v0 + v1; v1 = rotl 13 v1; v1 = v1 XOR v0; v0 = rotl 32 v0;
         v2 = v2 + v3; v3 = rotl 16 v3; v3 = v3 XOR v2;
         v0 = v0 + v3; v3 = rotl 21 v3; v3 = v3 XOR v0;
         v2 = v2 + v1; v1 = rotl 17 v1; v1 = v1 XOR v2; v2 = rotl 32 v2
     in (v0, v1, v2, v3))"

definition sip_init :: "u64 \<Rightarrow> u64 \<Rightarrow> sip" where
  "sip_init k0 k1 = (k0 XOR 0x736f6d6570736575, k1 XOR 0x646f72616e646f6d, k0 XOR 0x6c7967656e657261, k1 XOR 0x7465646279746573)"

definition sip_block :: "u64 \<Rightarrow> sip \<Rightarrow> sip" where
  "sip_block m = (\<lambda>(v0, v1, v2, v3).
     let (v0, v1, v2, v3) = sip_round (sip_round (v0, v1, v2, v3 XOR m)) in (v0 XOR m, v1, v2, v3))"

definition sip_final :: "sip \<Rightarrow> u64" where
  "sip_final = (\<lambda>(v0, v1, v2, v3).
     let (v0, v1, v2, v3) = sip_round (sip_round (sip_round (sip_round (v0, v1, v2 XOR 0xff, v3))))
     in v0 XOR v1 XOR v2 XOR v3)"

definition siphash :: "u64 \<Rightarrow> u64 \<Rightarrow> u64 \<Rightarrow> u64" where
  "siphash k0 k1 m = (let t = push_bit 56 (8 :: u64) in sip_final (sip_block t (sip_block m (sip_init k0 k1))))"

section \<open>The generator\<close>

record siprng =
  k0 :: u64
  k1 :: u64
  ctr :: u64
  reads :: nat   \<comment> \<open>how often the source of randomness has been read\<close>

definition le64 :: "u8 list \<Rightarrow> u64" where
  "le64 bs = fold (\<lambda>(i, b) acc. acc OR push_bit (8 * i) (ucast b)) (enumerate 0 (take 8 bs)) 0"

type_synonym source = "nat \<Rightarrow> u8 list"

definition rekey :: "source \<Rightarrow> siprng \<Rightarrow> siprng" where
  "rekey rnd p = (let k = rnd (reads p) in p\<lparr>k0 := le64 (take 8 k), k1 := le64 (drop 8 k), ctr := 1, reads := reads p + 1\<rparr>)"

definition sip_Uint64 :: "source \<Rightarrow> siprng \<Rightarrow> u64 \<times> siprng" where
  "sip_Uint64 rnd p =
     (let p = (if ctr p = 0 \<or> ctr p > 8 * 1024 * 1024 then rekey rnd p else p)
      in (siphash (k0 p) (k1 p) (ctr p), p\<lparr>ctr := ctr p + 1\<rparr>))"

definition sip_Int63 :: "source \<Rightarrow> siprng \<Rightarrow> u64 \<times> siprng" where
  "sip_Int63 rnd p = (let (v, p) = sip_Uint64 rnd p in (v AND 0x7fffffffffffffff, p))"

definition sip_Uint32 :: "source \<Rightarrow> siprng \<Rightarrow> u32 \<times> siprng" where
  "sip_Uint32 rnd p = (let (v, p) = sip_Uint64 rnd p in (ucast v, p))"

definition sip_Int31 :: "source \<Rightarrow> siprng \<Rightarrow> u32 \<times> siprng" where
  "sip_Int31 rnd p = (let (v, p) = sip_Uint32 rnd p in (v AND 0x7fffffff, p))"

section \<open>Bounded draws\<close>

text \<open>The draw loop of \<^verbatim>\<open>Int63n\<close> and of \<^verbatim>\<open>Int31n\<close>: signed comparison with the largest accepted value.\<close>

partial_function (option) draw_loop ::
  "(siprng \<Rightarrow> 'w::len word \<times> siprng) \<Rightarrow> 'w word \<Rightarrow> 'w word \<Rightarrow> siprng \<Rightarrow> ('w word \<times> siprng) option" where
  "draw_loop draw maxv v p =
     (if sint v > sint maxv then let (v, p) = draw p in draw_loop draw maxv v p else Some (v, p))"

datatype sip_panic = InvalidArgument string

definition max63 :: "u64 \<Rightarrow> u64" where
  "max63 n = 0x8000000000000000 - 1 - 0x8000000000000000 mod n"

definition max31 :: "u32 \<Rightarrow> u32" where
  "max31 n = 0x80000000 - 1 - 0x80000000 mod n"

definition sip_Int63n :: "source \<Rightarrow> u64 \<Rightarrow> siprng \<Rightarrow> (sip_panic, u64 \<times> siprng) run" where
  "sip_Int63n rnd n p =
     (if sint n \<le> 0 then run_panic (InvalidArgument ''Int63n'')
      else let (v, p) = sip_Int63 rnd p
           in case draw_loop (sip_Int63 rnd) (max63 n) v p of
                None \<Rightarrow> None
              | Some (v, p) \<Rightarrow> run_ret (word_of_int (sint v smod sint n), p))"

definition sip_Int31n :: "source \<Rightarrow> u32 \<Rightarrow> siprng \<Rightarrow> (sip_panic, u32 \<times> siprng) run" where
  "sip_Int31n rnd n p =
     (if sint n \<le> 0 then run_panic (InvalidArgument ''Int31n'')
      else let (v, p) = sip_Int31 rnd p
           in case draw_loop (sip_Int31 rnd) (max31 n) v p of
                None \<Rightarrow> None
              | Some (v, p) \<Rightarrow> run_ret (word_of_int (sint v smod sint n), p))"

definition sip_Intn :: "source \<Rightarrow> u64 \<Rightarrow> siprng \<Rightarrow> (sip_panic, u64 \<times> siprng) run" where
  "sip_Intn rnd n p =
     (if sint n \<le> 0 then run_panic (InvalidArgument ''Intn'')
      else if sint n \<le> 2 ^ 31 - 1
      then run_bind (sip_Int31n rnd (ucast n) p) (\<lambda>(v, p). run_ret (scast v, p))
      else sip_Int63n rnd n p)"

section \<open>SipHash-2-4 as specified\<close>

text \<open>
  The specification of SipHash-c-d for a message of any length: the full eight-byte words and a
  last word with the remaining bytes and the length in its top byte are compressed with c rounds
  each, and d rounds finish.
\<close>

definition sip_compress :: "nat \<Rightarrow> u64 \<Rightarrow> sip \<Rightarrow> sip" where
  "sip_compress c m = (\<lambda>(v0, v1, v2, v3).
     case (sip_round ^^ c) (v0, v1, v2, v3 XOR m) of (v0, v1, v2, v3) \<Rightarrow> (v0 XOR m, v1, v2, v3))"

definition sip_words :: "u8 list \<Rightarrow> u64 list" where
  "sip_words bs = map (\<lambda>i. le64 (take 8 (drop (8 * i) bs))) [0..<length bs div 8] @
     [le64 (drop (8 * (length bs div 8)) bs) OR push_bit 56 (of_nat (length bs mod 256))]"

definition siphash_spec :: "nat \<Rightarrow> nat \<Rightarrow> u64 \<Rightarrow> u64 \<Rightarrow> u8 list \<Rightarrow> u64" where
  "siphash_spec c d key0 key1 bs =
     (case fold (sip_compress c) (sip_words bs) (sip_init key0 key1) of
        (v0, v1, v2, v3) \<Rightarrow> (case (sip_round ^^ d) (v0, v1, v2 XOR 0xff, v3) of (v0, v1, v2, v3) \<Rightarrow> v0 XOR v1 XOR v2 XOR v3))"



section \<open>Draws are in range and unbiased\<close>

text \<open>The values that a loop of draws sees, starting with the first one.\<close>

fun drawn :: "(siprng \<Rightarrow> 'w::len word \<times> siprng) \<Rightarrow> nat \<Rightarrow> 'w word \<times> siprng \<Rightarrow> 'w word \<times> siprng" where
  "drawn draw 0 vp = vp"
| "drawn draw (Suc k) vp = drawn draw k (draw (snd vp))"

lemma draw_loop_first:
  assumes "\<And>j. j < k \<Longrightarrow> sint (fst (drawn draw j (v, p))) > sint maxv" "sint (fst (drawn draw k (v, p))) \<le> sint maxv"
  shows "draw_loop draw maxv v p = Some (drawn draw k (v, p))"
  using assms
proof (induction k arbitrary: v p)
  case 0
  then show ?case by (subst draw_loop.simps) simp
next
  case (Suc k)
  obtain v' p' where d: "draw p = (v', p')" by (cases "draw p")
  have "sint (fst (drawn draw j (v', p'))) > sint maxv" if "j < k" for j
    using Suc.prems(1) [of "Suc j"] that d by simp
  with Suc d have "draw_loop draw maxv v' p' = Some (drawn draw k (v', p'))" by simp
  moreover have "sint v > sint maxv" using Suc.prems(1) [of 0] by simp
  ultimately show ?case using d by (subst draw_loop.simps) simp
qed

lemma draw_loop_accepts: "draw_loop draw maxv v p = Some r \<Longrightarrow> \<exists>k. sint (fst (drawn draw k (v, p))) \<le> sint maxv"
proof (rule draw_loop.raw_induct [where P = "\<lambda>draw maxv v p r. \<exists>k. sint (fst (drawn draw k (v, p))) \<le> sint maxv", rotated])
  fix loop :: "(siprng \<Rightarrow> 'a word \<times> siprng) \<Rightarrow> 'a word \<Rightarrow> 'a word \<Rightarrow> siprng \<Rightarrow> ('a word \<times> siprng) option" and draw maxv v p r
  assume IH: "\<And>draw maxv v p r. loop draw maxv v p = Some r \<Longrightarrow> \<exists>k. sint (fst (drawn draw k (v, p))) \<le> sint maxv"
    and run: "(if sint v > sint maxv then let (v, p) = draw p in loop draw maxv v p else Some (v, p)) = Some r"
  show "\<exists>k. sint (fst (drawn draw k (v, p))) \<le> sint maxv"
  proof (cases "sint v > sint maxv")
    case True
    with run obtain v' p' where d: "draw p = (v', p')" "loop draw maxv v' p' = Some r" by (cases "draw p") auto
    with IH obtain k where "sint (fst (drawn draw k (v', p'))) \<le> sint maxv" by blast
    with d show ?thesis by (intro exI [of _ "Suc k"]) simp
  qed (intro exI [of _ 0], simp)
qed

lemma draw_loop_spec:
  "draw_loop draw maxv v p =
     (if \<exists>k. sint (fst (drawn draw k (v, p))) \<le> sint maxv
      then Some (drawn draw (LEAST k. sint (fst (drawn draw k (v, p))) \<le> sint maxv) (v, p)) else None)"
proof (cases "\<exists>k. sint (fst (drawn draw k (v, p))) \<le> sint maxv")
  case True
  let ?k = "LEAST k. sint (fst (drawn draw k (v, p))) \<le> sint maxv"
  have "sint (fst (drawn draw ?k (v, p))) \<le> sint maxv" using True by (rule LeastI_ex)
  moreover have "sint (fst (drawn draw j (v, p))) > sint maxv" if "j < ?k" for j
    using not_less_Least [OF that] by simp
  ultimately show ?thesis using True draw_loop_first [where k = ?k and draw = draw and v = v and p = p and maxv = maxv] by simp
next
  case False
  then show ?thesis using draw_loop_accepts [of draw maxv v p] by (cases "draw_loop draw maxv v p") auto
qed

lemma drawn_ind:
  assumes "P (fst vp)" "\<And>p. P (fst (draw p))"
  shows "P (fst (drawn draw k vp))"
  using assms(1) by (induction k arbitrary: vp) (simp_all add: assms(2))

text \<open>The largest accepted value, for any width.\<close>

lemma uint_sint_nonneg:
  fixes n :: "'a::len word"
  assumes "0 \<le> sint n"
  shows "uint n = sint n"
proof -
  have "uint n = sint n mod 2 ^ LENGTH('a)" by (simp add: uint_sint take_bit_eq_mod)
  moreover have "sint n < 2 ^ LENGTH('a)"
    using sint_bounds [of n] power_increasing [of "LENGTH('a) - 1" "LENGTH('a)" "2::int"] by linarith
  ultimately show ?thesis using assms by simp
qed

lemma sint_uint_small:
  fixes n :: "'a::len word"
  assumes "uint n < 2 ^ (LENGTH('a) - 1)"
  shows "sint n = uint n"
proof -
  have "- (2 ^ (LENGTH('a) - 1)) \<le> uint n" by (rule order_trans [OF _ uint_ge_0]) simp
  with assms show ?thesis unfolding sint_uint by (intro signed_take_bit_int_eq_self) simp_all
qed

lemma accepted_max:
  fixes n :: "'a::len word"
  assumes "0 < sint n"
  shows "sint (word_of_int (2 ^ (LENGTH('a) - 1)) - 1 - word_of_int (2 ^ (LENGTH('a) - 1)) mod n) =
    2 ^ (LENGTH('a) - 1) - 1 - 2 ^ (LENGTH('a) - 1) mod sint n"
proof -
  let ?M = "2 ^ (LENGTH('a) - 1) :: int"
  have n: "uint n = sint n" "sint n < ?M" using assms uint_sint_nonneg [of n] sint_bounds [of n] by auto
  have "?M < 2 ^ LENGTH('a)" by (rule power_strict_increasing) simp_all
  then have M: "uint (word_of_int ?M :: 'a word) = ?M" by (simp only: uint_word_of_int mod_pos_pos_trivial zero_le_power zero_le_numeral)
  define r where "r = ?M mod sint n"
  have r: "0 \<le> r" "r < ?M" using assms n(2) pos_mod_bound [of "sint n" ?M] pos_mod_sign [of "sint n" ?M] unfolding r_def by linarith+
  have "uint (word_of_int ?M mod n) = r" by (simp only: uint_mod M n(1) r_def)
  then have e: "word_of_int ?M mod n = word_of_int r" by (metis word_of_int_uint)
  have "word_of_int ?M - 1 - word_of_int ?M mod n = (word_of_int (?M - 1 - r) :: 'a word)"
    unfolding e by simp
  moreover have "sint (word_of_int (?M - 1 - r) :: 'a word) = ?M - 1 - r"
    unfolding sint_sbintrunc' using r by (intro signed_take_bit_int_eq_self) simp_all
  ultimately show ?thesis by (simp add: r_def)
qed

lemma residues_equal:
  fixes n m :: int
  assumes "0 < n" "n dvd m + 1" "0 \<le> r" "r < n" "- 1 \<le> m"
  shows "card {v \<in> {0..m}. v mod n = r} = nat ((m + 1) div n)"
proof -
  define q where "q = (m + 1) div n"
  have m: "m + 1 = n * q" using assms(2) by (simp add: q_def)
  have q0: "0 \<le> q" using assms(1,5) by (simp add: q_def pos_imp_zdiv_nonneg_iff)
  have "{v \<in> {0..m}. v mod n = r} = (\<lambda>k. n * k + r) ` {0..<q}"
  proof (intro equalityI subsetI)
    fix v assume v: "v \<in> {v \<in> {0..m}. v mod n = r}"
    then have "v = n * (v div n) + r" by (auto simp: mult_div_mod_eq)
    moreover have "v div n < q"
    proof (rule ccontr)
      assume "\<not> v div n < q"
      then have "n * q \<le> n * (v div n)" using assms(1) by simp
      moreover have "n * (v div n) \<le> v" using assms(1) pos_mod_sign [of n v] mult_div_mod_eq [of n v] by linarith
      ultimately show False using v m by simp
    qed
    moreover have "0 \<le> v div n" using v assms(1) by (auto simp: pos_imp_zdiv_nonneg_iff)
    ultimately show "v \<in> (\<lambda>k. n * k + r) ` {0..<q}" by (intro image_eqI [of _ _ "v div n"]) auto
  next
    fix v assume "v \<in> (\<lambda>k. n * k + r) ` {0..<q}"
    then obtain k where k: "v = n * k + r" "0 \<le> k" "k < q" by (elim imageE) auto
    have "n * k + n \<le> n * q" using k(3) assms(1) by (metis distrib_left mult.right_neutral mult_left_mono zless_imp_add1_zle less_imp_le)
    then show "v \<in> {v \<in> {0..m}. v mod n = r}" using k assms m by auto
  qed
  moreover have "inj_on (\<lambda>k. n * k + r) {0..<q}" using assms(1) by (auto simp: inj_on_def)
  ultimately show ?thesis using q0 by (simp add: card_image q_def)
qed

text \<open> The rejection threshold makes the bounded draws unbiased: for every bound the number of accepted
  values is a multiple of the bound and at least half of all values, and every residue is hit by equally many of them.\<close>

theorem draws_unbiased:
  assumes "0 < sint n" "0 < sint m" "0 \<le> r" "r < sint n" "0 \<le> s" "s < sint m"
  shows "let a = sint (max63 n) + 1; b = sint (max31 m) + 1
    in sint n dvd a \<and> 2 ^ 62 \<le> a \<and> a \<le> 2 ^ 63 \<and> card {v \<in> {0..<a}. v mod sint n = r} = nat (a div sint n) \<and>
       sint m dvd b \<and> 2 ^ 30 \<le> b \<and> b \<le> 2 ^ 31 \<and> card {v \<in> {0..<b}. v mod sint m = s} = nat (b div sint m)"
proof -
  have threshold: "k dvd M - M mod k \<and> M \<le> 2 * (M - M mod k) \<and> M - M mod k \<le> M" if "0 < k" "k < M" for k M :: int
  proof -
    have "M mod k \<le> M div 2"
    proof (cases "2 * k \<le> M")
      case True
      then show ?thesis using pos_mod_bound [OF that(1), of M] by linarith
    next
      case False
      then have "M mod k = M - k" using that by (metis add_diff_cancel_left' diff_add_cancel mod_add_self2 mod_pos_pos_trivial
          diff_ge_0_iff_ge less_imp_le linorder_not_le mult_2 add_less_cancel_left)
      then show ?thesis using False by linarith
    qed
    then show ?thesis using pos_mod_sign [OF that(1), of M] by (auto simp: dvd_minus_mod)
  qed
  have "sint (max63 n) = 2 ^ 63 - 1 - 2 ^ 63 mod sint n" "sint (max31 m) = 2 ^ 31 - 1 - 2 ^ 31 mod sint m"
    using accepted_max [OF assms(1)] accepted_max [OF assms(2)] by (simp_all add: max63_def max31_def)
  then have a: "sint (max63 n) + 1 = 2 ^ 63 - 2 ^ 63 mod sint n" "sint (max31 m) + 1 = 2 ^ 31 - 2 ^ 31 mod sint m" by simp_all
  have n: "sint n < 2 ^ 63" "sint m < 2 ^ 31" using sint_bounds [of n] sint_bounds [of m] by simp_all
  note tn = threshold [OF assms(1) n(1)] and tm = threshold [OF assms(2) n(2)]
  have ivl: "{0..<x} = {0..x - 1}" for x :: int by auto
  have "card {v \<in> {0..<sint (max63 n) + 1}. v mod sint n = r} = nat ((sint (max63 n) + 1) div sint n)"
    using residues_equal [of "sint n" "sint (max63 n)" r] assms tn a by (simp add: ivl)
  moreover have "card {v \<in> {0..<sint (max31 m) + 1}. v mod sint m = s} = nat ((sint (max31 m) + 1) div sint m)"
    using residues_equal [of "sint m" "sint (max31 m)" s] assms tm a by (simp add: ivl)
  ultimately show ?thesis using tn tm a by (simp add: Let_def)
qed

theorem draws_unbiased_witness:
  "card {v \<in> {0..<sint (max31 10) + 1}. v mod 10 = 3} = nat ((sint (max31 10) + 1) div 10)"
  using draws_unbiased [of 10 10 3 3] by (simp add: Let_def)

section \<open>Bounded draws\<close>

lemma Int63_nonneg: "0 \<le> sint (fst (sip_Int63 rnd p))"
proof -
  have "uint (v AND 0x7fffffffffffffff :: u64) < 2 ^ 63" for v
    using AND_upper2 [of "0x7fffffffffffffff" "uint v"] by (simp add: uint_and)
  then have "sint (v AND 0x7fffffffffffffff :: u64) = uint (v AND 0x7fffffffffffffff :: u64)" for v
    by (intro sint_uint_small) simp
  then show ?thesis by (simp add: sip_Int63_def split: prod.split)
qed

lemma Int31_nonneg: "0 \<le> sint (fst (sip_Int31 rnd p))"
proof -
  have "uint (v AND 0x7fffffff :: u32) < 2 ^ 31" for v
    using AND_upper2 [of "0x7fffffff" "uint v"] by (simp add: uint_and)
  then have "sint (v AND 0x7fffffff :: u32) = uint (v AND 0x7fffffff :: u32)" for v
    by (intro sint_uint_small) simp
  then show ?thesis by (simp add: sip_Int31_def split: prod.split)
qed

lemma smod_word:
  fixes v n :: "'a::len word"
  assumes "0 \<le> sint v" "0 < sint n"
  shows "sint (word_of_int (sint v smod sint n) :: 'a word) = sint v mod sint n"
proof -
  have e: "sint v smod sint n = sint v mod sint n" using assms by (simp add: signed_modulo_int_def sgn_if)
  have b: "0 \<le> sint v mod sint n" "sint v mod sint n < sint n" using assms(2) by simp_all
  have "- (2 ^ (LENGTH('a) - 1)) \<le> sint v mod sint n" by (rule order_trans [OF _ b(1)]) simp
  with b sint_bounds [of n] show ?thesis
    unfolding e sint_sbintrunc' by (intro signed_take_bit_int_eq_self) simp_all
qed

text \<open>The outcome of a bounded draw: the first accepted value of the sequence of draws, reduced.\<close>

definition first_accepted :: "(siprng \<Rightarrow> 'w::len word \<times> siprng) \<Rightarrow> 'w word \<Rightarrow> siprng \<Rightarrow> ('w word \<times> siprng) option" where
  "first_accepted draw maxv p =
     (if \<exists>k. sint (fst (drawn draw k (draw p))) \<le> sint maxv
      then Some (drawn draw (LEAST k. sint (fst (drawn draw k (draw p))) \<le> sint maxv) (draw p)) else None)"

lemma first_accepted_loop: "first_accepted draw maxv p = (case draw p of (v, p') \<Rightarrow> draw_loop draw maxv v p')"
  by (simp add: first_accepted_def draw_loop_spec split: prod.split)

lemma first_accepted_nonneg:
  assumes "\<And>p. 0 \<le> sint (fst (draw p))" "first_accepted draw maxv p = Some (v, p')"
  shows "0 \<le> sint v"
  using assms drawn_ind [of "\<lambda>v. 0 \<le> sint v" "draw p" draw] unfolding first_accepted_def
  by (metis fst_conv option.distinct(1) option.inject)

lemma Int63n_spec:
  assumes "0 < sint n"
  shows "case first_accepted (sip_Int63 rnd) (max63 n) p of
      None \<Rightarrow> sip_Int63n rnd n p = None
    | Some (v, p') \<Rightarrow> \<exists>w. sip_Int63n rnd n p = run_ret (w, p') \<and> sint w = sint v mod sint n"
  using assms first_accepted_nonneg [of "sip_Int63 rnd", OF Int63_nonneg, of "max63 n" p]
  by (auto simp: first_accepted_loop sip_Int63n_def run_ret_def smod_word Let_def split: option.splits prod.splits)

lemma Int31n_spec:
  assumes "0 < sint n"
  shows "case first_accepted (sip_Int31 rnd) (max31 n) p of
      None \<Rightarrow> sip_Int31n rnd n p = None
    | Some (v, p') \<Rightarrow> \<exists>w. sip_Int31n rnd n p = run_ret (w, p') \<and> sint w = sint v mod sint n"
  using assms first_accepted_nonneg [of "sip_Int31 rnd", OF Int31_nonneg, of "max31 n" p]
  by (auto simp: first_accepted_loop sip_Int31n_def run_ret_def smod_word Let_def split: option.splits prod.splits)

lemma narrow_bound:
  fixes n :: u64
  assumes "0 < sint n" "sint n \<le> 2 ^ 31 - 1"
  shows "sint (ucast n :: u32) = sint n"
proof -
  have u: "uint n = sint n" using assms(1) by (intro uint_sint_nonneg) simp
  then have "uint (ucast n :: u32) = sint n" using assms by (simp add: unsigned_ucast_eq take_bit_int_eq_self)
  then show ?thesis using sint_uint_small [of "ucast n :: u32"] assms(2) by simp
qed

text \<open> Intn panics on a bound that is not positive. Otherwise it takes the first draw that is not rejected
  (31-bit draws up to a bound of 2 to the 31 minus 1, 63-bit draws above) and returns it modulo the bound, a number from
  0 up to the bound; it fails to return only when every draw is rejected.\<close>

theorem Intn_behaviour:
  "if sint n \<le> 0 then sip_Intn rnd n p = run_panic (InvalidArgument ''Intn'')
   else case (if sint n \<le> 2 ^ 31 - 1
              then map_option (\<lambda>(v, p). (sint v, p)) (first_accepted (sip_Int31 rnd) (max31 (ucast n)) p)
              else map_option (\<lambda>(v, p). (sint v, p)) (first_accepted (sip_Int63 rnd) (max63 n) p)) of
          None \<Rightarrow> sip_Intn rnd n p = None
        | Some (i, p') \<Rightarrow> \<exists>w. sip_Intn rnd n p = run_ret (w, p') \<and> sint w = i mod sint n \<and> 0 \<le> sint w \<and> sint w < sint n"
proof (cases "sint n \<le> 0")
  case False
  then have n: "0 < sint n" by simp
  show ?thesis
  proof (cases "sint n \<le> 2 ^ 31 - 1")
    case True
    note nb = narrow_bound [OF n True]
    have up: "sint (scast w :: u64) = sint w" for w :: u32 by (simp add: sint_up_scast is_up)
    show ?thesis using True n Int31n_spec [of "ucast n" rnd p] nb
      by (auto simp: sip_Intn_def up split: option.splits)
  next
    case False
    with n Int63n_spec [OF n, of rnd p] show ?thesis by (auto simp: sip_Intn_def split: option.splits)
  qed
qed (simp add: sip_Intn_def)

end
