(* ===== verification/Pagination.thy ===== *)
theory Pagination
  imports Go_Prelude
begin

text \<open>
  Pagination (\<^verbatim>\<open>core/utils/pagination\<close>): the number of pages, the current page and the window
  of page links. The methods cache their results in the struct, so they are state passing
  functions. The request is the text of its parameter \<^verbatim>\<open>p\<close>. The code divides in
  \<^verbatim>\<open>float64\<close> and rounds up; for counts below 2 to the 53 this is the ceiling of the exact
  quotient, which is what the model computes.
\<close>

section \<open>The number of items\<close>

datatype num_value = Signed int | Unsigned u64 | NotANumber

definition toInt64 :: "num_value \<Rightarrow> int \<times> bool" where
  "toInt64 v = (case v of Signed i \<Rightarrow> (i, True) | Unsigned u \<Rightarrow> (sint u, True) | NotANumber \<Rightarrow> (0, False))"

section \<open>The paginator\<close>

record Paginator =
  formP :: string
  PerPageNums :: int
  MaxPages :: int
  nums :: int
  pageRange :: "int list option"
  pageNums :: int
  page :: int

definition SetNums :: "num_value \<Rightarrow> Paginator \<Rightarrow> Paginator" where
  "SetNums v p = p\<lparr>nums := fst (toInt64 v)\<rparr>"

definition NewPaginator :: "string \<Rightarrow> int \<Rightarrow> num_value \<Rightarrow> Paginator" where
  "NewPaginator form per v =
     SetNums v \<lparr>formP = form, PerPageNums = (if per \<le> 0 then 10 else per), MaxPages = 0, nums = 0, pageRange = None, pageNums = 0, page = 0\<rparr>"

definition ceil_div :: "int \<Rightarrow> int \<Rightarrow> int" where
  "ceil_div a b = - ((- a) div b)"

definition PageNums :: "Paginator \<Rightarrow> int \<times> Paginator" where
  "PageNums p =
     (if pageNums p \<noteq> 0 then (pageNums p, p)
      else let n = ceil_div (nums p) (PerPageNums p);
               n = (if MaxPages p > 0 then min n (MaxPages p) else n)
           in (n, p\<lparr>pageNums := n\<rparr>))"

definition Page :: "Paginator \<Rightarrow> int \<times> Paginator" where
  "Page p =
     (if page p \<noteq> 0 then (page p, p)
      else let v = fst (atoi (formP p));
               (n, p) = PageNums p;
               v = (if v > n then n else v);
               v = (if v \<le> 0 then 1 else v)
           in (v, p\<lparr>page := v\<rparr>))"

text \<open>A slice of consecutive page numbers.\<close>

definition window :: "int \<Rightarrow> int \<Rightarrow> int list" where
  "window start len = map (\<lambda>i. start + int i) [0..<nat len]"

definition Pages :: "Paginator \<Rightarrow> int list option \<times> Paginator" where
  "Pages p =
     (if pageRange p = None \<and> nums p > 0
      then let (n, p) = PageNums p; (c, p) = Page p;
               pages = (if c \<ge> n - 4 \<and> n > 9 then window (n - 9 + 1) 9
                        else if c \<ge> 5 \<and> n > 9 then window (c - 5 + 1) (min 9 (c + 4 + 1))
                        else window 1 (min 9 n))
           in (Some pages, p\<lparr>pageRange := Some pages\<rparr>)
      else (pageRange p, p))"

definition HasPrev :: "Paginator \<Rightarrow> bool \<times> Paginator" where
  "HasPrev p = (let (c, p) = Page p in (c > 1, p))"

definition HasNext :: "Paginator \<Rightarrow> bool \<times> Paginator" where
  "HasNext p = (let (c, p) = Page p; (n, p) = PageNums p in (c < n, p))"

definition IsActive :: "int \<Rightarrow> Paginator \<Rightarrow> bool \<times> Paginator" where
  "IsActive i p = (let (c, p) = Page p in (c = i, p))"

definition page_Offset :: "Paginator \<Rightarrow> int \<times> Paginator" where
  "page_Offset p = (let (c, p) = Page p in ((c - 1) * PerPageNums p, p))"

definition HasPages :: "Paginator \<Rightarrow> bool \<times> Paginator" where
  "HasPages p = (let (n, p) = PageNums p in (n > 1, p))"

section \<open>Properties\<close>

lemma ceil_div_bounds:
  assumes "0 < b"
  shows "(ceil_div a b - 1) * b < a \<and> a \<le> ceil_div a b * b"
proof -
  have "(- a) div b * b + (- a) mod b = - a" by (rule div_mult_mod_eq)
  moreover have "0 \<le> (- a) mod b" "(- a) mod b < b" using assms by simp_all
  ultimately have "- ((- a) div b * b) - b < a \<and> a \<le> - ((- a) div b * b)" by linarith
  then show ?thesis by (simp add: ceil_div_def left_diff_distrib)
qed

lemma ceil_div_pos: "0 < b \<Longrightarrow> 0 < a \<Longrightarrow> 0 < ceil_div a b"
  using ceil_div_bounds [of b a] by (meson le_less_trans linorder_not_less mult_nonpos_nonneg less_imp_le order_trans)

lemma set_window: "set (window s n) = {s..<s + n}"
proof -
  have "(\<lambda>i. s + int i) ` {0..<nat n} = {s..<s + n}"
  proof (intro equalityI subsetI)
    fix x assume "x \<in> {s..<s + n}"
    then show "x \<in> (\<lambda>i. s + int i) ` {0..<nat n}" by (intro image_eqI [of _ _ "nat (x - s)"]) auto
  qed auto
  then show ?thesis by (simp add: window_def)
qed

text \<open>A paginator as the code builds and uses it: nothing cached yet and a positive page size.\<close>

definition fresh_paginator :: "Paginator \<Rightarrow> bool" where
  "fresh_paginator p \<longleftrightarrow> pageRange p = None \<and> pageNums p = 0 \<and> page p = 0 \<and> PerPageNums p > 0"

definition total_pages :: "Paginator \<Rightarrow> int" where
  "total_pages p = (let n = ceil_div (nums p) (PerPageNums p) in if MaxPages p > 0 then min n (MaxPages p) else n)"

definition current_page :: "Paginator \<Rightarrow> int" where
  "current_page p = max 1 (min (fst (atoi (formP p))) (total_pages p))"

lemma Page_fresh:
  assumes "fresh_paginator p" "nums p > 0"
  shows "PageNums p = (total_pages p, p\<lparr>pageNums := total_pages p\<rparr>)"
    "Page p = (current_page p, p\<lparr>pageNums := total_pages p, page := current_page p\<rparr>)"
    "Page (p\<lparr>pageNums := total_pages p\<rparr>) = (current_page p, p\<lparr>pageNums := total_pages p, page := current_page p\<rparr>)"
    "0 < total_pages p" "1 \<le> current_page p" "current_page p \<le> total_pages p"
proof -
  show n: "0 < total_pages p" using assms ceil_div_pos by (simp add: total_pages_def fresh_paginator_def Let_def)
  show P: "PageNums p = (total_pages p, p\<lparr>pageNums := total_pages p\<rparr>)"
    using assms by (simp add: PageNums_def total_pages_def fresh_paginator_def Let_def)
  have c: "current_page p = (let v = (if fst (atoi (formP p)) > total_pages p then total_pages p else fst (atoi (formP p)))
      in if v \<le> 0 then 1 else v)"
    using n by (simp add: current_page_def Let_def)
  show "Page p = (current_page p, p\<lparr>pageNums := total_pages p, page := current_page p\<rparr>)"
    using assms n by (simp add: Page_def P c fresh_paginator_def Let_def)
  show "Page (p\<lparr>pageNums := total_pages p\<rparr>) = (current_page p, p\<lparr>pageNums := total_pages p, page := current_page p\<rparr>)"
    using assms n by (simp add: Page_def PageNums_def c fresh_paginator_def Let_def)
  show "1 \<le> current_page p" "current_page p \<le> total_pages p" using n by (simp_all add: current_page_def)
qed



end
