(* ===== verification/Query_Builder.thy ===== *)
theory Query_Builder
  imports Go_Prelude
begin

text \<open>
  The SQL query builders of the ORM (\<^verbatim>\<open>client/orm/qb.go\<close>, \<^verbatim>\<open>qb_mysql.go\<close>,
  \<^verbatim>\<open>qb_postgres.go\<close>): each method appends tokens and \<^verbatim>\<open>String\<close> joins them and resets the
  builder. What a client of the interface relies on is a locale, interpreted by both builders;
  the statements of the two builders are then compared.
\<close>

section \<open>The MySQL builder\<close>

definition CommaSpace :: string where
  "CommaSpace = '', ''"

record MySQLQueryBuilder =
  mtokens :: "string list"

definition my_add :: "string list \<Rightarrow> MySQLQueryBuilder \<Rightarrow> MySQLQueryBuilder" where
  "my_add ts qb = qb\<lparr>mtokens := mtokens qb @ ts\<rparr>"

definition my_Select where "my_Select fs = my_add [''SELECT'', join CommaSpace fs]"
definition my_ForUpdate where "my_ForUpdate = my_add [''FOR UPDATE'']"
definition my_From where "my_From tables = my_add [''FROM'', join CommaSpace tables]"
definition my_InnerJoin where "my_InnerJoin table = my_add [''INNER JOIN'', table]"
definition my_LeftJoin where "my_LeftJoin table = my_add [''LEFT JOIN'', table]"
definition my_RightJoin where "my_RightJoin table = my_add [''RIGHT JOIN'', table]"
definition my_On where "my_On cnd = my_add [''ON'', cnd]"
definition my_Where where "my_Where cnd = my_add [''WHERE'', cnd]"
definition my_And where "my_And cnd = my_add [''AND'', cnd]"
definition my_Or where "my_Or cnd = my_add [''OR'', cnd]"
definition my_In where "my_In vals = my_add [''IN'', ''('', join CommaSpace vals, '')'']"
definition my_OrderBy where "my_OrderBy fs = my_add [''ORDER BY'', join CommaSpace fs]"
definition my_Asc where "my_Asc = my_add [''ASC'']"
definition my_Desc where "my_Desc = my_add [''DESC'']"
definition my_Limit where "my_Limit n = my_add [''LIMIT'', itoa n]"
definition my_Offset where "my_Offset n = my_add [''OFFSET'', itoa n]"
definition my_GroupBy where "my_GroupBy fs = my_add [''GROUP BY'', join CommaSpace fs]"
definition my_Having where "my_Having cnd = my_add [''HAVING'', cnd]"
definition my_Update where "my_Update tables = my_add [''UPDATE'', join CommaSpace tables]"
definition my_Set where "my_Set kv = my_add [''SET'', join CommaSpace kv]"

definition my_Delete :: "string list \<Rightarrow> MySQLQueryBuilder \<Rightarrow> MySQLQueryBuilder" where
  "my_Delete tables qb =
     (let qb = my_add [''DELETE''] qb in if length tables \<noteq> 0 then my_add [join CommaSpace tables] qb else qb)"

definition my_InsertInto :: "string \<Rightarrow> string list \<Rightarrow> MySQLQueryBuilder \<Rightarrow> MySQLQueryBuilder" where
  "my_InsertInto table fs qb =
     (let qb = my_add [''INSERT INTO'', table] qb
      in if length fs \<noteq> 0 then my_add [''('', join CommaSpace fs, '')''] qb else qb)"

definition my_Values where "my_Values vals = my_add [''VALUES'', ''('', join CommaSpace vals, '')'']"

definition Subquery :: "string \<Rightarrow> string \<Rightarrow> string" where
  "Subquery sub alias = ''('' @ sub @ '') AS '' @ alias"

definition my_String :: "MySQLQueryBuilder \<Rightarrow> string \<times> MySQLQueryBuilder" where
  "my_String qb = (join '' '' (mtokens qb), qb\<lparr>mtokens := []\<rparr>)"

section \<open>The PostgreSQL builder\<close>

record PostgresQueryBuilder =
  ptokens :: "string list"

definition dquote :: "string \<Rightarrow> string" where
  "dquote s = ''\"'' @ s @ ''\"''"

definition processingStr :: "string list \<Rightarrow> string" where
  "processingStr str = dquote (join ''\",\"'' str)"

definition quote_dots :: "string \<Rightarrow> string" where
  "quote_dots f = dquote (join ''\".\"'' (split f ''.''))"

fun select_loop :: "string list \<Rightarrow> string" where
  "select_loop [] = []"
| "select_loop (f # fs) = (let s = quote_dots f in if fs = [] then s else (s @ '','') @ select_loop fs)"

definition pg_add :: "string list \<Rightarrow> PostgresQueryBuilder \<Rightarrow> PostgresQueryBuilder" where
  "pg_add ts qb = qb\<lparr>ptokens := ptokens qb @ ts\<rparr>"

datatype qb_panic = IndexOutOfRange

definition pg_Select :: "string list \<Rightarrow> PostgresQueryBuilder \<Rightarrow> qb_panic + PostgresQueryBuilder" where
  "pg_Select fs qb =
     (if fs = [] then Inl IndexOutOfRange
      else Inr (pg_add [''SELECT'', if fs ! 0 = ''*'' then ''*'' else select_loop fs] qb))"

definition pg_ForUpdate where "pg_ForUpdate = pg_add [''FOR UPDATE'']"
definition pg_From where "pg_From tables = pg_add [''FROM'', processingStr tables]"
definition pg_InnerJoin where "pg_InnerJoin table = pg_add [''INNER JOIN'', dquote table]"
definition pg_LeftJoin where "pg_LeftJoin table = pg_add [''LEFT JOIN'', dquote table]"
definition pg_RightJoin where "pg_RightJoin table = pg_add [''RIGHT JOIN'', dquote table]"

fun on_loop :: "nat \<Rightarrow> string \<Rightarrow> string list \<Rightarrow> string" where
  "on_loop i str [] = str"
| "on_loop i str (x # xs) = (let s = quote_dots x in on_loop (i + 1) (if i = 0 then s @ '' ='' @ '' '' else str @ s) xs)"

definition pg_On :: "string \<Rightarrow> PostgresQueryBuilder \<Rightarrow> PostgresQueryBuilder" where
  "pg_On cnd = pg_add [''ON'', on_loop 0 [] (split (replace_all cnd '' '' []) ''='')]"

definition pg_Where where "pg_Where cnd = pg_add [''WHERE'', cnd]"
definition pg_And where "pg_And cnd = pg_add [''AND'', cnd]"
definition pg_Or where "pg_Or cnd = pg_add [''OR'', cnd]"
definition pg_In where "pg_In vals = pg_add [''IN'', ''('', join CommaSpace vals, '')'']"
definition pg_OrderBy where "pg_OrderBy fs = pg_add [''ORDER BY'', processingStr fs]"
definition pg_Asc where "pg_Asc = pg_add [''ASC'']"
definition pg_Desc where "pg_Desc = pg_add [''DESC'']"
definition pg_Limit where "pg_Limit n = pg_add [''LIMIT'', itoa n]"
definition pg_Offset where "pg_Offset n = pg_add [''OFFSET'', itoa n]"
definition pg_GroupBy where "pg_GroupBy fs = pg_add [''GROUP BY'', processingStr fs]"
definition pg_Having where "pg_Having cnd = pg_add [''HAVING'', cnd]"
definition pg_Update where "pg_Update tables = pg_add [''UPDATE'', processingStr tables]"
definition pg_Set where "pg_Set kv = pg_add [''SET'', join CommaSpace kv]"

definition pg_Delete :: "string list \<Rightarrow> PostgresQueryBuilder \<Rightarrow> PostgresQueryBuilder" where
  "pg_Delete tables qb =
     (let qb = pg_add [''DELETE''] qb in if length tables \<noteq> 0 then pg_add [processingStr tables] qb else qb)"

definition pg_InsertInto :: "string \<Rightarrow> string list \<Rightarrow> PostgresQueryBuilder \<Rightarrow> PostgresQueryBuilder" where
  "pg_InsertInto table fs qb =
     (let qb = pg_add [''INSERT INTO'', dquote table] qb
      in if length fs \<noteq> 0 then pg_add [''('', join CommaSpace fs, '')''] qb else qb)"

definition pg_Values where "pg_Values vals = pg_add [''VALUES'', ''('', join CommaSpace vals, '')'']"

definition pg_String :: "PostgresQueryBuilder \<Rightarrow> string \<times> PostgresQueryBuilder" where
  "pg_String qb = (join '' '' (ptokens qb), qb\<lparr>ptokens := []\<rparr>)"

section \<open>Choosing a builder\<close>

datatype builder = MySQL MySQLQueryBuilder | TiDB MySQLQueryBuilder | Postgres PostgresQueryBuilder

datatype driver_error = SqliteUnsupported | UnknownDriver

definition NewQueryBuilder :: "string \<Rightarrow> driver_error + builder" where
  "NewQueryBuilder driver =
     (if driver = ''mysql'' then Inr (MySQL \<lparr>mtokens = []\<rparr>)
      else if driver = ''tidb'' then Inr (TiDB \<lparr>mtokens = []\<rparr>)
      else if driver = ''postgres'' then Inr (Postgres \<lparr>ptokens = []\<rparr>)
      else if driver = ''sqlite'' then Inl SqliteUnsupported
      else Inl UnknownDriver)"

section \<open>The interface\<close>

text \<open>The calls of the interface \<^verbatim>\<open>QueryBuilder\<close> and what each builder does on them.\<close>

datatype qb_call = Select "string list" | ForUpdate | From "string list" | InnerJoin string | LeftJoin string | RightJoin string
  | On string | Where string | And string | Or string | In "string list" | OrderBy "string list" | Asc | Desc | Limit int | Offset int
  | GroupBy "string list" | Having string | Update "string list" | Set "string list" | Delete "string list"
  | InsertInto string "string list" | Values "string list"

fun my_call :: "qb_call \<Rightarrow> MySQLQueryBuilder \<Rightarrow> qb_panic + MySQLQueryBuilder" where
  "my_call (Select fs) qb = Inr (my_Select fs qb)"
| "my_call ForUpdate qb = Inr (my_ForUpdate qb)"
| "my_call (From ts) qb = Inr (my_From ts qb)"
| "my_call (InnerJoin t) qb = Inr (my_InnerJoin t qb)"
| "my_call (LeftJoin t) qb = Inr (my_LeftJoin t qb)"
| "my_call (RightJoin t) qb = Inr (my_RightJoin t qb)"
| "my_call (On c) qb = Inr (my_On c qb)"
| "my_call (Where c) qb = Inr (my_Where c qb)"
| "my_call (And c) qb = Inr (my_And c qb)"
| "my_call (Or c) qb = Inr (my_Or c qb)"
| "my_call (In vs) qb = Inr (my_In vs qb)"
| "my_call (OrderBy fs) qb = Inr (my_OrderBy fs qb)"
| "my_call Asc qb = Inr (my_Asc qb)"
| "my_call Desc qb = Inr (my_Desc qb)"
| "my_call (Limit n) qb = Inr (my_Limit n qb)"
| "my_call (Offset n) qb = Inr (my_Offset n qb)"
| "my_call (GroupBy fs) qb = Inr (my_GroupBy fs qb)"
| "my_call (Having c) qb = Inr (my_Having c qb)"
| "my_call (Update ts) qb = Inr (my_Update ts qb)"
| "my_call (Set kv) qb = Inr (my_Set kv qb)"
| "my_call (Delete ts) qb = Inr (my_Delete ts qb)"
| "my_call (InsertInto t fs) qb = Inr (my_InsertInto t fs qb)"
| "my_call (Values vs) qb = Inr (my_Values vs qb)"

fun pg_call :: "qb_call \<Rightarrow> PostgresQueryBuilder \<Rightarrow> qb_panic + PostgresQueryBuilder" where
  "pg_call (Select fs) qb = pg_Select fs qb"
| "pg_call ForUpdate qb = Inr (pg_ForUpdate qb)"
| "pg_call (From ts) qb = Inr (pg_From ts qb)"
| "pg_call (InnerJoin t) qb = Inr (pg_InnerJoin t qb)"
| "pg_call (LeftJoin t) qb = Inr (pg_LeftJoin t qb)"
| "pg_call (RightJoin t) qb = Inr (pg_RightJoin t qb)"
| "pg_call (On c) qb = Inr (pg_On c qb)"
| "pg_call (Where c) qb = Inr (pg_Where c qb)"
| "pg_call (And c) qb = Inr (pg_And c qb)"
| "pg_call (Or c) qb = Inr (pg_Or c qb)"
| "pg_call (In vs) qb = Inr (pg_In vs qb)"
| "pg_call (OrderBy fs) qb = Inr (pg_OrderBy fs qb)"
| "pg_call Asc qb = Inr (pg_Asc qb)"
| "pg_call Desc qb = Inr (pg_Desc qb)"
| "pg_call (Limit n) qb = Inr (pg_Limit n qb)"
| "pg_call (Offset n) qb = Inr (pg_Offset n qb)"
| "pg_call (GroupBy fs) qb = Inr (pg_GroupBy fs qb)"
| "pg_call (Having c) qb = Inr (pg_Having c qb)"
| "pg_call (Update ts) qb = Inr (pg_Update ts qb)"
| "pg_call (Set kv) qb = Inr (pg_Set kv qb)"
| "pg_call (Delete ts) qb = Inr (pg_Delete ts qb)"
| "pg_call (InsertInto t fs) qb = Inr (pg_InsertInto t fs qb)"
| "pg_call (Values vs) qb = Inr (pg_Values vs qb)"

fun qb_chain :: "(qb_call \<Rightarrow> 's \<Rightarrow> qb_panic + 's) \<Rightarrow> qb_call list \<Rightarrow> 's \<Rightarrow> qb_panic + 's" where
  "qb_chain exec [] s = Inr s"
| "qb_chain exec (x # xs) s = res_bind (exec x s) (qb_chain exec xs)"

text \<open>
  The contract of a builder: on the calls it accepts it appends the tokens of the call, and
  \<^verbatim>\<open>String\<close> returns the tokens joined by blanks and leaves an empty builder.
\<close>

locale query_builder =
  fixes exec :: "qb_call \<Rightarrow> 's \<Rightarrow> qb_panic + 's"
    and toks :: "'s \<Rightarrow> string list"
    and render :: "'s \<Rightarrow> string \<times> 's"
    and accepts :: "qb_call \<Rightarrow> bool"
    and call_toks :: "qb_call \<Rightarrow> string list"
  assumes exec_ok: "accepts x \<Longrightarrow> \<exists>s'. exec x s = Inr s' \<and> toks s' = toks s @ call_toks x"
    and render_text: "fst (render s) = join '' '' (toks s)"
    and render_reset: "toks (snd (render s)) = []"
begin

lemma chain_toks:
  "list_all accepts xs \<Longrightarrow> \<exists>s'. qb_chain exec xs s = Inr s' \<and> toks s' = toks s @ concat (map call_toks xs)"
proof (induction xs arbitrary: s)
  case (Cons x xs)
  obtain s1 where s1: "exec x s = Inr s1" "toks s1 = toks s @ call_toks x" using exec_ok [of x s] Cons.prems by auto
  with Cons.IH [of s1] Cons.prems show ?case by auto
qed simp

text \<open>A builder can be used for one statement after the other: each statement is that of its own calls.\<close>

lemma statement:
  assumes "list_all accepts xs" "toks s = []"
  shows "\<exists>s'. qb_chain exec xs s = Inr s' \<and> fst (render s') = join '' '' (concat (map call_toks xs)) \<and> toks (snd (render s')) = []"
  using chain_toks [OF assms(1), of s] assms(2) render_text render_reset by auto

end

fun my_toks :: "qb_call \<Rightarrow> string list" where
  "my_toks (Select fs) = [''SELECT'', join CommaSpace fs]"
| "my_toks ForUpdate = [''FOR UPDATE'']"
| "my_toks (From ts) = [''FROM'', join CommaSpace ts]"
| "my_toks (InnerJoin t) = [''INNER JOIN'', t]"
| "my_toks (LeftJoin t) = [''LEFT JOIN'', t]"
| "my_toks (RightJoin t) = [''RIGHT JOIN'', t]"
| "my_toks (On c) = [''ON'', c]"
| "my_toks (Where c) = [''WHERE'', c]"
| "my_toks (And c) = [''AND'', c]"
| "my_toks (Or c) = [''OR'', c]"
| "my_toks (In vs) = [''IN'', ''('', join CommaSpace vs, '')'']"
| "my_toks (OrderBy fs) = [''ORDER BY'', join CommaSpace fs]"
| "my_toks Asc = [''ASC'']"
| "my_toks Desc = [''DESC'']"
| "my_toks (Limit n) = [''LIMIT'', itoa n]"
| "my_toks (Offset n) = [''OFFSET'', itoa n]"
| "my_toks (GroupBy fs) = [''GROUP BY'', join CommaSpace fs]"
| "my_toks (Having c) = [''HAVING'', c]"
| "my_toks (Update ts) = [''UPDATE'', join CommaSpace ts]"
| "my_toks (Set kv) = [''SET'', join CommaSpace kv]"
| "my_toks (Delete ts) = ''DELETE'' # (if ts = [] then [] else [join CommaSpace ts])"
| "my_toks (InsertInto t fs) = [''INSERT INTO'', t] @ (if fs = [] then [] else [''('', join CommaSpace fs, '')''])"
| "my_toks (Values vs) = [''VALUES'', ''('', join CommaSpace vs, '')'']"

fun pg_toks :: "qb_call \<Rightarrow> string list" where
  "pg_toks (Select fs) = [''SELECT'', if fs ! 0 = ''*'' then ''*'' else join '','' (map quote_dots fs)]"
| "pg_toks (From ts) = [''FROM'', processingStr ts]"
| "pg_toks (InnerJoin t) = [''INNER JOIN'', dquote t]"
| "pg_toks (LeftJoin t) = [''LEFT JOIN'', dquote t]"
| "pg_toks (RightJoin t) = [''RIGHT JOIN'', dquote t]"
| "pg_toks (On c) = [''ON'', on_loop 0 [] (split (replace_all c '' '' []) ''='')]"
| "pg_toks (OrderBy fs) = [''ORDER BY'', processingStr fs]"
| "pg_toks (GroupBy fs) = [''GROUP BY'', processingStr fs]"
| "pg_toks (Update ts) = [''UPDATE'', processingStr ts]"
| "pg_toks (Delete ts) = ''DELETE'' # (if ts = [] then [] else [processingStr ts])"
| "pg_toks (InsertInto t fs) = [''INSERT INTO'', dquote t] @ (if fs = [] then [] else [''('', join CommaSpace fs, '')''])"
| "pg_toks x = my_toks x"

lemmas my_defs = my_add_def my_Select_def my_ForUpdate_def my_From_def my_InnerJoin_def my_LeftJoin_def my_RightJoin_def my_On_def
  my_Where_def my_And_def my_Or_def my_In_def my_OrderBy_def my_Asc_def my_Desc_def my_Limit_def my_Offset_def my_GroupBy_def
  my_Having_def my_Update_def my_Set_def my_Delete_def my_InsertInto_def my_Values_def

lemmas pg_defs = pg_add_def pg_Select_def pg_ForUpdate_def pg_From_def pg_InnerJoin_def pg_LeftJoin_def pg_RightJoin_def pg_On_def
  pg_Where_def pg_And_def pg_Or_def pg_In_def pg_OrderBy_def pg_Asc_def pg_Desc_def pg_Limit_def pg_Offset_def pg_GroupBy_def
  pg_Having_def pg_Update_def pg_Set_def pg_Delete_def pg_InsertInto_def pg_Values_def

lemma select_loop_join: "select_loop fs = join '','' (map quote_dots fs)"
  by (induction fs rule: select_loop.induct) (auto simp: join_Cons Let_def)

fun pg_accepts :: "qb_call \<Rightarrow> bool" where
  "pg_accepts (Select fs) = (fs \<noteq> [])"
| "pg_accepts _ = True"

interpretation mysql: query_builder my_call mtokens my_String "\<lambda>_. True" my_toks
proof unfold_locales
  fix x s show "\<exists>s'. my_call x s = Inr s' \<and> mtokens s' = mtokens s @ my_toks x"
    by (cases x) (simp_all add: my_defs)
qed (simp_all add: my_String_def)

interpretation postgres: query_builder pg_call ptokens pg_String pg_accepts pg_toks
proof unfold_locales
  fix x s assume "pg_accepts x" then show "\<exists>s'. pg_call x s = Inr s' \<and> ptokens s' = ptokens s @ pg_toks x"
    by (cases x) (simp_all add: pg_defs select_loop_join)
qed (simp_all add: pg_String_def)

section \<open>The two builders agree\<close>

text \<open>A statement without its blanks and double quotes.\<close>

definition squeeze :: "string \<Rightarrow> string" where
  "squeeze s = filter (\<lambda>c. c \<noteq> CHR '' '' \<and> c \<noteq> CHR 0x22) s"

lemma squeeze_simps [simp]:
  "squeeze [] = []" "squeeze (c # s) = (if c = CHR '' '' \<or> c = CHR 0x22 then squeeze s else c # squeeze s)"
  by (simp_all add: squeeze_def)

lemma squeeze_append [simp]: "squeeze (s @ t) = squeeze s @ squeeze t"
  by (simp add: squeeze_def)

lemma squeeze_join: "squeeze (join sep xs) = join (squeeze sep) (map squeeze xs)"
  by (induction sep xs rule: join.induct) simp_all

lemma squeeze_dquote [simp]: "squeeze (dquote s) = squeeze s"
  by (simp add: dquote_def)

lemma squeeze_seps: "squeeze CommaSpace = '',''" "squeeze ''\",\"'' = '',''" "squeeze ''\".\"'' = ''.''" "squeeze '' '' = []"
  "squeeze ''.'' = ''.''" "squeeze '','' = '',''" "squeeze ''='' = ''=''" "squeeze '' ='' = ''=''"
  by (simp_all add: CommaSpace_def)

lemma squeeze_quote_dots [simp]: "squeeze (quote_dots s) = squeeze s"
proof -
  have "squeeze (quote_dots s) = join (squeeze ''.'') (map squeeze (split s ''.''))"
    by (simp add: quote_dots_def squeeze_join squeeze_seps)
  also have "\<dots> = squeeze (join ''.'' (split s ''.''))" by (simp only: squeeze_join)
  finally show ?thesis by (simp add: join_split)
qed

lemma squeeze_processing [simp]: "squeeze (processingStr ts) = squeeze (join CommaSpace ts)"
  by (simp add: processingStr_def squeeze_join squeeze_seps)

lemma join_empty_split: "join [] (split_aux [d] acc s) = rev acc @ filter (\<lambda>c. c \<noteq> d) s"
proof (induction "[d]" acc s rule: split_aux.induct)
  case (2 acc c cs)
  show ?case
  proof (cases "c = d")
    case True
    have "join [] (rev acc # split_aux [d] [] cs) = rev acc @ join [] (split_aux [d] [] cs)"
      by (simp add: join_Cons)
    with 2 True show ?thesis by (simp add: has_prefix_single)
  next
    case False
    with 2 show ?thesis by (simp add: has_prefix_single)
  qed
qed simp

lemma remove_char: "replace_all s [d] [] = filter (\<lambda>c. c \<noteq> d) s"
  by (simp add: replace_all_def split_def join_empty_split)

lemma single_eq_parts:
  assumes "length (filter (\<lambda>c. c = d) s) = 1"
  shows "\<exists>a b. s = a @ d # b \<and> d \<notin> set a \<and> d \<notin> set b"
proof -
  have "d \<in> set s"
  proof (rule ccontr)
    assume "d \<notin> set s"
    then have "filter (\<lambda>c. c = d) s = []" by (auto simp: filter_empty_conv)
    with assms show False by simp
  qed
  from split_list_first [OF this] obtain a b where s: "s = a @ d # b" "d \<notin> set a" by blast
  with assms have "filter (\<lambda>c. c = d) b = []" by simp
  then have "d \<notin> set b" by (auto simp: filter_empty_conv)
  with s show ?thesis by blast
qed

lemma squeeze_on:
  assumes "length (filter (\<lambda>c. c = CHR ''='') cnd) = 1"
  shows "squeeze (on_loop 0 [] (split (replace_all cnd '' '' []) ''='')) = squeeze cnd"
proof -
  obtain a b where ab: "cnd = a @ CHR ''='' # b" "CHR ''='' \<notin> set a" "CHR ''='' \<notin> set b" using single_eq_parts [OF assms] by auto
  define a' where "a' = filter (\<lambda>c. c \<noteq> CHR '' '') a"
  define b' where "b' = filter (\<lambda>c. c \<noteq> CHR '' '') b"
  have "replace_all cnd '' '' [] = a' @ CHR ''='' # b'" by (simp add: remove_char ab a'_def b'_def)
  moreover have "split (a' @ CHR ''='' # b') ''='' = [a', b']"
    using ab by (simp add: split_single_append split_single_notin a'_def b'_def)
  moreover have "squeeze a' = squeeze a" "squeeze b' = squeeze b" by (auto simp: a'_def b'_def squeeze_def intro: filter_cong)
  moreover have "squeeze (CHR ''='' # b) = CHR ''='' # squeeze b" by (simp add: squeeze_def)
  ultimately show ?thesis using ab(1) squeeze_seps by simp
qed

text \<open>The calls that the PostgreSQL builder treats like the MySQL one: a select of at least one field, a star only alone, and join
  conditions with exactly one equality sign.\<close>

fun portable :: "qb_call \<Rightarrow> bool" where
  "portable (Select fs) = (fs \<noteq> [] \<and> (fs = [''*''] \<or> hd fs \<noteq> ''*''))"
| "portable (On c) = (length (filter (\<lambda>ch. ch = CHR ''='') c) = 1)"
| "portable _ = True"

lemma squeeze_toks: "portable x \<Longrightarrow> map squeeze (pg_toks x) = map squeeze (my_toks x)"
proof (cases x)
  case (Select fs)
  assume "portable x"
  with Select have fs: "fs \<noteq> []" "fs = [''*''] \<or> hd fs \<noteq> ''*''" by auto
  have "squeeze (join '','' (map quote_dots fs)) = squeeze (join CommaSpace fs)" by (simp add: squeeze_join squeeze_seps comp_def)
  with fs Select show ?thesis by (auto simp: hd_conv_nth)
qed (simp_all add: squeeze_on)

text \<open>C23. For every sequence of portable calls the MySQL and the PostgreSQL builder both produce a statement, and
  the two statements differ in blanks and double quotes only; both builders are empty afterwards, whatever the calls were.\<close>

theorem builders_agree:
  assumes "list_all portable xs"
  shows "\<exists>m p. qb_chain my_call xs \<lparr>mtokens = []\<rparr> = Inr m \<and> qb_chain pg_call xs \<lparr>ptokens = []\<rparr> = Inr p \<and>
    squeeze (fst (my_String m)) = squeeze (fst (pg_String p)) \<and>
    mtokens (snd (my_String m)) = [] \<and> ptokens (snd (pg_String p)) = []"
proof -
  have "portable x \<Longrightarrow> pg_accepts x" for x by (cases x) auto
  with assms have acc: "list_all pg_accepts xs" by (auto simp: list_all_iff)
  obtain m where m: "qb_chain my_call xs \<lparr>mtokens = []\<rparr> = Inr m" "fst (my_String m) = join '' '' (concat (map my_toks xs))"
    using mysql.statement [of xs "\<lparr>mtokens = []\<rparr>"] by (auto simp: list_all_iff)
  obtain p where p: "qb_chain pg_call xs \<lparr>ptokens = []\<rparr> = Inr p" "fst (pg_String p) = join '' '' (concat (map pg_toks xs))"
    using postgres.statement [OF acc, of "\<lparr>ptokens = []\<rparr>"] by auto
  have "map squeeze (concat (map pg_toks xs)) = map squeeze (concat (map my_toks xs))"
    using assms squeeze_toks by (induction xs) simp_all
  with m p show ?thesis by (auto simp: squeeze_join mysql.render_reset postgres.render_reset)
qed

theorem builders_agree_witness:
  "\<exists>m p. qb_chain my_call [Select [''u.name''], From [''user''], On ''a.id = b.id''] \<lparr>mtokens = []\<rparr> = Inr m \<and>
     qb_chain pg_call [Select [''u.name''], From [''user''], On ''a.id = b.id''] \<lparr>ptokens = []\<rparr> = Inr p \<and>
     squeeze (fst (my_String m)) = squeeze (fst (pg_String p))"
  using builders_agree [of "[Select [''u.name''], From [''user''], On ''a.id = b.id'']"] by auto

text \<open> Outside of the portable calls the PostgreSQL builder panics on an empty select, drops the fields after a leading
  star, and changes the operator of a join condition that is not one equality.\<close>

theorem pg_differs:
  "pg_call (Select []) qb = Inl IndexOutOfRange \<and>
   pg_call (Select [''*'', ''a'']) qb = Inr (pg_add [''SELECT'', ''*''] qb) \<and>
   pg_call (On ''a<b'') qb = Inr (pg_add [''ON'', ''\"a<b\" = ''] qb) \<and>
   pg_call (On ''a>=b'') qb = Inr (pg_add [''ON'', ''\"a>\" = \"b\"''] qb)"
  by (simp add: pg_Select_def pg_On_def quote_dots_def dquote_def go_eval)

end
