(* ===== verification/Orm_Names.thy ===== *)
theory Orm_Names
  imports Go_Prelude "HOL-Library.AList"
begin

text \<open>
  Names and values of the ORM: column names and struct tags
  (\<^verbatim>\<open>client/orm/internal/models/models_utils.go\<close>) and the conversions of column values
  (\<^verbatim>\<open>client/orm/internal/utils/utils.go\<close>). The fallback of \<^verbatim>\<open>StrTo.Int64\<close> reads the text with
  \<^verbatim>\<open>math/big\<close>, whose conversion to 64 bits is documented as undefined when the number does not fit:
  it is a parameter of the model.
\<close>

section \<open>Naming strategies\<close>

definition is_upper :: "char \<Rightarrow> bool" where
  "is_upper c \<longleftrightarrow> 65 \<le> (of_char c :: nat) \<and> (of_char c :: nat) \<le> 90"

definition is_lower :: "char \<Rightarrow> bool" where
  "is_lower c \<longleftrightarrow> 97 \<le> (of_char c :: nat) \<and> (of_char c :: nat) \<le> 122"

text \<open>The loops over the bytes of a name; the first argument says whether the index is positive.\<close>

fun snake_loop :: "bool \<Rightarrow> bool \<Rightarrow> string \<Rightarrow> string" where
  "snake_loop pos j [] = []"
| "snake_loop pos j (d # s) =
     (if pos \<and> is_upper d \<and> j then ''_'' else []) @ d # snake_loop True (j \<or> d \<noteq> CHR ''_'') s"

definition SnakeString :: "string \<Rightarrow> string" where
  "SnakeString s = to_lower (snake_loop False False s)"

fun acronym_loop :: "char option \<Rightarrow> string \<Rightarrow> string" where
  "acronym_loop prev [] = []"
| "acronym_loop prev (d # s) =
     (let before = (case prev of Some c \<Rightarrow> is_lower c | None \<Rightarrow> False);
          after = (s \<noteq> [] \<and> is_lower (hd s))
      in (if prev \<noteq> None \<and> is_upper d \<and> (before \<or> after) then ''_'' else []) @ d # acronym_loop (Some d) s)"

definition SnakeStringWithAcronym :: "string \<Rightarrow> string" where
  "SnakeStringWithAcronym s = to_lower (acronym_loop None s)"

fun camel_loop :: "bool \<Rightarrow> string \<Rightarrow> string" where
  "camel_loop flag [] = []"
| "camel_loop flag (d # s) =
     (if d = CHR ''_'' then camel_loop True s
      else if flag then (if is_lower d then char_of ((of_char d :: nat) - 32) else d) # camel_loop False s
      else d # camel_loop False s)"

definition CamelString :: "string \<Rightarrow> string" where
  "CamelString s = camel_loop True s"

datatype rel_kind = RelForeignKey | RelOneToOne | RelManyToMany | RelReverseMany | RelReverseOne | NoRelation

definition getColumnName :: "(string \<Rightarrow> string) \<Rightarrow> rel_kind \<Rightarrow> string \<Rightarrow> string \<Rightarrow> string" where
  "getColumnName strategy ft fieldname col =
     (let column = (if col = [] then strategy fieldname else col)
      in if ft = RelForeignKey \<or> ft = RelOneToOne then (if length col = 0 then column @ ''_id'' else column)
         else if ft = RelManyToMany \<or> ft = RelReverseMany \<or> ft = RelReverseOne then fieldname
         else column)"

section \<open>Struct tags\<close>

definition supportTag :: "string \<Rightarrow> nat" where
  "supportTag t =
     (if t \<in> set [''-'', ''null'', ''index'', ''unique'', ''pk'', ''auto'', ''auto_now'', ''auto_now_add''] then 1
      else if t \<in> set [''size'', ''column'', ''default'', ''rel'', ''reverse'', ''rel_table'', ''rel_through'', ''digits'',
        ''decimals'', ''on_delete'', ''type'', ''description'', ''precision'', ''db_type''] then 2
      else 0)"

text \<open>\<^verbatim>\<open>strings.Index\<close> for a single byte.\<close>

fun index_of :: "char \<Rightarrow> string \<Rightarrow> nat option" where
  "index_of c [] = None"
| "index_of c (d # s) = (if c = d then Some 0 else map_option Suc (index_of c s))"

definition tag_part :: "string \<Rightarrow> string list \<times> (string \<times> string) list \<Rightarrow> string list \<times> (string \<times> string) list" where
  "tag_part v0 = (\<lambda>(attrs, tags).
     if v0 = [] then (attrs, tags)
     else
       let v = trim_space v0; t = to_lower v in
       if supportTag t = 1 then (List.insert t attrs, tags)
       else (case index_of CHR ''('' v of
               None \<Rightarrow> (attrs, tags)
             | Some i \<Rightarrow>
                 if i > 0 \<and> index_of CHR '')'' v = Some (length v - 1) \<and> supportTag (take i t) = 2
                 then (attrs, AList.update (take i t) (butlast (drop (i + 1) v)) tags)
                 else (attrs, tags)))"

definition ParseStructTag :: "string \<Rightarrow> string list \<times> (string \<times> string) list" where
  "ParseStructTag data = fold tag_part (split data '';'') ([], [])"

section \<open>Column values\<close>

text \<open>The text of a column; a cleared value is the single character 0x1E.\<close>

definition StrTo_Set :: "string \<Rightarrow> string" where
  "StrTo_Set v = (if v \<noteq> [] then v else [CHR 0x1E])"

definition StrTo_Exist :: "string \<Rightarrow> bool" where
  "StrTo_Exist f \<longleftrightarrow> f \<noteq> [CHR 0x1E]"

definition StrTo_String :: "string \<Rightarrow> string" where
  "StrTo_String f = (if StrTo_Exist f then f else [])"

definition StrTo_Int :: "string \<Rightarrow> int \<times> num_error option" where
  "StrTo_Int f = parse_int 32 (StrTo_String f)"

definition StrTo_Int8 :: "string \<Rightarrow> int \<times> num_error option" where
  "StrTo_Int8 f = parse_int 8 (StrTo_String f)"

definition StrTo_Int16 :: "string \<Rightarrow> int \<times> num_error option" where
  "StrTo_Int16 f = parse_int 16 (StrTo_String f)"

definition StrTo_Int32 :: "string \<Rightarrow> int \<times> num_error option" where
  "StrTo_Int32 f = parse_int 32 (StrTo_String f)"

text \<open>\<^verbatim>\<open>big.Int.SetString\<close> in base 10: an optional sign and at least one digit.\<close>

fun digits_val :: "int \<Rightarrow> string \<Rightarrow> int option" where
  "digits_val n [] = Some n"
| "digits_val n (c # cs) = (case digit_val c of Some d \<Rightarrow> digits_val (10 * n + int d) cs | None \<Rightarrow> None)"

definition big_SetString :: "string \<Rightarrow> int option" where
  "big_SetString s =
     (let neg = (s \<noteq> [] \<and> hd s = CHR ''-'');
          u = (if s \<noteq> [] \<and> (hd s = CHR ''+'' \<or> hd s = CHR ''-'') then tl s else s)
      in if u = [] then None else map_option (\<lambda>n. if neg then - n else n) (digits_val 0 u))"

definition big_Int64 :: "(int \<Rightarrow> int) \<Rightarrow> int \<Rightarrow> int" where
  "big_Int64 undef n = (if - (2 ^ 63) \<le> n \<and> n < 2 ^ 63 then n else undef n)"

definition StrTo_Int64 :: "(int \<Rightarrow> int) \<Rightarrow> string \<Rightarrow> int \<times> num_error option" where
  "StrTo_Int64 undef f =
     (case parse_int 64 (StrTo_String f) of
        (v, None) \<Rightarrow> (v, None)
      | (v, Some e) \<Rightarrow> (case big_SetString (StrTo_String f) of None \<Rightarrow> (v, Some e) | Some ni \<Rightarrow> (big_Int64 undef ni, None)))"

definition StrTo_Uint :: "string \<Rightarrow> nat \<times> num_error option" where
  "StrTo_Uint f = parse_uint 32 (StrTo_String f)"

definition StrTo_Uint8 :: "string \<Rightarrow> nat \<times> num_error option" where
  "StrTo_Uint8 f = parse_uint 8 (StrTo_String f)"

definition StrTo_Uint16 :: "string \<Rightarrow> nat \<times> num_error option" where
  "StrTo_Uint16 f = parse_uint 16 (StrTo_String f)"

definition StrTo_Uint32 :: "string \<Rightarrow> nat \<times> num_error option" where
  "StrTo_Uint32 f = parse_uint 32 (StrTo_String f)"

definition big_Uint64 :: "(int \<Rightarrow> nat) \<Rightarrow> int \<Rightarrow> nat" where
  "big_Uint64 undef n = (if 0 \<le> n \<and> n < 2 ^ 64 then nat n else undef n)"

definition StrTo_Uint64 :: "(int \<Rightarrow> nat) \<Rightarrow> string \<Rightarrow> nat \<times> num_error option" where
  "StrTo_Uint64 undef f =
     (case parse_uint 64 (StrTo_String f) of
        (v, None) \<Rightarrow> (v, None)
      | (v, Some e) \<Rightarrow> (case big_SetString (StrTo_String f) of None \<Rightarrow> (v, Some e) | Some ni \<Rightarrow> (big_Uint64 undef ni, None)))"

definition ArgString_Get :: "string list \<Rightarrow> int \<Rightarrow> string list \<Rightarrow> string" where
  "ArgString_Get a i as = (if i \<ge> 0 \<and> i < int (length a) then a ! nat i else if length as > 0 then as ! 0 else [])"

definition ArgInt_Get :: "int list \<Rightarrow> int \<Rightarrow> int list \<Rightarrow> int" where
  "ArgInt_Get a i as =
     (let r = (if i \<ge> 0 \<and> i < int (length a) then a ! nat i else 0)
      in if length as > 0 then as ! 0 else r)"

text \<open>\<^verbatim>\<open>strconv.FormatInt\<close> in a base from 2 to 36, and \<^verbatim>\<open>ToStr\<close> on the integer types.\<close>

definition base_digit :: "nat \<Rightarrow> char" where
  "base_digit d = (if d < 10 then char_of (48 + d) else char_of (87 + d))"

fun base_digits :: "nat \<Rightarrow> nat \<Rightarrow> string" where
  "base_digits b n = (if b < 2 \<or> n < b then [base_digit n] else base_digits b (n div b) @ [base_digit (n mod b)])"

declare base_digits.simps [simp del]

definition FormatInt :: "int \<Rightarrow> int \<Rightarrow> string" where
  "FormatInt i b = (if i < 0 then CHR ''-'' # base_digits (nat b) (nat (- i)) else base_digits (nat b) (nat i))"

definition ToStr_int :: "int \<Rightarrow> int list \<Rightarrow> string" where
  "ToStr_int v as = FormatInt v (ArgInt_Get as 0 [10])"

section \<open>Names: there and back\<close>

lemma of_char_less: "(of_char c :: nat) < 256"
  using of_char_of [of "of_char c :: nat"] by (metis char_of_char mod_less_divisor zero_less_numeral)

lemma lower_upper:
  assumes "is_upper c"
  shows "is_lower (lower_char c)" "char_of ((of_char (lower_char c) :: nat) - 32) = c" "lower_char c \<noteq> CHR ''_''"
proof -
  have n: "(of_char (lower_char c) :: nat) = of_char c + 32"
    using assms of_char_less [of c] by (simp add: is_upper_def lower_char_def Let_def of_char_of)
  show "is_lower (lower_char c)" using assms n by (simp add: is_upper_def is_lower_def)
  show "char_of ((of_char (lower_char c) :: nat) - 32) = c" using n by simp
  show "lower_char c \<noteq> CHR ''_''" using assms n by (auto simp: is_upper_def)
qed

lemma lower_not_upper: "\<not> is_upper c \<Longrightarrow> lower_char c = c"
  by (auto simp: is_upper_def lower_char_def Let_def)

lemma to_lower_simps [simp]: "to_lower [] = []" "to_lower (c # s) = lower_char c # to_lower s"
  by (simp_all add: to_lower_def)

lemma lower_underscore [simp]: "lower_char CHR ''_'' = CHR ''_''"
  by (simp add: lower_char_def)

lemma not_upper_underscore: "\<not> is_upper CHR ''_''"
  by (simp add: is_upper_def)

lemma camel_of_snake_tail:
  "CHR ''_'' \<notin> set s \<Longrightarrow> camel_loop False (to_lower (snake_loop True True s)) = s"
  by (induction s) (auto simp: lower_upper lower_not_upper)

lemma camel_of_snake:
  assumes "CHR ''_'' \<notin> set s" "s = [] \<or> \<not> is_lower (hd s)"
  shows "CamelString (SnakeString s) = s"
proof (cases s)
  case (Cons d r)
  then show ?thesis using assms camel_of_snake_tail [of r]
    by (cases "is_upper d") (auto simp: CamelString_def SnakeString_def lower_upper lower_not_upper)
qed (simp add: CamelString_def SnakeString_def)

definition snake_word :: "string \<Rightarrow> bool" where
  "snake_word w \<longleftrightarrow> w \<noteq> [] \<and> is_lower (hd w) \<and> list_all (\<lambda>c. \<not> is_upper c \<and> c \<noteq> CHR ''_'') w"

definition capital :: "string \<Rightarrow> string" where
  "capital w = char_of ((of_char (hd w) :: nat) - 32) # tl w"

lemma camel_loop_word:
  "list_all (\<lambda>c. \<not> is_upper c \<and> c \<noteq> CHR ''_'') w \<Longrightarrow> camel_loop False (w @ s) = w @ camel_loop False s"
  by (induction w) auto

lemma camel_words:
  assumes "list_all snake_word ws"
  shows "camel_loop True (join ''_'' ws) = concat (map capital ws)"
  using assms
proof (induction "''_''" ws rule: join.induct)
  case (2 w)
  then show ?case using camel_loop_word [of "tl w" "[]"] by (cases w) (auto simp: snake_word_def capital_def)
next
  case (3 w v vs)
  then show ?case using camel_loop_word [of "tl w" "CHR ''_'' # join ''_'' (v # vs)"]
    by (cases w) (auto simp: snake_word_def capital_def)
qed simp

lemma capital_upper:
  assumes "is_lower c"
  shows "is_upper (char_of ((of_char c :: nat) - 32))" "lower_char (char_of ((of_char c :: nat) - 32)) = c"
proof -
  have n: "(of_char (char_of ((of_char c :: nat) - 32) :: char) :: nat) = of_char c - 32"
  proof -
    have "(of_char c :: nat) - 32 < 256" using of_char_less [of c] by linarith
    then show ?thesis by (simp add: of_char_of)
  qed
  show u: "is_upper (char_of ((of_char c :: nat) - 32))" using assms n by (auto simp: is_upper_def is_lower_def)
  show "lower_char (char_of ((of_char c :: nat) - 32)) = c"
    using assms n u by (simp add: lower_char_def is_upper_def is_lower_def Let_def)
qed

lemma snake_loop_word:
  "list_all (\<lambda>c. \<not> is_upper c \<and> c \<noteq> CHR ''_'') w \<Longrightarrow> to_lower (snake_loop True True (w @ s)) = w @ to_lower (snake_loop True True s)"
  by (induction w) (auto simp: lower_not_upper)

lemma snake_words_tail:
  "list_all snake_word ws \<Longrightarrow> to_lower (snake_loop True True (concat (map capital ws))) = concat (map (Cons CHR ''_'') ws)"
proof (induction ws)
  case (Cons w ws)
  obtain c r where w: "w = c # r" "is_lower c" "list_all (\<lambda>c. \<not> is_upper c \<and> c \<noteq> CHR ''_'') r"
    using Cons.prems by (cases w) (auto simp: snake_word_def)
  show ?case using Cons w snake_loop_word [OF w(3), of "concat (map capital ws)"] capital_upper [OF w(2)]
    by (simp add: capital_def [of "c # r"])
qed simp

lemma join_tail: "join ''_'' (w # ws) = w @ concat (map (Cons CHR ''_'') ws)"
  by (induction ws arbitrary: w) simp_all

text \<open>C37. A Go field name (no underscore, not starting with a small letter) is recovered by CamelString from
  its column name, and a column name of words that start with a small letter is recovered by SnakeString from its
  camel form: the default naming strategy never maps two field names to one column.\<close>

theorem column_names_roundtrip:
  assumes "CHR ''_'' \<notin> set s" "s = [] \<or> \<not> is_lower (hd s)" "list_all snake_word ws"
  shows "CamelString (SnakeString s) = s \<and> SnakeString (CamelString (join ''_'' ws)) = join ''_'' ws"
proof
  show "CamelString (SnakeString s) = s" by (rule camel_of_snake [OF assms(1,2)])
  show "SnakeString (CamelString (join ''_'' ws)) = join ''_'' ws"
  proof (cases ws)
    case (Cons w vs)
    with assms(3) obtain c r where w: "w = c # r" "is_lower c" "list_all (\<lambda>c. \<not> is_upper c \<and> c \<noteq> CHR ''_'') r"
      by (cases w) (auto simp: snake_word_def)
    have "char_of ((of_char c :: nat) - 32) \<noteq> CHR ''_''" 
      using capital_upper(1) [OF w(2)] not_upper_underscore by metis
    then have "SnakeString (CamelString (join ''_'' ws)) = c # to_lower (snake_loop True True (r @ concat (map capital vs)))"
      using Cons w capital_upper [OF w(2)] camel_words [OF assms(3)]
      by (simp add: SnakeString_def CamelString_def capital_def)
    also have "\<dots> = w @ concat (map (Cons CHR ''_'') vs)"
      using snake_loop_word [OF w(3)] snake_words_tail [of vs] assms(3) Cons w(1) by simp
    finally show ?thesis using Cons join_tail by simp
  qed (simp add: SnakeString_def CamelString_def)
qed

theorem column_names_roundtrip_witness:
  "CamelString (SnakeString ''UserIDName'') = ''UserIDName'' \<and> SnakeString (CamelString ''user_id'') = ''user_id''"
  using column_names_roundtrip [of "''UserIDName''" "[''user'', ''id'']"]
  by (simp add: is_lower_def is_upper_def snake_word_def)

section \<open>Values\<close>

lemma digits_val_append: "digits_val n (s @ t) = Option.bind (digits_val n s) (\<lambda>k. digits_val k t)"
  by (induction n s rule: digits_val.induct) (auto split: option.splits)

lemma digits_val_utoa: "digits_val 0 (utoa n) = Some (int n)"
proof (induction n rule: utoa.induct)
  case (1 n)
  show ?case
  proof (cases "n < 10")
    case True
    then show ?thesis by (subst utoa.simps) simp
  next
    case False
    with 1 have "digits_val 0 (utoa (n div 10)) = Some (int (n div 10))" by simp
    with False show ?thesis by (subst utoa.simps) (simp add: digits_val_append zdiv_int zmod_int)
  qed
qed

lemma parse_uint_loop_digits: "parse_uint_loop m n s = (k, None) \<Longrightarrow> digits_val (int n) s = Some (int k)"
  by (induction m n s rule: parse_uint_loop.induct) (auto split: option.splits if_splits)

lemma parse_uint_loop_range: "parse_uint_loop m n s = (k, Some ErrRange) \<Longrightarrow> k = m"
  by (induction m n s rule: parse_uint_loop.induct) (auto split: option.splits if_splits)

lemma parse_uint_range: "parse_uint b s = (k, Some ErrRange) \<Longrightarrow> k = 2 ^ b - 1"
  by (auto simp: parse_uint_def split: if_splits dest: parse_uint_loop_range)

text \<open>Whenever the conversion to 64 bits succeeds, the big number has the same value.\<close>

lemma parse_int_big:
  assumes "parse_int 64 s = (i, None)"
  shows "big_SetString s = Some i"
proof -
  define neg where "neg \<longleftrightarrow> s \<noteq> [] \<and> hd s = CHR ''-''"
  define u where "u = (if s \<noteq> [] \<and> (hd s = CHR ''+'' \<or> hd s = CHR ''-'') then tl s else s)"
  obtain un where un: "parse_uint 64 u = (un, None)" "i = (if neg then - int un else int un)"
    using assms parse_uint_range [of 64 u] by (cases "parse_uint 64 u")
      (auto simp: parse_int_def neg_def [symmetric] u_def [symmetric] Let_def split: option.splits num_error.splits if_splits)
  have "u \<noteq> []" "parse_uint_loop (2 ^ 64 - 1) 0 u = (un, None)" using un(1) by (auto simp: parse_uint_def split: if_splits)
  then show ?thesis using un(2) parse_uint_loop_digits [of _ 0 u un]
    by (simp add: big_SetString_def neg_def [symmetric] u_def [symmetric])
qed

lemma big_SetString_itoa: "big_SetString (itoa i) = Some i"
proof (cases "i < 0")
  case True
  then show ?thesis by (simp add: big_SetString_def itoa_def digits_val_utoa)
next
  case False
  have "hd (utoa n) \<noteq> CHR ''-''" "hd (utoa n) \<noteq> CHR ''+''" for n
    using utoa_no_sign [of n] utoa_nonempty [of n] hd_in_set by metis+
  with False show ?thesis by (simp add: big_SetString_def itoa_def digits_val_utoa)
qed

lemma itoa_not_cleared: "StrTo_String (itoa i) = itoa i"
proof -
  have "digit_val CHR 0x1E = None" by (simp add: digit_val_def)
  then have "CHR 0x1E \<noteq> digit_char d" if "d < 10" for d
    using digit_val_digit_char [OF that] by (metis option.distinct(1))
  then have "CHR 0x1E \<notin> set (utoa n)" for n using utoa_digits [of "CHR 0x1E" n] by metis
  then have "itoa i \<noteq> [CHR 0x1E]" by (auto simp: itoa_def) (metis list.set_intros(1))
  then show ?thesis by (simp add: StrTo_String_def StrTo_Exist_def)
qed

text \<open> The text of an integer that fits is read back exactly at 8, 16, 32 and 64 bits. At 64 bits a number that
  does not fit is not reported: Int64 falls back to a big number, returns whatever its conversion leaves and no error.\<close>

theorem StrTo_integers:
  "(if - (2 ^ 7) \<le> i \<and> i < 2 ^ 7 then StrTo_Int8 (itoa i) = (i, None) else True) \<and>
   (if - (2 ^ 15) \<le> i \<and> i < 2 ^ 15 then StrTo_Int16 (itoa i) = (i, None) else True) \<and>
   (if - (2 ^ 31) \<le> i \<and> i < 2 ^ 31 then StrTo_Int32 (itoa i) = (i, None) else True) \<and>
   StrTo_Int64 undef (itoa i) = ((if - (2 ^ 63) \<le> i \<and> i < 2 ^ 63 then i else undef i), None)"
proof -
  have "StrTo_Int64 undef (itoa i) = ((if - (2 ^ 63) \<le> i \<and> i < 2 ^ 63 then i else undef i), None)"
  proof (cases "parse_int 64 (itoa i)")
    case (Pair v e)
    show ?thesis
    proof (cases e)
      case None
      with Pair parse_int_big [of "itoa i" v] big_SetString_itoa have "v = i" by simp
      moreover have "- (2 ^ 63) \<le> v \<and> v < 2 ^ 63" using parse_int_range [of 64 "itoa i" v] Pair None by simp
      ultimately show ?thesis using Pair None by (simp add: StrTo_Int64_def itoa_not_cleared)
    next
      case (Some err)
      then show ?thesis using Pair by (simp add: StrTo_Int64_def itoa_not_cleared big_SetString_itoa big_Int64_def)
    qed
  qed
  then show ?thesis
    using parse_int_itoa [of 8 i] parse_int_itoa [of 16 i] parse_int_itoa [of 32 i]
    by (auto simp: StrTo_Int8_def StrTo_Int16_def StrTo_Int32_def itoa_not_cleared)
qed

lemma base_digits_10: "base_digits 10 n = utoa n"
proof (induction n rule: utoa.induct)
  case (1 n)
  have "base_digit d = digit_char d" if "d < 10" for d using that by (simp add: base_digit_def digit_char_def)
  with 1 show ?case by (subst base_digits.simps, subst utoa.simps) auto
qed

text \<open> ToStr prints every integer in base 10, whatever base the caller passes: ArgInt.Get replaces an argument that
  is present by the default.\<close>

theorem ToStr_ignores_base: "ToStr_int v as = itoa v \<and> ArgInt_Get as i [d] = d"
  by (simp add: ToStr_int_def ArgInt_Get_def FormatInt_def itoa_def base_digits_10)

section \<open>Struct tags: printed and parsed\<close>

definition tag_text :: "string \<times> string \<Rightarrow> string" where
  "tag_text = (\<lambda>(k, v). k @ ''('' @ v @ '')'')"

definition clean_tag :: "string \<times> string \<Rightarrow> bool" where
  "clean_tag = (\<lambda>(k, v). supportTag k = 2 \<and> CHR '')'' \<notin> set v \<and> CHR '';'' \<notin> set v)"

definition tag_name :: "string \<Rightarrow> bool" where
  "tag_name k \<longleftrightarrow> k \<noteq> [] \<and> to_lower k = k \<and> CHR ''('' \<notin> set k \<and> CHR '')'' \<notin> set k \<and> CHR '';'' \<notin> set k \<and>
     hd k \<notin> set space_chars \<and> last k \<notin> set space_chars"

lemma support_names: "supportTag k \<noteq> 0 \<Longrightarrow> tag_name k"
proof -
  have a: "list_all tag_name [''-'', ''null'', ''index'', ''unique'', ''pk'', ''auto'', ''auto_now'', ''auto_now_add'']"
    by (simp add: tag_name_def lower_char_def space_chars_def)
  have b: "list_all tag_name [''size'', ''column'', ''default'', ''rel'', ''reverse'', ''rel_table'', ''rel_through'', ''digits'']"
    by (simp add: tag_name_def lower_char_def space_chars_def)
  have c: "list_all tag_name [''decimals'', ''on_delete'', ''type'', ''description'', ''precision'', ''db_type'']"
    by (simp add: tag_name_def lower_char_def space_chars_def)
  assume "supportTag k \<noteq> 0"
  with a b c show ?thesis unfolding supportTag_def list_all_iff by (auto split: if_splits)
qed

lemma index_of_append: "c \<notin> set s \<Longrightarrow> index_of c (s @ c # t) = Some (length s)"
  by (induction s) auto

lemma index_of_None: "c \<notin> set s \<Longrightarrow> index_of c s = None"
  by (induction s) auto

lemma tag_part_attr:
  assumes "supportTag a = 1"
  shows "tag_part a (attrs, tags) = (List.insert a attrs, tags)"
proof -
  have n: "tag_name a" using assms support_names [of a] by simp
  then have "trim_space a = a" by (simp add: tag_name_def trim_space_def trim_no_cut)
  with n assms show ?thesis by (simp add: tag_part_def tag_name_def Let_def)
qed

lemma tag_part_tag:
  assumes "clean_tag (k, v)"
  shows "tag_part (tag_text (k, v)) (attrs, tags) = (attrs, AList.update k v tags)"
proof -
  have k: "supportTag k = 2" "CHR '')'' \<notin> set v" using assms by (auto simp: clean_tag_def)
  then have n: "tag_name k" using support_names [of k] by simp
  let ?t = "tag_text (k, v)"
  have sp: "CHR '')'' \<notin> set space_chars" by (simp add: space_chars_def)
  have tr: "trim_space ?t = ?t"
    unfolding trim_space_def using n sp by (intro trim_no_cut) (simp_all add: tag_text_def tag_name_def)
  have low: "to_lower ?t = k @ CHR ''('' # to_lower (v @ '')'')"
    using n by (simp add: tag_text_def tag_name_def lower_char_def)
  have "supportTag (to_lower ?t) \<noteq> 1" using support_names [of "to_lower ?t"] low by (auto simp: tag_name_def)
  moreover have "index_of CHR ''('' ?t = Some (length k)"
    using n index_of_append [of "CHR ''(''" k] by (simp add: tag_text_def tag_name_def)
  moreover have "index_of CHR '')'' ?t = Some (length ?t - 1)"
    using n k(2) index_of_append [of "CHR '')''" "k @ ''('' @ v" "[]"] by (simp add: tag_text_def tag_name_def)
  moreover have "take (length k) (to_lower ?t) = k" "butlast (drop (length k + 1) ?t) = v" "0 < length k" "?t \<noteq> []"
    using low n by (simp_all add: tag_text_def tag_name_def)
  ultimately show ?thesis using tr k(1) by (simp add: tag_part_def Let_def)
qed

lemma fold_tag_attrs: "list_all (\<lambda>a. supportTag a = 1) xs \<Longrightarrow>
  \<exists>as. fold tag_part xs (attrs, tags) = (as, tags) \<and> set as = set attrs \<union> set xs"
proof (induction xs arbitrary: attrs)
  case (Cons a xs)
  then obtain as where "fold tag_part xs (List.insert a attrs, tags) = (as, tags)" "set as = set (List.insert a attrs) \<union> set xs"
    by fastforce
  with Cons.prems show ?case by (auto simp: tag_part_attr)
qed simp

lemma fold_tag_tags: "list_all clean_tag xs \<Longrightarrow>
  fold tag_part (map tag_text xs) (attrs, tags) = (attrs, fold (\<lambda>(k, v). AList.update k v) xs tags)"
  by (induction xs arbitrary: tags) (auto simp: tag_part_tag)

lemma map_of_fold_update: "distinct (map fst xs) \<Longrightarrow>
  map_of (fold (\<lambda>(k, v). AList.update k v) xs tags) k = (case map_of xs k of Some v \<Rightarrow> Some v | None \<Rightarrow> map_of tags k)"
proof (induction xs arbitrary: tags)
  case (Cons x xs)
  then have "map_of xs (fst x) = None" by (simp add: map_of_eq_None_iff)
  with Cons show ?case by (cases x) (auto simp: update_conv' split: option.splits)
qed simp

text \<open> A struct tag written as supported attributes and supported tags with their values, separated by
  semicolons, is parsed to exactly these attributes and values.\<close>

theorem struct_tag_roundtrip:
  assumes "list_all (\<lambda>a. supportTag a = 1) attrs" "list_all clean_tag tags" "distinct (map fst tags)" "attrs \<noteq> [] \<or> tags \<noteq> []"
  shows "\<exists>as ts. ParseStructTag (join '';'' (attrs @ map tag_text tags)) = (as, ts) \<and> set as = set attrs \<and> map_of ts = map_of tags"
proof -
  have "CHR '';'' \<notin> set x" if "x \<in> set (attrs @ map tag_text tags)" for x
    using assms(1,2) that support_names by (fastforce simp: list_all_iff tag_name_def tag_text_def clean_tag_def)
  then have "split (join '';'' (attrs @ map tag_text tags)) '';'' = attrs @ map tag_text tags"
    using assms(4) by (intro split_join_single) auto
  moreover obtain as where "fold tag_part attrs ([], []) = (as, [])" "set as = set attrs"
    using fold_tag_attrs [OF assms(1), of "[]" "[]"] by auto
  moreover have "map_of (fold (\<lambda>(k, v). AList.update k v) tags []) = map_of tags"
    using map_of_fold_update [OF assms(3), of "[]"] by (auto simp: fun_eq_iff split: option.splits)
  ultimately show ?thesis using fold_tag_tags [OF assms(2)] by (simp add: ParseStructTag_def)
qed

theorem struct_tag_roundtrip_witness:
  "\<exists>as ts. ParseStructTag ''pk;auto;column(user_id);size(20)'' = (as, ts) \<and> set as = {''pk'', ''auto''} \<and> ts \<noteq> [] \<and>
     map_of ts ''column'' = Some ''user_id''"
proof -
  let ?tags = "[(''column'', ''user_id''), (''size'', ''20'')]"
  have e: "join '';'' ([''pk'', ''auto''] @ map tag_text ?tags) = ''pk;auto;column(user_id);size(20)''"
    by (simp add: tag_text_def)
  have "list_all (\<lambda>a. supportTag a = 1) [''pk'', ''auto'']" "list_all clean_tag ?tags" "distinct (map fst ?tags)" "[''pk'', ''auto''] \<noteq> [] \<or> ?tags \<noteq> []"
    by (simp_all add: supportTag_def clean_tag_def)
  from struct_tag_roundtrip [OF this, unfolded e] obtain as ts where r: "ParseStructTag ''pk;auto;column(user_id);size(20)'' = (as, ts)"
    "set as = set [''pk'', ''auto'']" "map_of ts = map_of ?tags" by blast
  have m: "map_of ts ''column'' = Some ''user_id''" unfolding r(3) by simp
  then have "ts \<noteq> []" by (cases ts) simp_all
  with r(1,2) m show ?thesis by (intro exI conjI) (assumption | simp)+
qed

end
