(* ===== verification/Orm_Models.thy ===== *)
theory Orm_Models
  imports Orm_Names
begin

unbundle bit_operations_syntax

text \<open>
  The descriptions of models and fields that the ORM keeps (\<^verbatim>\<open>client/orm/internal/models\<close>:
  \<^verbatim>\<open>models_fields.go\<close>, \<^verbatim>\<open>models_info_f.go\<close>, \<^verbatim>\<open>models_info_m.go\<close>): the types of fields with their masks,
  the collection of fields of a model with its lookups, and the table that joins two models.

  The descriptions point to each other, so a pointer to a model or to a field is a number, and a
  registry maps the numbers to the descriptions. Of a description the model has what the generation of SQL reads.
\<close>

section \<open>Types of fields\<close>

definition TypeBooleanField :: nat where "TypeBooleanField = 2 ^ 0"
definition TypeVarCharField :: nat where "TypeVarCharField = 2 ^ 1"
definition TypeCharField :: nat where "TypeCharField = 2 ^ 2"
definition TypeTextField :: nat where "TypeTextField = 2 ^ 3"
definition TypeTimeField :: nat where "TypeTimeField = 2 ^ 4"
definition TypeDateField :: nat where "TypeDateField = 2 ^ 5"
definition TypeDateTimeField :: nat where "TypeDateTimeField = 2 ^ 6"
definition TypeBitField :: nat where "TypeBitField = 2 ^ 7"
definition TypeSmallIntegerField :: nat where "TypeSmallIntegerField = 2 ^ 8"
definition TypeIntegerField :: nat where "TypeIntegerField = 2 ^ 9"
definition TypeBigIntegerField :: nat where "TypeBigIntegerField = 2 ^ 10"
definition TypePositiveBitField :: nat where "TypePositiveBitField = 2 ^ 11"
definition TypePositiveSmallIntegerField :: nat where "TypePositiveSmallIntegerField = 2 ^ 12"
definition TypePositiveIntegerField :: nat where "TypePositiveIntegerField = 2 ^ 13"
definition TypePositiveBigIntegerField :: nat where "TypePositiveBigIntegerField = 2 ^ 14"
definition TypeFloatField :: nat where "TypeFloatField = 2 ^ 15"
definition TypeDecimalField :: nat where "TypeDecimalField = 2 ^ 16"
definition TypeJSONField :: nat where "TypeJSONField = 2 ^ 17"
definition TypeJsonbField :: nat where "TypeJsonbField = 2 ^ 18"
definition TypeRelForeignKey :: nat where "TypeRelForeignKey = 2 ^ 19"
definition TypeRelOneToOne :: nat where "TypeRelOneToOne = 2 ^ 20"
definition TypeRelManyToMany :: nat where "TypeRelManyToMany = 2 ^ 21"
definition TypeRelReverseOne :: nat where "TypeRelReverseOne = 2 ^ 22"
definition TypeRelReverseMany :: nat where "TypeRelReverseMany = 2 ^ 23"

text \<open>In Go \<open>^-x\<close> is \<open>x - 1\<close>.\<close>

definition IsIntegerField :: nat where
  "IsIntegerField = push_bit 7 (drop_bit 6 (TypePositiveBigIntegerField - 1))"

definition IsPositiveIntegerField :: nat where
  "IsPositiveIntegerField = push_bit 11 (drop_bit 10 (TypePositiveBigIntegerField - 1))"

definition IsRelField :: nat where
  "IsRelField = push_bit 19 (drop_bit 18 (TypeRelReverseMany - 1))"

definition IsFieldType :: nat where
  "IsFieldType = push_bit 1 (TypeRelReverseMany - 1) + 1"

definition in_mask :: "nat \<Rightarrow> nat \<Rightarrow> bool" where
  "in_mask t m \<longleftrightarrow> t AND m > 0"

text \<open>The masks stand for the intended types: bits 7 to 14, 11 to 14, 19 to 23, and all 24.\<close>

lemma mask_bits:
  "IsIntegerField = push_bit 7 (mask 8)" "IsPositiveIntegerField = push_bit 11 (mask 4)" "IsRelField = push_bit 19 (mask 5)" "IsFieldType = mask 24"
  by (simp_all add: IsIntegerField_def IsPositiveIntegerField_def IsRelField_def IsFieldType_def TypePositiveBigIntegerField_def
      TypeRelReverseMany_def push_bit_eq_mult drop_bit_eq_div mask_eq_exp_minus_1)

lemma power_in_mask: "in_mask (2 ^ k) m \<longleftrightarrow> bit m k"
proof -
  have "(2 ^ k AND m) = (if bit m k then 2 ^ k else (0 :: nat))"
    by (rule bit_eqI) (auto simp: bit_and_iff bit_exp_iff)
  then show ?thesis by (simp add: in_mask_def)
qed

lemma field_masks:
  "in_mask (2 ^ k) IsIntegerField \<longleftrightarrow> 7 \<le> k \<and> k \<le> 14"
  "in_mask (2 ^ k) IsPositiveIntegerField \<longleftrightarrow> 11 \<le> k \<and> k \<le> 14"
  "in_mask (2 ^ k) IsRelField \<longleftrightarrow> 19 \<le> k \<and> k \<le> 23"
  "in_mask (2 ^ k) IsFieldType \<longleftrightarrow> k \<le> 23"
  by (auto simp: power_in_mask mask_bits bit_push_bit_iff bit_mask_iff)

section \<open>Descriptions\<close>

record FieldInfo =
  Name :: string
  Column :: string
  FieldType :: nat
  Auto :: bool
  Pk :: bool
  Null :: bool
  DBcol :: bool
  Rel :: bool
  Reverse :: bool
  Mi :: nat
  RelModelInfo :: nat
  RelThroughModelInfo :: nat
  ReverseFieldInfo :: nat

record Fields =
  fs_Pk :: "nat option"
  Columns :: "string \<rightharpoonup> nat"
  fs_Fields :: "string \<rightharpoonup> nat"
  FieldsLow :: "string \<rightharpoonup> nat"
  FieldsByType :: "nat \<rightharpoonup> nat list"
  FieldsRel :: "nat list"
  FieldsReverse :: "nat list"
  FieldsDB :: "nat list"
  Orders :: "string list"
  DBcols :: "string list"

record ModelInfo =
  IsThrough :: bool
  mi_Name :: string
  mi_FullName :: string
  mi_Pkg :: string
  Table :: string
  mi_Fields :: Fields

record registry =
  field :: "nat \<Rightarrow> FieldInfo"
  model :: "nat \<Rightarrow> ModelInfo"

definition NewFields :: Fields where
  "NewFields = \<lparr>fs_Pk = None, Columns = Map.empty, fs_Fields = Map.empty, FieldsLow = Map.empty, FieldsByType = Map.empty,
     FieldsRel = [], FieldsReverse = [], FieldsDB = [], Orders = [], DBcols = []\<rparr>"

definition Fields_Add :: "registry \<Rightarrow> nat \<Rightarrow> Fields \<Rightarrow> bool \<times> Fields" where
  "Fields_Add R i f =
     (let fi = field R i in
      if fs_Fields f (Name fi) = None \<and> Columns f (Column fi) = None then
        let f = f\<lparr>Columns := (Columns f)(Column fi \<mapsto> i), fs_Fields := (fs_Fields f)(Name fi \<mapsto> i),
                  FieldsLow := (FieldsLow f)(to_lower (Name fi) \<mapsto> i)\<rparr>;
            f = (if FieldsByType f (FieldType fi) = None then f\<lparr>FieldsByType := (FieldsByType f)(FieldType fi \<mapsto> [])\<rparr> else f);
            f = f\<lparr>FieldsByType := (FieldsByType f)(FieldType fi \<mapsto> the (FieldsByType f (FieldType fi)) @ [i])\<rparr>;
            f = f\<lparr>Orders := Orders f @ [Column fi]\<rparr>;
            f = (if DBcol fi then f\<lparr>DBcols := DBcols f @ [Column fi], FieldsDB := FieldsDB f @ [i]\<rparr> else f);
            f = (if Rel fi then f\<lparr>FieldsRel := FieldsRel f @ [i]\<rparr> else f);
            f = (if Reverse fi then f\<lparr>FieldsReverse := FieldsReverse f @ [i]\<rparr> else f)
        in (True, f)
      else (False, f))"

definition GetByName :: "Fields \<Rightarrow> string \<Rightarrow> nat option" where
  "GetByName f name = fs_Fields f name"

definition GetByColumn :: "Fields \<Rightarrow> string \<Rightarrow> nat option" where
  "GetByColumn f column = Columns f column"

definition GetByAny :: "Fields \<Rightarrow> string \<Rightarrow> nat option" where
  "GetByAny f name =
     (case fs_Fields f name of
        Some i \<Rightarrow> Some i
      | None \<Rightarrow> (case FieldsLow f (to_lower name) of
          Some i \<Rightarrow> Some i
        | None \<Rightarrow> Columns f name))"

section \<open>Collections that were built by adding fields\<close>

inductive built :: "registry \<Rightarrow> Fields \<Rightarrow> bool" for R where
  new: "built R NewFields"
| add: "built R f \<Longrightarrow> built R (snd (Fields_Add R i f))"
| pk: "built R f \<Longrightarrow> built R (f\<lparr>fs_Pk := p\<rparr>)"

definition fields_ok :: "registry \<Rightarrow> Fields \<Rightarrow> bool" where
  "fields_ok R f \<longleftrightarrow>
     (\<forall>n i. fs_Fields f n = Some i \<longrightarrow> Name (field R i) = n \<and> Columns f (Column (field R i)) = Some i) \<and>
     (\<forall>c i. Columns f c = Some i \<longrightarrow> Column (field R i) = c \<and> fs_Fields f (Name (field R i)) = Some i) \<and>
     (\<forall>l i. FieldsLow f l = Some i \<longrightarrow> to_lower (Name (field R i)) = l \<and> fs_Fields f (Name (field R i)) = Some i) \<and>
     (\<forall>n i. fs_Fields f n = Some i \<longrightarrow> FieldsLow f (to_lower n) \<noteq> None) \<and>
     (\<forall>i. i \<in> set (FieldsRel f) \<longleftrightarrow> fs_Fields f (Name (field R i)) = Some i \<and> Rel (field R i)) \<and>
     (\<forall>i. i \<in> set (FieldsDB f) \<longleftrightarrow> fs_Fields f (Name (field R i)) = Some i \<and> DBcol (field R i)) \<and>
     DBcols f = map (\<lambda>i. Column (field R i)) (FieldsDB f) \<and> distinct (Orders f)  \<and> set (Orders f) = dom (Columns f)"

lemma Fields_Add_refused:
  "fs_Fields f (Name (field R i)) \<noteq> None \<or> Columns f (Column (field R i)) \<noteq> None \<Longrightarrow> Fields_Add R i f = (False, f)"
  by (auto simp: Fields_Add_def Let_def)

lemma Fields_Add_added:
  assumes "fs_Fields f (Name (field R i)) = None" "Columns f (Column (field R i)) = None"
  shows "fst (Fields_Add R i f)"
    "Columns (snd (Fields_Add R i f)) = (Columns f)(Column (field R i) \<mapsto> i)"
    "fs_Fields (snd (Fields_Add R i f)) = (fs_Fields f)(Name (field R i) \<mapsto> i)"
    "FieldsLow (snd (Fields_Add R i f)) = (FieldsLow f)(to_lower (Name (field R i)) \<mapsto> i)"
    "FieldsRel (snd (Fields_Add R i f)) = FieldsRel f @ (if Rel (field R i) then [i] else [])"
    "FieldsDB (snd (Fields_Add R i f)) = FieldsDB f @ (if DBcol (field R i) then [i] else [])"
    "DBcols (snd (Fields_Add R i f)) = DBcols f @ (if DBcol (field R i) then [Column (field R i)] else [])"
    "Orders (snd (Fields_Add R i f)) = Orders f @ [Column (field R i)]"
  using assms by (simp_all add: Fields_Add_def Let_def)

lemma fields_okD:
  assumes "fields_ok R f"
  shows "fs_Fields f n = Some i \<Longrightarrow> Name (field R i) = n"
    "fs_Fields f n = Some i \<Longrightarrow> Columns f (Column (field R i)) = Some i"
    "Columns f c = Some i \<Longrightarrow> Column (field R i) = c"
    "Columns f c = Some i \<Longrightarrow> fs_Fields f (Name (field R i)) = Some i"
    "FieldsLow f l = Some i \<Longrightarrow> to_lower (Name (field R i)) = l"
    "FieldsLow f l = Some i \<Longrightarrow> fs_Fields f (Name (field R i)) = Some i"
    "fs_Fields f n = Some i \<Longrightarrow> FieldsLow f (to_lower n) \<noteq> None"
    "i \<in> set (FieldsRel f) \<longleftrightarrow> fs_Fields f (Name (field R i)) = Some i \<and> Rel (field R i)"
    "i \<in> set (FieldsDB f) \<longleftrightarrow> fs_Fields f (Name (field R i)) = Some i \<and> DBcol (field R i)"
    "DBcols f = map (\<lambda>i. Column (field R i)) (FieldsDB f)" "distinct (Orders f)" "set (Orders f) = dom (Columns f)"
  using assms unfolding fields_ok_def by blast+

lemma upd_Some_cases:
  assumes "(m(a \<mapsto> b)) x = Some j"
  obtains "x = a" "j = b" | "m x = Some j" "x \<noteq> a"
  using assms by (cases "x = a") auto

lemma fields_ok_add:
  assumes "fields_ok R f"
  shows "fields_ok R (snd (Fields_Add R i f))"
proof (cases "fs_Fields f (Name (field R i)) = None \<and> Columns f (Column (field R i)) = None")
  case True
  then have n: "fs_Fields f (Name (field R i)) = None" and c: "Columns f (Column (field R i)) = None" by simp_all
  note a = Fields_Add_added [OF n c]
  note d = fields_okD [OF assms]
  have same: "Name (field R j) \<noteq> Name (field R i)" "Column (field R j) \<noteq> Column (field R i)" "j \<noteq> i" if "fs_Fields f (Name (field R j)) = Some j" for j
    using that n c d(2) [OF that] by auto
  show ?thesis
    unfolding fields_ok_def a
  proof (intro conjI allI impI)
    fix x j
    {
      assume "((fs_Fields f)(Name (field R i) \<mapsto> i)) x = Some j"
      then have "Name (field R j) = x \<and> ((Columns f)(Column (field R i) \<mapsto> i)) (Column (field R j)) = Some j \<and>
          ((FieldsLow f)(to_lower (Name (field R i)) \<mapsto> i)) (to_lower x) \<noteq> None"
      proof (cases rule: upd_Some_cases)
        case 2
        with d(1) [OF 2(1)] same [of j] show ?thesis using d(2) [OF 2(1)] d(7) [OF 2(1)] by simp
      qed simp
      then show "Name (field R j) = x" "((Columns f)(Column (field R i) \<mapsto> i)) (Column (field R j)) = Some j"
          "((FieldsLow f)(to_lower (Name (field R i)) \<mapsto> i)) (to_lower x) \<noteq> None" by blast+
    next
      assume "((Columns f)(Column (field R i) \<mapsto> i)) x = Some j"
      then have "Column (field R j) = x \<and> ((fs_Fields f)(Name (field R i) \<mapsto> i)) (Name (field R j)) = Some j"
      proof (cases rule: upd_Some_cases)
        case 2
        with d(3) [OF 2(1)] d(4) [OF 2(1)] same [of j] show ?thesis by simp
      qed simp
      then show "Column (field R j) = x" "((fs_Fields f)(Name (field R i) \<mapsto> i)) (Name (field R j)) = Some j" by blast+
    next
      assume "((FieldsLow f)(to_lower (Name (field R i)) \<mapsto> i)) x = Some j"
      then have "to_lower (Name (field R j)) = x \<and> ((fs_Fields f)(Name (field R i) \<mapsto> i)) (Name (field R j)) = Some j"
      proof (cases rule: upd_Some_cases)
        case 2
        with d(5) [OF 2(1)] d(6) [OF 2(1)] same [of j] show ?thesis by simp
      qed simp
      then show "to_lower (Name (field R j)) = x" "((fs_Fields f)(Name (field R i) \<mapsto> i)) (Name (field R j)) = Some j" by blast+
    }
  next
    fix j
    have m: "((fs_Fields f)(Name (field R i) \<mapsto> i)) (Name (field R j)) = Some j \<longleftrightarrow> j = i \<or> fs_Fields f (Name (field R j)) = Some j"
      using same [of j] by auto
    show "(j \<in> set (FieldsRel f @ (if Rel (field R i) then [i] else []))) =
        (((fs_Fields f)(Name (field R i) \<mapsto> i)) (Name (field R j)) = Some j \<and> Rel (field R j))"
      unfolding m by (auto simp: d(8))
    show "(j \<in> set (FieldsDB f @ (if DBcol (field R i) then [i] else []))) =
        (((fs_Fields f)(Name (field R i) \<mapsto> i)) (Name (field R j)) = Some j \<and> DBcol (field R j))"
      unfolding m by (auto simp: d(9))
  next
    show "DBcols f @ (if DBcol (field R i) then [Column (field R i)] else []) =
        map (\<lambda>i. Column (field R i)) (FieldsDB f @ (if DBcol (field R i) then [i] else []))" by (simp add: d(10))
    show "distinct (Orders f @ [Column (field R i)])" using d(11,12) c by auto
    show "set (Orders f @ [Column (field R i)]) = dom ((Columns f)(Column (field R i) \<mapsto> i))" by (auto simp: d(12))
  qed
next
  case False
  then have "Fields_Add R i f = (False, f)" by (intro Fields_Add_refused) auto
  then show ?thesis using assms by simp
qed

lemma built_fields_ok: "built R f \<Longrightarrow> fields_ok R f"
proof (induction rule: built.induct)
  case new
  show ?case by (simp add: fields_ok_def NewFields_def)
next
  case (add f i)
  then show ?case by (intro fields_ok_add)
next
  case (pk f p)
  then show ?case by (simp add: fields_ok_def)
qed

text \<open>C27. However fields were added to a model, its maps by name, by lower-case name and by column describe the same fields,
  its list of relations and its list of columns follow them, and no column is listed twice.\<close>

theorem model_fields_consistent:
  assumes "built R f"
  shows "fields_ok R f"
  using assms by (rule built_fields_ok)

definition demo_field :: "string \<Rightarrow> string \<Rightarrow> bool \<Rightarrow> FieldInfo" where
  "demo_field n c r = \<lparr>Name = n, Column = c, FieldType = (if r then TypeRelForeignKey else TypeVarCharField), Auto = False, Pk = False, Null = False,
     DBcol = True, Rel = r, Reverse = False, Mi = 0, RelModelInfo = 1, RelThroughModelInfo = 0, ReverseFieldInfo = 0\<rparr>"

definition demo_fields :: "nat \<Rightarrow> FieldInfo" where
  "demo_fields i = (if i = 0 then demo_field ''Name'' ''name'' False else demo_field ''User'' ''user_id'' True)"

theorem model_fields_consistent_witness:
  "let R = \<lparr>field = demo_fields, model = undefined\<rparr>
   in fields_ok R (snd (Fields_Add R 1 (snd (Fields_Add R 0 NewFields))))"
  unfolding Let_def by (rule model_fields_consistent) (intro built.intros)

lemma GetByAny_registered: "fields_ok R f \<Longrightarrow> GetByAny f x = Some i \<Longrightarrow> fs_Fields f (Name (field R i)) = Some i"
  by (auto simp: GetByAny_def fields_okD split: option.splits)

lemma GetByAny_Name: "fs_Fields f n = Some i \<Longrightarrow> GetByAny f n = Some i"
  by (simp add: GetByAny_def)

text \<open>A column that is not the name of another field, up to case, is found as well.\<close>

lemma GetByAny_Column: "fs_Fields f c = None \<Longrightarrow> FieldsLow f (to_lower c) = None \<Longrightarrow> GetByAny f c = GetByColumn f c"
  by (simp add: GetByAny_def GetByColumn_def)

end
