(* ===== verification/Orm_Dialect.thy ===== *)
theory Orm_Dialect
  imports Orm_Models
begin

text \<open>
  The SQL of single statements and its dialects: \<^verbatim>\<open>client/orm/db.go\<close> (insert, update, delete, operators, hints),
  with the variants of \<^verbatim>\<open>db_mysql.go\<close>, \<^verbatim>\<open>db_tidb.go\<close>, \<^verbatim>\<open>db_postgres.go\<close>, \<^verbatim>\<open>db_sqlite.go\<close> and \<^verbatim>\<open>db_oracle.go\<close>. A statement is built for
  placeholders \<^verbatim>\<open>?\<close>, which \<^verbatim>\<open>ReplaceMarks\<close> numbers for PostgreSQL.
\<close>

section \<open>Dialects\<close>

datatype dialect = DMysql | DTidb | DPostgres | DSqlite | DOracle

definition TableQuote :: "dialect \<Rightarrow> string" where
  "TableQuote d = (if d = DPostgres then [CHR 0x22] else [CHR 0x60])"

definition MaxLimit :: "dialect \<Rightarrow> nat" where
  "MaxLimit d = (if d = DPostgres then 0 else if d = DSqlite then 9223372036854775807 else 18446744073709551615)"

definition SupportUpdateJoin :: "dialect \<Rightarrow> bool" where
  "SupportUpdateJoin d \<longleftrightarrow> d \<noteq> DPostgres \<and> d \<noteq> DSqlite"

definition mysqlOperators :: "(string \<times> string) list" where
  "mysqlOperators = [(''exact'', ''= ?''), (''iexact'', ''LIKE ?''), (''strictexact'', ''= BINARY ?''), (''contains'', ''LIKE BINARY ?''),
     (''icontains'', ''LIKE ?''), (''gt'', ''> ?''), (''gte'', ''>= ?''), (''lt'', ''< ?''), (''lte'', ''<= ?''), (''eq'', ''= ?''), (''ne'', ''!= ?''),
     (''startswith'', ''LIKE BINARY ?''), (''endswith'', ''LIKE BINARY ?''), (''istartswith'', ''LIKE ?''), (''iendswith'', ''LIKE ?'')]"

definition postgresOperators :: "(string \<times> string) list" where
  "postgresOperators = [(''exact'', ''= ?''), (''iexact'', ''= UPPER(?)''), (''contains'', ''LIKE ?''), (''icontains'', ''LIKE UPPER(?)''),
     (''gt'', ''> ?''), (''gte'', ''>= ?''), (''lt'', ''< ?''), (''lte'', ''<= ?''), (''eq'', ''= ?''), (''ne'', ''!= ?''),
     (''startswith'', ''LIKE ?''), (''endswith'', ''LIKE ?''), (''istartswith'', ''LIKE UPPER(?)''), (''iendswith'', ''LIKE UPPER(?)'')]"

definition like_escape :: string where
  "like_escape = ''LIKE ? ESCAPE '' @ [CHR 0x27, CHR 0x5C, CHR 0x27]"

definition sqliteOperators :: "(string \<times> string) list" where
  "sqliteOperators = [(''exact'', ''= ?''), (''iexact'', like_escape), (''contains'', like_escape), (''icontains'', like_escape),
     (''gt'', ''> ?''), (''gte'', ''>= ?''), (''lt'', ''< ?''), (''lte'', ''<= ?''), (''eq'', ''= ?''), (''ne'', ''!= ?''),
     (''startswith'', like_escape), (''endswith'', like_escape), (''istartswith'', like_escape), (''iendswith'', like_escape)]"

definition oracleOperators :: "(string \<times> string) list" where
  "oracleOperators = [(''exact'', ''= ?''), (''gt'', ''> ?''), (''gte'', ''>= ?''), (''lt'', ''< ?''), (''lte'', ''<= ?''), (''//iendswith'', ''LIKE ?'')]"

fun operator_table :: "dialect \<Rightarrow> (string \<times> string) list" where
  "operator_table DMysql = mysqlOperators"
| "operator_table DTidb = mysqlOperators"
| "operator_table DPostgres = postgresOperators"
| "operator_table DSqlite = sqliteOperators"
| "operator_table DOracle = oracleOperators"

definition OperatorSQL :: "dialect \<Rightarrow> string \<Rightarrow> string" where
  "OperatorSQL d operator = (case map_of (operator_table d) operator of None \<Rightarrow> [] | Some s \<Rightarrow> s)"

definition operators :: "string list" where
  "operators = [''exact'', ''iexact'', ''strictexact'', ''contains'', ''icontains'', ''gt'', ''gte'', ''lt'', ''lte'', ''eq'', ''nq'', ''ne'',
     ''startswith'', ''endswith'', ''istartswith'', ''iendswith'', ''in'', ''between'', ''isnull'']"

definition GenerateOperatorLeftCol :: "dialect \<Rightarrow> FieldInfo \<Rightarrow> string \<Rightarrow> string \<Rightarrow> string" where
  "GenerateOperatorLeftCol d fi operator leftCol =
     (case d of
        DPostgres \<Rightarrow>
          if operator \<in> {''contains'', ''startswith'', ''endswith''} then leftCol @ ''::text''
          else if operator \<in> {''iexact'', ''icontains'', ''istartswith'', ''iendswith''} then ''UPPER('' @ leftCol @ ''::text)''
          else leftCol
      | DSqlite \<Rightarrow> if FieldType fi = TypeDateField then ''DATE('' @ leftCol @ '')'' else leftCol
      | _ \<Rightarrow> leftCol)"

text \<open>The numbering of the placeholders.\<close>

fun marks_loop :: "nat \<Rightarrow> string \<Rightarrow> string" where
  "marks_loop num [] = []"
| "marks_loop num (c # q) =
     (if c = CHR ''?'' then CHR ''$'' # itoa (int num) @ marks_loop (num + 1) q else c # marks_loop num q)"

definition count_marks :: "string \<Rightarrow> nat" where
  "count_marks q = length (filter (\<lambda>c. c = CHR ''?'') q)"

definition ReplaceMarks :: "dialect \<Rightarrow> string \<Rightarrow> string" where
  "ReplaceMarks d q = (if d = DPostgres then (if count_marks q = 0 then q else marks_loop 1 q) else q)"

definition HasReturningID :: "dialect \<Rightarrow> FieldInfo \<Rightarrow> string \<Rightarrow> bool \<times> string" where
  "HasReturningID d pk query =
     (if d \<noteq> DPostgres then (False, query)
      else if \<not> in_mask (FieldType pk) IsPositiveIntegerField \<and> \<not> in_mask (FieldType pk) IsIntegerField then (False, query)
      else (True, query @ '' RETURNING '' @ [CHR 0x22] @ Column pk @ [CHR 0x22]))"

datatype index_hint = KeyForceIndex | KeyUseIndex | KeyIgnoreIndex | OtherHint

definition quoted :: "dialect \<Rightarrow> string \<Rightarrow> string" where
  "quoted d s = TableQuote d @ s @ TableQuote d"

definition GenerateSpecifyIndex :: "dialect \<Rightarrow> string \<Rightarrow> index_hint \<Rightarrow> string list \<Rightarrow> string" where
  "GenerateSpecifyIndex d tableName useIndex indexes =
     (let s = join '','' (map (quoted d) indexes) in
      case d of
        DPostgres \<Rightarrow> []
      | DSqlite \<Rightarrow> (case useIndex of
            KeyUseIndex \<Rightarrow> '' INDEXED BY '' @ s @ '' ''
          | KeyForceIndex \<Rightarrow> '' INDEXED BY '' @ s @ '' ''
          | _ \<Rightarrow> [])
      | DOracle \<Rightarrow> (case useIndex of
            KeyUseIndex \<Rightarrow> '' /*+ INDEX('' @ tableName @ '' '' @ s @ '')*/ ''
          | KeyForceIndex \<Rightarrow> '' /*+ INDEX('' @ tableName @ '' '' @ s @ '')*/ ''
          | KeyIgnoreIndex \<Rightarrow> '' /*+ NO_INDEX('' @ tableName @ '' '' @ s @ '')*/ ''
          | OtherHint \<Rightarrow> [])
      | _ \<Rightarrow> (case useIndex of
            KeyUseIndex \<Rightarrow> '' USE INDEX('' @ s @ '') ''
          | KeyForceIndex \<Rightarrow> '' FORCE INDEX('' @ s @ '') ''
          | KeyIgnoreIndex \<Rightarrow> '' IGNORE INDEX('' @ s @ '') ''
          | OtherHint \<Rightarrow> []))"

section \<open>Insert, update and delete\<close>

text \<open>The loops that write a list with a separator before every element but the first.\<close>

fun sep_loop :: "string \<Rightarrow> ('a \<Rightarrow> string) \<Rightarrow> nat \<Rightarrow> 'a list \<Rightarrow> string" where
  "sep_loop sep f i [] = []"
| "sep_loop sep f i (x # xs) = (if i > 0 then sep else []) @ f x @ sep_loop sep f (i + 1) xs"

fun repeat_loop :: "nat \<Rightarrow> string \<Rightarrow> string" where
  "repeat_loop 0 s = []"
| "repeat_loop (Suc n) s = s @ repeat_loop n s"

datatype sql_panic = DivideByZero | IndexRange | NeedArgs string | NeedTwo string nat | NeedOne string nat | NeedBool string
  | NilPointer | UnknownTable string | UnknownField string | UnknownModel string

definition InsertValueSQL :: "dialect \<Rightarrow> string list \<Rightarrow> 'v list \<Rightarrow> bool \<Rightarrow> string \<Rightarrow> sql_panic + string" where
  "InsertValueSQL d names values isMulti table =
     (let qmarks = join '', '' (map (\<lambda>_. ''?'') names) in
      if length names = 0 then Inl DivideByZero
      else let multi = length values div length names;
               rest = (if isMulti \<and> multi > 1 then repeat_loop (multi - 1) (''), ('' @ qmarks) else [])
           in Inr (ReplaceMarks d (''INSERT INTO '' @ quoted d table @ '' ('' @ sep_loop '', '' (quoted d) 0 names @ '') VALUES ('' @ qmarks @ rest @ '')'')))"

definition UpdateSQL :: "dialect \<Rightarrow> string list \<Rightarrow> string \<Rightarrow> string \<Rightarrow> string" where
  "UpdateSQL d setNames pkName table =
     ReplaceMarks d (''UPDATE '' @ quoted d table @ '' SET '' @ sep_loop '', '' (\<lambda>n. quoted d n @ '' = ?'') 0 setNames @
       '' WHERE '' @ quoted d pkName @ '' = ?'')"

definition DeleteSQL :: "dialect \<Rightarrow> string list \<Rightarrow> string \<Rightarrow> string" where
  "DeleteSQL d whereCols table =
     ReplaceMarks d (''DELETE FROM '' @ quoted d table @ '' WHERE '' @ sep_loop '' AND '' (\<lambda>n. quoted d n @ '' = ?'') 0 whereCols)"

datatype col_op = ColAdd | ColMinus | ColMultiply | ColExcept | ColBitAnd | ColBitRShift | ColBitLShift | ColBitXOR | ColBitOr

datatype 'v set_value = Plain 'v | ColVal col_op int

fun op_sql :: "col_op \<Rightarrow> string" where
  "op_sql ColAdd = '' + ?''"
| "op_sql ColMinus = '' - ?''"
| "op_sql ColMultiply = '' * ?''"
| "op_sql ColExcept = '' / ?''"
| "op_sql ColBitAnd = '' & ?''"
| "op_sql ColBitRShift = '' >> ?''"
| "op_sql ColBitLShift = '' << ?''"
| "op_sql ColBitXOR = '' ^ ?''"
| "op_sql ColBitOr = '' | ?''"

definition set_item :: "dialect \<Rightarrow> string \<times> 'v set_value \<Rightarrow> string" where
  "set_item d cv = (case cv of (v, x) \<Rightarrow>
     let owner = (if SupportUpdateJoin d then ''T0.'' else []) in
     owner @ quoted d v @ '' = '' @ (case x of ColVal opt n \<Rightarrow> owner @ quoted d v @ op_sql opt | Plain y \<Rightarrow> ''?''))"

definition buildSetSQL :: "dialect \<Rightarrow> string list \<Rightarrow> 'v set_value list \<Rightarrow> sql_panic + string" where
  "buildSetSQL d cols values =
     (if length values < length cols then Inl IndexRange else Inr (''SET '' @ sep_loop '', '' (set_item d) 0 (zip cols values)))"

definition UpdateBatchSQL :: "dialect \<Rightarrow> string \<Rightarrow> string \<Rightarrow> string list \<Rightarrow> 'v set_value list \<Rightarrow> string \<Rightarrow> string \<Rightarrow> string \<Rightarrow> sql_panic + string" where
  "UpdateBatchSQL d table pkColumn cols values specifyIndexes join' where' =
     res_bind (buildSetSQL d cols values) (\<lambda>set.
       Inr (ReplaceMarks d
         (if SupportUpdateJoin d
          then ''UPDATE '' @ quoted d table @ '' T0 '' @ specifyIndexes @ join' @ set @ '' '' @ where'
          else ''UPDATE '' @ quoted d table @ '' '' @ set @ '' WHERE '' @ quoted d pkColumn @ '' IN ( '' @ ''SELECT T0.'' @ quoted d pkColumn @
            '' FROM '' @ quoted d table @ '' T0 '' @ specifyIndexes @ join' @ where' @ '' )'')))"

section \<open>Insert or update\<close>

datatype iou_error = NoConflictColumn | Nonsupport | NotInFront string string | IouPanic sql_panic

fun args_map :: "string list \<Rightarrow> (string \<rightharpoonup> string) \<Rightarrow> (string \<rightharpoonup> string)" where
  "args_map [] m = m"
| "args_map (v # vs) m = args_map vs (case split v ''='' of [k, x] \<Rightarrow> m(to_lower k \<mapsto> x) | _ \<Rightarrow> m)"

text \<open>The loop over the names: the position, the value of the conflict column, the values, the text. An absent value is the nil interface.\<close>

fun iou_loop :: "dialect \<Rightarrow> bool \<Rightarrow> string \<Rightarrow> string \<Rightarrow> (string \<rightharpoonup> string) \<Rightarrow> nat \<Rightarrow> string list \<Rightarrow> 'v option \<Rightarrow> 'v option list \<Rightarrow> string
    \<Rightarrow> iou_error + string \<times> 'v option list" where
  "iou_loop d mysql table args0 am i [] cv values buf = Inr (buf, values)"
| "iou_loop d mysql table args0 am i (n # ns) cv values buf =
     (let v = quoted d n;
          buf = buf @ (if i > 0 then '', '' else []);
          valueStr = (case am (to_lower v) of None \<Rightarrow> [] | Some x \<Rightarrow> x)
      in if v = args0 \<and> length values \<le> i then Inl (IouPanic IndexRange)
         else let cv = (if v = args0 then values ! i else cv) in
           if valueStr \<noteq> [] then
             (if mysql then iou_loop d mysql table args0 am (i + 1) ns cv values (buf @ v @ ''='' @ valueStr)
              else if cv \<noteq> None then
                iou_loop d mysql table args0 am (i + 1) ns cv (values @ [cv])
                  (buf @ v @ ''=(select '' @ valueStr @ '' from '' @ table @ '' where '' @ args0 @ '' = ? )'')
              else Inl (NotInFront args0 v))
           else if length values \<le> i then Inl (IouPanic IndexRange)
           else iou_loop d mysql table args0 am (i + 1) ns cv (values @ [values ! i]) (buf @ v @ ''=?''))"

text \<open>The driver is MySQL or PostgreSQL, other drivers are refused.\<close>

definition InsertOrUpdateSQL :: "dialect \<Rightarrow> string \<Rightarrow> string list \<Rightarrow> 'v option list \<Rightarrow> string \<Rightarrow> string list \<Rightarrow> iou_error + string \<times> 'v option list" where
  "InsertOrUpdateSQL d driver names values table args =
     (if driver \<noteq> ''mysql'' \<and> driver \<noteq> ''postgres'' then Inl Nonsupport
      else if driver = ''postgres'' \<and> args = [] then Inl NoConflictColumn
      else let args0 = (if driver = ''postgres'' then to_lower (hd args) else []);
               start = ''INSERT INTO '' @ quoted d table @ '' ('' @ sep_loop '', '' (quoted d) 0 names @ '') VALUES ('' @
                 sep_loop '', '' (\<lambda>_. ''?'') 0 names @ '') '' @
                 (if driver = ''mysql'' then ''ON DUPLICATE KEY UPDATE '' else ''ON CONFLICT ('' @ args0 @ '') DO UPDATE SET '')
           in res_bind (iou_loop d (driver = ''mysql'') table args0 (args_map args Map.empty) 0 names None values start)
                (\<lambda>(q, vs). Inr (ReplaceMarks d q, vs)))"

section \<open>Operators\<close>

text \<open>Arguments of conditions. What the conversions of the standard library make of times and floating point numbers is a parameter: the text of a
  floating point number is part of the value, and \<open>time_text\<close> stands for parsing and formatting a time in the location of the database.
  \<open>pk_of\<close> is the primary key of a struct, if it is a registered model with a set key.\<close>

datatype oval = ONil | OBool bool | OInt int | OUint nat | OFloat string | OStr string | OBytes string | OSlice "oval list"
  | OTime string | OStruct string | OPtr oval | ONilPtr | OOther string

record conv_env =
  time_text :: "nat \<Rightarrow> string \<Rightarrow> string"
  time_format :: "nat \<Rightarrow> string \<Rightarrow> string"
  pk_of :: "string \<Rightarrow> oval option"

definition is_time_type :: "nat \<Rightarrow> bool" where
  "is_time_type t \<longleftrightarrow> t = TypeTimeField \<or> t = TypeDateField \<or> t = TypeDateTimeField"

fun deref_arg :: "oval \<Rightarrow> oval" where
  "deref_arg (OPtr x) = x"
| "deref_arg x = x"

function getFlatParams :: "conv_env \<Rightarrow> nat \<Rightarrow> oval list \<Rightarrow> sql_panic + oval list" where
  "getFlatParams E t [] = Inr []"
| "getFlatParams E t (a # as) =
     (case deref_arg a of
        ONilPtr \<Rightarrow> Inl NilPointer
      | OBytes b \<Rightarrow> getFlatParams E t as
      | OSlice xs \<Rightarrow>
          (let args = filter (\<lambda>x. x \<noteq> ONil) xs in
           res_bind (getFlatParams E t args) (\<lambda>ps. res_bind (getFlatParams E t as) (\<lambda>qs. Inr (ps @ qs))))
      | OStr s \<Rightarrow> res_bind (getFlatParams E t as) (\<lambda>qs. Inr (OStr (if is_time_type t then time_text E t s else s) # qs))
      | OTime x \<Rightarrow> res_bind (getFlatParams E t as) (\<lambda>qs. Inr (OStr (time_format E t x) # qs))
      | OStruct n \<Rightarrow> (case pk_of E n of
            None \<Rightarrow> Inl (UnknownTable n)
          | Some v \<Rightarrow> res_bind (getFlatParams E t as) (\<lambda>qs. Inr (v # qs)))
      | v \<Rightarrow> res_bind (getFlatParams E t as) (\<lambda>qs. Inr (v # qs)))"
  by pat_completeness auto
termination
proof (relation "measure (\<lambda>(E, t, as). size_list size as)")
  fix E :: conv_env and t :: nat and a and as :: "oval list" and xs args
  assume "deref_arg a = OSlice xs" "args = filter (\<lambda>x. x \<noteq> ONil) xs"
  moreover have "size_list size (filter (\<lambda>x. x \<noteq> ONil) xs) \<le> size_list size xs" for xs :: "oval list" by (induction xs) auto
  moreover have "size_list size xs < size a" using \<open>deref_arg a = OSlice xs\<close> by (cases a rule: deref_arg.cases) auto
  ultimately show "((E, t, args), E, t, a # as) \<in> measure (\<lambda>(E, t, as). size_list size as)"
    by simp (metis add_strict_increasing le_less_trans less_SucI not_add_less1 not_le trans_less_add1)
qed simp_all

fun oval_ToStr :: "oval \<Rightarrow> string" where
  "oval_ToStr ONil = ''<nil>''"
| "oval_ToStr (OBool b) = (if b then ''true'' else ''false'')"
| "oval_ToStr (OInt i) = itoa i"
| "oval_ToStr (OUint n) = utoa n"
| "oval_ToStr (OFloat s) = s"
| "oval_ToStr (OStr s) = s"
| "oval_ToStr (OOther s) = s"
| "oval_ToStr _ = []"

definition like_operators :: "string list" where
  "like_operators = [''iexact'', ''contains'', ''icontains'', ''startswith'', ''endswith'', ''istartswith'', ''iendswith'']"

definition like_param :: "string \<Rightarrow> string \<Rightarrow> string" where
  "like_param operator param =
     (if operator = ''contains'' \<or> operator = ''icontains'' then ''%'' @ param @ ''%''
      else if operator = ''startswith'' \<or> operator = ''istartswith'' then param @ ''%''
      else if operator = ''endswith'' \<or> operator = ''iendswith'' then ''%'' @ param
      else param)"

definition GenerateOperatorSQL :: "conv_env \<Rightarrow> dialect \<Rightarrow> FieldInfo \<Rightarrow> string \<Rightarrow> oval list \<Rightarrow> sql_panic + string \<times> oval list" where
  "GenerateOperatorSQL E d fi operator args =
     res_bind (getFlatParams E (FieldType fi) args) (\<lambda>params.
       case params of
         [] \<Rightarrow> Inl (NeedArgs operator)
       | arg # rest \<Rightarrow>
           if operator = ''in'' then Inr (''IN ('' @ join '', '' (map (\<lambda>_. ''?'') params) @ '')'', params)
           else if operator = ''between'' then
             (if length params \<noteq> 2 then Inl (NeedTwo operator (length params)) else Inr (''BETWEEN ? AND ?'', params))
           else if length params > 1 then Inl (NeedOne operator (length params))
           else if operator = ''exact'' then Inr (OperatorSQL d operator, if arg = ONil then [OStr ''IS NULL''] else params)
           else if operator \<in> set like_operators then
             Inr (OperatorSQL d operator, [OStr (like_param operator (replace_all (oval_ToStr arg) ''%'' ([CHR 0x5C] @ ''%'')))])
           else if operator = ''isnull'' then
             (case arg of
                OBool b \<Rightarrow> Inr (if b then ''IS NULL'' else ''IS NOT NULL'', [])
              | _ \<Rightarrow> Inl (NeedBool operator))
           else Inr (OperatorSQL d operator, params))"

section \<open>Placeholders\<close>

lemma count_marks_append [simp]: "count_marks (a @ b) = count_marks a + count_marks b"
  by (simp add: count_marks_def)

lemma count_marks_Cons [simp]: "count_marks (c # q) = (if c = CHR ''?'' then 1 else 0) + count_marks q"
  by (simp add: count_marks_def)

lemma count_marks_Nil [simp]: "count_marks [] = 0"
  by (simp add: count_marks_def)

lemma count_marks_join: "count_marks sep = 0 \<Longrightarrow> count_marks (join sep xs) = sum_list (map count_marks xs)"
  by (induction sep xs rule: join.induct) simp_all

lemma count_marks_sep_loop: "count_marks sep = 0 \<Longrightarrow> count_marks (sep_loop sep f i xs) = sum_list (map (\<lambda>x. count_marks (f x)) xs)"
  by (induction sep f i xs rule: sep_loop.induct) simp_all

lemma count_marks_repeat: "count_marks (repeat_loop n s) = n * count_marks s"
  by (induction n) simp_all

lemma count_marks_quoted [simp]: "count_marks (quoted d s) = count_marks s"
  by (simp add: quoted_def TableQuote_def)

lemma sum_marks_zero: "list_all (\<lambda>n. count_marks n = 0) xs \<Longrightarrow> sum_list (map count_marks xs) = 0"
  by (induction xs) simp_all

lemma sum_marks_one: "list_all (\<lambda>n. count_marks n = 0) xs \<Longrightarrow> sum_list (map (\<lambda>x. Suc (count_marks x)) xs) = length xs"
  by (induction xs) simp_all

lemma args_map_clean:
  "list_all (\<lambda>n. count_marks n = 0) as \<Longrightarrow> (\<And>k x. m k = Some x \<Longrightarrow> count_marks x = 0) \<Longrightarrow> args_map as m k = Some x \<Longrightarrow> count_marks x = 0"
proof (induction as arbitrary: m)
  case (Cons a as)
  have c: "count_marks y = 0" if "y \<in> set (split a ''='')" for y
  proof -
    have "sum_list (map count_marks (split a ''='')) = 0"
      using count_marks_join [of "''=''" "split a ''=''"] join_split [of "''=''" a] Cons.prems(1) by simp
    with that show ?thesis by (simp add: sum_list_eq_0_iff)
  qed
  show ?case
  proof (rule Cons.IH)
    show "list_all (\<lambda>n. count_marks n = 0) as" using Cons.prems(1) by simp
    show "args_map as (case split a ''='' of [k, x] \<Rightarrow> m(to_lower k \<mapsto> x) | _ \<Rightarrow> m) k = Some x" using Cons.prems(3) by simp
    show "count_marks z = 0" if "(case split a ''='' of [k, x] \<Rightarrow> m(to_lower k \<mapsto> x) | _ \<Rightarrow> m) j = Some z" for j z
      using that c Cons.prems(2) by (auto split: list.splits if_splits)
  qed
qed simp

lemma iou_loop_marks:
  assumes "\<And>k x. am k = Some x \<Longrightarrow> count_marks x = 0" "count_marks args0 = 0" "count_marks table = 0"
  shows "list_all (\<lambda>n. count_marks n = 0) ns \<Longrightarrow> iou_loop d mysql table args0 am i ns cv vals buf = Inr (q, vs) \<Longrightarrow>
    count_marks q + length vals = count_marks buf + length vs"
proof (induction ns arbitrary: i cv vals buf)
  case (Cons n ns)
  let ?v = "quoted d n"
  define val where "val = (case am (to_lower ?v) of None \<Rightarrow> [] | Some x \<Rightarrow> x)"
  define cv1 where "cv1 = (if ?v = args0 then vals ! i else cv)"
  define buf1 where "buf1 = buf @ (if i > 0 then '', '' else [])"
  have c: "count_marks val = 0" "count_marks n = 0" using assms(1) Cons.prems(1) by (auto simp: val_def split: option.splits)
  have b: "count_marks buf1 = count_marks buf" by (simp add: buf1_def)
  have "iou_loop d mysql table args0 am i (n # ns) cv vals buf =
      (if ?v = args0 \<and> length vals \<le> i then Inl (IouPanic IndexRange)
       else if val \<noteq> [] then
         (if mysql then iou_loop d mysql table args0 am (i + 1) ns cv1 vals (buf1 @ ?v @ ''='' @ val)
          else if cv1 \<noteq> None then iou_loop d mysql table args0 am (i + 1) ns cv1 (vals @ [cv1])
            (buf1 @ ?v @ ''=(select '' @ val @ '' from '' @ table @ '' where '' @ args0 @ '' = ? )'')
          else Inl (NotInFront args0 ?v))
       else if length vals \<le> i then Inl (IouPanic IndexRange)
       else iou_loop d mysql table args0 am (i + 1) ns cv1 (vals @ [vals ! i]) (buf1 @ ?v @ ''=?''))"
    by (simp add: Let_def val_def cv1_def buf1_def)
  note eq = this [symmetric, unfolded Cons.prems(2)]
  consider
    "iou_loop d mysql table args0 am (i + 1) ns cv1 vals (buf1 @ ?v @ ''='' @ val) = Inr (q, vs)"
  | "iou_loop d mysql table args0 am (i + 1) ns cv1 (vals @ [cv1])
        (buf1 @ ?v @ ''=(select '' @ val @ '' from '' @ table @ '' where '' @ args0 @ '' = ? )'') = Inr (q, vs)"
  | "iou_loop d mysql table args0 am (i + 1) ns cv1 (vals @ [vals ! i]) (buf1 @ ?v @ ''=?'') = Inr (q, vs)"
    using eq by (cases "?v = args0"; cases "length vals \<le> i"; cases "val = []"; cases mysql; cases "cv1 = None") (simp_all del: iou_loop.simps)
  then show ?case
  proof cases
    case 1
    from Cons.IH [OF _ this] Cons.prems(1) c b show ?thesis by simp
  next
    case 2
    from Cons.IH [OF _ this] Cons.prems(1) c b assms(2,3) show ?thesis by simp
  next
    case 3
    from Cons.IH [OF _ this] Cons.prems(1) c b show ?thesis by simp
  qed
qed simp

text \<open>The numbers of the placeholders for PostgreSQL: the parts of the statement between the marks are kept, the marks become
  \<open>$1\<close>, \<open>$2\<close> and so on.\<close>

fun numbered :: "nat \<Rightarrow> string list \<Rightarrow> string" where
  "numbered k [] = []"
| "numbered k [p] = p"
| "numbered k (p # q # ps) = p @ ''$'' @ itoa (int k) @ numbered (k + 1) (q # ps)"

lemma numbered_Cons: "ps \<noteq> [] \<Longrightarrow> numbered k (p # ps) = p @ ''$'' @ itoa (int k) @ numbered (k + 1) ps"
  by (cases ps) simp_all

lemma numbered_split_aux: "numbered k (split_aux ''?'' acc q) = rev acc @ marks_loop k q"
proof (induction q arbitrary: acc k)
  case (Cons c q)
  show ?case
  proof (cases "c = CHR ''?''")
    case True
    then have "split_aux ''?'' acc (c # q) = rev acc # split_aux ''?'' [] q" by (simp add: has_prefix_single)
    then show ?thesis using True Cons.IH [of "k + 1" "[]"] by (simp add: numbered_Cons)
  next
    case False
    then show ?thesis using Cons.IH by (simp add: has_prefix_single)
  qed
qed simp

lemma ReplaceMarks_numbered: "ReplaceMarks DPostgres q = numbered 1 (split q ''?'')"
proof (cases "count_marks q = 0")
  case True
  then have "CHR ''?'' \<notin> set q" by (auto simp: count_marks_def filter_empty_conv)
  with True show ?thesis by (simp add: ReplaceMarks_def split_single_notin)
qed (simp add: ReplaceMarks_def split_def numbered_split_aux)

lemma split_marks: "length (split q ''?'') = count_marks q + 1"
proof -
  have "length (split_aux ''?'' acc q) = count_marks q + 1" for acc
    by (induction q arbitrary: acc) (simp_all add: has_prefix_single)
  then show ?thesis by (simp add: split_def)
qed

definition clean :: "string \<Rightarrow> bool" where
  "clean s \<longleftrightarrow> count_marks s = 0"

lemma sum_clean: "list_all clean xs \<Longrightarrow> sum_list (map count_marks xs) = 0" "list_all clean xs \<Longrightarrow> sum_list (map (\<lambda>x. count_marks x + 1) xs) = length xs"
  by (induction xs) (simp_all add: clean_def)

lemma insert_marks:
  assumes "clean table" "list_all clean names" "names \<noteq> []" "vals \<noteq> []" "length names dvd length vals"
  shows "\<exists>q. InsertValueSQL d names vals True table = Inr (ReplaceMarks d q) \<and> count_marks q = length vals"
proof -
  obtain m where m: "length vals = length names * m" using assms(5) by (auto elim: dvdE)
  then have div: "length vals div length names = m" using assms(3) by simp
  have pos: "0 < m" using m assms(4) by (cases m) simp_all
  let ?q = "join '', '' (map (\<lambda>_. ''?'') names)"
  have "sum_list (map (\<lambda>_. 1 :: nat) names) = length names" by (induction names) simp_all
  then have "count_marks ?q = length names" by (simp add: count_marks_join comp_def)
  moreover have "count_marks (sep_loop '', '' (quoted d) 0 names) = 0" using assms(2) by (simp add: count_marks_sep_loop sum_clean)
  moreover have "length names + (m - 1) * length names = length vals" using m pos by (cases m) simp_all
  ultimately show ?thesis
    using assms(1,3) div pos by (auto simp: InsertValueSQL_def Let_def count_marks_repeat clean_def)
qed

lemma update_marks:
  assumes "clean table" "list_all clean names" "clean pk"
  shows "\<exists>q. UpdateSQL d names pk table = ReplaceMarks d q \<and> count_marks q = length names + 1"
  using assms sum_clean [OF assms(2)] by (auto simp: UpdateSQL_def count_marks_sep_loop clean_def)

lemma delete_marks:
  assumes "clean table" "list_all clean names"
  shows "\<exists>q. DeleteSQL d names table = ReplaceMarks d q \<and> count_marks q = length names"
  using assms sum_clean [OF assms(2)] by (auto simp: DeleteSQL_def count_marks_sep_loop clean_def)

lemma to_lower_marks: "count_marks (to_lower s) = count_marks s"
proof (induction s)
  case (Cons c s)
  have "lower_char c = CHR ''?'' \<longleftrightarrow> c = CHR ''?''"
  proof (cases "65 \<le> (of_char c :: nat) \<and> (of_char c :: nat) \<le> 90")
    case True
    then have l: "(of_char (lower_char c) :: nat) = of_char c + 32" by (simp add: lower_char_def Let_def of_char_of)
    have "lower_char c \<noteq> CHR ''?''" using l True by auto
    moreover have "c \<noteq> CHR ''?''" using True by auto
    ultimately show ?thesis by simp
  next
    case False
    then show ?thesis by (auto simp: lower_char_def Let_def)
  qed
  with Cons show ?case by (simp add: to_lower_def)
qed (simp add: to_lower_def)

lemma insert_or_update_marks:
  assumes "clean table" "list_all clean names" "list_all clean as" "length vals = length names"
    "InsertOrUpdateSQL d driver names vals table as = Inr (s, vs)"
  shows "\<exists>q. s = ReplaceMarks d q \<and> count_marks q = length vs"
proof -
  let ?a0 = "if driver = ''postgres'' then to_lower (hd as) else []"
  let ?start = "''INSERT INTO '' @ quoted d table @ '' ('' @ sep_loop '', '' (quoted d) 0 names @ '') VALUES ('' @
    sep_loop '', '' (\<lambda>_. ''?'') 0 names @ '') '' @ (if driver = ''mysql'' then ''ON DUPLICATE KEY UPDATE '' else ''ON CONFLICT ('' @ ?a0 @ '') DO UPDATE SET '')"
  from assms(5) obtain q where q: "iou_loop d (driver = ''mysql'') table ?a0 (args_map as Map.empty) 0 names None vals ?start = Inr (q, vs)" "s = ReplaceMarks d q"
    and as: "driver = ''postgres'' \<Longrightarrow> as \<noteq> []"
    by (auto simp: InsertOrUpdateSQL_def Let_def res_bind_Inr_iff split: if_splits)
  have a0: "count_marks ?a0 = 0" using assms(3) as by (cases as) (auto simp: to_lower_marks clean_def)
  have cl: "list_all (\<lambda>n. count_marks n = 0) as" "list_all (\<lambda>n. count_marks n = 0) names" using assms(2,3) by (simp_all add: clean_def [abs_def])
  have "sum_list (map (\<lambda>_. 1 :: nat) names) = length names" by (induction names) simp_all
  then have "count_marks ?start = length names"
    using assms(1,2) a0 by (simp add: count_marks_sep_loop sum_clean clean_def)
  moreover have "count_marks q + length vals = count_marks ?start + length vs"
    by (rule iou_loop_marks [OF args_map_clean [OF cl(1)] a0 _ cl(2) q(1)]) (use assms(1) in \<open>simp_all add: clean_def\<close>)
  ultimately show ?thesis using assms(4) q(2) by auto
qed



text \<open>The pairs for the update are looked up by the quoted name: a pair with a plain name has no effect.\<close>

lemma plain_pair_ignored:
  "InsertOrUpdateSQL DPostgres ''postgres'' [''id'', ''hits''] [Some 1, Some (5 :: nat)] ''page'' [''id'', ''hits=hits+1''] =
   InsertOrUpdateSQL DPostgres ''postgres'' [''id'', ''hits''] [Some 1, Some 5] ''page'' [''id'']"
  by code_simp

section \<open>Operators and their placeholders\<close>

lemma table_marks: "(op, s) \<in> set (operator_table d) \<Longrightarrow> count_marks s = 1"
  by (cases d) (auto simp: mysqlOperators_def postgresOperators_def sqliteOperators_def oracleOperators_def like_escape_def)

lemma operator_marks:
  assumes "GenerateOperatorSQL E d fi op as = Inr (sql, ps)" "op \<in> {''in'', ''between'', ''isnull''} \<union> fst ` set (operator_table d)"
  shows "count_marks sql = length ps"
proof -
  from assms(1) obtain xs where xs: "getFlatParams E (FieldType fi) as = Inr xs" by (auto simp: GenerateOperatorSQL_def res_bind_Inr_iff)
  with assms(1) obtain arg rest where p: "getFlatParams E (FieldType fi) as = Inr (arg # rest)"
    by (cases xs) (simp_all add: GenerateOperatorSQL_def)
  have in': "count_marks (join '', '' (map (\<lambda>_. ''?'') xs)) = length xs" for xs :: "oval list"
    by (simp add: count_marks_join comp_def sum_list_triv)
  have one: "count_marks (OperatorSQL d op) = 1" if "op \<notin> {''in'', ''between'', ''isnull''}"
  proof -
    from that assms(2) obtain s where "map_of (operator_table d) op = Some s" by (metis Un_iff map_of_eq_None_iff option.exhaust)
    then show ?thesis using table_marks [of op s d] by (auto simp: OperatorSQL_def dest: map_of_SomeD)
  qed
  show ?thesis
  proof (cases "op \<in> {''in'', ''between'', ''isnull''}")
    case True
    then show ?thesis using assms(1) p in' [of "arg # rest"]
      by (auto simp: GenerateOperatorSQL_def like_operators_def split: if_splits oval.splits)
  next
    case False
    then show ?thesis using assms(1) p one by (auto simp: GenerateOperatorSQL_def split: if_splits)
  qed
qed

text \<open>The operator \<open>nq\<close> is accepted but no dialect has text for it, and a comparison with nil compares with the text \<open>IS NULL\<close>.\<close>

lemma nq_has_no_text: "''nq'' \<in> set operators \<and> OperatorSQL d ''nq'' = []"
  by (cases d) (simp_all add: operators_def OperatorSQL_def mysqlOperators_def postgresOperators_def sqliteOperators_def oracleOperators_def)

lemma exact_nil_compares_text: "GenerateOperatorSQL E d fi ''exact'' [ONil] = Inr (''= ?'', [OStr ''IS NULL''])"
  by (cases d) (simp_all add: GenerateOperatorSQL_def OperatorSQL_def mysqlOperators_def postgresOperators_def sqliteOperators_def oracleOperators_def)

text \<open>A byte slice is dropped from the arguments, so that a condition on it panics.\<close>

lemma bytes_are_dropped: "op \<in> set operators \<Longrightarrow> GenerateOperatorSQL E d fi op [OBytes b] = Inl (NeedArgs op)"
  by (simp add: GenerateOperatorSQL_def)

end
