(* ===== verification/Orm_Conds.thy ===== *)
theory Orm_Conds
  imports Go_Prelude
begin

text \<open>
  Conditions and orders of the ORM (\<^verbatim>\<open>client/orm/orm_conds.go\<close>,
  \<^verbatim>\<open>client/orm/clauses/order_clause\<close>). A condition holds a slice of \<^verbatim>\<open>condValue\<close>s. The
  methods with a value receiver copy the slice header and append to it, so conditions derived
  from one condition may share an array: the model has an explicit store of arrays and of
  condition structs. How much \<^verbatim>\<open>append\<close> allocates is not specified by the language: the
  capacity it chooses is a parameter of the definitions.
\<close>

section \<open>Slices and conditions in the store\<close>

datatype 'v condValue = CondValue (exprs: "string list") (args: "'v list") (cond: "nat option")
  (isOr: bool) (isNot: bool) (isCond: bool) (isRaw: bool) (sql: string)

text \<open>A slice header: an array of the store and a length; the capacity is the length of the array.\<close>

record slice_header =
  arr :: nat
  slen :: nat

record 'v store =
  arrays :: "nat \<Rightarrow> 'v condValue list"
  next_arr :: nat
  conds :: "nat \<Rightarrow> slice_header"   \<comment> \<open>the structs of type Condition\<close>
  next_cond :: nat

definition zero_value :: "'v condValue" where
  "zero_value = CondValue [] [] None False False False False []"

definition contents :: "'v store \<Rightarrow> slice_header \<Rightarrow> 'v condValue list" where
  "contents h s = take (slen s) (arrays h (arr s))"

definition cond_params :: "'v store \<Rightarrow> nat \<Rightarrow> 'v condValue list" where
  "cond_params h c = contents h (conds h c)"

definition go_append :: "(nat \<Rightarrow> nat) \<Rightarrow> slice_header \<Rightarrow> 'v condValue \<Rightarrow> 'v store \<Rightarrow> slice_header \<times> 'v store" where
  "go_append newcap s v h =
     (if slen s < length (arrays h (arr s))
      then (s\<lparr>slen := slen s + 1\<rparr>, h\<lparr>arrays := (arrays h)(arr s := (arrays h (arr s))[slen s := v])\<rparr>)
      else let n = slen s + 1;
               a = contents h s @ [v] @ replicate (max (newcap n) n - n) zero_value
           in (\<lparr>arr = next_arr h, slen = n\<rparr>, h\<lparr>arrays := (arrays h)(next_arr h := a), next_arr := next_arr h + 1\<rparr>))"

definition alloc_cond :: "slice_header \<Rightarrow> 'v store \<Rightarrow> nat \<times> 'v store" where
  "alloc_cond s h = (next_cond h, h\<lparr>conds := (conds h)(next_cond h := s), next_cond := next_cond h + 1\<rparr>)"

section \<open>Operations\<close>

datatype cond_panic = RawSqlEmpty | ArgsEmpty string | UseSelf string

definition empty_store :: "'v store" where
  "empty_store = \<lparr>arrays = (\<lambda>_. []), next_arr = 1, conds = (\<lambda>_. \<lparr>arr = 0, slen = 0\<rparr>), next_cond = 0\<rparr>"

definition NewCondition :: "'v store \<Rightarrow> nat \<times> 'v store" where
  "NewCondition h = alloc_cond \<lparr>arr = 0, slen = 0\<rparr> h"

text \<open>The value receiver: the struct is copied, the copy is appended to and its address returned.\<close>

definition append_copy :: "(nat \<Rightarrow> nat) \<Rightarrow> 'v condValue \<Rightarrow> nat \<Rightarrow> 'v store \<Rightarrow> nat \<times> 'v store" where
  "append_copy newcap v c h = (let (s, h) = go_append newcap (conds h c) v h in alloc_cond s h)"

definition cond_Raw :: "(nat \<Rightarrow> nat) \<Rightarrow> string \<Rightarrow> string \<Rightarrow> nat \<Rightarrow> 'v store \<Rightarrow> cond_panic + nat \<times> 'v store" where
  "cond_Raw newcap expr q c h =
     (if length q = 0 then Inl RawSqlEmpty
      else Inr (append_copy newcap (CondValue (split expr ''__'') [] None False False False True q) c h))"

definition cond_And :: "(nat \<Rightarrow> nat) \<Rightarrow> string \<Rightarrow> 'v list \<Rightarrow> nat \<Rightarrow> 'v store \<Rightarrow> cond_panic + nat \<times> 'v store" where
  "cond_And newcap expr as c h =
     (if expr = [] \<or> length as = 0 then Inl (ArgsEmpty ''And'')
      else Inr (append_copy newcap (CondValue (split expr ''__'') as None False False False False []) c h))"

definition cond_AndNot :: "(nat \<Rightarrow> nat) \<Rightarrow> string \<Rightarrow> 'v list \<Rightarrow> nat \<Rightarrow> 'v store \<Rightarrow> cond_panic + nat \<times> 'v store" where
  "cond_AndNot newcap expr as c h =
     (if expr = [] \<or> length as = 0 then Inl (ArgsEmpty ''AndNot'')
      else Inr (append_copy newcap (CondValue (split expr ''__'') as None False True False False []) c h))"

definition cond_Or :: "(nat \<Rightarrow> nat) \<Rightarrow> string \<Rightarrow> 'v list \<Rightarrow> nat \<Rightarrow> 'v store \<Rightarrow> cond_panic + nat \<times> 'v store" where
  "cond_Or newcap expr as c h =
     (if expr = [] \<or> length as = 0 then Inl (ArgsEmpty ''Or'')
      else Inr (append_copy newcap (CondValue (split expr ''__'') as None True False False False []) c h))"

definition cond_OrNot :: "(nat \<Rightarrow> nat) \<Rightarrow> string \<Rightarrow> 'v list \<Rightarrow> nat \<Rightarrow> 'v store \<Rightarrow> cond_panic + nat \<times> 'v store" where
  "cond_OrNot newcap expr as c h =
     (if expr = [] \<or> length as = 0 then Inl (ArgsEmpty ''OrNot'')
      else Inr (append_copy newcap (CondValue (split expr ''__'') as None True True False False []) c h))"

definition cond_clone :: "nat \<Rightarrow> 'v store \<Rightarrow> nat \<times> 'v store" where
  "cond_clone c h =
     (let ps = cond_params h c
      in alloc_cond \<lparr>arr = next_arr h, slen = length ps\<rparr> (h\<lparr>arrays := (arrays h)(next_arr h := ps), next_arr := next_arr h + 1\<rparr>))"

text \<open>Appending in place to the clone, unless the sub-condition is nil.\<close>

definition add_sub :: "(nat \<Rightarrow> nat) \<Rightarrow> bool \<Rightarrow> bool \<Rightarrow> nat option \<Rightarrow> nat \<Rightarrow> 'v store \<Rightarrow> nat \<times> 'v store" where
  "add_sub newcap orf notf sub c h =
     (case sub of
        None \<Rightarrow> (c, h)
      | Some d \<Rightarrow> let (s, h) = go_append newcap (conds h c) (CondValue [] [] (Some d) orf notf True False []) h
                  in (c, h\<lparr>conds := (conds h)(c := s)\<rparr>))"

definition AndCond :: "(nat \<Rightarrow> nat) \<Rightarrow> nat option \<Rightarrow> nat \<Rightarrow> 'v store \<Rightarrow> cond_panic + nat \<times> 'v store" where
  "AndCond newcap sub c h =
     (if sub = Some c then Inl (UseSelf ''AndCond'')
      else let (c, h) = cond_clone c h in Inr (add_sub newcap False False sub c h))"

definition AndNotCond :: "(nat \<Rightarrow> nat) \<Rightarrow> nat option \<Rightarrow> nat \<Rightarrow> 'v store \<Rightarrow> cond_panic + nat \<times> 'v store" where
  "AndNotCond newcap sub c h =
     (let (c, h) = cond_clone c h
      in if sub = Some c then Inl (UseSelf ''AndNotCond'') else Inr (add_sub newcap False True sub c h))"

definition OrCond :: "(nat \<Rightarrow> nat) \<Rightarrow> nat option \<Rightarrow> nat \<Rightarrow> 'v store \<Rightarrow> cond_panic + nat \<times> 'v store" where
  "OrCond newcap sub c h =
     (let (c, h) = cond_clone c h
      in if sub = Some c then Inl (UseSelf ''OrCond'') else Inr (add_sub newcap True False sub c h))"

definition OrNotCond :: "(nat \<Rightarrow> nat) \<Rightarrow> nat option \<Rightarrow> nat \<Rightarrow> 'v store \<Rightarrow> cond_panic + nat \<times> 'v store" where
  "OrNotCond newcap sub c h =
     (let (c, h) = cond_clone c h
      in if sub = Some c then Inl (UseSelf ''OrNotCond'') else Inr (add_sub newcap True True sub c h))"

definition cond_IsEmpty :: "'v store \<Rightarrow> nat \<Rightarrow> bool" where
  "cond_IsEmpty h c \<longleftrightarrow> slen (conds h c) = 0"

section \<open>Well-formed stores\<close>

text \<open>Every slice lies within its array, arrays and conditions in use are allocated, and array 0 is the empty array of nil slices.\<close>

definition conds_ok :: "'v store \<Rightarrow> bool" where
  "conds_ok h \<longleftrightarrow> 0 < next_arr h \<and> arrays h 0 = [] \<and>
     (\<forall>c < next_cond h. arr (conds h c) < next_arr h \<and> slen (conds h c) \<le> length (arrays h (arr (conds h c))))"

lemma conds_ok_empty: "conds_ok empty_store"
  by (simp add: conds_ok_def empty_store_def)

lemma conds_okD:
  assumes "conds_ok h" "c < next_cond h"
  shows "arr (conds h c) < next_arr h" "slen (conds h c) \<le> length (arrays h (arr (conds h c)))"
  using assms by (auto simp: conds_ok_def)

text \<open>What an append writes: one element of the shared array when there is room, a fresh array otherwise.\<close>

lemma append_copy_effect:
  fixes h :: "'v store"
  assumes "conds_ok h" "c < next_cond h" "append_copy newcap v c h = (c', h')"
  shows "conds_ok h' \<and> c' = next_cond h \<and> next_cond h' = next_cond h + 1 \<and> cond_params h' c' = cond_params h c @ [v] \<and>
    next_arr h \<le> next_arr h' \<and>
    arr (conds h' c') = (if slen (conds h c) < length (arrays h (arr (conds h c))) then arr (conds h c) else next_arr h) \<and>
    (\<forall>d < next_cond h. conds h' d = conds h d \<and>
      cond_params h' d = (if arr (conds h d) = arr (conds h c) \<and> slen (conds h c) < length (arrays h (arr (conds h c)))
        then (cond_params h d)[slen (conds h c) := v] else cond_params h d))"
proof -
  let ?s = "conds h c"
  have ok: "conds_ok h" "arr ?s < next_arr h" "slen ?s \<le> length (arrays h (arr ?s))"
    using assms(1) conds_okD [OF assms(1,2)] by auto
  show ?thesis
  proof (cases "slen ?s < length (arrays h (arr ?s))")
    case True
    then have h': "c' = next_cond h" "h' = h\<lparr>arrays := (arrays h)(arr ?s := (arrays h (arr ?s))[slen ?s := v]),
        conds := (conds h)(next_cond h := ?s\<lparr>slen := slen ?s + 1\<rparr>), next_cond := next_cond h + 1\<rparr>"
      using assms(3) by (auto simp: append_copy_def go_append_def alloc_cond_def)
    have "conds_ok h'" using True assms(1) ok(2) by (auto simp: h' conds_ok_def less_Suc_eq)
    moreover have "cond_params h' c' = cond_params h c @ [v]"
      using True by (simp add: h' cond_params_def contents_def take_Suc_conv_app_nth)
    moreover have "cond_params h' d = (if arr (conds h d) = arr ?s then (cond_params h d)[slen ?s := v] else cond_params h d)"
      if "d < next_cond h" for d
      using that by (simp add: h' cond_params_def contents_def take_update_swap)
    ultimately show ?thesis using True h' by auto
  next
    case False
    let ?a = "contents h ?s @ [v] @ replicate (max (newcap (slen ?s + 1)) (slen ?s + 1) - (slen ?s + 1)) zero_value"
    from False have h': "c' = next_cond h" "h' = h\<lparr>arrays := (arrays h)(next_arr h := ?a), next_arr := next_arr h + 1,
        conds := (conds h)(next_cond h := \<lparr>arr = next_arr h, slen = slen ?s + 1\<rparr>), next_cond := next_cond h + 1\<rparr>"
      using assms(3) by (auto simp: append_copy_def go_append_def alloc_cond_def Let_def)
    have len: "length (contents h ?s) = slen ?s" using ok(3) by (simp add: contents_def)
    have "conds_ok h'" using ok len assms(1) by (auto simp: h' conds_ok_def less_Suc_eq less_imp_le)
    moreover have "cond_params h' c' = cond_params h c @ [v]" using len by (simp add: h' cond_params_def contents_def)
    moreover have "cond_params h' d = cond_params h d" if "d < next_cond h" for d
      using that conds_okD [OF assms(1) that] by (simp add: h' cond_params_def contents_def)
    ultimately show ?thesis using False h' by auto
  qed
qed

lemma clone_effect:
  fixes h :: "'v store"
  assumes "conds_ok h" "c < next_cond h" "cond_clone c h = (c', h')"
  shows "conds_ok h' \<and> c' = next_cond h \<and> next_cond h' = next_cond h + 1 \<and> cond_params h' c' = cond_params h c \<and>
    slen (conds h' c') = length (arrays h' (arr (conds h' c'))) \<and> next_arr h \<le> next_arr h' \<and> next_arr h \<le> arr (conds h' c') \<and>
    (\<forall>d < next_cond h. conds h' d = conds h d \<and> cond_params h' d = cond_params h d)"
proof -
  define ps where "ps = cond_params h c"
  have h': "c' = next_cond h" "h' = h\<lparr>arrays := (arrays h)(next_arr h := ps), next_arr := next_arr h + 1,
      conds := (conds h)(next_cond h := \<lparr>arr = next_arr h, slen = length ps\<rparr>), next_cond := next_cond h + 1\<rparr>"
    using assms(3) by (auto simp: cond_clone_def alloc_cond_def Let_def ps_def)
  have "conds_ok h'" using assms(1) by (auto simp: h' conds_ok_def less_Suc_eq less_imp_le)
  moreover have "cond_params h' d = cond_params h d" if "d < next_cond h" for d
    using that conds_okD [OF assms(1) that] by (simp add: h' cond_params_def contents_def)
  moreover have "cond_params h' c' = ps" by (simp add: h' cond_params_def contents_def)
  ultimately show ?thesis by (simp add: h' ps_def)
qed

definition sub_value :: "bool \<Rightarrow> bool \<Rightarrow> nat \<Rightarrow> 'v condValue" where
  "sub_value orf notf d = CondValue [] [] (Some d) orf notf True False []"

lemma sub_effect:
  fixes h :: "'v store"
  assumes "conds_ok h" "c < next_cond h" "cond_clone c h = (c1, h1)" "add_sub newcap orf notf sub c1 h1 = (c', h')"
  shows "conds_ok h' \<and> c' = next_cond h \<and> next_cond h' = next_cond h + 1 \<and>
    cond_params h' c' = cond_params h c @ (case sub of None \<Rightarrow> [] | Some d \<Rightarrow> [sub_value orf notf d]) \<and>
    next_arr h \<le> next_arr h' \<and> next_arr h \<le> arr (conds h' c') \<and>
    (\<forall>d < next_cond h. conds h' d = conds h d \<and> cond_params h' d = cond_params h d)"
proof -
  note c = clone_effect [OF assms(1-3)]
  show ?thesis
  proof (cases sub)
    case None
    with assms(4) c show ?thesis by (auto simp: add_sub_def)
  next
    case (Some d0)
    let ?s = "conds h1 c1" and ?v = "sub_value orf notf d0 :: 'v condValue"
    have full: "\<not> slen ?s < length (arrays h1 (arr ?s))" using c by (metis less_irrefl)
    let ?a = "contents h1 ?s @ [?v] @ replicate (max (newcap (slen ?s + 1)) (slen ?s + 1) - (slen ?s + 1)) zero_value"
    from full Some assms(4) have h': "c' = c1" "h' = h1\<lparr>arrays := (arrays h1)(next_arr h1 := ?a), next_arr := next_arr h1 + 1,
        conds := (conds h1)(c1 := \<lparr>arr = next_arr h1, slen = slen ?s + 1\<rparr>)\<rparr>"
      by (auto simp: add_sub_def go_append_def Let_def sub_value_def)
    have c1: "c1 < next_cond h1" "conds_ok h1" using c by auto
    have len: "length (contents h1 ?s) = slen ?s" using conds_okD(2) [OF c1(2,1)] by (simp add: contents_def)
    have "conds_ok h'" using c1 len by (auto simp: h' conds_ok_def less_imp_le)
    moreover have "cond_params h' c' = cond_params h1 c1 @ [?v]" using len by (simp add: h' cond_params_def contents_def)
    moreover have "cond_params h' d = cond_params h1 d" if "d < next_cond h1" "d \<noteq> c1" for d
      using that conds_okD [OF c1(2) that(1)] by (simp add: h' cond_params_def contents_def)
    ultimately show ?thesis using c h' Some by auto
  qed
qed

section \<open>Chains of operations\<close>

datatype 'v cond_op = ORaw string string | OAnd string "'v list" | OAndNot string "'v list" | OOr string "'v list"
  | OOrNot string "'v list" | OAndCond "nat option" | OAndNotCond "nat option" | OOrCond "nat option" | OOrNotCond "nat option"

fun cond_apply :: "(nat \<Rightarrow> nat) \<Rightarrow> 'v cond_op \<Rightarrow> nat \<Rightarrow> 'v store \<Rightarrow> cond_panic + nat \<times> 'v store" where
  "cond_apply newcap (ORaw e q) c h = cond_Raw newcap e q c h"
| "cond_apply newcap (OAnd e as) c h = cond_And newcap e as c h"
| "cond_apply newcap (OAndNot e as) c h = cond_AndNot newcap e as c h"
| "cond_apply newcap (OOr e as) c h = cond_Or newcap e as c h"
| "cond_apply newcap (OOrNot e as) c h = cond_OrNot newcap e as c h"
| "cond_apply newcap (OAndCond s) c h = AndCond newcap s c h"
| "cond_apply newcap (OAndNotCond s) c h = AndNotCond newcap s c h"
| "cond_apply newcap (OOrCond s) c h = OrCond newcap s c h"
| "cond_apply newcap (OOrNotCond s) c h = OrNotCond newcap s c h"

text \<open>What an operation is meant to add, as a list of at most one element.\<close>

fun op_values :: "'v cond_op \<Rightarrow> 'v condValue list" where
  "op_values (ORaw e q) = [CondValue (split e ''__'') [] None False False False True q]"
| "op_values (OAnd e as) = [CondValue (split e ''__'') as None False False False False []]"
| "op_values (OAndNot e as) = [CondValue (split e ''__'') as None False True False False []]"
| "op_values (OOr e as) = [CondValue (split e ''__'') as None True False False False []]"
| "op_values (OOrNot e as) = [CondValue (split e ''__'') as None True True False False []]"
| "op_values (OAndCond s) = (case s of None \<Rightarrow> [] | Some d \<Rightarrow> [sub_value False False d])"
| "op_values (OAndNotCond s) = (case s of None \<Rightarrow> [] | Some d \<Rightarrow> [sub_value False True d])"
| "op_values (OOrCond s) = (case s of None \<Rightarrow> [] | Some d \<Rightarrow> [sub_value True False d])"
| "op_values (OOrNotCond s) = (case s of None \<Rightarrow> [] | Some d \<Rightarrow> [sub_value True True d])"

fun op_ok :: "nat \<Rightarrow> 'v cond_op \<Rightarrow> bool" where
  "op_ok n (ORaw e q) = (q \<noteq> [])"
| "op_ok n (OAnd e as) = (e \<noteq> [] \<and> as \<noteq> [])"
| "op_ok n (OAndNot e as) = (e \<noteq> [] \<and> as \<noteq> [])"
| "op_ok n (OOr e as) = (e \<noteq> [] \<and> as \<noteq> [])"
| "op_ok n (OOrNot e as) = (e \<noteq> [] \<and> as \<noteq> [])"
| "op_ok n (OAndCond s) = pred_option (\<lambda>d. d < n) s"
| "op_ok n (OAndNotCond s) = pred_option (\<lambda>d. d < n) s"
| "op_ok n (OOrCond s) = pred_option (\<lambda>d. d < n) s"
| "op_ok n (OOrNotCond s) = pred_option (\<lambda>d. d < n) s"

fun cond_chain :: "(nat \<Rightarrow> nat) \<Rightarrow> 'v cond_op list \<Rightarrow> nat \<Rightarrow> 'v store \<Rightarrow> cond_panic + nat \<times> 'v store" where
  "cond_chain newcap [] c h = Inr (c, h)"
| "cond_chain newcap (x # xs) c h = res_bind (cond_apply newcap x c h) (\<lambda>(c', h'). cond_chain newcap xs c' h')"

text \<open>The invariant of a chain that was started in a store: its array is its own or full, and what was there is as it was.\<close>

definition chain_inv :: "'v store \<Rightarrow> nat \<Rightarrow> 'v store \<Rightarrow> bool" where
  "chain_inv h0 c h \<longleftrightarrow> conds_ok h \<and> c < next_cond h \<and> next_cond h0 \<le> c \<and> next_arr h0 \<le> next_arr h \<and>
     (next_arr h0 \<le> arr (conds h c) \<or> slen (conds h c) = length (arrays h (arr (conds h c)))) \<and>
     (\<forall>d < next_cond h0. conds h d = conds h0 d \<and> cond_params h d = cond_params h0 d)"

lemma chain_append:
  assumes "conds_ok h0" "chain_inv h0 c h"
  shows "case append_copy newcap v c h of (c', h') \<Rightarrow> chain_inv h0 c' h' \<and> cond_params h' c' = cond_params h c @ [v]"
proof -
  obtain c' h' where a: "append_copy newcap v c h = (c', h')" by (cases "append_copy newcap v c h")
  have i: "conds_ok h" "c < next_cond h" using assms(2) by (auto simp: chain_inv_def)
  note e = append_copy_effect [OF i a]
  have room: "next_arr h0 \<le> arr (conds h c)" if "slen (conds h c) < length (arrays h (arr (conds h c)))"
    using that assms(2) by (auto simp: chain_inv_def)
  have "conds h' d = conds h0 d \<and> cond_params h' d = cond_params h0 d" if d: "d < next_cond h0" for d
  proof -
    have "arr (conds h d) < next_arr h0" "d < next_cond h" "conds h d = conds h0 d" "cond_params h d = cond_params h0 d"
      using assms d conds_okD(1) [OF assms(1) d] by (auto simp: chain_inv_def)
    then show ?thesis using e room by auto
  qed
  then show ?thesis using a e room assms(2) by (auto simp: chain_inv_def)
qed

lemma chain_sub:
  fixes h :: "'v store"
  assumes "conds_ok h0" "chain_inv h0 c h"
  shows "case cond_clone c h of (c1, h1) \<Rightarrow> c1 = next_cond h \<and> (case add_sub newcap orf notf sub c1 h1 of (c', h') \<Rightarrow>
    chain_inv h0 c' h' \<and> cond_params h' c' = cond_params h c @ (case sub of None \<Rightarrow> [] | Some d \<Rightarrow> [sub_value orf notf d]))"
proof -
  obtain c1 h1 where 1: "cond_clone c h = (c1, h1)" by (cases "cond_clone c h")
  obtain c' h' where 2: "add_sub newcap orf notf sub c1 h1 = (c', h')" by (cases "add_sub newcap orf notf sub c1 h1")
  have i: "conds_ok h" "c < next_cond h" using assms(2) by (auto simp: chain_inv_def)
  note e = sub_effect [OF i 1 2] clone_effect [OF i 1]
  have "chain_inv h0 c' h'" using e assms(2) by (auto simp: chain_inv_def)
  with e 1 2 show ?thesis by auto
qed

lemma chain_step:
  fixes h :: "'v store"
  assumes "conds_ok h0" "chain_inv h0 c h" "op_ok (next_cond h0) x"
  shows "\<exists>c' h'. cond_apply newcap x c h = Inr (c', h') \<and> chain_inv h0 c' h' \<and> cond_params h' c' = cond_params h c @ op_values x"
proof -
  have c: "next_cond h0 \<le> c" "c < next_cond h" using assms(2) by (auto simp: chain_inv_def)
  note a = chain_append [OF assms(1,2), where newcap = newcap] and s = chain_sub [OF assms(1,2), where newcap = newcap]
  show ?thesis
  proof (cases x)
    case (ORaw e q)
    then show ?thesis using assms(3) a [of "CondValue (split e ''__'') [] None False False False True q"] by (auto simp: cond_Raw_def)
  next
    case (OAnd e as)
    then show ?thesis using assms(3) a [of "CondValue (split e ''__'') as None False False False False []"] by (auto simp: cond_And_def)
  next
    case (OAndNot e as)
    then show ?thesis using assms(3) a [of "CondValue (split e ''__'') as None False True False False []"] by (auto simp: cond_AndNot_def)
  next
    case (OOr e as)
    then show ?thesis using assms(3) a [of "CondValue (split e ''__'') as None True False False False []"] by (auto simp: cond_Or_def)
  next
    case (OOrNot e as)
    then show ?thesis using assms(3) a [of "CondValue (split e ''__'') as None True True False False []"] by (auto simp: cond_OrNot_def)
  next
    case (OAndCond sb)
    then show ?thesis using assms(3) c s [of False False sb] by (auto simp: AndCond_def split: option.splits prod.splits)
  next
    case (OAndNotCond sb)
    then show ?thesis using assms(3) c s [of False True sb] by (auto simp: AndNotCond_def split: option.splits prod.splits)
  next
    case (OOrCond sb)
    then show ?thesis using assms(3) c s [of True False sb] by (auto simp: OrCond_def split: option.splits prod.splits)
  next
    case (OOrNotCond sb)
    then show ?thesis using assms(3) c s [of True True sb] by (auto simp: OrNotCond_def split: option.splits prod.splits)
  qed
qed

lemma chain_ok:
  assumes "conds_ok h0" "chain_inv h0 c h" "list_all (op_ok (next_cond h0)) xs"
  shows "\<exists>c' h'. cond_chain newcap xs c h = Inr (c', h') \<and> chain_inv h0 c' h' \<and>
    cond_params h' c' = cond_params h c @ concat (map op_values xs)"
  using assms(2,3)
proof (induction xs arbitrary: c h)
  case (Cons x xs)
  then obtain c1 h1 where 1: "cond_apply newcap x c h = Inr (c1, h1)" "chain_inv h0 c1 h1" "cond_params h1 c1 = cond_params h c @ op_values x"
    using chain_step [OF assms(1) Cons.prems(1), of x newcap] by auto
  with Cons.IH [OF 1(2)] Cons.prems(2) show ?case by auto
qed simp

text \<open>C17. A condition built as one chain, NewCondition followed by any sequence of And, Or, their negations, Raw
  and sub-conditions with the required arguments, holds exactly the values of the calls in their order, for every way in
  which append may choose capacities, and leaves every condition that existed before as it was.\<close>

theorem cond_chain_correct:
  assumes "conds_ok h0" "list_all (op_ok (next_cond h0)) xs"
  shows "\<exists>c' h'. (case NewCondition h0 of (c, h) \<Rightarrow> cond_chain newcap xs c h) = Inr (c', h') \<and> conds_ok h' \<and>
    cond_params h' c' = concat (map op_values xs) \<and> (\<forall>d. d < next_cond h0 \<longrightarrow> cond_params h' d = cond_params h0 d)"
proof -
  obtain c h where n: "NewCondition h0 = (c, h)" by (cases "NewCondition h0")
  then have "chain_inv h0 c h" "cond_params h c = []"
    using assms(1) by (auto simp: NewCondition_def alloc_cond_def chain_inv_def conds_ok_def less_Suc_eq cond_params_def contents_def)
  with chain_ok [OF assms(1) _ assms(2), of c h newcap] n show ?thesis by (auto simp: chain_inv_def)
qed

theorem cond_chain_correct_witness:
  "\<exists>c' h'. (case NewCondition empty_store of (c, h) \<Rightarrow> cond_chain id [OAnd ''name'' [1 :: nat], OOr ''user__age'' [2]] c h) = Inr (c', h') \<and>
     map exprs (cond_params h' c') = [[''name''], [''user'', ''age'']]"
  using cond_chain_correct [OF conds_ok_empty, of "[OAnd ''name'' [1 :: nat], OOr ''user__age'' [2]]" id]
  by (auto simp: go_eval)

section \<open>Conditions that share an array\<close>

text \<open> When the array of a condition has room, two conditions derived from it by And share the
  next element: the second call replaces the value of the first, whose condition afterwards is the second one.\<close>

theorem cond_sharing_overwrites:
  fixes h :: "'v store"
  assumes "conds_ok h" "c < next_cond h" "slen (conds h c) < length (arrays h (arr (conds h c)))"
    "cond_And newcap e1 as1 c h = Inr (c1, h1)" "cond_And newcap e2 as2 c h1 = Inr (c2, h2)"
  shows "cond_params h1 c1 = cond_params h c @ op_values (OAnd e1 as1) \<and> cond_params h2 c1 = cond_params h2 c2 \<and>
    cond_params h2 c2 = cond_params h c @ op_values (OAnd e2 as2)"
proof -
  let ?v1 = "CondValue (split e1 ''__'') as1 None False False False False []" and ?v2 = "CondValue (split e2 ''__'') as2 None False False False False []"
  have a1: "append_copy newcap ?v1 c h = (c1, h1)" and a2: "append_copy newcap ?v2 c h1 = (c2, h2)"
    using assms(4,5) by (auto simp: cond_And_def split: if_splits)
  note f1 = append_copy_effect [OF assms(1,2) a1]
  then have c1: "c < next_cond h1" "c1 < next_cond h1" "conds_ok h1" "conds h1 c = conds h c" "arr (conds h1 c1) = arr (conds h c)"
    using assms(2,3) by auto
  have len: "length (arrays h1 (arr (conds h c))) = length (arrays h (arr (conds h c)))"
    using a1 assms(3) by (auto simp: append_copy_def go_append_def alloc_cond_def)
  note f2 = append_copy_effect [OF c1(3,1) a2]
  have l: "length (cond_params h c) = slen (conds h c)" using conds_okD(2) [OF assms(1,2)] by (simp add: cond_params_def contents_def)
  have "cond_params h2 c1 = (cond_params h1 c1)[slen (conds h c) := ?v2]"
    using f2 c1 len assms(3) by auto
  also have "cond_params h1 c1 = cond_params h c @ [?v1]" using f1 by blast
  also have "(cond_params h c @ [?v1])[slen (conds h c) := ?v2] = cond_params h c @ [?v2]" using l by (simp add: list_update_append)
  finally have "cond_params h2 c1 = cond_params h c @ [?v2]" .
  moreover have "cond_params h1 c = cond_params h c"
    using f1 l assms(2,3) by (auto simp: list_update_beyond)
  moreover have "cond_params h1 c1 = cond_params h c @ [?v1]" using f1 by blast
  moreover have "cond_params h2 c2 = cond_params h1 c @ [?v2]" using f2 by blast
  ultimately show ?thesis by simp
qed

text \<open>The growth of Go's runtime for small slices: the capacity doubles.\<close>

definition doubling :: "nat \<Rightarrow> nat" where
  "doubling n = (if n \<le> 1 then 1 else if n = 2 then 2 else if n \<le> 4 then 4 else 2 * n)"

definition demo_conds :: "nat \<times> nat store" where
  "demo_conds = (case NewCondition empty_store of (c, h) \<Rightarrow>
     (case cond_chain doubling [OAnd ''a'' [1], OAnd ''b'' [2], OAnd ''c'' [3]] c h of Inr r \<Rightarrow> r | Inl _ \<Rightarrow> (0, empty_store)))"

lemma demo_conds_state: "fst demo_conds = 3" "conds_ok (snd demo_conds)" "next_cond (snd demo_conds) = 4"
  "slen (conds (snd demo_conds) 3) = 3" "length (arrays (snd demo_conds) (arr (conds (snd demo_conds) 3))) = 4"
  by (auto simp: demo_conds_def NewCondition_def empty_store_def alloc_cond_def cond_And_def append_copy_def go_append_def
      contents_def doubling_def conds_ok_def less_Suc_eq Let_def)

theorem cond_sharing_overwrites_witness:
  "\<exists>c1 h1 c2 h2. cond_And doubling ''x'' [4] 3 (snd demo_conds) = Inr (c1, h1) \<and> cond_And doubling ''y'' [5] 3 h1 = Inr (c2, h2) \<and>
     cond_params h2 c1 = cond_params h2 c2"
proof -
  have total: "\<exists>c' h'. cond_And doubling e [n] 3 h = Inr (c', h')" if "e \<noteq> []" for e n and h :: "nat store"
    using that by (cases "append_copy doubling (CondValue (split e ''__'') [n] None False False False False []) 3 h") (simp add: cond_And_def)
  obtain c1 h1 where a1: "cond_And doubling ''x'' [4] 3 (snd demo_conds) = Inr (c1, h1)" using total [of "''x''"] by blast
  obtain c2 h2 where a2: "cond_And doubling ''y'' [5] 3 h1 = Inr (c2, h2)" using total [of "''y''"] by blast
  note a = a1 a2
  have "3 < next_cond (snd demo_conds)" "slen (conds (snd demo_conds) 3) < length (arrays (snd demo_conds) (arr (conds (snd demo_conds) 3)))"
    by (simp_all add: demo_conds_state)
  from cond_sharing_overwrites [OF demo_conds_state(2) this a] a show ?thesis by blast
qed

text \<open> AndCond refuses the condition itself as its sub-condition; AndNotCond, OrCond and OrNotCond compare with
  the fresh clone instead, so they accept it, and no allocated condition ever makes them panic.\<close>

theorem self_checks_dead:
  "AndCond newcap (Some c) c h = Inl (UseSelf ''AndCond'') \<and>
   (if pred_option (\<lambda>d. d < next_cond h) sub
    then (\<exists>r. AndNotCond newcap sub c h = Inr r) \<and> (\<exists>r. OrCond newcap sub c h = Inr r) \<and> (\<exists>r. OrNotCond newcap sub c h = Inr r)
    else True)"
proof -
  have "fst (cond_clone c h) = next_cond h" by (simp add: cond_clone_def alloc_cond_def Let_def)
  then show ?thesis
    by (cases sub) (auto simp: AndCond_def AndNotCond_def OrCond_def OrNotCond_def split: prod.splits)
qed

section \<open>Order clauses\<close>

datatype sort_kind = SNone | Ascending | Descending

record Order =
  column :: string
  sort :: sort_kind
  order_isRaw :: bool

type_synonym order_option = "Order \<Rightarrow> Order"

definition Clause :: "order_option list \<Rightarrow> Order" where
  "Clause options = fold (\<lambda>opt o'. opt o') options \<lparr>column = [], sort = SNone, order_isRaw = False\<rparr>"

definition GetColumn :: "Order \<Rightarrow> string" where
  "GetColumn o' = column o'"

definition GetSort :: "Order \<Rightarrow> sort_kind" where
  "GetSort o' = sort o'"

definition SortString :: "Order \<Rightarrow> string" where
  "SortString o' = (case GetSort o' of Ascending \<Rightarrow> ''ASC'' | Descending \<Rightarrow> ''DESC'' | SNone \<Rightarrow> [])"

definition order_IsRaw :: "Order \<Rightarrow> bool" where
  "order_IsRaw o' = order_isRaw o'"

definition Column :: "string \<Rightarrow> order_option" where
  "Column col = (\<lambda>o'. o'\<lparr>column := replace_all col ''__'' ''.''\<rparr>)"

definition SortAscending :: order_option where "SortAscending = (\<lambda>o'. o'\<lparr>sort := Ascending\<rparr>)"

definition SortDescending :: order_option where "SortDescending = (\<lambda>o'. o'\<lparr>sort := Descending\<rparr>)"

definition SortNone :: order_option where "SortNone = (\<lambda>o'. o'\<lparr>sort := SNone\<rparr>)"

definition order_Raw :: order_option where "order_Raw = (\<lambda>o'. o'\<lparr>order_isRaw := True\<rparr>)"

text \<open>An expression of the empty string panics (index out of range), as does the whole call.\<close>

fun ParseOrder :: "string list \<Rightarrow> nat + Order list" where
  "ParseOrder [] = Inr []"
| "ParseOrder (expression # es) =
     (let col = replace_all expression ''__'' ''.'' in
      if col = [] then Inl 0
      else let o' = (if col ! 0 = CHR ''-'' then \<lparr>column = drop 1 col, sort = Descending, order_isRaw = False\<rparr>
                     else \<lparr>column = col, sort = Ascending, order_isRaw = False\<rparr>)
           in res_bind (ParseOrder es) (\<lambda>os. Inr (o' # os)))"

text \<open>An order as an expression of the query interface.\<close>

definition order_expr :: "Order \<Rightarrow> string" where
  "order_expr o' = (if sort o' = Descending then CHR ''-'' # column o' else column o')"

fun no_double :: "string \<Rightarrow> bool" where
  "no_double (a # b # s) \<longleftrightarrow> \<not> (a = CHR ''_'' \<and> b = CHR ''_'') \<and> no_double (b # s)"
| "no_double _ \<longleftrightarrow> True"

definition clean_order :: "Order \<Rightarrow> bool" where
  "clean_order o' \<longleftrightarrow> column o' \<noteq> [] \<and> hd (column o') \<noteq> CHR ''-'' \<and> no_double (column o') \<and> sort o' \<noteq> SNone \<and> \<not> order_isRaw o'"

lemma split_no_double: "no_double s \<Longrightarrow> split_aux ''__'' acc s = [rev acc @ s]"
proof (induction s arbitrary: acc rule: no_double.induct)
  case (1 a b s)
  then show ?case by (subst split_aux.simps) (simp add: has_prefix_def)
qed (simp_all add: has_prefix_def)

lemma replace_no_double: "no_double s \<Longrightarrow> replace_all s ''__'' r = s"
  by (simp add: replace_all_def split_def split_no_double)

text \<open> Parsing the expressions of a list of orders, a minus sign in front of the column for a descending one,
  gives the orders back in their sequence, and SortString prints their direction.\<close>

theorem ParseOrder_roundtrip:
  assumes "list_all clean_order os"
  shows "ParseOrder (map order_expr os) = Inr os \<and>
    map SortString os = map (\<lambda>e. if hd e = CHR ''-'' then ''DESC'' else ''ASC'') (map order_expr os)"
  using assms
proof (induction os)
  case (Cons x xs)
  have x: "column x \<noteq> []" "hd (column x) \<noteq> CHR ''-''" "no_double (column x)" "sort x \<noteq> SNone" "\<not> order_isRaw x"
    using Cons.prems by (auto simp: clean_order_def)
  have "no_double (CHR ''-'' # column x)" using x(3) by (cases "column x") simp_all
  with x have "replace_all (order_expr x) ''__'' ''.'' = order_expr x" by (simp add: order_expr_def replace_no_double)
  moreover have "sort x = Ascending \<or> sort x = Descending" using x(4) by (cases "sort x") auto
  ultimately show ?case using Cons x
    by (auto simp: order_expr_def SortString_def GetSort_def hd_conv_nth Let_def intro: Order.equality)
qed simp

theorem ParseOrder_roundtrip_witness:
  "ParseOrder [''-age'', ''user.name''] = Inr [\<lparr>column = ''age'', sort = Descending, order_isRaw = False\<rparr>,
     \<lparr>column = ''user.name'', sort = Ascending, order_isRaw = False\<rparr>]"
  using ParseOrder_roundtrip [of "[\<lparr>column = ''age'', sort = Descending, order_isRaw = False\<rparr>,
     \<lparr>column = ''user.name'', sort = Ascending, order_isRaw = False\<rparr>]"]
  by (simp add: clean_order_def order_expr_def)

end
