(* ===== verification/Orm_Tables.thy ===== *)
theory Orm_Tables
  imports Orm_Dialect Orm_Conds "HOL-Library.Sublist"
begin

text \<open>
  Queries over related models: \<^verbatim>\<open>client/orm/db_tables.go\<close> (the tables that a query joins, expressions such as
  \<^verbatim>\<open>User__Profile__Age\<close>, conditions, groups, orders, limits) and the queries of \<^verbatim>\<open>client/orm/db.go\<close> that use
  them (\<^verbatim>\<open>readSQL\<close>, \<^verbatim>\<open>countSQL\<close>).

  A table of a collection is referred to by its position, a condition by its address in the store of
  \<open>Orm_Conds\<close>. The registry of models is the one that the start of the program built.
\<close>

section \<open>Tables\<close>

record dbTable =
  t_id :: nat
  t_index :: string
  t_name :: string
  t_names :: "string list"
  t_sel :: bool
  t_inner :: bool
  t_mi :: nat
  t_fi :: nat
  t_jtl :: "nat option"

record dbTables =
  tablesM :: "string \<rightharpoonup> nat"
  tables :: "dbTable list"
  ts_mi :: nat
  base :: dialect
  skipEnd :: bool

definition ExprSep :: string where
  "ExprSep = ''__''"

definition newDbTables :: "nat \<Rightarrow> dialect \<Rightarrow> dbTables" where
  "newDbTables mi d = \<lparr>tablesM = Map.empty, tables = [], ts_mi = mi, base = d, skipEnd = False\<rparr>"

definition new_table :: "string list \<Rightarrow> nat \<Rightarrow> nat \<Rightarrow> bool \<Rightarrow> dbTables \<Rightarrow> dbTables" where
  "new_table names mi fi inner t =
     (let i = length (tables t) + 1; name = join ExprSep names
      in t\<lparr>tablesM := (tablesM t)(name \<mapsto> length (tables t)),
           tables := tables t @ [\<lparr>t_id = i, t_index = ''T'' @ itoa (int i), t_name = name, t_names = names, t_sel = False, t_inner = inner,
             t_mi = mi, t_fi = fi, t_jtl = None\<rparr>]\<rparr>)"

definition upd_table :: "nat \<Rightarrow> (dbTable \<Rightarrow> dbTable) \<Rightarrow> dbTables \<Rightarrow> dbTables" where
  "upd_table p f t = t\<lparr>tables := (tables t)[p := f (tables t ! p)]\<rparr>"

definition tables_set :: "string list \<Rightarrow> nat \<Rightarrow> nat \<Rightarrow> bool \<Rightarrow> dbTables \<Rightarrow> nat \<times> dbTables" where
  "tables_set names mi fi inner t =
     (case tablesM t (join ExprSep names) of
        Some p \<Rightarrow> (p, upd_table p (\<lambda>j. j\<lparr>t_name := join ExprSep names, t_mi := mi, t_fi := fi, t_inner := inner\<rparr>) t)
      | None \<Rightarrow> (length (tables t), new_table names mi fi inner t))"

definition tables_add :: "string list \<Rightarrow> nat \<Rightarrow> nat \<Rightarrow> bool \<Rightarrow> dbTables \<Rightarrow> nat \<times> dbTables" where
  "tables_add names mi fi inner t =
     (case tablesM t (join ExprSep names) of
        None \<Rightarrow> (length (tables t), new_table names mi fi inner t)
      | Some p \<Rightarrow> (p, t))"

definition tables_get :: "string \<Rightarrow> dbTables \<Rightarrow> nat option" where
  "tables_get name t = tablesM t name"

abbreviation model_fields :: "registry \<Rightarrow> nat \<Rightarrow> Fields" where
  "model_fields R mi \<equiv> mi_Fields (model R mi)"

function loopDepth :: "registry \<Rightarrow> int \<Rightarrow> string \<Rightarrow> nat \<Rightarrow> string list \<Rightarrow> string list" and
  depth_loop :: "registry \<Rightarrow> int \<Rightarrow> string \<Rightarrow> nat list \<Rightarrow> string list \<Rightarrow> string list"
where
  "loopDepth R depth pre fi related =
     (if depth < 0 \<or> FieldType (field R fi) = TypeRelManyToMany then related
      else let pre = (if pre = [] then Name (field R fi) else pre @ ExprSep @ Name (field R fi))
           in depth_loop R (depth - 1) pre (FieldsRel (model_fields R (RelModelInfo (field R fi)))) (related @ [pre]))"
| "depth_loop R depth pre [] related = related"
| "depth_loop R depth pre (fi # fis) related = depth_loop R depth pre fis (loopDepth R depth pre fi related)"
  by pat_completeness auto
termination
  by (relation "measures [\<lambda>x. case x of Inl (R, depth, pre, fi, related) \<Rightarrow> nat (depth + 1) | Inr (R, depth, pre, fis, related) \<Rightarrow> nat (depth + 1),
       \<lambda>x. case x of Inl _ \<Rightarrow> 0 | Inr (R, depth, pre, fis, related) \<Rightarrow> Suc (length fis)]") auto

declare loopDepth.simps [simp del]

text \<open>One path of a related field: the names so far, the model, whether the selection is cancelled, the previous table, inner.\<close>

fun related_loop :: "registry \<Rightarrow> int \<Rightarrow> bool \<Rightarrow> string list \<Rightarrow> string list \<Rightarrow> nat \<Rightarrow> bool \<Rightarrow> nat option \<Rightarrow> bool \<Rightarrow> dbTables \<Rightarrow> sql_panic + dbTables" where
  "related_loop R depth given [] names mmi cancel jtl inner t = Inr t"
| "related_loop R depth given (ex # exs) names mmi cancel jtl inner t =
     (case GetByAny (model_fields R mmi) ex of
        None \<Rightarrow> Inl (UnknownModel ex)
      | Some i \<Rightarrow>
          let fi = field R i in
          if Rel fi \<and> FieldType fi \<noteq> TypeRelManyToMany then
            let names = names @ [Name fi];
                mmi = RelModelInfo fi;
                inner = (if Null fi \<or> skipEnd t then False else inner);
                (jt, t) = tables_set names mmi i inner t;
                t = upd_table jt (\<lambda>j. j\<lparr>t_jtl := jtl\<rparr>) t;
                cancel = (if Reverse fi then False else cancel);
                t = (if cancel then upd_table jt (\<lambda>j. j\<lparr>t_sel := (if given then True else depth > 0)\<rparr>) t else t)
            in related_loop R depth given exs names mmi cancel (Some jt) inner t
          else Inl (UnknownModel ex))"

fun paths_loop :: "registry \<Rightarrow> int \<Rightarrow> nat \<Rightarrow> nat \<Rightarrow> string list \<Rightarrow> dbTables \<Rightarrow> sql_panic + dbTables" where
  "paths_loop R depth relsNum i [] t = Inr t"
| "paths_loop R depth relsNum i (s # ss) t =
     res_bind (related_loop R depth (i < relsNum) (split s ExprSep) [] (ts_mi t) True None True t)
       (\<lambda>t. paths_loop R depth relsNum (i + 1) ss t)"

definition parseRelated :: "registry \<Rightarrow> string list \<Rightarrow> int \<Rightarrow> dbTables \<Rightarrow> sql_panic + dbTables" where
  "parseRelated R rels depth t =
     (let relsNum = length rels;
          relDepth = (if relsNum \<noteq> 0 then 0 else depth) - 1;
          related = depth_loop R relDepth [] (FieldsRel (model_fields R (ts_mi t))) rels
      in paths_loop R depth relsNum 0 related t)"

text \<open>The join of a table. A field that is not found by the loop over the relations leaves the column empty.\<close>

fun find_rel :: "registry \<Rightarrow> nat \<Rightarrow> nat list \<Rightarrow> string" where
  "find_rel R mi [] = []"
| "find_rel R mi (i # is) = (if mi = RelModelInfo (field R i) then FieldInfo.Column (field R i) else find_rel R mi is)"

definition pk_column :: "registry \<Rightarrow> nat \<Rightarrow> string" where
  "pk_column R mi = FieldInfo.Column (field R (the (fs_Pk (model_fields R mi))))"

definition join_columns :: "registry \<Rightarrow> dbTable \<Rightarrow> string \<times> string" where
  "join_columns R jt =
     (let fi = field R (t_fi jt) in
      if FieldType fi = TypeRelManyToMany \<or> FieldType fi = TypeRelReverseMany \<or>
         Reverse fi \<and> FieldType (field R (ReverseFieldInfo fi)) = TypeRelManyToMany
      then (pk_column R (Mi fi), find_rel R (Mi fi) (FieldsRel (model_fields R (t_mi jt))))
      else if Reverse fi then (pk_column R (t_mi jt), FieldInfo.Column (field R (ReverseFieldInfo fi)))
      else (FieldInfo.Column fi, pk_column R (RelModelInfo fi)))"

definition join_text :: "registry \<Rightarrow> dbTables \<Rightarrow> dbTable \<Rightarrow> string" where
  "join_text R t jt =
     (let d = base t;
          t1 = (case t_jtl jt of None \<Rightarrow> ''T0'' | Some p \<Rightarrow> t_index (tables t ! p));
          t2 = t_index jt;
          (c1, c2) = join_columns R jt
      in (if t_inner jt then ''INNER JOIN '' else ''LEFT OUTER JOIN '') @
         quoted d (Table (model R (t_mi jt))) @ '' '' @ t2 @ '' ON '' @ t2 @ ''.'' @ quoted d c2 @ '' = '' @ t1 @ ''.'' @ quoted d c1 @ '' '')"

fun join_loop :: "registry \<Rightarrow> dbTables \<Rightarrow> dbTable list \<Rightarrow> string \<Rightarrow> string" where
  "join_loop R t [] acc = acc"
| "join_loop R t (jt # jts) acc = join_loop R t jts (acc @ join_text R t jt)"

definition getJoinSQL :: "registry \<Rightarrow> dbTables \<Rightarrow> string" where
  "getJoinSQL R t = join_loop R t (tables t) []"

section \<open>Expressions\<close>

record expr_result =
  x_index :: string
  x_name :: string
  x_info :: nat

text \<open>The last step of an expression: where the column is found.\<close>

definition expr_end :: "registry \<Rightarrow> nat \<Rightarrow> nat \<Rightarrow> nat option \<Rightarrow> dbTables \<Rightarrow> sql_panic + expr_result" where
  "expr_end R i f jtl t =
     (let fi = field R f;
          index = (case jtl of None \<Rightarrow> ''T0'' | Some p \<Rightarrow> if i = 0 then ''T0'' else t_index (tables t ! p));
          name = (case jtl of None \<Rightarrow> Name fi | Some p \<Rightarrow> t_name (tables t ! p) @ ExprSep @ Name fi)
      in if \<not> Rel fi \<and> Reverse fi \<and> FieldType (field R (ReverseFieldInfo fi)) \<in> {TypeRelOneToOne, TypeRelForeignKey}
         then (case jtl of
                 None \<Rightarrow> Inl NilPointer
               | Some p \<Rightarrow> let info = the (fs_Pk (model_fields R (Mi (field R (ReverseFieldInfo fi)))))
                           in Inr \<lparr>x_index = t_index (tables t ! p), x_name = Name (field R info), x_info = info\<rparr>)
         else Inr \<lparr>x_index = index, x_name = name, x_info = f\<rparr>)"

text \<open>The model in which the next part of an expression is looked up.\<close>

definition next_model :: "registry \<Rightarrow> nat \<Rightarrow> nat \<Rightarrow> nat" where
  "next_model R f mi =
     (if Rel (field R f) then (if FieldType (field R f) = TypeRelManyToMany then RelThroughModelInfo (field R f) else RelModelInfo (field R f))
      else if Reverse (field R f) then Mi (field R (ReverseFieldInfo (field R f))) else mi)"

text \<open>The join of one part of an expression: whether the expression ends here, and the state after the part.\<close>

definition part_join :: "registry \<Rightarrow> nat \<Rightarrow> string list \<Rightarrow> string list \<Rightarrow> nat \<Rightarrow> bool \<Rightarrow> nat option \<Rightarrow> dbTables \<Rightarrow> bool \<times> bool \<times> nat option \<times> dbTables" where
  "part_join R f rest names mmi inner jtl t =
     (let fi = field R f;
          mmi = next_model R f mmi;
          fiN = (case rest of [] \<Rightarrow> None | ex # _ \<Rightarrow> GetByAny (model_fields R mmi) ex);
          joins = ((Rel fi \<or> Reverse fi) \<and> (\<not> IsThrough (model R (Mi fi)) \<or> rest \<noteq> []));
          inner = (if joins \<and> (Null fi \<or> skipEnd t) then False else inner);
          wanted = (joins \<and> (skipEnd t \<and> fiN \<noteq> None \<or> \<not> skipEnd t));
          stops = (wanted \<and> skipEnd t \<and> (case fiN of None \<Rightarrow> False | Some g \<Rightarrow> Pk (field R g)))
      in if wanted \<and> \<not> stops
         then let (jt, t) = tables_add (names @ [Name fi]) mmi f inner t in (stops, inner, Some jt, upd_table jt (\<lambda>j. j\<lparr>t_jtl := jtl\<rparr>) t)
         else (stops, inner, jtl, t))"

text \<open>The loop over the parts: \<open>i\<close> is the position, \<open>f\<close> the field of the part, \<open>rest\<close> the parts that follow.\<close>

function expr_loop :: "registry \<Rightarrow> nat \<Rightarrow> nat \<Rightarrow> string list \<Rightarrow> string list \<Rightarrow> nat \<Rightarrow> bool \<Rightarrow> nat option \<Rightarrow> dbTables \<Rightarrow> (sql_panic + expr_result option) \<times> dbTables" where
  "expr_loop R i f rest names mmi inner jtl t =
     (case part_join R f rest names mmi inner jtl t of (stops, inner', jtl', t') \<Rightarrow>
        if stops \<or> rest = [] then (map_sum id Some (expr_end R i f jtl' t'), t')
        else case GetByAny (model_fields R (next_model R f mmi)) (hd rest) of
               None \<Rightarrow> (Inr None, t')
             | Some g \<Rightarrow> expr_loop R (i + 1) g (tl rest) (names @ [Name (field R f)]) (next_model R f mmi) inner' jtl' t')"
  by pat_completeness auto
termination
  by (relation "measure (\<lambda>(R, i, f, rest, names, mmi, inner, jtl, t). length rest)") auto

declare expr_loop.simps [simp del]

definition parseExprs :: "registry \<Rightarrow> nat \<Rightarrow> string list \<Rightarrow> dbTables \<Rightarrow> (sql_panic + expr_result option) \<times> dbTables" where
  "parseExprs R mi es t =
     (case es of
        [] \<Rightarrow> (Inr None, t)
      | ex # rest \<Rightarrow> (case GetByAny (model_fields R mi) ex of
          None \<Rightarrow> (Inr None, t)
        | Some f \<Rightarrow> expr_loop R 0 f rest [] mi True None t))"

section \<open>Conditions, groups, orders, limits\<close>

definition cond_expr_sql :: "conv_env \<Rightarrow> registry \<Rightarrow> oval condValue \<Rightarrow> dbTables \<Rightarrow> (sql_panic + string \<times> oval list) \<times> dbTables" where
  "cond_expr_sql E R p t =
     (let es = exprs p;
          num = length es - 1;
          (operator, path) = (if es \<noteq> [] \<and> es ! num \<in> set operators then (es ! num, take num es) else ([], es))
      in if es = [] then (Inl IndexRange, t)
         else case parseExprs R (ts_mi t) path t of
           (Inl e, t) \<Rightarrow> (Inl e, t)
         | (Inr None, t) \<Rightarrow> (Inl (UnknownField (join ExprSep es)), t)
         | (Inr (Some x), t) \<Rightarrow>
             let operator = (if operator = [] then ''exact'' else operator);
                 fi = field R (x_info x);
                 leftCol = GenerateOperatorLeftCol (base t) fi operator (x_index x @ ''.'' @ quoted (base t) (FieldInfo.Column fi))
             in (res_bind (if isRaw p then Inr (sql p, []) else GenerateOperatorSQL E (base t) fi operator (args p))
                   (\<lambda>(operSQL, as). Inr (leftCol @ '' '' @ operSQL @ '' '', as)), t))"

text \<open>The text of a condition, with the fuel for the depth of nested conditions; \<open>sub\<close> is true for a nested one.\<close>

definition cond_word :: "nat \<Rightarrow> 'v condValue \<Rightarrow> string" where
  "cond_word i p = (if i > 0 then (if isOr p then ''OR '' else ''AND '') else []) @ (if isNot p then ''NOT '' else [])"

fun getCondSQL :: "nat \<Rightarrow> conv_env \<Rightarrow> registry \<Rightarrow> oval store \<Rightarrow> nat option \<Rightarrow> bool \<Rightarrow> dbTables \<Rightarrow> ((sql_panic + string \<times> oval list) \<times> dbTables) option" and
  cond_loop :: "nat \<Rightarrow> conv_env \<Rightarrow> registry \<Rightarrow> oval store \<Rightarrow> nat \<Rightarrow> oval condValue list \<Rightarrow> string \<Rightarrow> oval list \<Rightarrow> dbTables
    \<Rightarrow> ((sql_panic + string \<times> oval list) \<times> dbTables) option" where
  "getCondSQL 0 E R h c sub t = None"
| "getCondSQL (Suc n) E R h c sub t =
     (case c of
        None \<Rightarrow> Some (Inr ([], []), t)
      | Some a \<Rightarrow>
          if cond_IsEmpty h a then Some (Inr ([], []), t)
          else case cond_loop n E R h 0 (cond_params h a) [] [] t of
            None \<Rightarrow> None
          | Some (Inl e, t) \<Rightarrow> Some (Inl e, t)
          | Some (Inr (w, ps), t) \<Rightarrow> Some (Inr (if \<not> sub \<and> w \<noteq> [] then ''WHERE '' @ w else w, ps), t))"
| "cond_loop n E R h i [] w ps t = Some (Inr (w, ps), t)"
| "cond_loop n E R h i (p # rest) w ps t =
     (let w = w @ cond_word i p in
      if isCond p then
        (case getCondSQL n E R h (cond p) True t of
           None \<Rightarrow> None
         | Some (Inl e, t) \<Rightarrow> Some (Inl e, t)
         | Some (Inr (w', ps'), t) \<Rightarrow>
             cond_loop n E R h (i + 1) rest (w @ (if w' \<noteq> [] then ''( '' @ w' @ '') '' else w')) (ps @ ps') t)
      else case cond_expr_sql E R p t of
             (Inl e, t) \<Rightarrow> Some (Inl e, t)
           | (Inr (w', ps'), t) \<Rightarrow> cond_loop n E R h (i + 1) rest (w @ w') (ps @ ps') t)"

fun group_loop :: "registry \<Rightarrow> string list \<Rightarrow> string list \<Rightarrow> dbTables \<Rightarrow> (sql_panic + string list) \<times> dbTables" where
  "group_loop R [] acc t = (Inr acc, t)"
| "group_loop R (g # gs) acc t =
     (case parseExprs R (ts_mi t) (split g ExprSep) t of
        (Inl e, t) \<Rightarrow> (Inl e, t)
      | (Inr None, t) \<Rightarrow> (Inl (UnknownField (join ExprSep (split g ExprSep))), t)
      | (Inr (Some x), t) \<Rightarrow> group_loop R gs (acc @ [x_index x @ ''.'' @ quoted (base t) (FieldInfo.Column (field R (x_info x)))]) t)"

definition getGroupSQL :: "registry \<Rightarrow> string list \<Rightarrow> dbTables \<Rightarrow> (sql_panic + string) \<times> dbTables" where
  "getGroupSQL R groups t =
     (if groups = [] then (Inr [], t)
      else case group_loop R groups [] t of
             (Inl e, t) \<Rightarrow> (Inl e, t)
           | (Inr gs, t) \<Rightarrow> (Inr (''GROUP BY '' @ join '', '' gs @ '' ''), t))"

fun order_loop :: "registry \<Rightarrow> Order list \<Rightarrow> string list \<Rightarrow> dbTables \<Rightarrow> (sql_panic + string list) \<times> dbTables" where
  "order_loop R [] acc t = (Inr acc, t)"
| "order_loop R (ord # os) acc t =
     (let clause = split (GetColumn ord) ''.'' in
      if order_IsRaw ord then
        (case clause of
           [a, b] \<Rightarrow> order_loop R os (acc @ [a @ ''.'' @ b @ '' '' @ SortString ord]) t
         | [a] \<Rightarrow> order_loop R os (acc @ [a @ '' '' @ SortString ord]) t
         | _ \<Rightarrow> (Inl (UnknownField (join ExprSep clause)), t))
      else case parseExprs R (ts_mi t) clause t of
             (Inl e, t) \<Rightarrow> (Inl e, t)
           | (Inr None, t) \<Rightarrow> (Inl (UnknownField (join ExprSep clause)), t)
           | (Inr (Some x), t) \<Rightarrow>
               order_loop R os (acc @ [x_index x @ ''.'' @ quoted (base t) (FieldInfo.Column (field R (x_info x))) @ '' '' @ SortString ord]) t)"

definition getOrderSQL :: "registry \<Rightarrow> Order list \<Rightarrow> dbTables \<Rightarrow> (sql_panic + string) \<times> dbTables" where
  "getOrderSQL R orders t =
     (if orders = [] then (Inr [], t)
      else case order_loop R orders [] t of
             (Inl e, t) \<Rightarrow> (Inl e, t)
           | (Inr os, t) \<Rightarrow> (Inr (''ORDER BY '' @ join '', '' os @ '' ''), t))"

definition DefaultRowsLimit :: int where
  "DefaultRowsLimit = - 1"

definition getLimitSQL :: "int \<Rightarrow> int \<Rightarrow> dbTables \<Rightarrow> string" where
  "getLimitSQL offset limit t =
     (let limit = (if limit = 0 then DefaultRowsLimit else limit) in
      if limit < 0 then
        (if offset > 0 then
           (let maxLimit = MaxLimit (base t) in
            if maxLimit = 0 then ''OFFSET '' @ itoa offset else ''LIMIT '' @ utoa maxLimit @ '' OFFSET '' @ itoa offset)
         else [])
      else if offset \<le> 0 then ''LIMIT '' @ itoa limit
      else ''LIMIT '' @ itoa limit @ '' OFFSET '' @ itoa offset)"

definition getIndexSql :: "string \<Rightarrow> index_hint \<Rightarrow> string list \<Rightarrow> dbTables \<Rightarrow> string" where
  "getIndexSql tableName useIndex indexes t = (if indexes = [] then [] else GenerateSpecifyIndex (base t) tableName useIndex indexes)"

section \<open>Queries\<close>

record querySet =
  qs_cond :: "nat option"
  related :: "string list"
  relDepth :: int
  limit :: int
  offset :: int
  groups :: "string list"
  orders :: "Order list"
  distinct_rows :: bool
  forUpdate :: bool
  useIndex :: index_hint
  indexes :: "string list"
  aggregate :: string

definition preProcCols :: "dialect \<Rightarrow> string list \<Rightarrow> string list" where
  "preProcCols d cols = map (\<lambda>c. ''T0.'' @ quoted d c) cols"

definition sel_cols :: "registry \<Rightarrow> dialect \<Rightarrow> dbTable \<Rightarrow> string" where
  "sel_cols R d tbl =
     (if t_sel tbl then '', '' @ sep_loop '', '' (\<lambda>c. t_index tbl @ ''.'' @ quoted d c) 0 (DBcols (model_fields R (t_mi tbl))) else [])"

definition select_text :: "registry \<Rightarrow> string list \<Rightarrow> querySet \<Rightarrow> nat \<Rightarrow> dbTables \<Rightarrow> string \<Rightarrow> string \<Rightarrow> string \<Rightarrow> string" where
  "select_text R tCols qs mi t where' groupBy orderBy =
     ''SELECT '' @ (if distinct_rows qs then ''DISTINCT '' else []) @
     (if aggregate qs = [] then sep_loop '', '' id 0 tCols @ concat (map (sel_cols R (base t)) (tables t)) else aggregate qs) @
     '' FROM '' @ quoted (base t) (Table (model R mi)) @ '' T0 '' @ getIndexSql (Table (model R mi)) (useIndex qs) (indexes qs) t @
     getJoinSQL R t @ where' @ groupBy @ orderBy @ getLimitSQL (offset qs) (limit qs) t @ (if forUpdate qs then '' FOR UPDATE'' else [])"

definition readSQL :: "nat \<Rightarrow> conv_env \<Rightarrow> registry \<Rightarrow> oval store \<Rightarrow> string list \<Rightarrow> querySet \<Rightarrow> nat \<Rightarrow> dbTables
    \<Rightarrow> ((sql_panic + string \<times> oval list) \<times> dbTables) option" where
  "readSQL n E R h tCols qs mi t =
     (case getCondSQL n E R h (qs_cond qs) False t of
        None \<Rightarrow> None
      | Some (Inl e, t) \<Rightarrow> Some (Inl e, t)
      | Some (Inr (where', as), t) \<Rightarrow> Some
          (case getGroupSQL R (groups qs) t of
             (Inl e, t) \<Rightarrow> (Inl e, t)
           | (Inr groupBy, t) \<Rightarrow> (case getOrderSQL R (orders qs) t of
               (Inl e, t) \<Rightarrow> (Inl e, t)
             | (Inr orderBy, t) \<Rightarrow> (Inr (select_text R tCols qs mi t where' groupBy orderBy, as), t))))"

definition readBatchSQL :: "nat \<Rightarrow> conv_env \<Rightarrow> registry \<Rightarrow> oval store \<Rightarrow> string list \<Rightarrow> querySet \<Rightarrow> nat \<Rightarrow> dbTables
    \<Rightarrow> ((sql_panic + string \<times> oval list) \<times> dbTables) option" where
  "readBatchSQL n E R h tCols qs mi t =
     map_option (map_prod (map_sum id (map_prod (ReplaceMarks (base t)) id)) id) (readSQL n E R h (preProcCols (base t) tCols) qs mi t)"

definition readValuesSQL :: "nat \<Rightarrow> conv_env \<Rightarrow> registry \<Rightarrow> oval store \<Rightarrow> string list \<Rightarrow> querySet \<Rightarrow> nat \<Rightarrow> dbTables
    \<Rightarrow> ((sql_panic + string \<times> oval list) \<times> dbTables) option" where
  "readValuesSQL n E R h cols qs mi t =
     map_option (map_prod (map_sum id (map_prod (ReplaceMarks (base t)) id)) id) (readSQL n E R h cols qs mi t)"

definition countSQL :: "nat \<Rightarrow> conv_env \<Rightarrow> registry \<Rightarrow> oval store \<Rightarrow> querySet \<Rightarrow> nat \<Rightarrow> dialect \<Rightarrow> (sql_panic + string \<times> oval list) option" where
  "countSQL n E R h qs mi d =
     (case parseRelated R (related qs) (relDepth qs) (newDbTables mi d) of
        Inl e \<Rightarrow> Some (Inl e)
      | Inr t \<Rightarrow> (case readSQL n E R h [] (qs\<lparr>aggregate := ''COUNT(*)''\<rparr>) mi t of
          None \<Rightarrow> None
        | Some (Inl e, t) \<Rightarrow> Some (Inl e)
        | Some (Inr (q, as), t) \<Rightarrow>
            Some (Inr (ReplaceMarks d (if groups qs \<noteq> [] then ''SELECT COUNT(*) FROM ('' @ q @ '') AS T'' else q), as))))"

section \<open>Names of paths\<close>

fun dunder_free :: "string \<Rightarrow> bool" where
  "dunder_free (c # d # cs) = (\<not> (c = CHR ''_'' \<and> d = CHR ''_'') \<and> dunder_free (d # cs))"
| "dunder_free _ = True"

text \<open>Names as the fields of Go structs have them, without a double underscore.\<close>

definition path_name :: "string \<Rightarrow> bool" where
  "path_name n \<longleftrightarrow> n \<noteq> [] \<and> hd n \<noteq> CHR ''_'' \<and> dunder_free n"

lemma dunder_free_not: "\<not> dunder_free (a @ CHR ''_'' # CHR ''_'' # b)"
proof (induction a)
  case (Cons c a)
  then show ?case by (cases a) auto
qed simp

text \<open>The text of a path determines the path.\<close>

lemma path_cancel:
  assumes "x @ ''__'' @ r = y @ ''__'' @ s" "path_name x" "path_name y" "r \<noteq> []" "hd r \<noteq> CHR ''_''" "s \<noteq> []" "hd s \<noteq> CHR ''_''"
  shows "x = y \<and> r = s"
proof -
  have *: "u = v" if eq: "u @ ''__'' @ r = v @ ''__'' @ s" and v: "path_name v" and r: "r \<noteq> []" "hd r \<noteq> CHR ''_''" and le: "length u \<le> length v"
    for u v r s :: string
  proof -
    from eq le obtain w where w: "v = u @ w" "''__'' @ r = w @ ''__'' @ s"
      by (auto simp: append_eq_append_conv2)
    have "w = []"
    proof (rule ccontr)
      assume "w \<noteq> []"
      with w(2) obtain w1 where w1: "w = CHR ''_'' # w1" "CHR ''_'' # r = w1 @ ''__'' @ s" by (cases w) auto
      show False
      proof (cases w1)
        case Nil
        with w1(2) r show False by auto
      next
        case (Cons c w2)
        with w1 have "v = u @ CHR ''_'' # CHR ''_'' # w2" using w(1) by auto
        with v dunder_free_not [of u w2] show False by (simp add: path_name_def)
      qed
    qed
    with w(1) show ?thesis by simp
  qed
  have "x = y"
  proof (cases "length x \<le> length y")
    case True
    with * [OF assms(1,3,4,5)] show ?thesis by simp
  next
    case False
    with * [OF assms(1) [symmetric] assms(2,6,7)] show ?thesis by simp
  qed
  with assms(1) show ?thesis by simp
qed

lemma join_path_hd:
  assumes "xs \<noteq> []" "list_all path_name xs"
  shows "join ExprSep xs \<noteq> [] \<and> hd (join ExprSep xs) \<noteq> CHR ''_''"
proof -
  obtain x ys where xs: "xs = x # ys" using assms(1) by (cases xs) auto
  then have x: "x \<noteq> []" "hd x \<noteq> CHR ''_''" using assms(2) by (simp_all add: path_name_def)
  show ?thesis
  proof (cases "ys = []")
    case False
    then have "join ExprSep xs = x @ ExprSep @ join ExprSep ys" by (simp add: xs join_Cons)
    with x show ?thesis by simp
  qed (use xs x in simp)
qed

lemma dunder_free_path: "path_name x \<Longrightarrow> x = y @ ''__'' @ r \<Longrightarrow> False"
  using dunder_free_not [of y r] by (simp add: path_name_def)

lemma join_path_inj:
  "list_all path_name xs \<Longrightarrow> list_all path_name ys \<Longrightarrow> xs \<noteq> [] \<Longrightarrow> ys \<noteq> [] \<Longrightarrow> join ExprSep xs = join ExprSep ys \<Longrightarrow> xs = ys"
proof (induction xs arbitrary: ys)
  case (Cons x xs)
  obtain y ys' where ys: "ys = y # ys'" using Cons.prems(4) by (cases ys) auto
  have x: "path_name x" "list_all path_name xs" and y: "path_name y" "list_all path_name ys'" using Cons.prems(1,2) by (simp_all add: ys)
  show ?case
  proof (cases "xs = [] \<or> ys' = []")
    case True
    consider "xs = []" "ys' = []" | "xs = []" "ys' \<noteq> []" | "xs \<noteq> []" "ys' = []" using True by blast
    then show ?thesis
    proof cases
      case 1
      with Cons.prems(5) show ?thesis by (simp add: ys)
    next
      case 2
      then have "x = y @ ''__'' @ join ExprSep ys'" using Cons.prems(5) by (simp add: ys join_Cons ExprSep_def)
      with dunder_free_path [OF x(1)] show ?thesis by blast
    next
      case 3
      then have "y = x @ ''__'' @ join ExprSep xs" using Cons.prems(5) by (simp add: ys join_Cons ExprSep_def)
      with dunder_free_path [OF y(1)] show ?thesis by blast
    qed
  next
    case False
    then have "x @ ''__'' @ join ExprSep xs = y @ ''__'' @ join ExprSep ys'" using Cons.prems(5) by (simp add: ys join_Cons ExprSep_def)
    with path_cancel [OF this x(1) y(1)] join_path_hd [OF _ x(2)] join_path_hd [OF _ y(2)] False
    have "x = y" "join ExprSep xs = join ExprSep ys'" by auto
    with Cons.IH [OF x(2) y(2)] False show ?thesis by (simp add: ys)
  qed
qed simp

section \<open>Scopes of aliases\<close>

text \<open>Following a path of names through the models, and the paths that end in a relation.\<close>

definition walk :: "registry \<Rightarrow> nat \<Rightarrow> string list \<Rightarrow> nat" where
  "walk R mi ns = foldl (\<lambda>m n. case fs_Fields (model_fields R m) n of None \<Rightarrow> m | Some f \<Rightarrow> next_model R f m) mi ns"

definition rel_path :: "registry \<Rightarrow> nat \<Rightarrow> string list \<Rightarrow> bool" where
  "rel_path R mi ns \<longleftrightarrow> ns \<noteq> [] \<and>
     (case fs_Fields (model_fields R (walk R mi (butlast ns))) (last ns) of
        None \<Rightarrow> False
      | Some f \<Rightarrow> Rel (field R f) \<or> Reverse (field R f))"

definition registry_ok :: "registry \<Rightarrow> bool" where
  "registry_ok R \<longleftrightarrow> (\<forall>m. fields_ok R (model_fields R m)) \<and> (\<forall>m n f. fs_Fields (model_fields R m) n = Some f \<longrightarrow> path_name n)"

text \<open>The tables of a collection are numbered; every path to a relation on the way to a table is the path of an earlier
  table; a table is joined with the main table or with an earlier one.\<close>

definition table_ok :: "registry \<Rightarrow> dbTables \<Rightarrow> nat \<Rightarrow> dbTable \<Rightarrow> bool" where
  "table_ok R t p jt \<longleftrightarrow>
     t_index jt = ''T'' @ itoa (int (p + 1)) \<and> t_name jt = join ExprSep (t_names jt) \<and> tablesM t (join ExprSep (t_names jt)) = Some p \<and>
     t_names jt \<noteq> [] \<and> list_all path_name (t_names jt) \<and>
     (\<forall>ms. strict_prefix ms (t_names jt) \<longrightarrow> rel_path R (ts_mi t) ms \<longrightarrow> (\<exists>q < p. t_names (tables t ! q) = ms)) \<and>
     (\<forall>q. t_jtl jt = Some q \<longrightarrow> q < p)"

definition scoped :: "registry \<Rightarrow> dbTables \<Rightarrow> bool" where
  "scoped R t \<longleftrightarrow> (\<forall>p < length (tables t). table_ok R t p (tables t ! p)) \<and>
     (\<forall>n p. tablesM t n = Some p \<longrightarrow> p < length (tables t) \<and> t_name (tables t ! p) = n)"

text \<open>The state of a loop along a path: the tables of the path so far are there, the previous table is one of them.\<close>

definition on_path :: "registry \<Rightarrow> string list \<Rightarrow> nat option \<Rightarrow> dbTables \<Rightarrow> bool" where
  "on_path R names jtl t \<longleftrightarrow> list_all path_name names \<and>
     (\<forall>ms. prefix ms names \<and> rel_path R (ts_mi t) ms \<longrightarrow> (\<exists>q < length (tables t). t_names (tables t ! q) = ms)) \<and>
     (\<forall>q. jtl = Some q \<longrightarrow> q < length (tables t) \<and> prefix (t_names (tables t ! q)) names \<and> rel_path R (ts_mi t) (t_names (tables t ! q)))"

lemma table_okD:
  assumes "table_ok R t p jt"
  shows "t_index jt = ''T'' @ itoa (int (p + 1))" "t_name jt = join ExprSep (t_names jt)" "tablesM t (join ExprSep (t_names jt)) = Some p"
    "t_names jt \<noteq> []" "list_all path_name (t_names jt)"
    "strict_prefix ms (t_names jt) \<Longrightarrow> rel_path R (ts_mi t) ms \<Longrightarrow> \<exists>q < p. t_names (tables t ! q) = ms"
    "t_jtl jt = Some q \<Longrightarrow> q < p"
  using assms unfolding table_ok_def by blast+

lemma scopedD:
  assumes "scoped R t"
  shows "p < length (tables t) \<Longrightarrow> table_ok R t p (tables t ! p)"
    "tablesM t n = Some p \<Longrightarrow> p < length (tables t)" "tablesM t n = Some p \<Longrightarrow> t_name (tables t ! p) = n"
  using assms unfolding scoped_def by blast+

lemma scopedI:
  assumes "\<And>p. p < length (tables t) \<Longrightarrow> table_ok R t p (tables t ! p)"
    "\<And>n p. tablesM t n = Some p \<Longrightarrow> p < length (tables t) \<and> t_name (tables t ! p) = n"
  shows "scoped R t"
  using assms unfolding scoped_def by blast

lemma scoped_unique:
  assumes "scoped R t" "p < length (tables t)" "q < length (tables t)" "t_names (tables t ! p) = t_names (tables t ! q)"
  shows "p = q"
proof -
  have "Some p = Some q"
    using table_okD(3) [OF scopedD(1) [OF assms(1,2)]] table_okD(3) [OF scopedD(1) [OF assms(1,3)]] unfolding assms(4) by (rule subst)
  then show ?thesis by simp
qed

lemma scoped_names:
  assumes "scoped R t" "tablesM t (join ExprSep ns) = Some p" "ns \<noteq> []" "list_all path_name ns"
  shows "t_names (tables t ! p) = ns"
proof -
  have p: "p < length (tables t)" and n: "t_name (tables t ! p) = join ExprSep ns" using scopedD(2,3) [OF assms(1,2)] by blast+
  note d = table_okD [OF scopedD(1) [OF assms(1) p]]
  have "join ExprSep (t_names (tables t ! p)) = join ExprSep ns" using d(2) n by (rule subst)
  with join_path_inj [OF d(5) assms(4) d(4) assms(3)] show ?thesis by blast
qed

lemma new_table_fields:
  "tables (new_table names mi fi inner t) = tables t @ [\<lparr>t_id = length (tables t) + 1, t_index = ''T'' @ itoa (int (length (tables t) + 1)),
     t_name = join ExprSep names, t_names = names, t_sel = False, t_inner = inner, t_mi = mi, t_fi = fi, t_jtl = None\<rparr>]"
  "tablesM (new_table names mi fi inner t) = (tablesM t)(join ExprSep names \<mapsto> length (tables t))"
  "ts_mi (new_table names mi fi inner t) = ts_mi t" "base (new_table names mi fi inner t) = base t" "skipEnd (new_table names mi fi inner t) = skipEnd t"
  by (simp_all add: new_table_def Let_def)

lemma new_table_scoped:
  assumes s: "scoped R t" and fresh: "tablesM t (join ExprSep names) = None" and ns: "names \<noteq> []" "list_all path_name names"
    and pre: "\<And>ms. strict_prefix ms names \<Longrightarrow> rel_path R (ts_mi t) ms \<Longrightarrow> \<exists>q < length (tables t). t_names (tables t ! q) = ms"
  shows "scoped R (new_table names mi fi inner t)" (is "scoped R ?t")
proof (rule scopedI)
  let ?n = "length (tables t)"
  have other: "n \<noteq> join ExprSep names" if "tablesM t n = Some p" for n p using that fresh by auto
  have old: "tables ?t ! q = tables t ! q" if "q < ?n" for q using that by (simp add: new_table_fields nth_append)
  have new: "tables ?t ! ?n = \<lparr>t_id = ?n + 1, t_index = ''T'' @ itoa (int (?n + 1)), t_name = join ExprSep names, t_names = names, t_sel = False,
      t_inner = inner, t_mi = mi, t_fi = fi, t_jtl = None\<rparr>" by (simp add: new_table_fields)
  fix p
  assume "p < length (tables ?t)"
  then consider "p < ?n" | "p = ?n" by (auto simp: new_table_fields less_Suc_eq)
  then show "table_ok R ?t p (tables ?t ! p)"
  proof cases
    case 1
    note d = table_okD [OF scopedD(1) [OF s 1]]
    show ?thesis
      unfolding table_ok_def old [OF 1] new_table_fields(3)
    proof (intro conjI allI impI)
      show "tablesM ?t (join ExprSep (t_names (tables t ! p))) = Some p"
        unfolding new_table_fields(2) fun_upd_other [OF other [OF d(3)]] by (rule d(3))
      fix ms
      assume "strict_prefix ms (t_names (tables t ! p))" "rel_path R (ts_mi t) ms"
      from d(6) [OF this] obtain q where "q < p" "t_names (tables t ! q) = ms" by blast
      with old [of q] 1 show "\<exists>q<p. t_names (tables ?t ! q) = ms" by (intro exI [of _ q]) simp
    qed (use d in blast)+
  next
    case 2
    show ?thesis
      unfolding 2 table_ok_def new new_table_fields(3)
    proof (intro conjI allI impI)
      fix ms
      assume "strict_prefix ms (t_names \<lparr>t_id = ?n + 1, t_index = ''T'' @ itoa (int (?n + 1)), t_name = join ExprSep names, t_names = names, t_sel = False,
          t_inner = inner, t_mi = mi, t_fi = fi, t_jtl = None\<rparr>)" "rel_path R (ts_mi t) ms"
      then obtain q where "q < ?n" "t_names (tables t ! q) = ms" using pre by auto
      with old [of q] show "\<exists>q<?n. t_names (tables ?t ! q) = ms" by (intro exI [of _ q]) simp
    qed (use ns in \<open>simp_all add: new_table_fields(2)\<close>)
  qed
next
  let ?n = "length (tables t)"
  fix n p
  assume "tablesM ?t n = Some p"
  then show "p < length (tables ?t) \<and> t_name (tables ?t ! p) = n"
    unfolding new_table_fields(2)
  proof (rule upd_Some_cases)
    assume "n = join ExprSep names" "p = ?n"
    then show ?thesis by (simp add: new_table_fields(1))
  next
    assume "tablesM t n = Some p" "n \<noteq> join ExprSep names"
    with scopedD(2,3) [OF s, of n p] show ?thesis by (simp add: new_table_fields(1) nth_append)
  qed
qed

text \<open>A change of a table that keeps its names and joins it with an earlier one keeps the scopes.\<close>

lemma upd_table_fields:
  "length (tables (upd_table p f t)) = length (tables t)" "tablesM (upd_table p f t) = tablesM t" "ts_mi (upd_table p f t) = ts_mi t"
  "base (upd_table p f t) = base t" "skipEnd (upd_table p f t) = skipEnd t"
  "q < length (tables t) \<Longrightarrow> tables (upd_table p f t) ! q = (if q = p then f (tables t ! q) else tables t ! q)"
  by (simp_all add: upd_table_def)

lemma upd_table_scoped:
  assumes s: "scoped R t" and f: "\<And>j. t_index (f j) = t_index j \<and> t_names (f j) = t_names j"
    and name: "p < length (tables t) \<Longrightarrow> t_name (f (tables t ! p)) = t_name (tables t ! p)"
    and jtl: "p < length (tables t) \<Longrightarrow> t_jtl (f (tables t ! p)) = t_jtl (tables t ! p) \<or> (\<forall>q. t_jtl (f (tables t ! p)) = Some q \<longrightarrow> q < p)"
  shows "scoped R (upd_table p f t)" (is "scoped R ?t")
proof (rule scopedI)
  have names: "t_names (tables ?t ! q) = t_names (tables t ! q)" if "q < length (tables t)" for q
    using f upd_table_fields(6) [OF that, of p f] by simp
  fix q
  assume "q < length (tables ?t)"
  then have q: "q < length (tables t)" by (simp add: upd_table_fields)
  note d = table_okD [OF scopedD(1) [OF s q]]
  have eq: "t_index (tables ?t ! q) = t_index (tables t ! q)" "t_name (tables ?t ! q) = t_name (tables t ! q)"
    using f name q upd_table_fields(6) [OF q, of p f] by auto
  have j: "t_jtl (tables ?t ! q) = Some r \<Longrightarrow> r < q" for r
    using jtl upd_table_fields(6) [OF q, of p f] d(7) q by (cases "q = p") auto
  show "table_ok R ?t q (tables ?t ! q)"
    unfolding table_ok_def names [OF q] eq upd_table_fields(2,3)
  proof (intro conjI allI impI)
    fix ms
    assume "strict_prefix ms (t_names (tables t ! q))" "rel_path R (ts_mi t) ms"
    from d(6) [OF this] obtain r where "r < q" "t_names (tables t ! r) = ms" by blast
    with names [of r] q show "\<exists>r<q. t_names (tables ?t ! r) = ms" by (intro exI [of _ r]) simp
  qed (use d j in blast)+
next
  fix n q
  assume "tablesM ?t n = Some q"
  with scopedD(2,3) [OF s, of n q] name show "q < length (tables ?t) \<and> t_name (tables ?t ! q) = n"
    by (auto simp: upd_table_fields)
qed

lemma rel_path_snoc:
  "rel_path R mi (ns @ [n]) \<longleftrightarrow> (case fs_Fields (model_fields R (walk R mi ns)) n of None \<Rightarrow> False | Some f \<Rightarrow> Rel (field R f) \<or> Reverse (field R f))"
  by (simp add: rel_path_def)

lemma walk_snoc: "fs_Fields (model_fields R (walk R mi ns)) n = Some f \<Longrightarrow> walk R mi (ns @ [n]) = next_model R f (walk R mi ns)"
  by (simp add: walk_def)

lemma on_path_Nil: "on_path R [] None t"
  by (simp add: on_path_def rel_path_def)

lemma on_path_skip:
  assumes "on_path R names jtl t" "\<not> rel_path R (ts_mi t) (names @ [n])" "path_name n"
  shows "on_path R (names @ [n]) jtl t"
  using assms unfolding on_path_def by (auto simp: prefix_snoc)

text \<open>Entering a relation: the table is found or added, and joined with the previous table of the path.\<close>

lemma enter_table:
  assumes s: "scoped R t" and on: "on_path R names jtl t" and n: "path_name n" and rel: "rel_path R (ts_mi t) (names @ [n])"
    and t1: "scoped R t1" "p < length (tables t1)" "t_names (tables t1 ! p) = names @ [n]" "ts_mi t1 = ts_mi t"
    and old: "\<And>q. q < length (tables t) \<Longrightarrow> q < length (tables t1) \<and> t_names (tables t1 ! q) = t_names (tables t ! q)"
  shows "scoped R (upd_table p (\<lambda>j. j\<lparr>t_jtl := jtl\<rparr>) t1)" (is "scoped R ?t")
    and "on_path R (names @ [n]) (Some p) (upd_table p (\<lambda>j. j\<lparr>t_jtl := jtl\<rparr>) t1)"
proof -
  have before: "q < p" if "jtl = Some q" for q
  proof -
    have q: "q < length (tables t)" "prefix (t_names (tables t ! q)) names" "rel_path R (ts_mi t) (t_names (tables t ! q))"
      using on that unfolding on_path_def by auto
    have "strict_prefix (t_names (tables t ! q)) (t_names (tables t1 ! p))"
      unfolding t1(3) using q(2) by (auto simp: strict_prefix_def prefix_snoc dest: prefix_length_le)
    from table_okD(6) [OF scopedD(1) [OF t1(1,2)] this] q(3) t1(4)
    obtain r where r: "r < p" "t_names (tables t1 ! r) = t_names (tables t ! q)" by auto
    with old [OF q(1)] t1(2) have "r = q" by (intro scoped_unique [OF t1(1)]) auto
    with r(1) show ?thesis by simp
  qed
  show "scoped R ?t" by (rule upd_table_scoped [OF t1(1)]) (auto simp: before)
  have names: "t_names (tables ?t ! q) = t_names (tables t1 ! q)" if "q < length (tables t1)" for q
    using upd_table_fields(6) [OF that, of p] by simp
  show "on_path R (names @ [n]) (Some p) ?t"
    unfolding on_path_def upd_table_fields(1,3) t1(4)
  proof (intro conjI allI impI)
    show "list_all path_name (names @ [n])" using on n by (simp add: on_path_def)
    fix ms
    assume ms: "prefix ms (names @ [n]) \<and> rel_path R (ts_mi t) ms"
    show "\<exists>q<length (tables t1). t_names (tables ?t ! q) = ms"
    proof (cases "ms = names @ [n]")
      case True
      with t1(2,3) names [OF t1(2)] show ?thesis by auto
    next
      case False
      with ms have "prefix ms names" by (simp add: prefix_snoc)
      with on ms obtain q where "q < length (tables t)" "t_names (tables t ! q) = ms" unfolding on_path_def by blast
      with old [of q] names [of q] show ?thesis by auto
    qed
  next
    fix q
    assume "Some p = Some q"
    then have q: "q = p" by simp
    show "q < length (tables t1)" using q t1(2) by simp
    show "prefix (t_names (tables ?t ! q)) (names @ [n])" "rel_path R (ts_mi t) (t_names (tables ?t ! q))"
      using q names [OF t1(2)] t1(3) rel by simp_all
  qed
qed

lemma tables_add_enters:
  assumes s: "scoped R t" and on: "on_path R names jtl t" and n: "path_name n" and a: "tables_add (names @ [n]) mi f inner t = (p, t1)"
  shows "scoped R t1" "p < length (tables t1)" "t_names (tables t1 ! p) = names @ [n]" "ts_mi t1 = ts_mi t"
    "\<And>q. q < length (tables t) \<Longrightarrow> q < length (tables t1) \<and> t_names (tables t1 ! q) = t_names (tables t ! q)"
proof -
  have ns: "names @ [n] \<noteq> []" "list_all path_name (names @ [n])" using on n by (simp_all add: on_path_def)
  have pre: "\<exists>q < length (tables t). t_names (tables t ! q) = ms" if "strict_prefix ms (names @ [n])" "rel_path R (ts_mi t) ms" for ms
    using on that unfolding on_path_def by (auto simp: strict_prefix_def prefix_snoc)
  have "scoped R t1 \<and> p < length (tables t1) \<and> t_names (tables t1 ! p) = names @ [n] \<and> ts_mi t1 = ts_mi t \<and>
      (\<forall>q < length (tables t). q < length (tables t1) \<and> t_names (tables t1 ! q) = t_names (tables t ! q))"
  proof (cases "tablesM t (join ExprSep (names @ [n]))")
    case None
    then have "p = length (tables t)" "t1 = new_table (names @ [n]) mi f inner t" using a by (simp_all add: tables_add_def)
    then show ?thesis using new_table_scoped [OF s None ns pre, of mi f inner] by (simp add: new_table_fields nth_append)
  next
    case (Some q)
    then have "p = q" "t1 = t" using a by (simp_all add: tables_add_def)
    with scoped_names [OF s Some ns] scopedD(2) [OF s Some] s show ?thesis by simp
  qed
  then show "scoped R t1" "p < length (tables t1)" "t_names (tables t1 ! p) = names @ [n]" "ts_mi t1 = ts_mi t"
    "\<And>q. q < length (tables t) \<Longrightarrow> q < length (tables t1) \<and> t_names (tables t1 ! q) = t_names (tables t ! q)" by blast+
qed

lemma tables_set_enters:
  assumes s: "scoped R t" and on: "on_path R names jtl t" and n: "path_name n" and a: "tables_set (names @ [n]) mi f inner t = (p, t1)"
  shows "scoped R t1" "p < length (tables t1)" "t_names (tables t1 ! p) = names @ [n]" "ts_mi t1 = ts_mi t"
    "\<And>q. q < length (tables t) \<Longrightarrow> q < length (tables t1) \<and> t_names (tables t1 ! q) = t_names (tables t ! q)"
proof -
  obtain t0 where t0: "tables_add (names @ [n]) mi f inner t = (p, t0)"
    and eq: "t1 = t0 \<or> t1 = upd_table p (\<lambda>j. j\<lparr>t_name := join ExprSep (names @ [n]), t_mi := mi, t_fi := f, t_inner := inner\<rparr>) t0"
    using a by (auto simp: tables_set_def tables_add_def split: option.splits)
  note e = tables_add_enters [OF s on n t0]
  let ?u = "upd_table p (\<lambda>j. j\<lparr>t_name := join ExprSep (names @ [n]), t_mi := mi, t_fi := f, t_inner := inner\<rparr>) t0"
  have "t_name (tables t0 ! p) = join ExprSep (names @ [n])" using table_okD(2) [OF scopedD(1) [OF e(1,2)]] e(3) by simp
  then have "scoped R ?u" by (intro upd_table_scoped [OF e(1)]) auto
  moreover have "t_names (tables ?u ! q) = t_names (tables t0 ! q)" if "q < length (tables t0)" for q
    using upd_table_fields(6) [OF that] by simp
  ultimately show "scoped R t1" "p < length (tables t1)" "t_names (tables t1 ! p) = names @ [n]" "ts_mi t1 = ts_mi t"
    "\<And>q. q < length (tables t) \<Longrightarrow> q < length (tables t1) \<and> t_names (tables t1 ! q) = t_names (tables t ! q)"
    using e eq by (auto simp: upd_table_fields)
qed

text \<open>What the table operations keep besides, and the aliases that a collection knows.\<close>

definition extends :: "dbTables \<Rightarrow> dbTables \<Rightarrow> bool" where
  "extends t t' \<longleftrightarrow> ts_mi t' = ts_mi t \<and> base t' = base t \<and> skipEnd t' = skipEnd t \<and> length (tables t) \<le> length (tables t')"

definition known_alias :: "dbTables \<Rightarrow> string \<Rightarrow> bool" where
  "known_alias t a \<longleftrightarrow> a = ''T0'' \<or> (\<exists>p < length (tables t). a = ''T'' @ itoa (int (p + 1)))"

lemma extends_refl [simp]: "extends t t" by (simp add: extends_def)

lemma extends_trans: "extends t u \<Longrightarrow> extends u v \<Longrightarrow> extends t v" by (auto simp: extends_def)

lemma extends_alias: "extends t u \<Longrightarrow> known_alias t a \<Longrightarrow> known_alias u a"
  unfolding known_alias_def extends_def by (metis order_less_le_trans)

lemma extends_upd [simp]: "extends t (upd_table p f u) \<longleftrightarrow> extends t u"
  by (simp add: extends_def upd_table_fields)

lemma extends_add: "tables_add ns mi f inner t = (p, u) \<Longrightarrow> extends t u"
  by (auto simp: tables_add_def extends_def new_table_fields split: option.splits)

lemma extends_set: "tables_set ns mi f inner t = (p, u) \<Longrightarrow> extends t u"
  by (auto simp: tables_set_def extends_def new_table_fields upd_table_fields split: option.splits)

lemma expr_end_alias:
  assumes "scoped R t" "\<And>q. jtl = Some q \<Longrightarrow> q < length (tables t)" "expr_end R i f jtl t = Inr x"
  shows "known_alias t (x_index x)"
proof -
  have "known_alias t (t_index (tables t ! q))" if "jtl = Some q" for q
    using table_okD(1) [OF scopedD(1) [OF assms(1) assms(2) [OF that]]] assms(2) [OF that] by (auto simp: known_alias_def)
  moreover have "known_alias t ''T0''" by (simp add: known_alias_def)
  ultimately show ?thesis using assms(3) by (auto simp: expr_end_def Let_def split: option.splits if_splits)
qed

lemma registry_okD:
  assumes "registry_ok R"
  shows "fields_ok R (model_fields R m)" "fs_Fields (model_fields R m) n = Some f \<Longrightarrow> path_name n"
  using assms unfolding registry_ok_def by blast+

lemma registered:
  assumes "registry_ok R" "GetByAny (model_fields R m) ex = Some f"
  shows "fs_Fields (model_fields R m) (Name (field R f)) = Some f"
  using GetByAny_registered [OF registry_okD(1) [OF assms(1)] assms(2)] .

lemma part_join_scoped:
  assumes "registry_ok R" "scoped R t" "on_path R names jtl t" "mmi = walk R (ts_mi t) names"
    "fs_Fields (model_fields R mmi) (Name (field R f)) = Some f" "part_join R f rest names mmi inner jtl t = (stops, inner', jtl', t')"
  shows "scoped R t'" "extends t t'" "jtl' = Some q \<Longrightarrow> q < length (tables t')"
    "\<not> stops \<Longrightarrow> rest \<noteq> [] \<Longrightarrow> GetByAny (model_fields R (next_model R f mmi)) (hd rest) \<noteq> None \<Longrightarrow> on_path R (names @ [Name (field R f)]) jtl' t'"
proof -
  let ?fi = "field R f" and ?m = "next_model R f mmi"
  have n: "path_name (Name ?fi)" using registry_okD(2) [OF assms(1,5)] .
  have rel: "rel_path R (ts_mi t) (names @ [Name ?fi]) \<longleftrightarrow> Rel ?fi \<or> Reverse ?fi"
    using assms(4,5) by (simp add: rel_path_snoc)
  have jq: "jtl = Some q \<Longrightarrow> q < length (tables t)" for q using assms(3) by (simp add: on_path_def)
  consider (enter) p t1 inner0 where "tables_add (names @ [Name ?fi]) ?m f inner0 t = (p, t1)" "jtl' = Some p"
      "t' = upd_table p (\<lambda>j. j\<lparr>t_jtl := jtl\<rparr>) t1" "Rel ?fi \<or> Reverse ?fi"
    | (stay) "jtl' = jtl" "t' = t" "\<not> stops \<Longrightarrow> rest \<noteq> [] \<Longrightarrow> GetByAny (model_fields R ?m) (hd rest) \<noteq> None \<Longrightarrow> \<not> (Rel ?fi \<or> Reverse ?fi)"
  proof -
    have "(\<exists>p t1 inner0. tables_add (names @ [Name ?fi]) ?m f inner0 t = (p, t1) \<and> jtl' = Some p \<and>
          t' = upd_table p (\<lambda>j. j\<lparr>t_jtl := jtl\<rparr>) t1 \<and> (Rel ?fi \<or> Reverse ?fi)) \<or>
        jtl' = jtl \<and> t' = t \<and> (\<not> stops \<longrightarrow> rest \<noteq> [] \<longrightarrow> GetByAny (model_fields R ?m) (hd rest) \<noteq> None \<longrightarrow> \<not> (Rel ?fi \<or> Reverse ?fi))"
      using assms(6) unfolding part_join_def Let_def by (cases rest) (auto split: if_splits prod.splits)
    then show ?thesis using enter stay by blast
  qed
  then have "scoped R t' \<and> extends t t' \<and> (jtl' = Some q \<longrightarrow> q < length (tables t')) \<and>
      (\<not> stops \<longrightarrow> rest \<noteq> [] \<longrightarrow> GetByAny (model_fields R ?m) (hd rest) \<noteq> None \<longrightarrow> on_path R (names @ [Name ?fi]) jtl' t')"
  proof cases
    case enter
    note e = tables_add_enters [OF assms(2,3) n enter(1)]
    note r = enter_table [OF assms(2,3) n _ e]
    show ?thesis
      using r rel enter(2-4) extends_add [OF enter(1)] e(2) by (auto simp: upd_table_fields)
  next
    case stay
    then show ?thesis using assms(2) jq on_path_skip [OF assms(3) _ n] rel by auto
  qed
  then show "scoped R t'" "extends t t'" "jtl' = Some q \<Longrightarrow> q < length (tables t')"
    "\<not> stops \<Longrightarrow> rest \<noteq> [] \<Longrightarrow> GetByAny (model_fields R ?m) (hd rest) \<noteq> None \<Longrightarrow> on_path R (names @ [Name ?fi]) jtl' t'" by blast+
qed

lemma expr_loop_scoped:
  assumes "registry_ok R" "scoped R t" "on_path R names jtl t" "mmi = walk R (ts_mi t) names"
    "fs_Fields (model_fields R mmi) (Name (field R f)) = Some f" "expr_loop R i f rest names mmi inner jtl t = (r, t')"
  shows "scoped R t' \<and> extends t t' \<and> (\<forall>x. r = Inr (Some x) \<longrightarrow> known_alias t' (x_index x))"
  using assms(2-6)
proof (induction rest arbitrary: i f names mmi inner jtl t rule: length_induct)
  case (1 rest)
  let ?n = "Name (field R f)" and ?m = "next_model R f mmi"
  obtain stops inner' jtl' t1 where pj: "part_join R f rest names mmi inner jtl t = (stops, inner', jtl', t1)" by (metis prod_cases4)
  note ps = part_join_scoped [OF assms(1) 1(2-5) pj]
  show ?case
  proof (cases "stops \<or> rest = []")
    case True
    then have eq: "r = map_sum id Some (expr_end R i f jtl' t1)" "t' = t1" using 1(6) pj by (subst (asm) expr_loop.simps, simp)+
    have "known_alias t1 (x_index x)" if "r = Inr (Some x)" for x
    proof (rule expr_end_alias [OF ps(1) ps(3)])
      show "expr_end R i f jtl' t1 = Inr x" using that eq by (cases "expr_end R i f jtl' t1") auto
    qed
    with ps(1,2) eq(2) show ?thesis by simp
  next
    case False
    then have st: "\<not> stops" "rest \<noteq> []" by simp_all
    show ?thesis
    proof (cases "GetByAny (model_fields R ?m) (hd rest)")
      case None
      then have "r = Inr None" "t' = t1" using 1(6) pj st by (subst (asm) expr_loop.simps, simp)+
      with ps show ?thesis by simp
    next
      case (Some g)
      then have loop: "expr_loop R (i + 1) g (tl rest) (names @ [?n]) ?m inner' jtl' t1 = (r, t')"
        using 1(6) pj st by (subst (asm) expr_loop.simps) simp
      have mi: "ts_mi t1 = ts_mi t" using ps(2) by (simp add: extends_def)
      have on: "on_path R (names @ [?n]) jtl' t1" using ps(4) st Some by simp
      have w: "?m = walk R (ts_mi t1) (names @ [?n])" using 1(4,5) mi by (simp add: walk_snoc)
      have len: "length (tl rest) < length rest" using st(2) by (cases rest) simp_all
      from 1(1) [rule_format, OF len ps(1) on w registered [OF assms(1) Some] loop] ps(2) extends_trans
      show ?thesis by blast
    qed
  qed
qed

lemma parseExprs_scoped:
  assumes "registry_ok R" "scoped R t" "parseExprs R (ts_mi t) es t = (r, t')"
  shows "scoped R t'" "extends t t'" "r = Inr (Some x) \<Longrightarrow> known_alias t' (x_index x)"
proof -
  have "scoped R t' \<and> extends t t' \<and> (\<forall>x. r = Inr (Some x) \<longrightarrow> known_alias t' (x_index x))"
  proof (cases es)
    case (Cons ex rest)
    show ?thesis
    proof (cases "GetByAny (model_fields R (ts_mi t)) ex")
      case (Some f)
      then have l: "expr_loop R 0 f rest [] (ts_mi t) True None t = (r, t')" using assms(3) Cons by (simp add: parseExprs_def)
      show ?thesis
        by (rule expr_loop_scoped [OF assms(1,2) on_path_Nil _ registered [OF assms(1) Some] l]) (simp add: walk_def)
    qed (use assms Cons in \<open>auto simp: parseExprs_def\<close>)
  qed (use assms in \<open>auto simp: parseExprs_def\<close>)
  then show "scoped R t'" "extends t t'" "r = Inr (Some x) \<Longrightarrow> known_alias t' (x_index x)" by blast+
qed

lemma on_path_upd:
  assumes "on_path R ns jtl t" "\<And>j. t_names (f j) = t_names j"
  shows "on_path R ns jtl (upd_table p f t)"
proof -
  have *: "t_names (tables (upd_table p f t) ! q) = t_names (tables t ! q)" if "q < length (tables t)" for q
    using upd_table_fields(6) [OF that, of p f] assms(2) by simp
  show ?thesis
    unfolding on_path_def upd_table_fields(1,3)
  proof (intro conjI allI impI)
    fix ms
    assume "prefix ms ns \<and> rel_path R (ts_mi t) ms"
    with assms(1) obtain q where "q < length (tables t)" "t_names (tables t ! q) = ms" unfolding on_path_def by blast
    with * show "\<exists>q<length (tables t). t_names (tables (upd_table p f t) ! q) = ms" by auto
  next
    fix q
    assume "jtl = Some q"
    then show "q < length (tables t)" "prefix (t_names (tables (upd_table p f t) ! q)) ns" "rel_path R (ts_mi t) (t_names (tables (upd_table p f t) ! q))"
      using assms(1) * [of q] unfolding on_path_def by auto
  qed (use assms(1) on_path_def in blast)
qed

lemma related_loop_scoped:
  assumes "registry_ok R"
  shows "scoped R t \<Longrightarrow> on_path R names jtl t \<Longrightarrow> mmi = walk R (ts_mi t) names \<Longrightarrow> related_loop R depth given exs names mmi cancel jtl inner t = Inr t' \<Longrightarrow>
    scoped R t' \<and> extends t t'"
proof (induction exs arbitrary: names mmi cancel jtl inner t)
  case (Cons ex exs)
  from Cons.prems(4) obtain i where i: "GetByAny (model_fields R mmi) ex = Some i" by (cases "GetByAny (model_fields R mmi) ex") simp_all
  let ?fi = "field R i"
  note reg = registered [OF assms i]
  have n: "path_name (Name ?fi)" using registry_okD(2) [OF assms reg] .
  have rel: "Rel ?fi" "FieldType ?fi \<noteq> TypeRelManyToMany" using Cons.prems(4) i by (auto simp: Let_def split: if_splits)
  define inner' where "inner' = (if Null ?fi \<or> skipEnd t then False else inner)"
  obtain p t1 where st: "tables_set (names @ [Name ?fi]) (RelModelInfo ?fi) i inner' t = (p, t1)" by force
  define t2 where "t2 = upd_table p (\<lambda>j. j\<lparr>t_jtl := jtl\<rparr>) t1"
  define cancel' where "cancel' = (if Reverse ?fi then False else cancel)"
  define t3 where "t3 = (if cancel' then upd_table p (\<lambda>j. j\<lparr>t_sel := (if given then True else depth > 0)\<rparr>) t2 else t2)"
  have loop: "related_loop R depth given exs (names @ [Name ?fi]) (RelModelInfo ?fi) cancel' (Some p) inner' t3 = Inr t'"
    unfolding t3_def t2_def using Cons.prems(4) i rel st by (simp add: Let_def inner'_def [symmetric] cancel'_def [symmetric] split: prod.splits)
  note e = tables_set_enters [OF Cons.prems(1,2) n st]
  have rp: "rel_path R (ts_mi t) (names @ [Name ?fi])" using reg rel(1) Cons.prems(3) by (simp add: rel_path_snoc)
  have s2: "scoped R t2" "on_path R (names @ [Name ?fi]) (Some p) t2"
    unfolding t2_def using enter_table [OF Cons.prems(1,2) n rp e] by blast+
  have s3: "scoped R t3" unfolding t3_def using s2(1) upd_table_scoped [OF s2(1), of "\<lambda>j. j\<lparr>t_sel := (if given then True else depth > 0)\<rparr>" p] by simp
  have len: "length (tables t2) = length (tables t1)" by (simp add: t2_def upd_table_fields)
  have on3: "on_path R (names @ [Name ?fi]) (Some p) t3"
    unfolding t3_def using s2(2) on_path_upd [OF s2(2), of "\<lambda>j. j\<lparr>t_sel := (if given then True else depth > 0)\<rparr>" p] by simp
  have ext: "extends t t3" using extends_set [OF st] by (simp add: t3_def t2_def)
  then have "RelModelInfo ?fi = walk R (ts_mi t3) (names @ [Name ?fi])"
    using walk_snoc [of R "ts_mi t" names] reg Cons.prems(3) rel by (simp add: next_model_def extends_def)
  from Cons.IH [OF s3 on3 this loop] ext extends_trans show ?case by blast
qed simp

lemma paths_loop_scoped:
  "registry_ok R \<Longrightarrow> scoped R t \<Longrightarrow> paths_loop R depth n i ss t = Inr t' \<Longrightarrow> scoped R t' \<and> extends t t'"
proof (induction ss arbitrary: i t)
  case (Cons s ss)
  then obtain t1 where l: "related_loop R depth (i < n) (split s ExprSep) [] (ts_mi t) True None True t = Inr t1" "paths_loop R depth n (i + 1) ss t1 = Inr t'"
    by (auto simp: res_bind_Inr_iff)
  have "scoped R t1 \<and> extends t t1"
    by (rule related_loop_scoped [OF Cons.prems(1,2) on_path_Nil _ l(1)]) (simp add: walk_def)
  with Cons.IH [OF Cons.prems(1) _ l(2)] extends_trans show ?case by blast
qed simp

lemma parseRelated_scoped:
  assumes "registry_ok R" "scoped R t" "parseRelated R rels depth t = Inr t'"
  shows "scoped R t'" "extends t t'"
  using paths_loop_scoped [OF assms(1,2)] assms(3) by (auto simp: parseRelated_def Let_def)

lemma newDbTables_scoped: "scoped R (newDbTables mi d)"
  by (simp add: scoped_def newDbTables_def)

end
