(* ===== verification/Orm_Query.thy ===== *)
theory Orm_Query
  imports Orm_Tables
begin

text \<open>
  What the queries of \<open>Orm_Tables\<close> guarantee. The printer of conditions is treated once, in a locale
  whose laws say what the text of one comparison satisfies and that words, parentheses and concatenation keep it; it is interpreted for the
  scopes of the aliases and for the number of placeholders.
\<close>

section \<open>The printer of conditions\<close>

definition store_values :: "oval store \<Rightarrow> oval condValue set" where
  "store_values h = {p. \<exists>a. p \<in> set (cond_params h a)}"

locale cond_printer =
  fixes E :: conv_env and R :: registry and h :: "oval store" and inv :: "dbTables \<Rightarrow> bool" and ok :: "dbTables \<Rightarrow> string \<Rightarrow> oval list \<Rightarrow> bool"
  assumes expr: "inv t \<Longrightarrow> p \<in> store_values h \<Longrightarrow> \<not> isCond p \<Longrightarrow> cond_expr_sql E R p t = (Inr (w, ps), t') \<Longrightarrow> inv t' \<and> extends t t' \<and> ok t' w ps"
    and mono: "ok t w ps \<Longrightarrow> extends t t' \<Longrightarrow> ok t' w ps"
    and nil: "ok t [] []"
    and append: "ok t w ps \<Longrightarrow> ok t w' ps' \<Longrightarrow> ok t (w @ w') (ps @ ps')"
    and word: "ok t (cond_word i p) []"
    and paren: "ok t w ps \<Longrightarrow> ok t (''( '' @ w @ '') '') ps"
begin

definition printed :: "nat \<Rightarrow> bool" where
  "printed n \<longleftrightarrow> (\<forall>c sub t w ps t'. getCondSQL n E R h c sub t = Some (Inr (w, ps), t') \<longrightarrow> inv t \<longrightarrow>
     inv t' \<and> extends t t' \<and> (\<exists>u. ok t' u ps \<and> w = (if \<not> sub \<and> u \<noteq> [] then ''WHERE '' @ u else u)))"

lemma loop_printed:
  assumes "printed n"
  shows "cond_loop n E R h i vs w0 ps0 t = Some (Inr (w, ps), t') \<Longrightarrow> inv t \<Longrightarrow> set vs \<subseteq> store_values h \<Longrightarrow> ok t w0 ps0 \<Longrightarrow>
     inv t' \<and> extends t t' \<and> ok t' w ps"
proof (induction vs arbitrary: i w0 ps0 t)
  case (Cons p vs)
  have p: "p \<in> store_values h" and vs: "set vs \<subseteq> store_values h" using Cons.prems(3) by simp_all
  let ?w = "w0 @ cond_word i p"
  obtain w1 ps1 t1 where one: "inv t1" "extends t t1" "ok t1 w1 ps1"
    and loop: "cond_loop n E R h (i + 1) vs (?w @ w1) (ps0 @ ps1) t1 = Some (Inr (w, ps), t')"
  proof (cases "isCond p")
    case True
    then obtain w' ps' t1 where g: "getCondSQL n E R h (cond p) True t = Some (Inr (w', ps'), t1)"
      and l: "cond_loop n E R h (i + 1) vs (?w @ (if w' \<noteq> [] then ''( '' @ w' @ '') '' else w')) (ps0 @ ps') t1 = Some (Inr (w, ps), t')"
      using Cons.prems(1) by (auto simp: Let_def split: option.splits sum.splits prod.splits)
    from assms g Cons.prems(2) have "inv t1" "extends t t1" "ok t1 w' ps'" unfolding printed_def by force+
    with paren [of t1 w' ps'] that [OF _ _ _ l] show ?thesis by (cases "w' = []") simp_all
  next
    case False
    then obtain w' ps' t1 where g: "cond_expr_sql E R p t = (Inr (w', ps'), t1)"
      and l: "cond_loop n E R h (i + 1) vs (?w @ w') (ps0 @ ps') t1 = Some (Inr (w, ps), t')"
      using Cons.prems(1) by (auto simp: Let_def split: sum.splits prod.splits)
    from expr [OF Cons.prems(2) p False g] that [OF _ _ _ l] show ?thesis by blast
  qed
  have "ok t1 ?w ps0" using append [OF mono [OF Cons.prems(4) one(2)] word, of i p] by simp
  from Cons.IH [OF loop one(1) vs append [OF this one(3)]] one(2) extends_trans show ?case by blast
qed simp

lemma all_printed: "printed n"
proof (induction n)
  case (Suc n)
  show ?case
    unfolding printed_def
  proof (intro allI impI)
    fix c sub t w ps t'
    assume g: "getCondSQL (Suc n) E R h c sub t = Some (Inr (w, ps), t')" and t: "inv t"
    let ?P = "\<lambda>u. ok t' u ps \<and> w = (if \<not> sub \<and> u \<noteq> [] then ''WHERE '' @ u else u)"
    show "inv t' \<and> extends t t' \<and> (\<exists>u. ?P u)"
    proof (cases "c = None \<or> cond_IsEmpty h (the c)")
      case True
      then have "w = []" "ps = []" "t' = t" using g by (auto split: option.splits)
      with t nil show ?thesis by auto
    next
      case False
      then obtain a where a: "c = Some a" "\<not> cond_IsEmpty h a" by auto
      then obtain u where l: "cond_loop n E R h 0 (cond_params h a) [] [] t = Some (Inr (u, ps), t')" and w: "w = (if \<not> sub \<and> u \<noteq> [] then ''WHERE '' @ u else u)"
        using g by (auto split: option.splits sum.splits prod.splits)
      have "set (cond_params h a) \<subseteq> store_values h" by (auto simp: store_values_def)
      from loop_printed [OF Suc.IH l t this nil] w show ?thesis by blast
    qed
  qed
qed (simp add: printed_def)

lemma getCondSQL_printed:
  assumes "getCondSQL n E R h c sub t = Some (Inr (w, ps), t')" "inv t"
  shows "inv t'" "extends t t'" "\<exists>u. ok t' u ps \<and> w = (if \<not> sub \<and> u \<noteq> [] then ''WHERE '' @ u else u)"
  using assms all_printed [of n] unfolding printed_def by blast+

end

section \<open>Aliases\<close>

text \<open>The text after the column of a comparison: of the operator, or given by the caller.\<close>

definition comparison :: "conv_env \<Rightarrow> dialect \<Rightarrow> FieldInfo \<Rightarrow> string \<Rightarrow> oval condValue \<Rightarrow> string \<Rightarrow> bool" where
  "comparison E d fi op p s \<longleftrightarrow> (if isRaw p then s = sql p else \<exists>as. GenerateOperatorSQL E d fi op (args p) = Inr (s, as))"

text \<open>Conditions whose columns belong to tables of the query.\<close>

inductive clause :: "conv_env \<Rightarrow> registry \<Rightarrow> oval store \<Rightarrow> dbTables \<Rightarrow> string \<Rightarrow> bool" for E R h t where
  empty: "clause E R h t []"
| item: "known_alias t a \<Longrightarrow> p \<in> store_values h \<Longrightarrow> comparison E (base t) (field R f) op p s \<Longrightarrow>
    clause E R h t (GenerateOperatorLeftCol (base t) (field R f) op (a @ ''.'' @ quoted (base t) (FieldInfo.Column (field R f))) @ '' '' @ s @ '' '')"
| keyword: "w \<in> {''AND '', ''OR '', ''NOT ''} \<Longrightarrow> clause E R h t w"
| sequence: "clause E R h t u \<Longrightarrow> clause E R h t v \<Longrightarrow> clause E R h t (u @ v)"
| nested: "clause E R h t u \<Longrightarrow> clause E R h t (''( '' @ u @ '') '')"

lemma clause_mono:
  assumes "clause E R h t w" "extends t t'"
  shows "clause E R h t' w"
  using assms(1)
proof induction
  case (item a p f op s)
  moreover have "base t' = base t" using assms(2) by (simp add: extends_def)
  ultimately show ?case using clause.item [of t' a p h E R f op s] extends_alias [OF assms(2)] by simp
qed (blast intro: clause.empty clause.keyword clause.sequence, blast intro: clause.keyword, rule clause.sequence, assumption+, rule clause.nested, assumption)

lemma clause_word: "clause E R h t (cond_word i p)"
  unfolding cond_word_def by (intro clause.sequence) (auto intro: clause.intros)

text \<open>One comparison: the expression is resolved in the tables of the query, and the operator printed.\<close>

lemma cond_expr_sql_cases:
  assumes "cond_expr_sql E R p t = (Inr (w, ps), t')"
  obtains es op x s where "exprs p \<noteq> []" "op = (if last (exprs p) \<in> set operators then last (exprs p) else ''exact'')"
    "parseExprs R (ts_mi t) es t = (Inr (Some x), t')"
    "w = GenerateOperatorLeftCol (base t') (field R (x_info x)) op (x_index x @ ''.'' @ quoted (base t') (FieldInfo.Column (field R (x_info x)))) @ '' '' @ s @ '' ''"
    "if isRaw p then s = sql p \<and> ps = [] else GenerateOperatorSQL E (base t') (field R (x_info x)) op (args p) = Inr (s, ps)"
proof -
  define num where "num = length (exprs p) - 1"
  define opp where "opp = (if exprs p \<noteq> [] \<and> exprs p ! num \<in> set operators then (exprs p ! num, take num (exprs p)) else ([], exprs p))"
  define op where "op = (if fst opp = [] then ''exact'' else fst opp)"
  have ne: "exprs p \<noteq> []" using assms by (auto simp: cond_expr_sql_def)
  then have l: "exprs p ! num = last (exprs p)" by (simp add: num_def last_conv_nth)
  have "[] \<notin> set operators" by (simp add: operators_def)
  then have op: "op = (if last (exprs p) \<in> set operators then last (exprs p) else ''exact'')" using ne l by (auto simp: op_def opp_def)
  have eq: "cond_expr_sql E R p t = (case parseExprs R (ts_mi t) (snd opp) t of
      (Inl e, t) \<Rightarrow> (Inl e, t)
    | (Inr None, t) \<Rightarrow> (Inl (UnknownField (join ExprSep (exprs p))), t)
    | (Inr (Some x), t) \<Rightarrow>
        (res_bind (if isRaw p then Inr (sql p, []) else GenerateOperatorSQL E (base t) (field R (x_info x)) op (args p))
          (\<lambda>(operSQL, as). Inr (GenerateOperatorLeftCol (base t) (field R (x_info x)) op
            (x_index x @ ''.'' @ quoted (base t) (FieldInfo.Column (field R (x_info x)))) @ '' '' @ operSQL @ '' '', as)), t))"
    unfolding cond_expr_sql_def Let_def op_def opp_def num_def using ne by (simp cong: prod.case_cong sum.case_cong option.case_cong if_cong)
  from assms obtain x where x: "parseExprs R (ts_mi t) (snd opp) t = (Inr (Some x), t')"
    unfolding eq by (auto split: prod.splits sum.splits option.splits)
  from assms obtain s where s: "(if isRaw p then Inr (sql p, []) else GenerateOperatorSQL E (base t') (field R (x_info x)) op (args p)) = Inr (s, ps)"
    "w = GenerateOperatorLeftCol (base t') (field R (x_info x)) op (x_index x @ ''.'' @ quoted (base t') (FieldInfo.Column (field R (x_info x)))) @ '' '' @ s @ '' ''"
    unfolding eq x by (auto simp: res_bind_Inr_iff)
  from that [OF ne op x s(2)] s(1) show ?thesis by (simp split: if_splits)
qed

interpretation scopes: cond_printer E R h "\<lambda>t. registry_ok R \<and> scoped R t" "\<lambda>t w ps. clause E R h t w"
proof
  fix t t' p w ps
  assume t: "registry_ok R \<and> scoped R t" and p: "p \<in> store_values h" and e: "cond_expr_sql E R p t = (Inr (w, ps), t')"
  from e show "(registry_ok R \<and> scoped R t') \<and> extends t t' \<and> clause E R h t' w"
  proof (cases rule: cond_expr_sql_cases)
    case (1 es op x s)
    from t have "registry_ok R" "scoped R t" by blast+
    note ps = parseExprs_scoped [OF this 1(3)]
    have "comparison E (base t') (field R (x_info x)) op p s" using 1(5) by (auto simp: comparison_def)
    from clause.item [OF ps(3) [OF refl] p this] show ?thesis using t ps(1,2) 1(4) by simp
  qed
qed (blast intro: clause_mono clause_word clause.empty clause.sequence clause.nested)+

section \<open>Groups and orders\<close>

definition scoped_column :: "registry \<Rightarrow> dbTables \<Rightarrow> string \<Rightarrow> bool" where
  "scoped_column R t s \<longleftrightarrow> (\<exists>a f. known_alias t a \<and> s = a @ ''.'' @ quoted (base t) (FieldInfo.Column (field R f)))"

lemma scoped_column_mono: "scoped_column R t s \<Longrightarrow> extends t t' \<Longrightarrow> scoped_column R t' s"
  unfolding scoped_column_def using extends_alias by (fastforce simp: extends_def)

lemma group_loop_scoped:
  "registry_ok R \<Longrightarrow> scoped R t \<Longrightarrow> group_loop R gs acc t = (Inr cs, t') \<Longrightarrow> list_all (scoped_column R t) acc \<Longrightarrow>
    scoped R t' \<and> extends t t' \<and> list_all (scoped_column R t') cs"
proof (induction gs arbitrary: acc t)
  case (Cons g gs)
  from Cons.prems(3) obtain x t1 where x: "parseExprs R (ts_mi t) (split g ExprSep) t = (Inr (Some x), t1)"
    "group_loop R gs (acc @ [x_index x @ ''.'' @ quoted (base t1) (FieldInfo.Column (field R (x_info x)))]) t1 = (Inr cs, t')"
    by (auto split: prod.splits sum.splits option.splits)
  note ps = parseExprs_scoped [OF Cons.prems(1,2) x(1)]
  have "scoped_column R t1 (x_index x @ ''.'' @ quoted (base t1) (FieldInfo.Column (field R (x_info x))))"
    using ps(3) [OF refl] by (auto simp: scoped_column_def)
  moreover have "list_all (scoped_column R t1) acc" using Cons.prems(4) scoped_column_mono [OF _ ps(2)] by (auto simp: list_all_iff)
  ultimately have "list_all (scoped_column R t1) (acc @ [x_index x @ ''.'' @ quoted (base t1) (FieldInfo.Column (field R (x_info x)))])" by simp
  from Cons.IH [OF Cons.prems(1) ps(1) x(2) this] extends_trans [OF ps(2)] show ?case by blast
qed auto

text \<open>An order: the given text, or a column of a table of the query.\<close>

definition order_item :: "registry \<Rightarrow> Order list \<Rightarrow> dbTables \<Rightarrow> string \<Rightarrow> bool" where
  "order_item R os t s \<longleftrightarrow> (\<exists>ord \<in> set os. \<exists>c. s = c @ '' '' @ SortString ord \<and> (if order_IsRaw ord then c = GetColumn ord else scoped_column R t c))"

lemma order_loop_scoped:
  "registry_ok R \<Longrightarrow> scoped R t \<Longrightarrow> order_loop R os acc t = (Inr cs, t') \<Longrightarrow> set os \<subseteq> set all \<Longrightarrow> list_all (order_item R all t) acc \<Longrightarrow>
    scoped R t' \<and> extends t t' \<and> list_all (order_item R all t') cs"
proof (induction os arbitrary: acc t)
  case (Cons ord os)
  have o: "ord \<in> set all" "set os \<subseteq> set all" using Cons.prems(4) by simp_all
  have "\<exists>s t1. order_loop R os (acc @ [s]) t1 = (Inr cs, t') \<and> scoped R t1 \<and> extends t t1 \<and> order_item R all t1 s"
  proof (cases "order_IsRaw ord")
    case True
    consider a b where "split (GetColumn ord) ''.'' = [a, b]" | a where "split (GetColumn ord) ''.'' = [a]"
      using Cons.prems(3) True by (auto simp: Let_def split: list.splits)
    then show ?thesis
    proof cases
      case (1 a b)
      then have "GetColumn ord = a @ ''.'' @ b" using join_split [of "''.''" "GetColumn ord"] by simp
      then have "order_item R all t (a @ ''.'' @ b @ '' '' @ SortString ord)"
        unfolding order_item_def using o(1) True by (intro bexI [of _ ord] exI [of _ "GetColumn ord"]) simp_all
      with Cons.prems(2,3) True 1 show ?thesis by (intro exI [of _ "a @ ''.'' @ b @ '' '' @ SortString ord"] exI [of _ t]) (simp add: Let_def)
    next
      case (2 a)
      then have "GetColumn ord = a" using join_split [of "''.''" "GetColumn ord"] by simp
      then have "order_item R all t (a @ '' '' @ SortString ord)"
        unfolding order_item_def using o(1) True by (intro bexI [of _ ord] exI [of _ "GetColumn ord"]) simp_all
      with Cons.prems(2,3) True 2 show ?thesis by (intro exI [of _ "a @ '' '' @ SortString ord"] exI [of _ t]) (simp add: Let_def)
    qed
  next
    case False
    let ?c = "\<lambda>x u. x_index x @ ''.'' @ quoted (base u) (FieldInfo.Column (field R (x_info x)))"
    from Cons.prems(3) False obtain x t1 where x: "parseExprs R (ts_mi t) (split (GetColumn ord) ''.'') t = (Inr (Some x), t1)"
      "order_loop R os (acc @ [x_index x @ ''.'' @ quoted (base t1) (FieldInfo.Column (field R (x_info x))) @ '' '' @ SortString ord]) t1 = (Inr cs, t')"
      by (auto simp: Let_def split: prod.splits sum.splits option.splits)
    note ps = parseExprs_scoped [OF Cons.prems(1,2) x(1)]
    have "scoped_column R t1 (?c x t1)" using ps(3) [OF refl] by (auto simp: scoped_column_def)
    then have "order_item R all t1 (?c x t1 @ '' '' @ SortString ord)" unfolding order_item_def using o(1) False by (intro bexI [of _ ord]) auto
    with x(2) ps(1,2) show ?thesis by (intro exI [of _ "?c x t1 @ '' '' @ SortString ord"] exI [of _ t1]) simp
  qed
  then obtain s t1 where s: "order_loop R os (acc @ [s]) t1 = (Inr cs, t')" "scoped R t1" "extends t t1" "order_item R all t1 s" by blast
  have "order_item R all t1 a" if "order_item R all t a" for a
    using that scoped_column_mono [OF _ s(3)] unfolding order_item_def by (auto split: if_splits)
  then have "list_all (order_item R all t1) (acc @ [s])" using Cons.prems(5) s(4) by (auto simp: list_all_iff)
  from Cons.IH [OF Cons.prems(1) s(2,1) o(2) this] extends_trans [OF s(3)] show ?case by blast
qed auto

lemma getGroupSQL_scoped:
  assumes "registry_ok R" "scoped R t" "getGroupSQL R gs t = (Inr w, t')"
  shows "scoped R t'" "extends t t'"
    "\<exists>cs. list_all (scoped_column R t') cs \<and> w = (if gs = [] then [] else ''GROUP BY '' @ join '', '' cs @ '' '')"
proof -
  have "scoped R t' \<and> extends t t' \<and> (\<exists>cs. list_all (scoped_column R t') cs \<and> w = (if gs = [] then [] else ''GROUP BY '' @ join '', '' cs @ '' ''))"
  proof (cases "gs = []")
    case True
    with assms show ?thesis by (auto simp: getGroupSQL_def intro: exI [of _ "[]"])
  next
    case False
    with assms(3) obtain cs where c: "group_loop R gs [] t = (Inr cs, t')" "w = ''GROUP BY '' @ join '', '' cs @ '' ''"
      by (auto simp: getGroupSQL_def split: prod.splits sum.splits)
    with group_loop_scoped [OF assms(1,2) c(1)] False show ?thesis by auto
  qed
  then show "scoped R t'" "extends t t'"
    "\<exists>cs. list_all (scoped_column R t') cs \<and> w = (if gs = [] then [] else ''GROUP BY '' @ join '', '' cs @ '' '')" by blast+
qed

lemma getOrderSQL_scoped:
  assumes "registry_ok R" "scoped R t" "getOrderSQL R os t = (Inr w, t')"
  shows "scoped R t'" "extends t t'"
    "\<exists>cs. list_all (order_item R os t') cs \<and> w = (if os = [] then [] else ''ORDER BY '' @ join '', '' cs @ '' '')"
proof -
  have "scoped R t' \<and> extends t t' \<and> (\<exists>cs. list_all (order_item R os t') cs \<and> w = (if os = [] then [] else ''ORDER BY '' @ join '', '' cs @ '' ''))"
  proof (cases "os = []")
    case True
    with assms show ?thesis by (auto simp: getOrderSQL_def intro: exI [of _ "[]"])
  next
    case False
    with assms(3) obtain cs where c: "order_loop R os [] t = (Inr cs, t')" "w = ''ORDER BY '' @ join '', '' cs @ '' ''"
      by (auto simp: getOrderSQL_def split: prod.splits sum.splits)
    with order_loop_scoped [OF assms(1,2) c(1) subset_refl] False show ?thesis by auto
  qed
  then show "scoped R t'" "extends t t'"
    "\<exists>cs. list_all (order_item R os t') cs \<and> w = (if os = [] then [] else ''ORDER BY '' @ join '', '' cs @ '' '')" by blast+
qed

lemma readSQL_cases:
  assumes "readSQL n E R h tCols qs mi t = Some (Inr (q, as), t')"
  obtains wh t1 gr t2 od where "getCondSQL n E R h (qs_cond qs) False t = Some (Inr (wh, as), t1)" "getGroupSQL R (groups qs) t1 = (Inr gr, t2)"
    "getOrderSQL R (orders qs) t2 = (Inr od, t')" "q = select_text R tCols qs mi t' wh gr od"
  using assms by (auto simp: readSQL_def split: option.splits prod.splits sum.splits)

lemma readBatchSQL_cases:
  assumes "readBatchSQL n E R h tCols qs mi t = Some (Inr (q, as), t')"
  obtains q' where "readSQL n E R h (preProcCols (base t) tCols) qs mi t = Some (Inr (q', as), t')" "q = ReplaceMarks (base t) q'"
proof -
  from assms obtain r where r: "readSQL n E R h (preProcCols (base t) tCols) qs mi t = Some (r, t')"
    "map_sum id (map_prod (ReplaceMarks (base t)) id) r = Inr (q, as)" by (auto simp: readBatchSQL_def)
  with that show ?thesis by (cases r) auto
qed

definition tables_scoped :: "dbTables \<Rightarrow> bool" where
  "tables_scoped t \<longleftrightarrow> distinct (map t_names (tables t)) \<and>
     (\<forall>p < length (tables t). t_index (tables t ! p) = ''T'' @ itoa (int (p + 1)) \<and> (\<forall>j. t_jtl (tables t ! p) = Some j \<longrightarrow> j < p))"

lemma scoped_tables: "scoped R t \<Longrightarrow> tables_scoped t"
  unfolding tables_scoped_def using scoped_unique table_okD(1,7) [OF scopedD(1)] by (fastforce simp: distinct_conv_nth)

section \<open>An example\<close>

text \<open>Posts with a title and an author, and a query for the posts of an author.\<close>

definition blog_field :: "nat \<Rightarrow> FieldInfo" where
  "blog_field i =
     (if i = 0 then (demo_field ''Id'' ''id'' False)\<lparr>Pk := True\<rparr>
      else if i = 1 then demo_field ''Title'' ''title'' False
      else if i = 2 then demo_field ''User'' ''user_id'' True
      else demo_field ''Name'' ''name'' False)"

definition blog_fields :: "nat list \<Rightarrow> Fields" where
  "blog_fields is = foldl (\<lambda>f i. snd (Fields_Add \<lparr>field = blog_field, model = (\<lambda>_. undefined)\<rparr> i f)) NewFields is\<lparr>fs_Pk := Some 0\<rparr>"

definition blog_model :: "nat \<Rightarrow> ModelInfo" where
  "blog_model m = (if m = 0
     then \<lparr>IsThrough = False, mi_Name = ''Post'', mi_FullName = ''blog.Post'', mi_Pkg = ''blog'', Table = ''post'', mi_Fields = blog_fields [0, 1, 2]\<rparr>
     else \<lparr>IsThrough = False, mi_Name = ''User'', mi_FullName = ''blog.User'', mi_Pkg = ''blog'', Table = ''user'', mi_Fields = blog_fields [0, 3]\<rparr>)"

definition blog :: registry where
  "blog = \<lparr>field = blog_field, model = blog_model\<rparr>"

definition blog_conds :: "oval store" where
  "blog_conds = (case cond_And id ''User__Name'' [OStr ''bob''] 0 (snd (NewCondition empty_store)) of Inr (c, h) \<Rightarrow> h | Inl _ \<Rightarrow> empty_store)"

definition blog_env :: conv_env where
  "blog_env = \<lparr>time_text = (\<lambda>_ s. s), time_format = (\<lambda>_ s. s), pk_of = (\<lambda>_. None)\<rparr>"

definition blog_query :: querySet where
  "blog_query = \<lparr>qs_cond = Some 1, related = [], relDepth = 0, limit = 10, offset = 0, groups = [], orders = [], distinct_rows = False, forUpdate = False,
     useIndex = OtherHint, indexes = [], aggregate = []\<rparr>"

definition blog_tables :: dbTables where
  "blog_tables = newDbTables 0 DPostgres"

definition blog_joined :: dbTables where
  "blog_joined = \<lparr>tablesM = [''User'' \<mapsto> 0], tables = [\<lparr>t_id = 1, t_index = ''T1'', t_name = ''User'', t_names = [''User''], t_sel = False, t_inner = True, t_mi = 1, t_fi = 2, t_jtl = None\<rparr>],
     ts_mi = 0, base = DPostgres, skipEnd = False\<rparr>"

lemma blog_names:
  "fs_Fields (model_fields blog 0) = [''Id'' \<mapsto> 0, ''Title'' \<mapsto> 1, ''User'' \<mapsto> 2]"
  "m \<noteq> 0 \<Longrightarrow> fs_Fields (model_fields blog m) = [''Id'' \<mapsto> 0, ''Name'' \<mapsto> 3]"
  by (simp_all add: blog_def blog_model_def blog_fields_def Fields_Add_def NewFields_def blog_field_def demo_field_def)

lemma blog_found: "GetByAny (model_fields blog 0) ''User'' = Some 2" "GetByAny (model_fields blog (Suc 0)) ''Name'' = Some 3"
  by (simp_all add: GetByAny_def blog_names)

lemma blog_facts:
  "field blog 2 = demo_field ''User'' ''user_id'' True" "field blog 3 = demo_field ''Name'' ''name'' False" "\<not> IsThrough (model blog m)"
  by (simp_all add: blog_def blog_model_def blog_field_def)

lemma blog_path: "parseExprs blog 0 [''User'', ''Name''] blog_tables = (Inr (Some \<lparr>x_index = ''T1'', x_name = ''User__Name'', x_info = 3\<rparr>), blog_joined)"
proof -
  have "itoa 1 = ''1''" by code_simp
  then show ?thesis
  by (simp add: parseExprs_def blog_found expr_loop.simps part_join_def Let_def next_model_def blog_tables_def newDbTables_def tables_add_def new_table_def upd_table_def expr_end_def
     blog_joined_def ExprSep_def blog_facts demo_field_def TypeRelForeignKey_def TypeRelManyToMany_def)
qed

lemma blog_values: "cond_params blog_conds 1 = [CondValue [''User'', ''Name''] [OStr ''bob''] None False False False False []]" "slen (conds blog_conds 1) = 1"
    "store_values blog_conds = {CondValue [''User'', ''Name''] [OStr ''bob''] None False False False False []}"
proof -
  have s: "split ''User__Name'' ''__'' = [''User'', ''Name'']" by code_simp
  have b: "blog_conds = \<lparr>arrays = (\<lambda>_. [])(1 := [CondValue [''User'', ''Name''] [OStr ''bob''] None False False False False []]), next_arr = 2,
      conds = (\<lambda>_. \<lparr>arr = 0, slen = 0\<rparr>)(1 := \<lparr>arr = 1, slen = 1\<rparr>), next_cond = 2\<rparr>"
    by (simp add: blog_conds_def cond_And_def NewCondition_def alloc_cond_def empty_store_def append_copy_def go_append_def contents_def s Let_def fun_eq_iff)
  show "cond_params blog_conds 1 = [CondValue [''User'', ''Name''] [OStr ''bob''] None False False False False []]" "slen (conds blog_conds 1) = 1"
    by (simp_all add: b cond_params_def contents_def)
  show "store_values blog_conds = {CondValue [''User'', ''Name''] [OStr ''bob''] None False False False False []}"
    by (auto simp add: b store_values_def cond_params_def contents_def)
qed

lemma blog_where: "\<exists>w. getCondSQL (Suc (Suc 0)) blog_env blog blog_conds (Some 1) False blog_tables = Some (Inr (w, [OStr ''bob'']), blog_joined)"
  using blog_values blog_path
  by (simp add: blog_env_def cond_IsEmpty_def Let_def cond_expr_sql_def operators_def GenerateOperatorSQL_def blog_facts is_time_type_def demo_field_def TypeVarCharField_def blog_tables_def newDbTables_def
    TypeTimeField_def TypeDateField_def TypeDateTimeField_def)

lemma loopDepth_none: "depth < 0 \<Longrightarrow> depth_loop R depth pre fis rels = rels"
  by (induction fis arbitrary: rels) (simp_all add: loopDepth.simps)

lemma blog_related: "parseRelated blog (related blog_query) (relDepth blog_query) (newDbTables 0 DPostgres) = Inr blog_tables"
  by (simp add: parseRelated_def blog_query_def loopDepth_none blog_tables_def)

lemma blog_text: "\<exists>q. readBatchSQL (Suc (Suc 0)) blog_env blog blog_conds [''id''] blog_query 0 blog_tables = Some (Inr (q, [OStr ''bob'']), blog_joined)"
proof -
  obtain w where "getCondSQL (Suc (Suc 0)) blog_env blog blog_conds (Some 1) False blog_tables = Some (Inr (w, [OStr ''bob'']), blog_joined)" using blog_where by blast
  then show ?thesis by (simp add: readBatchSQL_def readSQL_def getGroupSQL_def getOrderSQL_def blog_query_def)
qed

lemma blog_ok: "registry_ok blog"
  unfolding registry_ok_def
proof (intro conjI allI impI)
  fix m
  have add: "Fields_Add \<lparr>field = blog_field, model = (\<lambda>_. undefined)\<rparr> = Fields_Add blog" by (intro ext) (simp add: Fields_Add_def blog_def)
  have "built blog (blog_fields is)" for "is"
    unfolding blog_fields_def add
  proof (rule built.pk)
    show "built blog (foldl (\<lambda>f i. snd (Fields_Add blog i f)) NewFields is)" by (induction "is" rule: rev_induct) (simp_all add: built.intros)
  qed
  then show "fields_ok blog (model_fields blog m)" by (simp add: blog_def blog_model_def built_fields_ok [unfolded blog_def])
next
  fix m n f
  assume "fs_Fields (model_fields blog m) n = Some f"
  then have "n \<in> {''Id'', ''Title'', ''User'', ''Name''}" by (cases "m = 0") (auto simp: blog_names split: if_splits)
  then show "path_name n" by (auto simp: path_name_def)
qed

section \<open>Scopes of queries\<close>

text \<open>C2. In the text of a query, the joined tables have the aliases T1, T2 and so on and different paths, every table is joined with the
  main table T0 or with a table before it, and each column of the conditions, of the groups and of the orders belongs to T0 or to a joined
  table, whatever the expressions of the query are; what the caller gave as raw text is used as it is.\<close>

theorem query_aliases_scoped:
  assumes "registry_ok R" "parseRelated R (related qs) (relDepth qs) (newDbTables mi d) = Inr t0"
    "readBatchSQL n E R h tCols qs mi t0 = Some (Inr (q, as), t)"
  shows "\<exists>u gs os. q = ReplaceMarks d (select_text R (preProcCols d tCols) qs mi t (if u = [] then [] else ''WHERE '' @ u)
      (if groups qs = [] then [] else ''GROUP BY '' @ join '', '' gs @ '' '') (if orders qs = [] then [] else ''ORDER BY '' @ join '', '' os @ '' '')) \<and>
    base t = d \<and> tables_scoped t \<and> clause E R h t u \<and> list_all (scoped_column R t) gs \<and> list_all (order_item R (orders qs) t) os"
proof -
  note s0 = parseRelated_scoped [OF assms(1) newDbTables_scoped assms(2)]
  have b: "base t0 = d" using s0(2) by (simp add: extends_def newDbTables_def)
  from assms(3) obtain q' where q': "readSQL n E R h (preProcCols d tCols) qs mi t0 = Some (Inr (q', as), t)" "q = ReplaceMarks d q'"
    by (rule readBatchSQL_cases) (simp add: b)
  from q'(1) obtain wh t1 gr t2 od where r: "getCondSQL n E R h (qs_cond qs) False t0 = Some (Inr (wh, as), t1)" "getGroupSQL R (groups qs) t1 = (Inr gr, t2)"
    "getOrderSQL R (orders qs) t2 = (Inr od, t)" "q' = select_text R (preProcCols d tCols) qs mi t wh gr od" by (rule readSQL_cases)
  have "registry_ok R \<and> scoped R t0" using assms(1) s0(1) by blast
  note c = scopes.getCondSQL_printed [OF r(1) this]
  have s1: "scoped R t1" using c(1) by blast
  note g = getGroupSQL_scoped [OF assms(1) s1 r(2)]
  note o = getOrderSQL_scoped [OF assms(1) g(1) r(3)]
  from c(3) obtain u where u: "clause E R h t1 u" "wh = (if u = [] then [] else ''WHERE '' @ u)" by auto
  from g(3) obtain gs where gs: "list_all (scoped_column R t2) gs" "gr = (if groups qs = [] then [] else ''GROUP BY '' @ join '', '' gs @ '' '')" by blast
  from o(3) obtain os where os: "list_all (order_item R (orders qs) t) os" "od = (if orders qs = [] then [] else ''ORDER BY '' @ join '', '' os @ '' '')" by blast
  have "clause E R h t u" using clause_mono [OF u(1) extends_trans [OF g(2) o(2)]] .
  moreover have "list_all (scoped_column R t) gs" using gs(1) scoped_column_mono [OF _ o(2)] by (auto simp: list_all_iff)
  moreover have "base t = d" using b c(2) g(2) o(2) by (simp add: extends_def)
  ultimately show ?thesis using q'(2) r(4) u(2) gs(2) os scoped_tables [OF o(1)] by blast
qed

theorem query_aliases_scoped_witness:
  "\<exists>q t. readBatchSQL (Suc (Suc 0)) blog_env blog blog_conds [''id''] blog_query 0 blog_tables = Some (Inr (q, [OStr ''bob'']), t) \<and> length (tables t) = 1 \<and>
     tables_scoped t \<and> (\<exists>u. clause blog_env blog blog_conds t u)"
proof -
  obtain q where q: "readBatchSQL (Suc (Suc 0)) blog_env blog blog_conds [''id''] blog_query 0 blog_tables = Some (Inr (q, [OStr ''bob'']), blog_joined)"
    using blog_text by blast
  from query_aliases_scoped [OF blog_ok blog_related q] have "tables_scoped blog_joined" "\<exists>u. clause blog_env blog blog_conds blog_joined u" by blast+
  moreover have "length (tables blog_joined) = 1" by (simp add: blog_joined_def)
  ultimately show ?thesis using q by blast
qed

section \<open>Placeholders of queries\<close>

definition supported :: "dialect \<Rightarrow> oval condValue \<Rightarrow> bool" where
  "supported d p \<longleftrightarrow> (if isRaw p then clean (sql p)
     else exprs p \<noteq> [] \<and> last (exprs p) \<in> set operators \<longrightarrow> last (exprs p) \<in> {''in'', ''between'', ''isnull''} \<union> fst ` set (operator_table d))"

definition clean_models :: "registry \<Rightarrow> bool" where
  "clean_models R \<longleftrightarrow> (\<forall>f. clean (FieldInfo.Column (field R f))) \<and> (\<forall>m. clean (Table (model R m)))"

lemma digit_marks: "d < 10 \<Longrightarrow> digit_char d \<noteq> CHR ''?''"
proof -
  assume "d < 10"
  then have "(of_char (digit_char d) :: nat) = 48 + d" by (simp add: digit_char_def of_char_of)
  with \<open>d < 10\<close> show ?thesis by auto
qed

lemma utoa_marks [simp]: "count_marks (utoa n) = 0"
proof -
  have "CHR ''?'' \<notin> set (utoa n)" using utoa_digits digit_marks by metis
  then show ?thesis by (auto simp: count_marks_def filter_empty_conv)
qed

lemma itoa_marks [simp]: "count_marks (itoa i) = 0"
  by (simp add: itoa_def)

lemma alias_marks: "known_alias t a \<Longrightarrow> count_marks a = 0"
  by (auto simp: known_alias_def)

lemma left_col_marks: "count_marks (GenerateOperatorLeftCol d fi op c) = count_marks c"
  by (simp add: GenerateOperatorLeftCol_def split: dialect.splits)

lemma word_marks: "count_marks (cond_word i p) = 0"
  by (simp add: cond_word_def)

text \<open>The placeholders of the conditions of a store whose operators the dialect has.\<close>

definition marks_inv :: "registry \<Rightarrow> dialect \<Rightarrow> oval store \<Rightarrow> dbTables \<Rightarrow> bool" where
  "marks_inv R d h t \<longleftrightarrow> registry_ok R \<and> scoped R t \<and> clean_models R \<and> base t = d \<and> (\<forall>p \<in> store_values h. supported d p)"

interpretation marks: cond_printer E R h "marks_inv R d h" "\<lambda>t w ps. count_marks w = length ps"
proof
  fix t t' p w ps
  assume t: "marks_inv R d h t" and p: "p \<in> store_values h" and e: "cond_expr_sql E R p t = (Inr (w, ps), t')"
  from t have i: "registry_ok R" "scoped R t" "clean_models R" "base t = d" "supported d p" using p unfolding marks_inv_def by blast+
  from e show "marks_inv R d h t' \<and> extends t t' \<and> count_marks w = length ps"
  proof (cases rule: cond_expr_sql_cases)
    case (1 es op x s)
    note ps = parseExprs_scoped [OF i(1,2) 1(3)]
    have b: "base t' = d" using ps(2) i(4) by (simp add: extends_def)
    have c: "count_marks (FieldInfo.Column (field R (x_info x))) = 0" using i(3) by (simp add: clean_models_def clean_def)
    have exact: "''exact'' \<in> fst ` set (operator_table d)"
      by (cases d) (simp_all add: mysqlOperators_def postgresOperators_def sqliteOperators_def oracleOperators_def)
    have "count_marks s = length ps"
    proof (cases "isRaw p")
      case False
      with i(5) 1(1) exact have "op \<in> {''in'', ''between'', ''isnull''} \<union> fst ` set (operator_table d)" unfolding 1(2) supported_def by auto
      with operator_marks [of E "base t'" "field R (x_info x)" op "args p" s ps] 1(5) False b show ?thesis by simp
    qed (use 1(5) i(5) in \<open>simp add: supported_def clean_def\<close>)
    then have "count_marks w = length ps" using alias_marks [OF ps(3) [OF refl]] c unfolding 1(4) by (simp add: left_col_marks)
    moreover have "marks_inv R d h t'" using t ps(1) b by (simp add: marks_inv_def)
    ultimately show ?thesis using ps(2) by blast
  qed
qed (simp_all add: word_marks)

lemma scoped_column_marks: "clean_models R \<Longrightarrow> scoped_column R t s \<Longrightarrow> count_marks s = 0"
  by (auto simp: scoped_column_def clean_models_def clean_def alias_marks)

lemma join_columns_marks:
  assumes "clean_models R"
  shows "count_marks (fst (join_columns R jt)) = 0" "count_marks (snd (join_columns R jt)) = 0"
proof -
  have c: "count_marks (FieldInfo.Column (field R f)) = 0" for f using assms by (simp add: clean_models_def clean_def)
  then have "count_marks (find_rel R m is) = 0" "count_marks (pk_column R m) = 0" for m "is"
    by (induction "is") (simp_all add: pk_column_def)
  with c show "count_marks (fst (join_columns R jt)) = 0" "count_marks (snd (join_columns R jt)) = 0"
    by (auto simp: join_columns_def Let_def)
qed

lemma join_loop_marks:
  assumes "clean_models R" "\<And>j. j \<in> set jts \<Longrightarrow> count_marks (t_index j) = 0" "\<And>p j. j \<in> set jts \<Longrightarrow> t_jtl j = Some p \<Longrightarrow> count_marks (t_index (tables t ! p)) = 0"
  shows "count_marks (join_loop R t jts acc) = count_marks acc"
  using assms(2,3)
proof (induction jts arbitrary: acc)
  case (Cons j jts)
  obtain c1 c2 where jc: "join_columns R j = (c1, c2)" by force
  have "count_marks (Table (model R (t_mi j))) = 0" using assms(1) by (simp add: clean_models_def clean_def)
  then have "count_marks (join_text R t j) = 0"
    using join_columns_marks [OF assms(1), of j] jc Cons.prems(1) [of j] Cons.prems(2) [of j] by (auto simp: join_text_def Let_def split: option.splits)
  then show ?case using Cons.IH [of "acc @ join_text R t j"] Cons.prems by (simp, blast)
qed simp

lemma getJoinSQL_marks:
  assumes "clean_models R" "tables_scoped t"
  shows "count_marks (getJoinSQL R t) = 0"
proof -
  have i: "count_marks (t_index (tables t ! p)) = 0" if "p < length (tables t)" for p using assms(2) that by (simp add: tables_scoped_def)
  have "count_marks (t_index (tables t ! p)) = 0" if "j \<in> set (tables t)" "t_jtl j = Some p" for j p
  proof -
    from that(1) obtain r where "r < length (tables t)" "j = tables t ! r" by (auto simp: in_set_conv_nth)
    with that(2) assms(2) have "p < length (tables t)" unfolding tables_scoped_def by (metis order_less_trans)
    with i show ?thesis .
  qed
  with i show ?thesis unfolding getJoinSQL_def by (subst join_loop_marks [OF assms(1)]) (auto simp: in_set_conv_nth)
qed

definition clean_query :: "querySet \<Rightarrow> bool" where
  "clean_query qs \<longleftrightarrow> clean (aggregate qs) \<and> list_all clean (indexes qs) \<and> list_all (\<lambda>ord. order_IsRaw ord \<longrightarrow> clean (GetColumn ord)) (orders qs)"

lemma index_marks: "clean n \<Longrightarrow> list_all clean xs \<Longrightarrow> count_marks (getIndexSql n u xs t) = 0"
proof -
  assume "clean n" "list_all clean xs"
  then have "count_marks (join '','' (map (quoted d) xs)) = 0" for d by (simp add: count_marks_join comp_def sum_clean)
  with \<open>clean n\<close> show ?thesis
    by (cases "base t"; cases u) (simp_all add: getIndexSql_def GenerateSpecifyIndex_def Let_def clean_def)
qed

lemma limit_marks: "count_marks (getLimitSQL o' l t) = 0"
  by (simp add: getLimitSQL_def Let_def)

lemma count_marks_concat: "count_marks (concat xs) = sum_list (map count_marks xs)"
  by (induction xs) simp_all

lemma join_clean: "list_all P xs \<Longrightarrow> (\<And>x. P x \<Longrightarrow> count_marks x = 0) \<Longrightarrow> count_marks (join '', '' xs) = 0"
  by (auto simp: count_marks_join list_all_iff sum_list_eq_0_iff)

lemma order_item_marks:
  assumes "clean_models R" "clean_query qs" "order_item R (orders qs) t s"
  shows "count_marks s = 0"
proof -
  from assms(3) obtain ord c where o: "ord \<in> set (orders qs)" "s = c @ '' '' @ SortString ord" "if order_IsRaw ord then c = GetColumn ord else scoped_column R t c"
    by (auto simp: order_item_def)
  have "count_marks (SortString ord) = 0" by (simp add: SortString_def split: sort_kind.splits)
  moreover have "count_marks c = 0"
    using o(1,3) assms(2) scoped_column_marks [OF assms(1)] by (auto simp: clean_query_def list_all_iff clean_def split: if_splits)
  ultimately show ?thesis by (simp add: o(2))
qed

lemma select_marks:
  assumes "registry_ok R" "clean_models R" "clean_query qs" "tables_scoped t" "list_all clean tCols"
  shows "count_marks (select_text R tCols qs mi t wh gr od) = count_marks wh + count_marks gr + count_marks od"
proof -
  have i: "count_marks (t_index j) = 0" if "j \<in> set (tables t)" for j using that assms(4) by (auto simp: tables_scoped_def in_set_conv_nth)
  have db: "list_all clean (DBcols (model_fields R m))" for m
    using fields_okD(10) [OF registry_okD(1) [OF assms(1)], of m] assms(2) by (simp add: clean_models_def list_all_iff)
  have "count_marks (sel_cols R d j) = 0" if "j \<in> set (tables t)" for d j
    using i [OF that] sum_clean(1) [OF db] by (simp add: sel_cols_def count_marks_sep_loop)
  then have "count_marks (concat (map (sel_cols R d) (tables t))) = 0" for d by (auto simp: count_marks_concat sum_list_eq_0_iff)
  moreover have "count_marks (sep_loop '', '' id 0 tCols) = 0" using sum_clean(1) [OF assms(5)] by (simp add: count_marks_sep_loop)
  moreover have "clean (Table (model R mi))" using assms(2) by (simp add: clean_models_def)
  moreover have "clean (aggregate qs)" "list_all clean (indexes qs)" using assms(3) by (simp_all add: clean_query_def)
  ultimately show ?thesis
    using getJoinSQL_marks [OF assms(2,4)] index_marks [of "Table (model R mi)" "indexes qs" "useIndex qs" t]
    by (simp add: select_text_def limit_marks clean_def)
qed



text \<open>A nested condition without parts leaves the word that joins it, with nothing after it.\<close>

lemma empty_nested_dangles:
  assumes "isCond p" "cond p = Some b" "cond_IsEmpty h b" "\<not> isOr p" "\<not> isNot p"
  shows "cond_loop (Suc n) E R h (Suc i) [p] w ps t = Some (Inr (w @ ''AND '', ps), t)"
  using assms by (simp add: Let_def cond_word_def)

text \<open>A part of an expression that is no relation is skipped: the next part is looked up in the same model.\<close>

lemma plain_part_skipped:
  assumes "\<not> Rel (field R f)" "\<not> Reverse (field R f)" "GetByAny (model_fields R mi) ex = Some f" "GetByAny (model_fields R mi) ex' = Some g"
    "\<not> Rel (field R g)" "\<not> Reverse (field R g)"
  shows "parseExprs R mi [ex, ex'] t = (Inr (Some \<lparr>x_index = ''T0'', x_name = Name (field R g), x_info = g\<rparr>), t)"
  using assms by (simp add: parseExprs_def expr_loop.simps part_join_def Let_def next_model_def expr_end_def)

section \<open>Termination\<close>

text \<open>The stores that programs build: new conditions, and the operations on any condition of the store.\<close>

inductive cond_store :: "'v store \<Rightarrow> bool" where
  start: "cond_store empty_store"
| new: "cond_store h \<Longrightarrow> NewCondition h = (c, h') \<Longrightarrow> cond_store h'"
| step: "cond_store h \<Longrightarrow> c < next_cond h \<Longrightarrow> op_ok (next_cond h) x \<Longrightarrow> cond_apply newcap x c h = Inr (c', h') \<Longrightarrow> cond_store h'"

definition cond_below :: "nat \<Rightarrow> 'v condValue \<Rightarrow> bool" where
  "cond_below c p \<longleftrightarrow> pred_option (\<lambda>d. d < c) (cond p)"

definition well_founded_conds :: "'v store \<Rightarrow> bool" where
  "well_founded_conds h \<longleftrightarrow> conds_ok h \<and> (\<forall>c < next_cond h. list_all (cond_below c) (cond_params h c))"

lemma below_mono: "list_all (cond_below c) ps \<Longrightarrow> c \<le> d \<Longrightarrow> list_all (cond_below d) ps"
  by (auto simp: list_all_iff cond_below_def pred_option_def)

text \<open>Every condition keeps its parts, up to one part that a comparison replaced.\<close>

lemma step_effect:
  fixes h :: "'v store"
  assumes "conds_ok h" "c < next_cond h" "op_ok (next_cond h) x" "cond_apply newcap x c h = Inr (c', h')"
  shows "conds_ok h' \<and> next_cond h' = next_cond h + 1 \<and> cond_params h' (next_cond h) = cond_params h c @ op_values x \<and>
    (\<forall>d < next_cond h. cond_params h' d = cond_params h d \<or> (\<exists>i v. cond v = None \<and> cond_params h' d = (cond_params h d)[i := v]))"
proof -
  have app: ?thesis if "append_copy newcap v c h = (c', h')" "op_values x = [v]" "cond v = None" for v
    using append_copy_effect [OF assms(1,2) that(1)] that(2,3) by auto
  have sub: ?thesis if "(case cond_clone c h of (c1, h1) \<Rightarrow> add_sub newcap a b s c1 h1) = (c', h')" "op_values x = (case s of None \<Rightarrow> [] | Some d \<Rightarrow> [sub_value a b d])" for a b s
    using sub_effect [OF assms(1,2)] that by (auto split: prod.splits)
  show ?thesis
  proof (cases x)
    case (ORaw e q)
    with assms(3,4) show ?thesis by (intro app) (auto simp: cond_Raw_def)
  next
    case (OAnd e as)
    with assms(3,4) show ?thesis by (intro app) (auto simp: cond_And_def)
  next
    case (OAndNot e as)
    with assms(3,4) show ?thesis by (intro app) (auto simp: cond_AndNot_def)
  next
    case (OOr e as)
    with assms(3,4) show ?thesis by (intro app) (auto simp: cond_Or_def)
  next
    case (OOrNot e as)
    with assms(3,4) show ?thesis by (intro app) (auto simp: cond_OrNot_def)
  next
    case (OAndCond s)
    with assms(4) show ?thesis by (intro sub [of False False s]) (auto simp: AndCond_def split: if_splits prod.splits)
  next
    case (OAndNotCond s)
    with assms(4) show ?thesis by (intro sub [of False True s]) (auto simp: AndNotCond_def split: if_splits prod.splits)
  next
    case (OOrCond s)
    with assms(4) show ?thesis by (intro sub [of True False s]) (auto simp: OrCond_def split: if_splits prod.splits)
  next
    case (OOrNotCond s)
    with assms(4) show ?thesis by (intro sub [of True True s]) (auto simp: OrNotCond_def split: if_splits prod.splits)
  qed
qed

lemma well_founded_step:
  fixes h :: "'v store"
  assumes "well_founded_conds h" "c < next_cond h" "op_ok (next_cond h) x" "cond_apply newcap x c h = Inr (c', h')"
  shows "well_founded_conds h'"
proof -
  have wf: "conds_ok h" "\<And>c. c < next_cond h \<Longrightarrow> list_all (cond_below c) (cond_params h c)" using assms(1) by (simp_all add: well_founded_conds_def)
  note e = step_effect [OF wf(1) assms(2-4)]
  have "list_all (cond_below (next_cond h)) (op_values x)"
    using assms(3) by (cases x) (auto simp: cond_below_def sub_value_def split: option.splits)
  then have new: "list_all (cond_below (next_cond h)) (cond_params h' (next_cond h))"
    using e below_mono [OF wf(2) [OF assms(2)]] assms(2) by simp
  have old: "list_all (cond_below d) (cond_params h' d)" if d: "d < next_cond h" for d
  proof -
    from e d consider "cond_params h' d = cond_params h d" | i v where "cond v = None" "cond_params h' d = (cond_params h d)[i := v]" by blast
    then show ?thesis
    proof cases
      case 2
      then have "cond_below d v" by (simp add: cond_below_def)
      then show ?thesis using wf(2) [OF d] set_update_subset_insert [of "cond_params h d" i v] unfolding 2(2) by (auto simp: list_all_iff)
    qed (use wf(2) [OF d] in simp)
  qed
  from e new old show ?thesis by (auto simp: well_founded_conds_def less_Suc_eq)
qed

lemma cond_store_well_founded: "cond_store h \<Longrightarrow> well_founded_conds h"
proof (induction rule: cond_store.induct)
  case start
  show ?case by (simp add: well_founded_conds_def conds_ok_def empty_store_def)
next
  case (new h c h')
  from new(2) have h': "h' = h\<lparr>conds := (conds h)(next_cond h := \<lparr>arr = 0, slen = 0\<rparr>), next_cond := next_cond h + 1\<rparr>"
    by (auto simp: NewCondition_def alloc_cond_def)
  have "cond_params h' d = (if d = next_cond h then [] else cond_params h d)" for d by (simp add: h' cond_params_def contents_def)
  moreover have "conds_ok h'" using new(3) by (auto simp: h' well_founded_conds_def conds_ok_def less_Suc_eq)
  ultimately show ?case using new(3) by (auto simp: h' well_founded_conds_def less_Suc_eq)
next
  case (step h c x newcap c' h')
  from well_founded_step [OF step(5,2,3,4)] show ?case .
qed

lemma cond_loop_returns:
  assumes "\<And>p t. p \<in> set ps \<Longrightarrow> isCond p \<Longrightarrow> getCondSQL n E R h (cond p) True t \<noteq> None"
  shows "cond_loop n E R h i ps w as t \<noteq> None"
  using assms
proof (induction ps arbitrary: i w as t)
  case (Cons p ps)
  have IH: "cond_loop n E R h i ps w as t \<noteq> None" for i w as t using Cons.prems by (intro Cons.IH) simp_all
  show ?case
  proof (cases "isCond p")
    case True
    with Cons.prems [of p t] obtain r t1 where "getCondSQL n E R h (cond p) True t = Some (r, t1)" by auto
    with True IH show ?thesis by (auto simp: Let_def split: sum.splits prod.splits simp del: not_None_eq)
  next
    case False
    with IH show ?thesis by (auto simp: Let_def split: sum.splits prod.splits simp del: not_None_eq)
  qed
qed simp

lemma getCondSQL_returns:
  assumes "well_founded_conds h" "c < next_cond h" "c + 2 \<le> n"
  shows "getCondSQL n E R h (Some c) sub t \<noteq> None"
  using assms(2,3)
proof (induction c arbitrary: n sub t rule: less_induct)
  case (less c)
  then obtain m where n: "n = Suc m" "c + 1 \<le> m" by (cases n) auto
  have "getCondSQL m E R h (cond p) True t \<noteq> None" if p: "p \<in> set (cond_params h c)" for p t
  proof (cases "cond p")
    case None
    with n show ?thesis by (cases m) simp_all
  next
    case (Some d)
    have "cond_below c p" using p assms(1) less.prems(1) by (auto simp: well_founded_conds_def list_all_iff)
    then have d: "d < c" using Some by (simp add: cond_below_def)
    show ?thesis unfolding Some using less.prems(1) n(2) d by (intro less.IH) simp_all
  qed
  then have "cond_loop m E R h 0 (cond_params h c) [] [] t \<noteq> None" by (intro cond_loop_returns)
  then show ?case unfolding n(1) by (auto split: sum.splits)
qed

text \<open>C13. Whatever conditions a program builds, sharing arrays and nesting conditions in each other, no condition contains itself: the recursion that
  prints a condition of the store ends, at a depth that the number of conditions made before it bounds.\<close>

theorem condition_text_ends:
  assumes "cond_store h" "c < next_cond h" "c + 2 \<le> n"
  shows "\<exists>r. getCondSQL n E R h (Some c) sub t = Some r"
  using getCondSQL_returns [OF cond_store_well_founded [OF assms(1)] assms(2,3)] by blast

theorem condition_text_ends_witness:
  "\<exists>r. getCondSQL (1 + 2) blog_env blog blog_conds (Some 1) False blog_tables = Some r"
proof -
  obtain c0 h0 where n: "NewCondition (empty_store :: oval store) = (c0, h0)" by force
  obtain c1 h1 where a: "cond_apply id (OAnd ''User__Name'' [OStr ''bob'']) 0 h0 = Inr (c1, h1)" by (simp add: cond_And_def) (metis surj_pair)
  have h0: "next_cond h0 = 1" using n by (auto simp: NewCondition_def alloc_cond_def empty_store_def)
  have "cond_store h0" using cond_store.new [OF cond_store.start n] .
  then have s: "cond_store h1" by (rule cond_store.step [OF _ _ _ a]) (simp_all add: h0)
  have b: "blog_conds = h1" using a n by (simp add: blog_conds_def)
  have "1 < next_cond blog_conds" by (simp add: blog_conds_def cond_And_def NewCondition_def alloc_cond_def empty_store_def append_copy_def go_append_def Let_def)
  with condition_text_ends [OF s] show ?thesis unfolding b by blast
qed

end
