(* ===== verification/Orm_Fields.thy ===== *)
theory Orm_Fields
  imports Orm_Models "HOL-Library.Word"
begin

text \<open>
  The field types that implement \<^verbatim>\<open>Fielder\<close> (\<^verbatim>\<open>client/orm/internal/models/models_fields.go\<close>). A field is the value of
  its underlying type; integers are words of their width. A method with a pointer receiver that assigns returns the new value.
  Floating point numbers and times are parameters: their text and its parsing (the package \<^verbatim>\<open>strconv\<close> for floats, \<^verbatim>\<open>time\<close> with the
  default location) are functions of the record \<open>conv\<close>; a float32 is represented by the float64 of the same value.
\<close>

section \<open>Values and conversions\<close>

text \<open>The dynamic values that are exchanged with a field.\<close>

datatype ('f, 't) raw = RNil | RBool bool | RStr string | RBytes string | RI16 "16 word" | RI32 "32 word" | RI64 "64 word"
  | RU16 "16 word" | RU32 "32 word" | RU64 "64 word" | RF32 'f | RF64 'f | RTime 't | RTimePtr "'t option" | ROther string

datatype raw_error = UnknownValue string | NumErr num_error | TimeErr

record ('f, 't) conv =
  parse_float :: "string \<Rightarrow> 'f \<times> num_error option"
  float_text :: "'f \<Rightarrow> string"
  parse_time :: "string \<Rightarrow> string \<Rightarrow> unit + 't"
  time_String :: "'t \<Rightarrow> string"

definition FormatTime :: string where "FormatTime = ''15:04:05''"
definition FormatDate :: string where "FormatDate = ''2006-01-02''"
definition FormatDateTime :: string where "FormatDateTime = ''2006-01-02 15:04:05''"

definition StrTo_Bool :: "string \<Rightarrow> bool \<times> num_error option" where
  "StrTo_Bool f =
     (let s = StrTo_String f in
      if s \<in> {''1'', ''t'', ''T'', ''true'', ''TRUE'', ''True''} then (True, None)
      else if s \<in> {''0'', ''f'', ''F'', ''false'', ''FALSE'', ''False''} then (False, None)
      else (False, Some ErrSyntax))"

section \<open>The field types\<close>

subsection \<open>Booleans and text\<close>

definition BooleanField_Value :: "bool \<Rightarrow> bool" where "BooleanField_Value e = e"
definition BooleanField_Set :: "bool \<Rightarrow> bool \<Rightarrow> bool" where "BooleanField_Set d e = d"
definition BooleanField_String :: "bool \<Rightarrow> string" where "BooleanField_String e = (if BooleanField_Value e then ''true'' else ''false'')"
definition BooleanField_FieldType :: nat where "BooleanField_FieldType = TypeBooleanField"
definition BooleanField_RawValue :: "bool \<Rightarrow> ('f, 't) raw" where "BooleanField_RawValue e = RBool (BooleanField_Value e)"
definition BooleanField_SetRaw :: "('f, 't) raw \<Rightarrow> bool \<Rightarrow> raw_error option \<times> bool" where
  "BooleanField_SetRaw v e =
     (case v of
        RBool d \<Rightarrow> (None, BooleanField_Set d e)
      | RStr d \<Rightarrow> (case StrTo_Bool d of
            (b, None) \<Rightarrow> (None, BooleanField_Set b e)
          | (b, Some err) \<Rightarrow> (Some (NumErr err), e))
      | _ \<Rightarrow> (Some (UnknownValue ''BooleanField''), e))"

definition CharField_Value :: "string \<Rightarrow> string" where "CharField_Value e = e"
definition CharField_Set :: "string \<Rightarrow> string \<Rightarrow> string" where "CharField_Set d e = d"
definition CharField_String :: "string \<Rightarrow> string" where "CharField_String e = CharField_Value e"
definition CharField_FieldType :: nat where "CharField_FieldType = TypeVarCharField"
definition CharField_RawValue :: "string \<Rightarrow> ('f, 't) raw" where "CharField_RawValue e = RStr (CharField_Value e)"
definition CharField_SetRaw :: "('f, 't) raw \<Rightarrow> string \<Rightarrow> raw_error option \<times> string" where
  "CharField_SetRaw v e = (case v of RStr d \<Rightarrow> (None, CharField_Set d e) | _ \<Rightarrow> (Some (UnknownValue ''CharField''), e))"

definition TextField_Value :: "string \<Rightarrow> string" where "TextField_Value e = e"
definition TextField_Set :: "string \<Rightarrow> string \<Rightarrow> string" where "TextField_Set d e = d"
definition TextField_String :: "string \<Rightarrow> string" where "TextField_String e = TextField_Value e"
definition TextField_FieldType :: nat where "TextField_FieldType = TypeTextField"
definition TextField_RawValue :: "string \<Rightarrow> ('f, 't) raw" where "TextField_RawValue e = RStr (TextField_Value e)"
definition TextField_SetRaw :: "('f, 't) raw \<Rightarrow> string \<Rightarrow> raw_error option \<times> string" where
  "TextField_SetRaw v e = (case v of RStr d \<Rightarrow> (None, TextField_Set d e) | _ \<Rightarrow> (Some (UnknownValue ''TextField''), e))"

definition JSONField_Value :: "string \<Rightarrow> string" where "JSONField_Value e = e"
definition JSONField_Set :: "string \<Rightarrow> string \<Rightarrow> string" where "JSONField_Set d e = d"
definition JSONField_String :: "string \<Rightarrow> string" where "JSONField_String e = JSONField_Value e"
definition JSONField_FieldType :: nat where "JSONField_FieldType = TypeJSONField"
definition JSONField_RawValue :: "string \<Rightarrow> ('f, 't) raw" where "JSONField_RawValue e = RStr (JSONField_Value e)"
definition JSONField_SetRaw :: "('f, 't) raw \<Rightarrow> string \<Rightarrow> raw_error option \<times> string" where
  "JSONField_SetRaw v e = (case v of RStr d \<Rightarrow> (None, JSONField_Set d e) | _ \<Rightarrow> (Some (UnknownValue ''JSONField''), e))"

definition JsonbField_Value :: "string \<Rightarrow> string" where "JsonbField_Value e = e"
definition JsonbField_Set :: "string \<Rightarrow> string \<Rightarrow> string" where "JsonbField_Set d e = d"
definition JsonbField_String :: "string \<Rightarrow> string" where "JsonbField_String e = JsonbField_Value e"
definition JsonbField_FieldType :: nat where "JsonbField_FieldType = TypeJsonbField"
definition JsonbField_RawValue :: "string \<Rightarrow> ('f, 't) raw" where "JsonbField_RawValue e = RStr (JsonbField_Value e)"
definition JsonbField_SetRaw :: "('f, 't) raw \<Rightarrow> string \<Rightarrow> raw_error option \<times> string" where
  "JsonbField_SetRaw v e = (case v of RStr d \<Rightarrow> (None, JsonbField_Set d e) | _ \<Rightarrow> (Some (UnknownValue ''JsonbField''), e))"

subsection \<open>Times\<close>

definition TimeField_Value :: "'t \<Rightarrow> 't" where "TimeField_Value e = e"
definition TimeField_Set :: "'t \<Rightarrow> 't \<Rightarrow> 't" where "TimeField_Set d e = d"
definition TimeField_String :: "('f, 't) conv \<Rightarrow> 't \<Rightarrow> string" where "TimeField_String E e = time_String E (TimeField_Value e)"
definition TimeField_FieldType :: nat where "TimeField_FieldType = TypeDateField"
definition TimeField_RawValue :: "'t \<Rightarrow> ('f, 't) raw" where "TimeField_RawValue e = RTime (TimeField_Value e)"
definition TimeField_SetRaw :: "('f, 't) conv \<Rightarrow> ('f, 't) raw \<Rightarrow> 't \<Rightarrow> raw_error option \<times> 't" where
  "TimeField_SetRaw E v e =
     (case v of
        RTime d \<Rightarrow> (None, TimeField_Set d e)
      | RStr d \<Rightarrow> (case parse_time E FormatTime d of
            Inr t \<Rightarrow> (None, TimeField_Set t e)
          | Inl _ \<Rightarrow> (Some TimeErr, e))
      | _ \<Rightarrow> (Some (UnknownValue ''TimeField''), e))"

definition DateField_Value :: "'t \<Rightarrow> 't" where "DateField_Value e = e"
definition DateField_Set :: "'t \<Rightarrow> 't \<Rightarrow> 't" where "DateField_Set d e = d"
definition DateField_String :: "('f, 't) conv \<Rightarrow> 't \<Rightarrow> string" where "DateField_String E e = time_String E (DateField_Value e)"
definition DateField_FieldType :: nat where "DateField_FieldType = TypeDateField"
definition DateField_RawValue :: "'t \<Rightarrow> ('f, 't) raw" where "DateField_RawValue e = RTime (DateField_Value e)"
definition DateField_SetRaw :: "('f, 't) conv \<Rightarrow> ('f, 't) raw \<Rightarrow> 't \<Rightarrow> raw_error option \<times> 't" where
  "DateField_SetRaw E v e =
     (case v of
        RTime d \<Rightarrow> (None, DateField_Set d e)
      | RStr d \<Rightarrow> (case parse_time E FormatDate d of
            Inr t \<Rightarrow> (None, DateField_Set t e)
          | Inl _ \<Rightarrow> (Some TimeErr, e))
      | _ \<Rightarrow> (Some (UnknownValue ''DateField''), e))"

definition DateTimeField_Value :: "'t \<Rightarrow> 't" where "DateTimeField_Value e = e"
definition DateTimeField_Set :: "'t \<Rightarrow> 't \<Rightarrow> 't" where "DateTimeField_Set d e = d"
definition DateTimeField_String :: "('f, 't) conv \<Rightarrow> 't \<Rightarrow> string" where "DateTimeField_String E e = time_String E (DateTimeField_Value e)"
definition DateTimeField_FieldType :: nat where "DateTimeField_FieldType = TypeDateTimeField"
definition DateTimeField_RawValue :: "'t \<Rightarrow> ('f, 't) raw" where "DateTimeField_RawValue e = RTime (DateTimeField_Value e)"
definition DateTimeField_SetRaw :: "('f, 't) conv \<Rightarrow> ('f, 't) raw \<Rightarrow> 't \<Rightarrow> raw_error option \<times> 't" where
  "DateTimeField_SetRaw E v e =
     (case v of
        RTime d \<Rightarrow> (None, DateTimeField_Set d e)
      | RStr d \<Rightarrow> (case parse_time E FormatDateTime d of
            Inr t \<Rightarrow> (None, DateTimeField_Set t e)
          | Inl _ \<Rightarrow> (Some TimeErr, e))
      | _ \<Rightarrow> (Some (UnknownValue ''DateTimeField''), e))"

subsection \<open>Numbers\<close>

definition FloatField_Value :: "'f \<Rightarrow> 'f" where "FloatField_Value e = e"
definition FloatField_Set :: "'f \<Rightarrow> 'f \<Rightarrow> 'f" where "FloatField_Set d e = d"
definition FloatField_String :: "('f, 't) conv \<Rightarrow> 'f \<Rightarrow> string" where "FloatField_String E e = float_text E (FloatField_Value e)"
definition FloatField_FieldType :: nat where "FloatField_FieldType = TypeFloatField"
definition FloatField_RawValue :: "'f \<Rightarrow> ('f, 't) raw" where "FloatField_RawValue e = RF64 (FloatField_Value e)"
definition FloatField_SetRaw :: "('f, 't) conv \<Rightarrow> ('f, 't) raw \<Rightarrow> 'f \<Rightarrow> raw_error option \<times> 'f" where
  "FloatField_SetRaw E v e =
     (case v of
        RF32 d \<Rightarrow> (None, FloatField_Set d e)
      | RF64 d \<Rightarrow> (None, FloatField_Set d e)
      | RStr d \<Rightarrow> (case parse_float E (StrTo_String d) of
            (x, None) \<Rightarrow> (None, FloatField_Set x e)
          | (x, Some err) \<Rightarrow> (Some (NumErr err), e))
      | _ \<Rightarrow> (Some (UnknownValue ''FloatField''), e))"

definition SmallIntegerField_Value :: "16 word \<Rightarrow> 16 word" where "SmallIntegerField_Value e = e"
definition SmallIntegerField_Set :: "16 word \<Rightarrow> 16 word \<Rightarrow> 16 word" where "SmallIntegerField_Set d e = d"
definition SmallIntegerField_String :: "16 word \<Rightarrow> string" where "SmallIntegerField_String e = itoa (sint (SmallIntegerField_Value e))"
definition SmallIntegerField_FieldType :: nat where "SmallIntegerField_FieldType = TypeSmallIntegerField"
definition SmallIntegerField_RawValue :: "16 word \<Rightarrow> ('f, 't) raw" where "SmallIntegerField_RawValue e = RI16 (SmallIntegerField_Value e)"
definition SmallIntegerField_SetRaw :: "('f, 't) raw \<Rightarrow> 16 word \<Rightarrow> raw_error option \<times> 16 word" where
  "SmallIntegerField_SetRaw v e =
     (case v of
        RI16 d \<Rightarrow> (None, SmallIntegerField_Set d e)
      | RStr d \<Rightarrow> (case StrTo_Int16 d of
            (x, None) \<Rightarrow> (None, SmallIntegerField_Set (word_of_int x) e)
          | (x, Some err) \<Rightarrow> (Some (NumErr err), e))
      | _ \<Rightarrow> (Some (UnknownValue ''SmallIntegerField''), e))"

definition IntegerField_Value :: "32 word \<Rightarrow> 32 word" where "IntegerField_Value e = e"
definition IntegerField_Set :: "32 word \<Rightarrow> 32 word \<Rightarrow> 32 word" where "IntegerField_Set d e = d"
definition IntegerField_String :: "32 word \<Rightarrow> string" where "IntegerField_String e = itoa (sint (IntegerField_Value e))"
definition IntegerField_FieldType :: nat where "IntegerField_FieldType = TypeIntegerField"
definition IntegerField_RawValue :: "32 word \<Rightarrow> ('f, 't) raw" where "IntegerField_RawValue e = RI32 (IntegerField_Value e)"
definition IntegerField_SetRaw :: "('f, 't) raw \<Rightarrow> 32 word \<Rightarrow> raw_error option \<times> 32 word" where
  "IntegerField_SetRaw v e =
     (case v of
        RI32 d \<Rightarrow> (None, IntegerField_Set d e)
      | RStr d \<Rightarrow> (case StrTo_Int32 d of
            (x, None) \<Rightarrow> (None, IntegerField_Set (word_of_int x) e)
          | (x, Some err) \<Rightarrow> (Some (NumErr err), e))
      | _ \<Rightarrow> (Some (UnknownValue ''IntegerField''), e))"

definition BigIntegerField_Value :: "64 word \<Rightarrow> 64 word" where "BigIntegerField_Value e = e"
definition BigIntegerField_Set :: "64 word \<Rightarrow> 64 word \<Rightarrow> 64 word" where "BigIntegerField_Set d e = d"
definition BigIntegerField_String :: "64 word \<Rightarrow> string" where "BigIntegerField_String e = itoa (sint (BigIntegerField_Value e))"
definition BigIntegerField_FieldType :: nat where "BigIntegerField_FieldType = TypeBigIntegerField"
definition BigIntegerField_RawValue :: "64 word \<Rightarrow> ('f, 't) raw" where "BigIntegerField_RawValue e = RI64 (BigIntegerField_Value e)"
definition BigIntegerField_SetRaw :: "(int \<Rightarrow> int) \<Rightarrow> ('f, 't) raw \<Rightarrow> 64 word \<Rightarrow> raw_error option \<times> 64 word" where
  "BigIntegerField_SetRaw undef v e =
     (case v of
        RI64 d \<Rightarrow> (None, BigIntegerField_Set d e)
      | RStr d \<Rightarrow> (case StrTo_Int64 undef d of
            (x, None) \<Rightarrow> (None, BigIntegerField_Set (word_of_int x) e)
          | (x, Some err) \<Rightarrow> (Some (NumErr err), e))
      | _ \<Rightarrow> (Some (UnknownValue ''BigIntegerField''), e))"

definition PositiveSmallIntegerField_Value :: "16 word \<Rightarrow> 16 word" where "PositiveSmallIntegerField_Value e = e"
definition PositiveSmallIntegerField_Set :: "16 word \<Rightarrow> 16 word \<Rightarrow> 16 word" where "PositiveSmallIntegerField_Set d e = d"
definition PositiveSmallIntegerField_String :: "16 word \<Rightarrow> string" where "PositiveSmallIntegerField_String e = utoa (unat (PositiveSmallIntegerField_Value e))"
definition PositiveSmallIntegerField_FieldType :: nat where "PositiveSmallIntegerField_FieldType = TypePositiveSmallIntegerField"
definition PositiveSmallIntegerField_RawValue :: "16 word \<Rightarrow> ('f, 't) raw" where "PositiveSmallIntegerField_RawValue e = RU16 (PositiveSmallIntegerField_Value e)"
definition PositiveSmallIntegerField_SetRaw :: "('f, 't) raw \<Rightarrow> 16 word \<Rightarrow> raw_error option \<times> 16 word" where
  "PositiveSmallIntegerField_SetRaw v e =
     (case v of
        RU16 d \<Rightarrow> (None, PositiveSmallIntegerField_Set d e)
      | RStr d \<Rightarrow> (case StrTo_Uint16 d of
            (x, None) \<Rightarrow> (None, PositiveSmallIntegerField_Set (word_of_nat x) e)
          | (x, Some err) \<Rightarrow> (Some (NumErr err), e))
      | _ \<Rightarrow> (Some (UnknownValue ''PositiveSmallIntegerField''), e))"

definition PositiveIntegerField_Value :: "32 word \<Rightarrow> 32 word" where "PositiveIntegerField_Value e = e"
definition PositiveIntegerField_Set :: "32 word \<Rightarrow> 32 word \<Rightarrow> 32 word" where "PositiveIntegerField_Set d e = d"
definition PositiveIntegerField_String :: "32 word \<Rightarrow> string" where "PositiveIntegerField_String e = utoa (unat (PositiveIntegerField_Value e))"
definition PositiveIntegerField_FieldType :: nat where "PositiveIntegerField_FieldType = TypePositiveIntegerField"
definition PositiveIntegerField_RawValue :: "32 word \<Rightarrow> ('f, 't) raw" where "PositiveIntegerField_RawValue e = RU32 (PositiveIntegerField_Value e)"
definition PositiveIntegerField_SetRaw :: "('f, 't) raw \<Rightarrow> 32 word \<Rightarrow> raw_error option \<times> 32 word" where
  "PositiveIntegerField_SetRaw v e =
     (case v of
        RU32 d \<Rightarrow> (None, PositiveIntegerField_Set d e)
      | RStr d \<Rightarrow> (case StrTo_Uint32 d of
            (x, None) \<Rightarrow> (None, PositiveIntegerField_Set (word_of_nat x) e)
          | (x, Some err) \<Rightarrow> (Some (NumErr err), e))
      | _ \<Rightarrow> (Some (UnknownValue ''PositiveIntegerField''), e))"

definition PositiveBigIntegerField_Value :: "64 word \<Rightarrow> 64 word" where "PositiveBigIntegerField_Value e = e"
definition PositiveBigIntegerField_Set :: "64 word \<Rightarrow> 64 word \<Rightarrow> 64 word" where "PositiveBigIntegerField_Set d e = d"
definition PositiveBigIntegerField_String :: "64 word \<Rightarrow> string" where "PositiveBigIntegerField_String e = utoa (unat (PositiveBigIntegerField_Value e))"
definition PositiveBigIntegerField_FieldType :: nat where "PositiveBigIntegerField_FieldType = TypePositiveBigIntegerField"
definition PositiveBigIntegerField_RawValue :: "64 word \<Rightarrow> ('f, 't) raw" where "PositiveBigIntegerField_RawValue e = RU64 (PositiveBigIntegerField_Value e)"
definition PositiveBigIntegerField_SetRaw :: "(int \<Rightarrow> nat) \<Rightarrow> ('f, 't) raw \<Rightarrow> 64 word \<Rightarrow> raw_error option \<times> 64 word" where
  "PositiveBigIntegerField_SetRaw undef v e =
     (case v of
        RU64 d \<Rightarrow> (None, PositiveBigIntegerField_Set d e)
      | RStr d \<Rightarrow> (case StrTo_Uint64 undef d of
            (x, None) \<Rightarrow> (None, PositiveBigIntegerField_Set (word_of_nat x) e)
          | (x, Some err) \<Rightarrow> (Some (NumErr err), e))
      | _ \<Rightarrow> (Some (UnknownValue ''PositiveBigIntegerField''), e))"

section \<open>The contract of a field\<close>

text \<open>What the ORM relies on: the raw value of a field sets it back, and a value that is refused leaves the field as it was. A field
  whose text can be read has the second contract.\<close>

locale fielder =
  fixes SetRaw :: "('f, 't) raw \<Rightarrow> 'e \<Rightarrow> raw_error option \<times> 'e" and RawValue :: "'e \<Rightarrow> ('f, 't) raw"
  assumes raw_back: "SetRaw (RawValue e) e0 = (None, e)"
    and refused_keeps: "SetRaw v e0 = (Some err, e1) \<Longrightarrow> e1 = e0"
    and value_decides: "SetRaw v e0 = (None, e) \<Longrightarrow> SetRaw v e1 = (None, e)"
begin

text \<open>After a sequence of attempts the field holds the last accepted value.\<close>

fun set_all :: "('f, 't) raw list \<Rightarrow> 'e \<Rightarrow> 'e" where
  "set_all [] e = e"
| "set_all (v # vs) e = set_all vs (snd (SetRaw v e))"

lemma set_all_append: "set_all (us @ vs) e = set_all vs (set_all us e)"
  by (induction us arbitrary: e) simp_all

lemma set_all_refused:
  assumes "\<forall>v \<in> set vs. \<forall>e. fst (SetRaw v e) \<noteq> None"
  shows "set_all vs e = e"
  using assms
proof (induction vs arbitrary: e)
  case (Cons v vs)
  then have "fst (SetRaw v e) \<noteq> None" by auto
  then obtain err e1 where s: "SetRaw v e = (Some err, e1)" by (cases "SetRaw v e") auto
  have "e1 = e" using refused_keeps [OF s] .
  with s Cons show ?case by simp
qed simp

lemma last_accepted:
  assumes "SetRaw v e0 = (None, e)" "\<forall>u \<in> set ws. \<forall>e. fst (SetRaw u e) \<noteq> None"
  shows "set_all (us @ v # ws) e1 = e"
  using value_decides [OF assms(1)] set_all_refused [OF assms(2)] by (simp add: set_all_append)

lemma raw_inj: "RawValue a = RawValue b \<Longrightarrow> a = b"
  by (metis raw_back prod.inject)

end

locale text_fielder = fielder SetRaw RawValue
  for SetRaw :: "('f, 't) raw \<Rightarrow> 'e \<Rightarrow> raw_error option \<times> 'e" and RawValue :: "'e \<Rightarrow> ('f, 't) raw" +
  fixes String :: "'e \<Rightarrow> string"
  assumes text_back: "SetRaw (RStr (String e)) e0 = (None, e)"
begin

lemma text_inj: "String a = String b \<Longrightarrow> a = b"
  by (metis text_back prod.inject)

end

lemma sint_width_bounds:
  fixes w :: "'a :: len word"
  shows "- (2 ^ (LENGTH('a) - 1)) \<le> sint w" "sint w < 2 ^ (LENGTH('a) - 1)"
  using sint_ge [of w] sint_lt [of w] by simp_all

lemma StrTo_digits: "StrTo_String (utoa n) = utoa n"
  using itoa_not_cleared [of "int n"] by (simp add: itoa_def)

lemma StrTo_signed16: "StrTo_Int16 (itoa (sint (w :: 16 word))) = (sint w, None)"
  unfolding StrTo_Int16_def itoa_not_cleared by (rule parse_int_itoa) (use sint_width_bounds [of w] in simp_all)

lemma StrTo_signed32: "StrTo_Int32 (itoa (sint (w :: 32 word))) = (sint w, None)"
  unfolding StrTo_Int32_def itoa_not_cleared by (rule parse_int_itoa) (use sint_width_bounds [of w] in simp_all)

lemma StrTo_signed64: "StrTo_Int64 undef (itoa (sint (w :: 64 word))) = (sint w, None)"
proof -
  have "parse_int 64 (itoa (sint w)) = (sint w, None)" by (rule parse_int_itoa) (use sint_width_bounds [of w] in simp_all)
  then show ?thesis unfolding StrTo_Int64_def itoa_not_cleared by simp
qed

lemma parse_unat:
  fixes w :: "'a :: len word"
  shows "parse_uint LENGTH('a) (utoa (unat w)) = (unat w, None)"
  by (rule parse_uint_utoa) (rule unsigned_less)

lemma StrTo_unsigned16: "StrTo_Uint16 (utoa (unat (w :: 16 word))) = (unat w, None)"
  unfolding StrTo_Uint16_def StrTo_digits using parse_unat [of w] by simp

lemma StrTo_unsigned32: "StrTo_Uint32 (utoa (unat (w :: 32 word))) = (unat w, None)"
  unfolding StrTo_Uint32_def StrTo_digits using parse_unat [of w] by simp

lemma StrTo_unsigned64: "StrTo_Uint64 undef (utoa (unat (w :: 64 word))) = (unat w, None)"
  unfolding StrTo_Uint64_def StrTo_digits using parse_unat [of w] by simp

lemmas StrTo_signed = StrTo_signed16 StrTo_signed32 StrTo_signed64

lemmas StrTo_unsigned = StrTo_unsigned16 StrTo_unsigned32 StrTo_unsigned64

lemmas field_defs =
  BooleanField_SetRaw_def BooleanField_RawValue_def BooleanField_Value_def BooleanField_Set_def BooleanField_String_def 
  CharField_SetRaw_def CharField_RawValue_def CharField_Value_def CharField_Set_def CharField_String_def TextField_SetRaw_def 
  TextField_RawValue_def TextField_Value_def TextField_Set_def TextField_String_def JSONField_SetRaw_def JSONField_RawValue_def 
  JSONField_Value_def JSONField_Set_def JSONField_String_def JsonbField_SetRaw_def JsonbField_RawValue_def JsonbField_Value_def 
  JsonbField_Set_def JsonbField_String_def TimeField_SetRaw_def TimeField_RawValue_def TimeField_Value_def TimeField_Set_def 
  DateField_SetRaw_def DateField_RawValue_def DateField_Value_def DateField_Set_def DateTimeField_SetRaw_def 
  DateTimeField_RawValue_def DateTimeField_Value_def DateTimeField_Set_def FloatField_SetRaw_def FloatField_RawValue_def 
  FloatField_Value_def FloatField_Set_def SmallIntegerField_SetRaw_def SmallIntegerField_RawValue_def SmallIntegerField_Value_def 
  SmallIntegerField_Set_def SmallIntegerField_String_def IntegerField_SetRaw_def IntegerField_RawValue_def IntegerField_Value_def 
  IntegerField_Set_def IntegerField_String_def BigIntegerField_SetRaw_def BigIntegerField_RawValue_def BigIntegerField_Value_def 
  BigIntegerField_Set_def BigIntegerField_String_def PositiveSmallIntegerField_SetRaw_def PositiveSmallIntegerField_RawValue_def 
  PositiveSmallIntegerField_Value_def PositiveSmallIntegerField_Set_def PositiveSmallIntegerField_String_def 
  PositiveIntegerField_SetRaw_def PositiveIntegerField_RawValue_def PositiveIntegerField_Value_def PositiveIntegerField_Set_def 
  PositiveIntegerField_String_def PositiveBigIntegerField_SetRaw_def PositiveBigIntegerField_RawValue_def 
  PositiveBigIntegerField_Value_def PositiveBigIntegerField_Set_def PositiveBigIntegerField_String_def StrTo_Bool_def 
  StrTo_String_def StrTo_Exist_def

lemmas field_splits = raw.splits prod.splits option.splits sum.splits if_splits

interpretation booleanfield: text_fielder BooleanField_SetRaw BooleanField_RawValue BooleanField_String
  by unfold_locales (auto simp: field_defs StrTo_signed StrTo_unsigned split: field_splits)

interpretation charfield: text_fielder CharField_SetRaw CharField_RawValue CharField_String
  by unfold_locales (auto simp: field_defs StrTo_signed StrTo_unsigned split: field_splits)

interpretation textfield: text_fielder TextField_SetRaw TextField_RawValue TextField_String
  by unfold_locales (auto simp: field_defs StrTo_signed StrTo_unsigned split: field_splits)

interpretation jsonfield: text_fielder JSONField_SetRaw JSONField_RawValue JSONField_String
  by unfold_locales (auto simp: field_defs StrTo_signed StrTo_unsigned split: field_splits)

interpretation jsonbfield: text_fielder JsonbField_SetRaw JsonbField_RawValue JsonbField_String
  by unfold_locales (auto simp: field_defs StrTo_signed StrTo_unsigned split: field_splits)

interpretation timefield: fielder "TimeField_SetRaw E" TimeField_RawValue
  by unfold_locales (auto simp: field_defs StrTo_signed StrTo_unsigned split: field_splits)

interpretation datefield: fielder "DateField_SetRaw E" DateField_RawValue
  by unfold_locales (auto simp: field_defs StrTo_signed StrTo_unsigned split: field_splits)

interpretation datetimefield: fielder "DateTimeField_SetRaw E" DateTimeField_RawValue
  by unfold_locales (auto simp: field_defs StrTo_signed StrTo_unsigned split: field_splits)

interpretation floatfield: fielder "FloatField_SetRaw E" FloatField_RawValue
  by unfold_locales (auto simp: field_defs StrTo_signed StrTo_unsigned split: field_splits)

interpretation smallintegerfield: text_fielder SmallIntegerField_SetRaw SmallIntegerField_RawValue SmallIntegerField_String
  by unfold_locales (auto simp: field_defs StrTo_signed StrTo_unsigned split: field_splits)

interpretation integerfield: text_fielder IntegerField_SetRaw IntegerField_RawValue IntegerField_String
  by unfold_locales (auto simp: field_defs StrTo_signed StrTo_unsigned split: field_splits)

interpretation bigintegerfield: text_fielder "BigIntegerField_SetRaw undef" BigIntegerField_RawValue BigIntegerField_String
  by unfold_locales (auto simp: field_defs StrTo_signed StrTo_unsigned split: field_splits)

interpretation positivesmallintegerfield: text_fielder PositiveSmallIntegerField_SetRaw PositiveSmallIntegerField_RawValue PositiveSmallIntegerField_String
  by unfold_locales (auto simp: field_defs StrTo_signed StrTo_unsigned split: field_splits)

interpretation positiveintegerfield: text_fielder PositiveIntegerField_SetRaw PositiveIntegerField_RawValue PositiveIntegerField_String
  by unfold_locales (auto simp: field_defs StrTo_signed StrTo_unsigned split: field_splits)

interpretation positivebigintegerfield: text_fielder "PositiveBigIntegerField_SetRaw undef" PositiveBigIntegerField_RawValue PositiveBigIntegerField_String
  by unfold_locales (auto simp: field_defs StrTo_signed StrTo_unsigned split: field_splits)

text \<open> A field of any of the fifteen types is set back by its own raw value, whatever it held, and one whose text can be
  read is set back by its text: booleans, texts, and integers at every width, signed and unsigned.\<close>

theorem field_roundtrips:
  "BooleanField_SetRaw (BooleanField_RawValue x1) y1 = (None, x1) \<and> BooleanField_SetRaw (RStr (BooleanField_String x1)) y1 = (None, x1) \<and>
   CharField_SetRaw (CharField_RawValue x2) y2 = (None, x2) \<and> CharField_SetRaw (RStr (CharField_String x2)) y2 = (None, x2) \<and>
   TextField_SetRaw (TextField_RawValue x3) y3 = (None, x3) \<and> TextField_SetRaw (RStr (TextField_String x3)) y3 = (None, x3) \<and>
   JSONField_SetRaw (JSONField_RawValue x4) y4 = (None, x4) \<and> JSONField_SetRaw (RStr (JSONField_String x4)) y4 = (None, x4) \<and>
   JsonbField_SetRaw (JsonbField_RawValue x5) y5 = (None, x5) \<and> JsonbField_SetRaw (RStr (JsonbField_String x5)) y5 = (None, x5) \<and>
   TimeField_SetRaw E (TimeField_RawValue x6) y6 = (None, x6) \<and>
   DateField_SetRaw E (DateField_RawValue x7) y7 = (None, x7) \<and>
   DateTimeField_SetRaw E (DateTimeField_RawValue x8) y8 = (None, x8) \<and>
   FloatField_SetRaw E (FloatField_RawValue x9) y9 = (None, x9) \<and>
   SmallIntegerField_SetRaw (SmallIntegerField_RawValue x10) y10 = (None, x10) \<and> SmallIntegerField_SetRaw (RStr (SmallIntegerField_String x10)) y10 = (None, x10) \<and>
   IntegerField_SetRaw (IntegerField_RawValue x11) y11 = (None, x11) \<and> IntegerField_SetRaw (RStr (IntegerField_String x11)) y11 = (None, x11) \<and>
   BigIntegerField_SetRaw ui (BigIntegerField_RawValue x12) y12 = (None, x12) \<and> BigIntegerField_SetRaw ui (RStr (BigIntegerField_String x12)) y12 = (None, x12) \<and>
   PositiveSmallIntegerField_SetRaw (PositiveSmallIntegerField_RawValue x13) y13 = (None, x13) \<and> PositiveSmallIntegerField_SetRaw (RStr (PositiveSmallIntegerField_String x13)) y13 = (None, x13) \<and>
   PositiveIntegerField_SetRaw (PositiveIntegerField_RawValue x14) y14 = (None, x14) \<and> PositiveIntegerField_SetRaw (RStr (PositiveIntegerField_String x14)) y14 = (None, x14) \<and>
   PositiveBigIntegerField_SetRaw un (PositiveBigIntegerField_RawValue x15) y15 = (None, x15) \<and> PositiveBigIntegerField_SetRaw un (RStr (PositiveBigIntegerField_String x15)) y15 = (None, x15)"
  by (intro conjI) (simp_all add: booleanfield.raw_back booleanfield.text_back charfield.raw_back charfield.text_back textfield.raw_back textfield.text_back jsonfield.raw_back jsonfield.text_back jsonbfield.raw_back jsonbfield.text_back timefield.raw_back datefield.raw_back datetimefield.raw_back floatfield.raw_back smallintegerfield.raw_back smallintegerfield.text_back integerfield.raw_back integerfield.text_back bigintegerfield.raw_back bigintegerfield.text_back positivesmallintegerfield.raw_back positivesmallintegerfield.text_back positiveintegerfield.raw_back positiveintegerfield.text_back positivebigintegerfield.raw_back positivebigintegerfield.text_back)

end
