(* ===== verification/Orm_Field_Info.thy ===== *)
theory Orm_Field_Info
  imports Orm_Fields
begin

text \<open>
  Descriptions of models from struct types (\<^verbatim>\<open>models_utils.go\<close>, \<^verbatim>\<open>models_info_f.go\<close>, \<^verbatim>\<open>models_info_m.go\<close> of
  \<^verbatim>\<open>client/orm/internal/models\<close>): the type of a field from its Go type and its struct tag, the fields of a model, and the table
  that joins two models. What the code learns by reflection (the Go types, names and tags of the fields of a struct) is data of the model;
  a struct is registered by a value whose pointers are nil.
\<close>

section \<open>Go types\<close>

datatype gotype = GInt8 | GInt16 | GInt32 | GInt | GInt64 | GUint8 | GUint16 | GUint32 | GUint | GUint64 | GFloat32 | GFloat64
  | GBool | GString | GTime | GNullInt64 | GNullFloat64 | GNullBool | GNullString | GStruct string | GSlice gotype | GPtr gotype
  | GNamed gotype   \<comment> \<open>a defined type with that underlying type\<close>
  | GFielder nat gotype   \<comment> \<open>a type whose pointer implements Fielder, with its field type\<close>
  | GOther

datatype info_error = Unsupported | NilPointerType | FielderPointer | FielderRelation | WrongTag string string | NotPointer | NotSlice
  | NotPointerSlice | WrongFieldType | OnDeleteDefault | OnDeleteNull | OnDeleteUnknown string | WrongSize string | WrongPrecision string
  | WrongDigits string string | NonIntegerAuto | AutoKind | DuplicateColumn string | TwoPks

fun basic_type :: "gotype \<Rightarrow> nat" where
  "basic_type GInt8 = TypeBitField"
| "basic_type GInt16 = TypeSmallIntegerField"
| "basic_type GInt32 = TypeIntegerField"
| "basic_type GInt = TypeIntegerField"
| "basic_type GInt64 = TypeBigIntegerField"
| "basic_type GUint8 = TypePositiveBitField"
| "basic_type GUint16 = TypePositiveSmallIntegerField"
| "basic_type GUint32 = TypePositiveIntegerField"
| "basic_type GUint = TypePositiveIntegerField"
| "basic_type GUint64 = TypePositiveBigIntegerField"
| "basic_type GFloat32 = TypeFloatField"
| "basic_type GFloat64 = TypeFloatField"
| "basic_type GBool = TypeBooleanField"
| "basic_type GString = TypeVarCharField"
| "basic_type _ = 0"

text \<open>The type of a field from the pointed-to type; \<open>is_nil\<close> when the field is itself a pointer.\<close>

definition getFieldType :: "gotype \<Rightarrow> bool \<Rightarrow> info_error + nat" where
  "getFieldType t is_nil =
     (let ft = (if basic_type t \<noteq> 0 then Inr (basic_type t)
                else if t = GTime then Inr TypeDateTimeField
                else if is_nil then Inl NilPointerType
                else Inr (case t of
                    GNamed u \<Rightarrow> basic_type u
                  | GFielder _ u \<Rightarrow> basic_type u
                  | GNullInt64 \<Rightarrow> TypeBigIntegerField
                  | GNullFloat64 \<Rightarrow> TypeFloatField
                  | GNullBool \<Rightarrow> TypeBooleanField
                  | GNullString \<Rightarrow> TypeVarCharField
                  | _ \<Rightarrow> 0))
      in res_bind ft (\<lambda>ft. if in_mask ft IsFieldType then Inr ft else Inl Unsupported))"

record FieldDef = FieldInfo +
  Index :: bool
  Unique :: bool
  ColDefault :: bool
  ToText :: bool
  AutoNow :: bool
  AutoNowAdd :: bool
  IsFielder :: bool
  FieldIndex :: "nat list"
  FullName :: string
  Initial :: string
  Size :: int
  RelTable :: string
  RelThrough :: string
  Digits :: int
  Decimals :: int
  OnDelete :: string
  Description :: string
  TimePrecision :: "int option"
  DBType :: string

definition zero_field :: FieldDef where
  "zero_field = \<lparr>Name = [], Column = [], FieldType = 0, Auto = False, Pk = False, Null = False, DBcol = False, Rel = False, Reverse = False,
     Mi = 0, RelModelInfo = 0, RelThroughModelInfo = 0, ReverseFieldInfo = 0,
     Index = False, Unique = False, ColDefault = False, ToText = False, AutoNow = False, AutoNowAdd = False, IsFielder = False, FieldIndex = [],
     FullName = [], Initial = [], Size = 0, RelTable = [], RelThrough = [], Digits = 0, Decimals = 0, OnDelete = [], Description = [],
     TimePrecision = None, DBType = []\<rparr>"

type_synonym attrs_tags = "string list \<times> (string \<times> string) list"

definition tag_of :: "attrs_tags \<Rightarrow> string \<Rightarrow> string" where
  "tag_of at n = (case map_of (snd at) n of None \<Rightarrow> [] | Some v \<Rightarrow> v)"

definition attr_of :: "attrs_tags \<Rightarrow> string \<Rightarrow> bool" where
  "attr_of at n \<longleftrightarrow> n \<in> set (fst at)"

section \<open>The description of a field\<close>

text \<open>The type from the Go type and the tags, with the table of a many-to-many relation.\<close>

definition rel_tables :: "attrs_tags \<Rightarrow> FieldDef \<Rightarrow> FieldDef" where
  "rel_tables at fi =
     (if tag_of at ''rel_table'' \<noteq> [] then fi\<lparr>RelTable := tag_of at ''rel_table''\<rparr>
      else if tag_of at ''rel_through'' \<noteq> [] then fi\<lparr>RelThrough := tag_of at ''rel_through''\<rparr> else fi)"

definition native_type :: "attrs_tags \<Rightarrow> nat \<Rightarrow> nat" where
  "native_type at ft =
     (let ft = (if ft = TypeVarCharField then
                  (if tag_of at ''type'' = ''char'' then TypeCharField
                   else if tag_of at ''type'' = ''text'' then TypeTextField
                   else if tag_of at ''type'' = ''json'' then TypeJSONField
                   else if tag_of at ''type'' = ''jsonb'' then TypeJsonbField else ft)
                else ft);
          ft = (if ft = TypeFloatField \<and> (tag_of at ''digits'' \<noteq> [] \<or> tag_of at ''decimals'' \<noteq> []) then TypeDecimalField else ft);
          ft = (if ft = TypeDateTimeField \<and> tag_of at ''type'' = ''date'' then TypeDateField else ft);
          ft = (if ft = TypeTimeField \<and> tag_of at ''type'' = ''time'' then TypeTimeField else ft)
      in ft)"

definition check_tags :: "attrs_tags \<Rightarrow> gotype \<Rightarrow> FieldDef \<Rightarrow> info_error + nat \<times> FieldDef" where
  "check_tags at g fi =
     (let rel = tag_of at ''rel''; rev = tag_of at ''reverse'' in
      if rel \<noteq> [] then
        (if rel = ''fk'' then Inr (TypeRelForeignKey, fi)
         else if rel = ''one'' then Inr (TypeRelOneToOne, fi)
         else if rel = ''m2m'' then Inr (TypeRelManyToMany, rel_tables at fi)
         else Inl (WrongTag ''rel'' rel))
      else if rev \<noteq> [] then
        (if rev = ''one'' then Inr (TypeRelReverseOne, fi)
         else if rev = ''many'' then Inr (TypeRelReverseMany, rel_tables at fi)
         else Inl (WrongTag ''reverse'' rev))
      else res_bind (case g of GPtr t \<Rightarrow> getFieldType t True | t \<Rightarrow> getFieldType t False) (\<lambda>ft. Inr (native_type at ft, fi)))"

definition checkType :: "attrs_tags \<Rightarrow> gotype \<Rightarrow> FieldDef \<Rightarrow> info_error + nat \<times> FieldDef" where
  "checkType at g fi =
     (case g of
        GFielder ft _ \<Rightarrow> if in_mask ft IsRelField then Inl FielderRelation else Inr (ft, fi\<lparr>IsFielder := True\<rparr>)
      | GPtr (GFielder _ _) \<Rightarrow> Inl FielderPointer
      | _ \<Rightarrow> check_tags at g fi)"

definition check_kind :: "gotype \<Rightarrow> nat \<Rightarrow> info_error option" where
  "check_kind g ft =
     (if ft = TypeRelForeignKey \<or> ft = TypeRelOneToOne \<or> ft = TypeRelReverseOne then (case g of GPtr _ \<Rightarrow> None | _ \<Rightarrow> Some NotPointer)
      else if ft = TypeRelManyToMany \<or> ft = TypeRelReverseMany then
        (case g of GSlice (GPtr _) \<Rightarrow> None | GSlice _ \<Rightarrow> Some NotPointerSlice | _ \<Rightarrow> Some NotSlice)
      else if \<not> in_mask ft IsFieldType then Some WrongFieldType else None)"

definition rel_kind_of :: "nat \<Rightarrow> rel_kind" where
  "rel_kind_of ft = (if ft = TypeRelForeignKey then RelForeignKey else if ft = TypeRelOneToOne then RelOneToOne else if ft = TypeRelManyToMany then RelManyToMany
     else if ft = TypeRelReverseMany then RelReverseMany else if ft = TypeRelReverseOne then RelReverseOne else NoRelation)"

definition many_type :: "nat \<Rightarrow> bool" where
  "many_type ft \<longleftrightarrow> ft = TypeRelManyToMany \<or> ft = TypeRelReverseMany \<or> ft = TypeRelReverseOne"

definition basic_info :: "(string \<Rightarrow> string) \<Rightarrow> string \<Rightarrow> string \<Rightarrow> attrs_tags \<Rightarrow> nat \<Rightarrow> FieldDef \<Rightarrow> FieldDef" where
  "basic_info strategy prefix name at ft fi =
     (let fi = fi\<lparr>FieldType := ft, Name := name, Column := getColumnName strategy (rel_kind_of ft) name (tag_of at ''column''),
                 FullName := prefix @ ''.'' @ name, Description := tag_of at ''description'', Null := attr_of at ''null'', Index := attr_of at ''index'',
                 Auto := attr_of at ''auto'', DBType := tag_of at ''db_type'', Pk := attr_of at ''pk'', Unique := attr_of at ''unique'',
                 ColDefault := (map_of (snd at) ''default'' \<noteq> None)\<rparr>;
          fi = (if many_type ft then fi\<lparr>Null := False, Index := False, Auto := False, Pk := False, Unique := False\<rparr> else fi\<lparr>DBcol := True\<rparr>)
      in if ft = TypeRelForeignKey \<or> ft = TypeRelOneToOne \<or> ft = TypeRelManyToMany
         then (let fi = fi\<lparr>Rel := True\<rparr> in if ft = TypeRelOneToOne then fi\<lparr>Unique := True\<rparr> else fi)
         else if ft = TypeRelReverseMany \<or> ft = TypeRelReverseOne then fi\<lparr>Reverse := True\<rparr> else fi)"

definition on_delete :: "attrs_tags \<Rightarrow> string \<Rightarrow> FieldDef \<Rightarrow> info_error + FieldDef" where
  "on_delete at initial fi =
     (let od = tag_of at ''on_delete'' in
      if Rel fi \<and> DBcol fi then
        (if od = ''cascade'' \<or> od = ''do_nothing'' then Inr (fi\<lparr>OnDelete := od\<rparr>)
         else if od = ''set_default'' then (if StrTo_Exist initial then Inr (fi\<lparr>OnDelete := od\<rparr>) else Inl OnDeleteDefault)
         else if od = ''set_null'' then (if Null fi then Inr (fi\<lparr>OnDelete := od\<rparr>) else Inl OnDeleteNull)
         else if od = [] then Inr (fi\<lparr>OnDelete := ''cascade''\<rparr>) else Inl (OnDeleteUnknown od))
      else Inr fi)"

text \<open>Sizes, precisions and digits. The first two errors are only reported at the end.\<close>

definition type_details :: "attrs_tags \<Rightarrow> nat \<Rightarrow> FieldDef \<Rightarrow> info_error + info_error option \<times> FieldDef" where
  "type_details at ft fi =
     (if ft \<in> {TypeVarCharField, TypeCharField, TypeJSONField, TypeJsonbField} then
        (let size = tag_of at ''size'' in
         if size \<noteq> [] then Inr (case StrTo_Int32 size of (v, None) \<Rightarrow> (None, fi\<lparr>Size := v\<rparr>) | (_, Some _) \<Rightarrow> (Some (WrongSize size), fi))
         else Inr (None, fi\<lparr>Size := 255, ToText := True\<rparr>))
      else if ft = TypeTextField then Inr (None, fi\<lparr>Index := False, Unique := False\<rparr>)
      else if ft \<in> {TypeTimeField, TypeDateField, TypeDateTimeField} then
        (let prec = tag_of at ''precision'';
             (err, fi) = (if ft = TypeDateTimeField \<and> prec \<noteq> []
               then (case StrTo_Int prec of (v, None) \<Rightarrow> (None, fi\<lparr>TimePrecision := Some v\<rparr>) | (_, Some _) \<Rightarrow> (Some (WrongPrecision prec), fi))
               else (None, fi))
         in Inr (err, if attr_of at ''auto_now'' then fi\<lparr>AutoNow := True\<rparr> else if attr_of at ''auto_now_add'' then fi\<lparr>AutoNowAdd := True\<rparr> else fi))
      else if ft = TypeDecimalField then
        (case (StrTo_Int8 (tag_of at ''digits''), StrTo_Int8 (tag_of at ''decimals'')) of
           ((v1, None), (v2, None)) \<Rightarrow> Inr (None, fi\<lparr>Digits := v1, Decimals := v2\<rparr>)
         | _ \<Rightarrow> Inl (WrongDigits (tag_of at ''decimals'') (tag_of at ''digits'')))
      else Inr (None, fi))"

fun auto_kind :: "gotype \<Rightarrow> bool" where
  "auto_kind (GNamed u) = auto_kind u"
| "auto_kind (GFielder _ u) = auto_kind u"
| "auto_kind g = (g \<in> {GInt, GInt32, GInt64, GUint, GUint32, GUint64})"

definition auto_pk :: "gotype \<Rightarrow> nat \<Rightarrow> FieldDef \<Rightarrow> info_error + FieldDef" where
  "auto_pk g ft fi =
     (if \<not> in_mask ft IsIntegerField \<and> Auto fi then Inl NonIntegerAuto
      else res_bind
        (if Auto fi \<or> Pk fi then
           (if Auto fi \<and> \<not> auto_kind g then Inl AutoKind
            else Inr (let fi = (if Auto fi then fi\<lparr>Pk := True\<rparr> else fi) in fi\<lparr>Null := False, Index := False, Unique := False\<rparr>))
         else Inr fi)
        (\<lambda>fi. Inr (if Unique fi then fi\<lparr>Index := False\<rparr> else fi)))"

text \<open>Whether the default value can be read as the type of the field.\<close>

definition default_ok :: "('f, 't) conv \<Rightarrow> (int \<Rightarrow> int) \<Rightarrow> (int \<Rightarrow> nat) \<Rightarrow> nat \<Rightarrow> string \<Rightarrow> bool" where
  "default_ok E ui un ft v =
     (if ft = TypeBooleanField then snd (StrTo_Bool v) = None
      else if ft = TypeFloatField \<or> ft = TypeDecimalField then snd (parse_float E (StrTo_String v)) = None
      else if ft = TypeBitField then snd (StrTo_Int8 v) = None
      else if ft = TypeSmallIntegerField then snd (StrTo_Int16 v) = None
      else if ft = TypeIntegerField then snd (StrTo_Int32 v) = None
      else if ft = TypeBigIntegerField then snd (StrTo_Int64 ui v) = None
      else if ft = TypePositiveBitField then snd (StrTo_Uint8 v) = None
      else if ft = TypePositiveSmallIntegerField then snd (StrTo_Uint16 v) = None
      else if ft = TypePositiveIntegerField then snd (StrTo_Uint32 v) = None
      else if ft = TypePositiveBigIntegerField then snd (StrTo_Uint64 un v) = None
      else True)"

definition no_default :: "nat \<Rightarrow> FieldDef \<Rightarrow> bool" where
  "no_default ft fi \<longleftrightarrow> Auto fi \<or> Pk fi \<or> Unique fi \<or> ft = TypeTimeField \<or> ft = TypeDateField \<or> ft = TypeDateTimeField"

text \<open>The description of a field: \<open>None\<close> when it is skipped.\<close>

definition NewFieldInfo :: "('f, 't) conv \<Rightarrow> (int \<Rightarrow> int) \<Rightarrow> (int \<Rightarrow> nat) \<Rightarrow> (string \<Rightarrow> string) \<Rightarrow> string \<Rightarrow> string \<Rightarrow> gotype \<Rightarrow> string
    \<Rightarrow> info_error + FieldDef option" where
  "NewFieldInfo E ui un strategy prefix name g tag =
     (let at = ParseStructTag tag in
      if attr_of at ''-'' then Inr None
      else
        let initial = (case map_of (snd at) ''default'' of None \<Rightarrow> [CHR 0x1E] | Some v \<Rightarrow> StrTo_Set v) in
        res_bind (checkType at g zero_field) (\<lambda>(ft, fi).
        case check_kind g ft of
          Some e \<Rightarrow> Inl e
        | None \<Rightarrow>
            res_bind (on_delete at initial (basic_info strategy prefix name at ft fi)) (\<lambda>fi.
            res_bind (type_details at ft fi) (\<lambda>(err, fi).
            res_bind (auto_pk g ft fi) (\<lambda>fi.
              let initial = (if no_default ft fi then [CHR 0x1E] else initial) in
              if StrTo_Exist initial \<and> (\<not> default_ok E ui un ft initial \<or> err \<noteq> None) then Inl (WrongTag ''default'' (tag_of at ''default''))
              else case err of Some e \<Rightarrow> Inl e | None \<Rightarrow> Inr (Some (fi\<lparr>Initial := initial\<rparr>)))))))"

section \<open>The description of a model\<close>

text \<open>The fields of a struct as reflection shows them: a field with its Go type and tag, or an embedded struct.\<close>

datatype struct_field = SField string bool gotype string | SEmbedded string bool "struct_field list"

text \<open>The fields so far, their collection.\<close>

type_synonym model_state = "FieldDef list \<times> Fields"

definition defs_registry :: "FieldDef list \<Rightarrow> registry" where
  "defs_registry ds = \<lparr>field = (\<lambda>i. FieldInfo.truncate (ds ! i)), model = (\<lambda>_. undefined)\<rparr>"

definition add_field :: "FieldDef \<Rightarrow> model_state \<Rightarrow> info_error + model_state" where
  "add_field fi st =
     (case st of (ds, fs) \<Rightarrow>
        let ds = ds @ [fi]; i = length ds - 1; (added, fs) = Fields_Add (defs_registry ds) i fs in
        if \<not> added then Inl (DuplicateColumn (Column fi))
        else if Pk fi then (if fs_Pk fs \<noteq> None then Inl TwoPks else Inr (ds, fs\<lparr>fs_Pk := Some i\<rparr>))
        else Inr (ds, fs))"

function AddModelFields :: "('f, 't) conv \<Rightarrow> (int \<Rightarrow> int) \<Rightarrow> (int \<Rightarrow> nat) \<Rightarrow> (string \<Rightarrow> string) \<Rightarrow> string \<Rightarrow> nat \<Rightarrow> string \<Rightarrow> nat list \<Rightarrow> nat
    \<Rightarrow> struct_field list \<Rightarrow> model_state \<Rightarrow> info_error + model_state" where
  "AddModelFields E ui un strategy full mi mName index i [] st = Inr st"
| "AddModelFields E ui un strategy full mi mName index i (SEmbedded n exported sub # sfs) st =
     res_bind (if exported then AddModelFields E ui un strategy full mi (mName @ ''.'' @ n) (index @ [i]) 0 sub st else Inr st)
       (\<lambda>st. AddModelFields E ui un strategy full mi mName index (i + 1) sfs st)"
| "AddModelFields E ui un strategy full mi mName index i (SField n exported g tag # sfs) st =
     res_bind
       (if exported
        then res_bind (NewFieldInfo E ui un strategy (full @ mName) n g tag) (\<lambda>r. case r of
            None \<Rightarrow> Inr st
          | Some fi \<Rightarrow> add_field (fi\<lparr>FieldIndex := index @ [i], Mi := mi\<rparr>) st)
        else Inr st)
       (\<lambda>st. AddModelFields E ui un strategy full mi mName index (i + 1) sfs st)"
  by pat_completeness auto
termination by (relation "measure (\<lambda>(E, ui, un, strategy, full, mi, mName, index, i, sfs, st). size_list size sfs)") auto

text \<open>A struct type that is registered: its name, the package, the fields.\<close>

definition NewModelInfo :: "('f, 't) conv \<Rightarrow> (int \<Rightarrow> int) \<Rightarrow> (int \<Rightarrow> nat) \<Rightarrow> (string \<Rightarrow> string) \<Rightarrow> string \<Rightarrow> string \<Rightarrow> nat \<Rightarrow> struct_field list
    \<Rightarrow> info_error + FieldDef list \<times> ModelInfo" where
  "NewModelInfo E ui un strategy pkg name mi sfs =
     (let full = pkg @ ''.'' @ name in
      res_bind (AddModelFields E ui un strategy full mi [] [] 0 sfs ([], NewFields)) (\<lambda>(ds, fs).
        Inr (ds, \<lparr>IsThrough = False, mi_Name = name, mi_FullName = full, mi_Pkg = [], Table = [], mi_Fields = fs\<rparr>)))"

text \<open>The table that joins two models: a key and two foreign keys. The pointers \<open>m1\<close>, \<open>m2\<close> and \<open>mi\<close> are those of the models and of the new one.\<close>

definition m2m_field :: "nat \<Rightarrow> string \<Rightarrow> nat \<Rightarrow> string \<Rightarrow> FieldDef" where
  "m2m_field mi full m table = zero_field\<lparr>DBcol := True, FieldType := TypeRelForeignKey, Name := CamelString table, FullName := full @ ''.'' @ CamelString table,
     Column := table @ ''_id'', Rel := True, RelTable := table, RelModelInfo := m, Mi := mi\<rparr>"

definition NewM2MModelInfo :: "nat \<Rightarrow> nat \<Rightarrow> string \<Rightarrow> string \<Rightarrow> nat \<Rightarrow> string \<Rightarrow> FieldDef list \<times> ModelInfo" where
  "NewM2MModelInfo mi m1 pkg1 table1 m2 table2 =
     (let table = table1 @ ''_'' @ table2 @ ''s''; name = CamelString table; full = pkg1 @ ''.'' @ name;
          fa = zero_field\<lparr>FieldType := TypeBigIntegerField, Auto := True, Pk := True, DBcol := True, Name := ''Id'', Column := ''id'', FullName := full @ ''.Id''\<rparr>;
          ds = [fa, m2m_field mi full m1 table1, m2m_field mi full m2 table2]; R = defs_registry ds;
          fs = snd (Fields_Add R 2 (snd (Fields_Add R 1 (snd (Fields_Add R 0 NewFields)))))
      in (ds, \<lparr>IsThrough = False, mi_Name = name, mi_FullName = full, mi_Pkg = [], Table = table, mi_Fields = fs\<lparr>fs_Pk := Some 0\<rparr>\<rparr>))"

section \<open>Well-formed descriptions\<close>

definition field_wf :: "FieldDef \<Rightarrow> bool" where
  "field_wf fi \<longleftrightarrow> in_mask (FieldType fi) IsFieldType \<and>
     (Pk fi \<longrightarrow> \<not> Null fi \<and> \<not> Index fi \<and> \<not> Unique fi) \<and> (Auto fi \<longrightarrow> Pk fi \<and> in_mask (FieldType fi) IsIntegerField) \<and> (Unique fi \<longrightarrow> \<not> Index fi) \<and>
     (DBcol fi \<longleftrightarrow> \<not> many_type (FieldType fi)) \<and> (Rel fi \<longleftrightarrow> FieldType fi \<in> {TypeRelForeignKey, TypeRelOneToOne, TypeRelManyToMany}) \<and>
     (Reverse fi \<longleftrightarrow> FieldType fi \<in> {TypeRelReverseMany, TypeRelReverseOne}) \<and>
     (OnDelete fi = ''set_null'' \<longrightarrow> Null fi \<or> Pk fi) \<and>
     (StrTo_Exist (Initial fi) \<longrightarrow> \<not> Pk fi \<and> \<not> Unique fi)"

lemma type_numbers:
  "TypeRelForeignKey = 2 ^ 19" "TypeRelOneToOne = 2 ^ 20" "TypeRelManyToMany = 2 ^ 21" "TypeRelReverseOne = 2 ^ 22" "TypeRelReverseMany = 2 ^ 23"
  by (simp_all add: TypeRelForeignKey_def TypeRelOneToOne_def TypeRelManyToMany_def TypeRelReverseOne_def TypeRelReverseMany_def)

lemma rel_masks:
  "in_mask TypeRelForeignKey IsFieldType" "in_mask TypeRelOneToOne IsFieldType" "in_mask TypeRelManyToMany IsFieldType"
  "in_mask TypeRelReverseOne IsFieldType" "in_mask TypeRelReverseMany IsFieldType"
  unfolding type_numbers field_masks by simp_all

lemma check_kind_type: "check_kind g ft = None \<Longrightarrow> in_mask ft IsFieldType"
  by (auto simp: check_kind_def rel_masks split: if_splits gotype.splits)


definition fresh :: "FieldDef \<Rightarrow> bool" where
  "fresh fi \<longleftrightarrow> \<not> DBcol fi \<and> \<not> Rel fi \<and> \<not> Reverse fi \<and> OnDelete fi = []"

lemma check_tags_frame: "check_tags at g fi = Inr (ft, fj) \<Longrightarrow> fresh fi \<Longrightarrow> fresh fj"
  unfolding check_tags_def Let_def rel_tables_def fresh_def by (auto simp: res_bind_Inr_iff split: if_splits)

lemma checkType_cases:
  assumes "checkType at g fi = Inr (ft, fj)"
  shows "fj = fi\<lparr>IsFielder := True\<rparr> \<or> check_tags at g fi = Inr (ft, fj)"
proof (cases g)
  case (GFielder n u)
  with assms show ?thesis by (simp add: checkType_def split: if_splits)
next
  case (GPtr u)
  with assms show ?thesis by (cases u) (simp_all add: checkType_def)
qed (use assms in \<open>simp_all add: checkType_def\<close>)

lemma checkType_frame: "checkType at g zero_field = Inr (ft, fi) \<Longrightarrow> fresh fi"
  using checkType_cases [of at g zero_field ft fi] check_tags_frame [of at g zero_field ft fi] by (auto simp: fresh_def zero_field_def)

lemma basic_info_facts:
  fixes fi :: FieldDef
  assumes "fresh fi" and fj: "fj = basic_info strategy prefix name at ft fi"
  shows "FieldType fj = ft" "DBcol fj \<longleftrightarrow> \<not> many_type ft" "Rel fj \<longleftrightarrow> ft \<in> {TypeRelForeignKey, TypeRelOneToOne, TypeRelManyToMany}"
    "Reverse fj \<longleftrightarrow> ft \<in> {TypeRelReverseMany, TypeRelReverseOne}" "OnDelete fj = []" "Name fj = name"
proof -
  have d: "ft = TypeRelForeignKey \<or> ft = TypeRelOneToOne \<or> ft = TypeRelManyToMany \<Longrightarrow> ft \<noteq> TypeRelReverseMany \<and> ft \<noteq> TypeRelReverseOne"
    by (auto simp: type_numbers)
  show "FieldType fj = ft" "DBcol fj \<longleftrightarrow> \<not> many_type ft" "Rel fj \<longleftrightarrow> ft \<in> {TypeRelForeignKey, TypeRelOneToOne, TypeRelManyToMany}"
    "Reverse fj \<longleftrightarrow> ft \<in> {TypeRelReverseMany, TypeRelReverseOne}" "OnDelete fj = []" "Name fj = name"
    unfolding fj basic_info_def Let_def using assms(1) d unfolding fresh_def by auto
qed

text \<open>What the later steps keep.\<close>

definition same_kind :: "FieldDef \<Rightarrow> FieldDef \<Rightarrow> bool" where
  "same_kind a b \<longleftrightarrow> FieldType b = FieldType a \<and> DBcol b = DBcol a \<and> Rel b = Rel a \<and> Reverse b = Reverse a \<and> Name b = Name a \<and> Column b = Column a"

lemma on_delete_facts:
  assumes "on_delete at initial fi = Inr fj" "OnDelete fi = []"
  shows "same_kind fi fj" "OnDelete fj = ''set_null'' \<longrightarrow> Null fj"
  using assms unfolding on_delete_def Let_def same_kind_def by (auto split: if_splits)

lemma type_details_facts:
  assumes "type_details at ft fi = Inr (err, fj)"
  shows "same_kind fi fj" "OnDelete fj = OnDelete fi" "Null fj = Null fi"
proof -
  have "same_kind fi fj \<and> OnDelete fj = OnDelete fi \<and> Null fj = Null fi"
    using assms unfolding type_details_def Let_def same_kind_def by (auto split: if_splits prod.splits option.splits)
  then show "same_kind fi fj" "OnDelete fj = OnDelete fi" "Null fj = Null fi" by blast+
qed

lemma auto_pk_facts:
  assumes "auto_pk g ft fi = Inr fj"
  shows "same_kind fi fj" "OnDelete fj = OnDelete fi" "Auto fj \<longrightarrow> Pk fj \<and> in_mask ft IsIntegerField" "Pk fj \<longrightarrow> \<not> Null fj \<and> \<not> Index fj \<and> \<not> Unique fj"
    "Unique fj \<longrightarrow> \<not> Index fj" "Null fi \<longrightarrow> Null fj \<or> Pk fj"
proof -
  have "same_kind fi fj \<and> OnDelete fj = OnDelete fi \<and> (Auto fj \<longrightarrow> Pk fj \<and> in_mask ft IsIntegerField) \<and> (Pk fj \<longrightarrow> \<not> Null fj \<and> \<not> Index fj \<and> \<not> Unique fj) \<and>
      (Unique fj \<longrightarrow> \<not> Index fj) \<and> (Null fi \<longrightarrow> Null fj \<or> Pk fj)"
    using assms unfolding auto_pk_def Let_def same_kind_def by (auto simp: res_bind_Inr_iff split: if_splits)
  then show "same_kind fi fj" "OnDelete fj = OnDelete fi" "Auto fj \<longrightarrow> Pk fj \<and> in_mask ft IsIntegerField" "Pk fj \<longrightarrow> \<not> Null fj \<and> \<not> Index fj \<and> \<not> Unique fj"
    "Unique fj \<longrightarrow> \<not> Index fj" "Null fi \<longrightarrow> Null fj \<or> Pk fj" by blast+
qed

lemma NewFieldInfo_cases:
  assumes "NewFieldInfo E ui un strategy prefix name g tag = Inr (Some fi)"
  obtains ft f0 f1 err f2 f3 initial where "checkType (ParseStructTag tag) g zero_field = Inr (ft, f0)" "check_kind g ft = None"
    "on_delete (ParseStructTag tag) initial (basic_info strategy prefix name (ParseStructTag tag) ft f0) = Inr f1"
    "type_details (ParseStructTag tag) ft f1 = Inr (err, f2)" "auto_pk g ft f2 = Inr f3"
    "fi = f3\<lparr>Initial := if no_default ft f3 then [CHR 0x1E] else initial\<rparr>"
proof -
  define at where "at = ParseStructTag tag"
  define initial where "initial = (case map_of (snd at) ''default'' of None \<Rightarrow> [CHR 0x1E] | Some v \<Rightarrow> StrTo_Set v)"
  have "\<not> attr_of at ''-''" using assms unfolding NewFieldInfo_def Let_def at_def by auto
  then have eq: "res_bind (checkType at g zero_field) (\<lambda>(ft, fi).
        case check_kind g ft of
          Some e \<Rightarrow> Inl e
        | None \<Rightarrow>
            res_bind (on_delete at initial (basic_info strategy prefix name at ft fi)) (\<lambda>fi.
            res_bind (type_details at ft fi) (\<lambda>(err, fi).
            res_bind (auto_pk g ft fi) (\<lambda>fi.
              if StrTo_Exist (if no_default ft fi then [CHR 0x1E] else initial) \<and>
                 (\<not> default_ok E ui un ft (if no_default ft fi then [CHR 0x1E] else initial) \<or> err \<noteq> None) then Inl (WrongTag ''default'' (tag_of at ''default''))
              else case err of Some e \<Rightarrow> Inl e | None \<Rightarrow> Inr (Some (fi\<lparr>Initial := if no_default ft fi then [CHR 0x1E] else initial\<rparr>)))))) = Inr (Some fi)"
    using assms unfolding NewFieldInfo_def Let_def at_def [symmetric] initial_def [symmetric] by simp
  then obtain ft f0 where 1: "checkType at g zero_field = Inr (ft, f0)" "check_kind g ft = None"
    by (auto simp: res_bind_Inr_iff split: option.splits)
  with eq obtain f1 where 2: "on_delete at initial (basic_info strategy prefix name at ft f0) = Inr f1"
    by (auto simp: res_bind_Inr_iff)
  with eq 1 obtain err f2 where 3: "type_details at ft f1 = Inr (err, f2)" by (auto simp: res_bind_Inr_iff)
  with eq 1 2 obtain f3 where 4: "auto_pk g ft f2 = Inr f3" by (auto simp: res_bind_Inr_iff)
  have "fi = f3\<lparr>Initial := if no_default ft f3 then [CHR 0x1E] else initial\<rparr>"
    using eq unfolding 1 res_bind_simps prod.case option.case 2 3 4 by (auto split: if_splits option.splits)
  from that [OF 1(1) [unfolded at_def] 1(2) 2 [unfolded at_def] 3 [unfolded at_def] 4 this] show ?thesis .
qed

lemma NewFieldInfo_wf:
  assumes "NewFieldInfo E ui un strategy prefix name g tag = Inr (Some fi)"
  shows "field_wf fi" "Name fi = name"
  using assms
proof -
  from assms obtain ft f0 f1 err f2 f3 initial where c: "checkType (ParseStructTag tag) g zero_field = Inr (ft, f0)" "check_kind g ft = None"
    "on_delete (ParseStructTag tag) initial (basic_info strategy prefix name (ParseStructTag tag) ft f0) = Inr f1"
    "type_details (ParseStructTag tag) ft f1 = Inr (err, f2)" "auto_pk g ft f2 = Inr f3"
    "fi = f3\<lparr>Initial := if no_default ft f3 then [CHR 0x1E] else initial\<rparr>" by (rule NewFieldInfo_cases)
  note b = basic_info_facts [OF checkType_frame [OF c(1)] refl, of strategy prefix name "ParseStructTag tag" ft]
  note o = on_delete_facts [OF c(3) b(5)] and d = type_details_facts [OF c(4)] and a = auto_pk_facts [OF c(5)]
  have k: "FieldType f3 = ft" "DBcol f3 \<longleftrightarrow> \<not> many_type ft" "Rel f3 \<longleftrightarrow> ft \<in> {TypeRelForeignKey, TypeRelOneToOne, TypeRelManyToMany}"
    "Reverse f3 \<longleftrightarrow> ft \<in> {TypeRelReverseMany, TypeRelReverseOne}" "Name f3 = name"
    using o(1) d(1) a(1) b unfolding same_kind_def by simp_all
  have n: "OnDelete f3 = ''set_null'' \<longrightarrow> Null f3 \<or> Pk f3" using o(2) d(2,3) a(2,6) by simp
  have e: "StrTo_Exist (Initial fi) \<longrightarrow> \<not> Pk f3 \<and> \<not> Unique f3" by (simp add: c(6) no_default_def StrTo_Exist_def)
  show "field_wf fi" using k n e a(3-5) check_kind_type [OF c(2)] unfolding field_wf_def c(6) by simp
  show "Name fi = name" using k(5) by (simp add: c(6))
qed

text \<open>Adding the fields of a struct, seen from the registry that holds all of them.\<close>

definition agrees :: "registry \<Rightarrow> FieldDef list \<Rightarrow> bool" where
  "agrees R ds \<longleftrightarrow> (\<forall>i < length ds. field R i = FieldInfo.truncate (ds ! i))"

definition pk_ok :: "FieldDef list \<Rightarrow> Fields \<Rightarrow> bool" where
  "pk_ok ds fs \<longleftrightarrow> (\<forall>i < length ds. Pk (ds ! i) \<longleftrightarrow> fs_Pk fs = Some i) \<and> (\<forall>p. fs_Pk fs = Some p \<longrightarrow> p < length ds)"

definition model_inv :: "registry \<Rightarrow> model_state \<Rightarrow> bool" where
  "model_inv R st \<longleftrightarrow> built R (snd st) \<and> list_all field_wf (fst st) \<and> pk_ok (fst st) (snd st)"

lemma Fields_Add_field: "field R i = field R' i \<Longrightarrow> Fields_Add R i f = Fields_Add R' i f"
  by (simp add: Fields_Add_def)

lemma agrees_prefix: "agrees R (ds @ es) \<Longrightarrow> agrees R ds"
  by (auto simp: agrees_def nth_append)

lemma add_field_fst: "add_field fi st = Inr st' \<Longrightarrow> fst st' = fst st @ [fi]"
  by (cases st) (auto simp: add_field_def Let_def split: prod.splits if_splits)

lemma add_field_inv:
  assumes "add_field fi st = Inr st'" "field_wf fi" "agrees R (fst st')" "model_inv R st"
  shows "fst st' = fst st @ [fi]" "model_inv R st'"
proof -
  obtain ds fs where st: "st = (ds, fs)" by force
  let ?n = "length ds"
  obtain added fs1 where fa: "Fields_Add (defs_registry (ds @ [fi])) ?n fs = (added, fs1)" by force
  have "fst st' = ds @ [fi] \<and> fs_Pk fs1 = fs_Pk fs \<and> snd st' = (if Pk fi then fs1\<lparr>fs_Pk := Some ?n\<rparr> else fs1) \<and> (Pk fi \<longrightarrow> fs_Pk fs = None)"
  proof -
    have "fs_Pk (snd (Fields_Add R i f)) = fs_Pk f" for R i f by (simp add: Fields_Add_def Let_def)
    from this [of "defs_registry (ds @ [fi])" ?n fs] have "fs_Pk fs1 = fs_Pk fs" by (simp add: fa)
    with assms(1) show ?thesis by (auto simp: st add_field_def fa Let_def split: if_splits)
  qed
  then have e: "fst st' = ds @ [fi]" "fs_Pk fs1 = fs_Pk fs" "snd st' = (if Pk fi then fs1\<lparr>fs_Pk := Some ?n\<rparr> else fs1)" "Pk fi \<longrightarrow> fs_Pk fs = None" by blast+
  have "field R ?n = field (defs_registry (ds @ [fi])) ?n" using assms(3) by (simp add: e(1) agrees_def defs_registry_def)
  from Fields_Add_field [OF this, of fs] have "fs1 = snd (Fields_Add R ?n fs)" by (simp add: fa)
  then have "built R fs1" using assms(4) by (simp add: st model_inv_def built.add)
  then have "built R (snd st')" by (simp add: e(3) built.pk)
  moreover have "pk_ok (ds @ [fi]) (snd st')"
  proof -
    have p: "\<And>i. i < ?n \<Longrightarrow> Pk (ds ! i) \<longleftrightarrow> fs_Pk fs = Some i" "\<And>p. fs_Pk fs = Some p \<Longrightarrow> p < ?n"
      using assms(4) by (simp_all add: st model_inv_def pk_ok_def)
    have new: "fs_Pk (snd st') = (if Pk fi then Some ?n else fs_Pk fs)" using e(2,3) by simp
    show ?thesis
      unfolding pk_ok_def new
    proof (intro conjI allI impI)
      fix i
      assume "i < length (ds @ [fi])"
      then consider "i < ?n" | "i = ?n" by (auto simp: less_Suc_eq)
      then show "Pk ((ds @ [fi]) ! i) \<longleftrightarrow> (if Pk fi then Some ?n else fs_Pk fs) = Some i"
        using p e(4) by cases (auto simp: nth_append dest: p(2))
    next
      fix q
      assume "(if Pk fi then Some ?n else fs_Pk fs) = Some q"
      then show "q < length (ds @ [fi])" using p(2) by (auto split: if_splits intro: less_SucI)
    qed
  qed
  ultimately show "fst st' = fst st @ [fi]" "model_inv R st'" using assms(2,4) e(1) by (simp_all add: st model_inv_def)
qed

lemma field_wf_frame: "field_wf (fi\<lparr>FieldIndex := a, Mi := b\<rparr>) = field_wf fi"
  by (simp add: field_wf_def)

lemma AddModelFields_prefix:
  "AddModelFields E ui un strategy full mi mName index i sfs st = Inr st' \<Longrightarrow> \<exists>es. fst st' = fst st @ es"
proof (induction E ui un strategy full mi mName index i sfs st arbitrary: st' rule: AddModelFields.induct [case_names done_all embedded plain])
  case (embedded E ui un strategy full mi mName index i n exported sub sfs st)
  from embedded.prems obtain s1 where s1: "(if exported then AddModelFields E ui un strategy full mi (mName @ ''.'' @ n) (index @ [i]) 0 sub st else Inr st) = Inr s1"
    and s2: "AddModelFields E ui un strategy full mi mName index (i + 1) sfs s1 = Inr st'" by (auto simp: res_bind_Inr_iff)
  have "\<exists>es. fst s1 = fst st @ es" using s1 embedded.IH(1) by (cases exported) auto
  with embedded.IH(2) [OF s2] show ?case by auto
next
  case (plain E ui un strategy full mi mName index i n exported g tag sfs st)
  from plain.prems obtain s1 where s1: "(if exported
        then res_bind (NewFieldInfo E ui un strategy (full @ mName) n g tag) (\<lambda>r. case r of
            None \<Rightarrow> Inr st
          | Some fi \<Rightarrow> add_field (fi\<lparr>FieldIndex := index @ [i], Mi := mi\<rparr>) st)
        else Inr st) = Inr s1"
    and s2: "AddModelFields E ui un strategy full mi mName index (i + 1) sfs s1 = Inr st'" by (auto simp: res_bind_Inr_iff)
  have "fst s1 = fst st \<or> (\<exists>f. add_field f st = Inr s1)" using s1 by (auto simp: res_bind_Inr_iff split: if_splits option.splits)
  then have "\<exists>es. fst s1 = fst st @ es" using add_field_fst by fastforce
  with plain.IH [OF s2] show ?case by auto
qed simp
lemma AddModelFields_inv:
  "AddModelFields E ui un strategy full mi mName index i sfs st = Inr st' \<Longrightarrow> agrees R (fst st') \<Longrightarrow> model_inv R st \<Longrightarrow> model_inv R st'"
proof (induction E ui un strategy full mi mName index i sfs st arbitrary: st' rule: AddModelFields.induct [case_names done_all embedded plain])
  case (embedded E ui un strategy full mi mName index i n exported sub sfs st)
  from embedded.prems(1) obtain s1 where s1: "(if exported then AddModelFields E ui un strategy full mi (mName @ ''.'' @ n) (index @ [i]) 0 sub st else Inr st) = Inr s1"
    and s2: "AddModelFields E ui un strategy full mi mName index (i + 1) sfs s1 = Inr st'" by (auto simp: res_bind_Inr_iff)
  have a: "agrees R (fst s1)" using AddModelFields_prefix [OF s2] embedded.prems(2) agrees_prefix by metis
  have "model_inv R s1" using s1 embedded.IH(1) [OF _ _ a embedded.prems(3)] embedded.prems(3) by (cases exported) auto
  from embedded.IH(2) [OF s2 embedded.prems(2) this] show ?case .
next
  case (plain E ui un strategy full mi mName index i n exported g tag sfs st)
  from plain.prems(1) obtain s1 where s1: "(if exported
        then res_bind (NewFieldInfo E ui un strategy (full @ mName) n g tag) (\<lambda>r. case r of
            None \<Rightarrow> Inr st
          | Some fi \<Rightarrow> add_field (fi\<lparr>FieldIndex := index @ [i], Mi := mi\<rparr>) st)
        else Inr st) = Inr s1"
    and s2: "AddModelFields E ui un strategy full mi mName index (i + 1) sfs s1 = Inr st'" by (auto simp: res_bind_Inr_iff)
  have a: "agrees R (fst s1)" using AddModelFields_prefix [OF s2] plain.prems(2) agrees_prefix by metis
  from s1 consider "s1 = st" | fi where "NewFieldInfo E ui un strategy (full @ mName) n g tag = Inr (Some fi)" "add_field (fi\<lparr>FieldIndex := index @ [i], Mi := mi\<rparr>) st = Inr s1"
    by (auto simp: res_bind_Inr_iff split: if_splits option.splits)
  then have "model_inv R s1"
  proof cases
    case 2
    have "field_wf (fi\<lparr>FieldIndex := index @ [i], Mi := mi\<rparr>)" using NewFieldInfo_wf(1) [OF 2(1)] by (simp add: field_wf_frame)
    from add_field_inv(2) [OF 2(2) this a plain.prems(3)] show ?thesis .
  qed (use plain.prems(3) in simp)
  from plain.IH [OF s2 plain.prems(2) this] show ?case .
qed simp


definition demo_conv :: "(string, string) conv" where
  "demo_conv = \<lparr>parse_float = (\<lambda>s. (s, None)), float_text = (\<lambda>f. f), parse_time = (\<lambda>l s. Inr s), time_String = (\<lambda>t. t)\<rparr>"

definition demo_struct :: "struct_field list" where
  "demo_struct = [SField ''Id'' True GInt ''auto'', SField ''secret'' False GString []]"

lemma demo_masks: "in_mask TypeIntegerField IsFieldType" "in_mask TypeIntegerField IsIntegerField"
  unfolding TypeIntegerField_def field_masks by simp_all

lemma demo_types: "TypeIntegerField = 512" "TypeVarCharField = 2"  by (simp_all add: TypeIntegerField_def TypeVarCharField_def)

lemmas type_values = TypeVarCharField_def TypeCharField_def TypeTextField_def TypeTimeField_def TypeDateField_def TypeDateTimeField_def TypeFloatField_def TypeDecimalField_def
  TypeJSONField_def TypeJsonbField_def type_numbers TypeIntegerField_def

lemma demo_auto: "\<exists>fi. NewFieldInfo demo_conv id nat SnakeString ''blog.User'' ''Id'' GInt ''auto'' = Inr (Some fi) \<and> Pk fi"
proof -
  let ?at = "([''auto''], []) :: attrs_tags"
  define b where "b = basic_info SnakeString ''blog.User'' ''Id'' ?at TypeIntegerField zero_field"
  have p: "ParseStructTag ''auto'' = ?at" by code_simp
  have "getFieldType GInt False = Inr TypeIntegerField" by (simp add: getFieldType_def demo_masks) (simp add: demo_types)
  moreover have "native_type ?at TypeIntegerField = TypeIntegerField" by (simp add: native_type_def type_values)
  ultimately have c: "checkType ?at GInt zero_field = Inr (TypeIntegerField, zero_field)" by (simp add: checkType_def check_tags_def tag_of_def)
  have k: "check_kind GInt TypeIntegerField = None" by (simp add: check_kind_def demo_masks) (simp add: type_values)
  have "fresh zero_field" by (simp add: fresh_def zero_field_def)
  note f = basic_info_facts [OF this b_def]
  have o: "on_delete ?at [CHR 0x1E] b = Inr b" by (simp add: on_delete_def f) (simp add: type_values)
  have d: "type_details ?at TypeIntegerField b = Inr (None, b)" by (simp add: type_details_def type_values)
  have "Auto b" by (simp add: b_def basic_info_def many_type_def Let_def attr_of_def type_values)
  then obtain c where a: "auto_pk GInt TypeIntegerField b = Inr c" "Pk c" by (simp add: auto_pk_def demo_masks)
  show ?thesis by (simp add: NewFieldInfo_def p attr_of_def c k o d a no_default_def StrTo_Exist_def b_def [symmetric])
qed


text \<open>The tag \<open>type(time)\<close> has no effect: a field of type \<^verbatim>\<open>time.Time\<close> is never of type TypeTimeField when the tag is looked at.\<close>

lemma time_tag_ignored: "tag_of at ''type'' = ''time'' \<Longrightarrow> native_type at TypeDateTimeField = TypeDateTimeField"
  by (simp add: native_type_def type_values)

text \<open>A field of type TimeField says that it is a date.\<close>

lemma time_field_is_date: "TimeField_FieldType = TypeDateField" by (rule TimeField_FieldType_def)

text \<open>For a relation of a model with itself the joining table loses its second foreign key, since both have one name.\<close>

lemma self_relation_loses_key:
  assumes "CamelString table \<noteq> ''Id''" "table @ ''_id'' \<noteq> ''id''"
  shows "Orders (mi_Fields (snd (NewM2MModelInfo mi m pkg table m table))) = [''id'', table @ ''_id'']"
proof -
  define F where "F = m2m_field mi (pkg @ ''.'' @ CamelString (table @ ''_'' @ table @ ''s'')) m table"
  define ds where "ds = fst (NewM2MModelInfo mi m pkg table m table)"
  let ?R = "defs_registry ds"
  have d: "Name (field ?R 0) = ''Id''" "Column (field ?R 0) = ''id''" "Name (field ?R 1) = CamelString table" "Column (field ?R 1) = table @ ''_id''"
    "Name (field ?R 2) = CamelString table" "Column (field ?R 2) = table @ ''_id''"
    by (simp_all add: ds_def NewM2MModelInfo_def defs_registry_def m2m_field_def FieldInfo.defs Let_def)
  have 0: "fs_Fields NewFields (Name (field ?R 0)) = None" "Columns NewFields (Column (field ?R 0)) = None" by (simp_all add: NewFields_def)
  note a0 = Fields_Add_added [OF 0]
  let ?f0 = "snd (Fields_Add ?R 0 NewFields)"
  have 1: "fs_Fields ?f0 (Name (field ?R 1)) = None" "Columns ?f0 (Column (field ?R 1)) = None"
    unfolding a0 using assms by (simp_all add: d NewFields_def del: One_nat_def)
  note a1 = Fields_Add_added [OF 1]
  let ?f1 = "snd (Fields_Add ?R 1 ?f0)"
  have "fs_Fields ?f1 (Name (field ?R 2)) \<noteq> None" unfolding a1 by (simp add: d del: One_nat_def)
  then have "Fields_Add ?R 2 ?f1 = (False, ?f1)" by (intro Fields_Add_refused) simp
  then have "Orders (snd (Fields_Add ?R 2 ?f1)) = [''id'', table @ ''_id'']" by (simp add: a1(8) a0(8) d del: One_nat_def) (simp add: NewFields_def)
  moreover have "mi_Fields (snd (NewM2MModelInfo mi m pkg table m table)) = snd (Fields_Add ?R 2 ?f1)\<lparr>fs_Pk := Some 0\<rparr>"
    by (simp add: ds_def NewM2MModelInfo_def Let_def)
  ultimately show ?thesis by simp
qed

end
