(* ===== verification/Orm_Values.thy ===== *)
theory Orm_Values
  imports Orm_Field_Info
begin

text \<open>
  Values between structs and the database (\<^verbatim>\<open>client/orm/db.go\<close>: \<^verbatim>\<open>collectValues\<close>, \<^verbatim>\<open>collectFieldValue\<close>,
  \<^verbatim>\<open>convertValueFromDB\<close>, \<^verbatim>\<open>setFieldValue\<close>, \<^verbatim>\<open>setColsValues\<close>; \<^verbatim>\<open>getExistPk\<close> of \<^verbatim>\<open>db_utils.go\<close>). A field of a struct is a slot: a variable of a
  basic type, a pointer to one, one of the nullable types of \<^verbatim>\<open>database/sql\<close>, a value of a type that implements \<^verbatim>\<open>Fielder\<close>, or a pointer
  to a related struct, of which only the primary key matters. Methods of \<^verbatim>\<open>Fielder\<close>, times and floats are parameters.
\<close>

section \<open>Slots\<close>

datatype ikind = K8 | K16 | K32 | K64 | KPlain   \<comment> \<open>the last is int or uint\<close>

fun ibits :: "ikind \<Rightarrow> nat" where
  "ibits K8 = 8" | "ibits K16 = 16" | "ibits K32 = 32" | "ibits K64 = 64" | "ibits KPlain = 64"

datatype ctype = TyBool | TyStr | TyInt ikind | TyUint ikind | TyF32 | TyF64 | TyTime

datatype ('f, 't) cell = CBool bool | CStr string | CInt ikind int | CUint ikind nat | CF32 'f | CF64 'f | CTime 't

datatype ('f, 't, 'e) slot = Plain "('f, 't) cell" | Ptr ctype "('f, 't) cell option"
  | NullBool bool bool | NullString string bool | NullInt64 int bool | NullFloat64 'f bool   \<comment> \<open>the value, and whether it is valid\<close>
  | FielderSlot 'e | RelSlot "('f, 't, 'e) slot option"

datatype val_error = ReflectPanic | CannotBeNull string | ConvertFailed string | SetRawFailed string | WrongColumn string string | Diverges

record ('f, 't, 'e) venv = "('f, 't) conv" +
  raw_value :: "'e \<Rightarrow> ('f, 't) raw"
  set_raw :: "('f, 't) raw \<Rightarrow> 'e \<Rightarrow> raw_error option \<times> 'e"
  under :: "'e \<Rightarrow> ('f, 't) cell"   \<comment> \<open>the variable that a Fielder is\<close>
  f32 :: "'f \<Rightarrow> 'f"   \<comment> \<open>rounding to float32\<close>
  f32_text :: "'f \<Rightarrow> string"
  fzero :: 'f
  to_db :: "'t \<Rightarrow> 't"
  from_db :: "'t \<Rightarrow> 't"
  parse_in :: "string \<Rightarrow> string \<Rightarrow> unit + 't"   \<comment> \<open>in the location of the database\<close>
  default_loc :: "'t \<Rightarrow> 't"
  tzero :: 't
  kind_text :: string   \<comment> \<open>the text that reflection gives for a value that is no string\<close>
  undef_int :: "int \<Rightarrow> int"   \<comment> \<open>conversion of a big number that does not fit\<close>
  undef_uint :: "int \<Rightarrow> nat"

definition string_types :: "nat set" where
  "string_types = {TypeVarCharField, TypeCharField, TypeTextField, TypeJSONField, TypeJsonbField}"

definition time_types :: "nat set" where
  "time_types = {TypeTimeField, TypeDateField, TypeDateTimeField}"

definition float_types :: "nat set" where
  "float_types = {TypeFloatField, TypeDecimalField}"

section \<open>From a struct\<close>

text \<open>The primary key of a struct: its value and whether it is set. \<open>pks m\<close> is the key of model \<open>m\<close>.\<close>

fun getExistPk :: "('f, 't, 'e) venv \<Rightarrow> (nat \<Rightarrow> FieldDef) \<Rightarrow> FieldDef \<Rightarrow> ('f, 't, 'e) slot \<Rightarrow> val_error + ('f, 't) raw \<times> bool" where
  "getExistPk E pks fi s =
     (let c = (case s of Plain c \<Rightarrow> Some c | FielderSlot e \<Rightarrow> Some (under E e) | _ \<Rightarrow> None) in
      if in_mask (FieldType fi) IsPositiveIntegerField then
        (case c of Some (CUint k n) \<Rightarrow> Inr (RU64 (word_of_nat n), n > 0) | _ \<Rightarrow> Inl ReflectPanic)
      else if in_mask (FieldType fi) IsIntegerField then
        (case c of Some (CInt k i) \<Rightarrow> Inr (RI64 (word_of_int i), True) | _ \<Rightarrow> Inl ReflectPanic)
      else if in_mask (FieldType fi) IsRelField then
        (case s of RelSlot (Some s') \<Rightarrow> getExistPk E pks (pks (RelModelInfo fi)) s' | _ \<Rightarrow> Inl ReflectPanic)
      else (case c of
              Some (CStr t) \<Rightarrow> Inr (RStr t, t \<noteq> [])
            | _ \<Rightarrow> Inr (RStr (kind_text E), kind_text E \<noteq> [])))"

definition collect_bool :: "('f, 't, 'e) slot \<Rightarrow> val_error + ('f, 't) raw" where
  "collect_bool s = (case s of
     NullBool b v \<Rightarrow> Inr (if v then RBool b else RNil)
   | Ptr _ None \<Rightarrow> Inr RNil
   | Ptr _ (Some (CBool b)) \<Rightarrow> Inr (RBool b)
   | Plain (CBool b) \<Rightarrow> Inr (RBool b)
   | _ \<Rightarrow> Inl ReflectPanic)"

definition collect_string :: "('f, 't, 'e) venv \<Rightarrow> ('f, 't, 'e) slot \<Rightarrow> val_error + ('f, 't) raw" where
  "collect_string E s = (case s of
     NullString t v \<Rightarrow> Inr (if v then RStr t else RNil)
   | Ptr _ None \<Rightarrow> Inr RNil
   | Ptr _ (Some (CStr t)) \<Rightarrow> Inr (RStr t)
   | Plain (CStr t) \<Rightarrow> Inr (RStr t)
   | _ \<Rightarrow> Inr (RStr (kind_text E)))"

definition collect_float :: "('f, 't, 'e) venv \<Rightarrow> ('f, 't, 'e) slot \<Rightarrow> val_error + ('f, 't) raw" where
  "collect_float E s = (case s of
     NullFloat64 x v \<Rightarrow> Inr (if v then RF64 x else RNil)
   | Ptr _ None \<Rightarrow> Inr RNil
   | Ptr _ (Some (CF64 x)) \<Rightarrow> Inr (RF64 x)
   | Ptr _ (Some (CF32 x)) \<Rightarrow> Inr (RF64 x)
   | Plain (CF32 x) \<Rightarrow> Inr (RF64 (fst (parse_float E (StrTo_String (f32_text E x)))))
   | Plain (CF64 x) \<Rightarrow> Inr (RF64 x)
   | _ \<Rightarrow> Inl ReflectPanic)"

definition collect_time :: "('f, 't, 'e) venv \<Rightarrow> ('f, 't, 'e) slot \<Rightarrow> val_error + ('f, 't) raw" where
  "collect_time E s = (case s of
     Plain (CTime t) \<Rightarrow> Inr (if to_db E t = tzero E then RNil else RTime (to_db E t))
   | Ptr TyTime None \<Rightarrow> Inr (RTimePtr None)
   | Ptr TyTime (Some (CTime t)) \<Rightarrow> Inr (RTimePtr (Some t))
   | _ \<Rightarrow> Inr (ROther []))"

definition collect_uint :: "('f, 't, 'e) slot \<Rightarrow> val_error + ('f, 't) raw" where
  "collect_uint s = (case s of
     Ptr _ None \<Rightarrow> Inr RNil
   | Ptr _ (Some (CUint k n)) \<Rightarrow> Inr (RU64 (word_of_nat n))
   | Plain (CUint k n) \<Rightarrow> Inr (RU64 (word_of_nat n))
   | _ \<Rightarrow> Inl ReflectPanic)"

definition collect_int :: "('f, 't, 'e) slot \<Rightarrow> val_error + ('f, 't) raw" where
  "collect_int s = (case s of
     NullInt64 i v \<Rightarrow> Inr (if v then RI64 (word_of_int i) else RNil)
   | Ptr _ None \<Rightarrow> Inr RNil
   | Ptr _ (Some (CInt k i)) \<Rightarrow> Inr (RI64 (word_of_int i))
   | Plain (CInt k i) \<Rightarrow> Inr (RI64 (word_of_int i))
   | _ \<Rightarrow> Inl ReflectPanic)"

definition collect_rel :: "('f, 't, 'e) venv \<Rightarrow> (nat \<Rightarrow> FieldDef) \<Rightarrow> FieldDef \<Rightarrow> ('f, 't, 'e) slot \<Rightarrow> val_error + ('f, 't) raw" where
  "collect_rel E pks fi s =
     res_bind (case s of
         RelSlot None \<Rightarrow> Inr RNil
       | RelSlot (Some s') \<Rightarrow> res_bind (getExistPk E pks (pks (RelModelInfo fi)) s') (\<lambda>(v, ok). Inr (if ok then v else RNil))
       | _ \<Rightarrow> Inl ReflectPanic)
     (\<lambda>v. if \<not> Null fi \<and> v = RNil then Inl (CannotBeNull (FullName fi)) else Inr v)"

definition collect_native :: "('f, 't, 'e) venv \<Rightarrow> (nat \<Rightarrow> FieldDef) \<Rightarrow> FieldDef \<Rightarrow> ('f, 't, 'e) slot \<Rightarrow> val_error + ('f, 't) raw" where
  "collect_native E pks fi s =
     (let ft = FieldType fi in
      if ft = TypeBooleanField then collect_bool s
      else if ft \<in> string_types then collect_string E s
      else if ft \<in> float_types then collect_float E s
      else if ft \<in> time_types then collect_time E s
      else if in_mask ft IsPositiveIntegerField then collect_uint s
      else if in_mask ft IsIntegerField then collect_int s
      else if in_mask ft IsRelField then collect_rel E pks fi s
      else Inr RNil)"

text \<open>The current time for the fields that are set automatically, an empty text for JSON columns. The slot may change.\<close>

definition set_now :: "('f, 't, 'e) venv \<Rightarrow> 't \<Rightarrow> FieldDef \<Rightarrow> ('f, 't, 'e) slot \<Rightarrow> ('f, 't, 'e) slot" where
  "set_now E now fi s = (case s of
     FielderSlot e \<Rightarrow> FielderSlot (snd (set_raw E (RTime (default_loc E now)) e))
   | Ptr ty _ \<Rightarrow> Ptr ty (Some (CTime (default_loc E now)))
   | _ \<Rightarrow> Plain (CTime (default_loc E now)))"

definition auto_value :: "('f, 't, 'e) venv \<Rightarrow> 't \<Rightarrow> FieldDef \<Rightarrow> bool \<Rightarrow> ('f, 't) raw \<Rightarrow> ('f, 't, 'e) slot \<Rightarrow> ('f, 't) raw \<times> ('f, 't, 'e) slot" where
  "auto_value E now fi insert' v s =
     (if FieldType fi \<in> time_types then
        (if AutoNow fi \<or> AutoNowAdd fi \<and> insert' then
           (if insert' \<and> (case v of RTime t \<Rightarrow> t \<noteq> tzero E | _ \<Rightarrow> False) then (v, s)
            else (RTime (to_db E now), set_now E (to_db E now) fi s))
         else (v, s))
      else if FieldType fi \<in> {TypeJSONField, TypeJsonbField} then
        (if v = RNil \<or> v = RStr [] then (if ColDefault fi \<and> StrTo_Exist (Initial fi) then RStr (StrTo_String (Initial fi)) else RNil, s) else (v, s))
      else (v, s))"

definition collectFieldValue :: "('f, 't, 'e) venv \<Rightarrow> 't \<Rightarrow> (nat \<Rightarrow> FieldDef) \<Rightarrow> FieldDef \<Rightarrow> ('f, 't, 'e) slot \<Rightarrow> bool
    \<Rightarrow> val_error + ('f, 't) raw \<times> ('f, 't, 'e) slot" where
  "collectFieldValue E now pks fi s insert' =
     (if Pk fi then res_bind (getExistPk E pks fi s) (\<lambda>(v, ok). Inr (v, s))
      else res_bind (if IsFielder fi then (case s of FielderSlot e \<Rightarrow> Inr (raw_value E e) | _ \<Rightarrow> Inl ReflectPanic) else collect_native E pks fi s)
        (\<lambda>v. Inr (auto_value E now fi insert' v s)))"

text \<open>The values of the columns of a struct, with the names and the automatic fields that are set.\<close>

definition empty_auto :: "FieldDef \<Rightarrow> ('f, 't) raw \<Rightarrow> bool" where
  "empty_auto fi v \<longleftrightarrow> (if in_mask (FieldType fi) IsPositiveIntegerField then (case v of RU64 w \<Rightarrow> w = 0 | _ \<Rightarrow> True)
     else (case v of RI64 w \<Rightarrow> w = 0 | _ \<Rightarrow> True))"

fun collectValues :: "('f, 't, 'e) venv \<Rightarrow> 't \<Rightarrow> (nat \<Rightarrow> FieldDef) \<Rightarrow> Fields \<Rightarrow> (nat \<Rightarrow> FieldDef) \<Rightarrow> bool \<Rightarrow> bool \<Rightarrow> string list \<Rightarrow> (nat \<Rightarrow> ('f, 't, 'e) slot)
    \<Rightarrow> string list \<times> ('f, 't) raw list \<times> string list \<Rightarrow> val_error + (string list \<times> ('f, 't) raw list \<times> string list) \<times> (nat \<Rightarrow> ('f, 't, 'e) slot)" where
  "collectValues E now pks fs def skipAuto insert' [] ind acc = Inr (acc, ind)"
| "collectValues E now pks fs def skipAuto insert' (c # cs) ind (names, vals, autos) =
     (case GetByAny fs c of
        None \<Rightarrow> Inl (WrongColumn c [])
      | Some i \<Rightarrow>
          let fi = def i in
          if \<not> DBcol fi \<or> Auto fi \<and> skipAuto then collectValues E now pks fs def skipAuto insert' cs ind (names, vals, autos)
          else res_bind (collectFieldValue E now pks fi (ind i) insert') (\<lambda>(v, s).
            let ind = ind(i := s) in
            if insert' \<and> Auto fi \<and> empty_auto fi v then collectValues E now pks fs def skipAuto insert' cs ind (names, vals, autos)
            else collectValues E now pks fs def skipAuto insert' cs ind
              (names @ [Column fi], vals @ [v], if insert' \<and> Auto fi then autos @ [Column fi] else autos)))"

section \<open>From the database\<close>

text \<open>\<^verbatim>\<open>utils.ToStr\<close> of a value of the driver.\<close>

fun raw_text :: "('f, 't, 'e) venv \<Rightarrow> ('f, 't) raw \<Rightarrow> string" where
  "raw_text E (RBool b) = (if b then ''true'' else ''false'')"
| "raw_text E (RStr s) = s"
| "raw_text E (RBytes s) = s"
| "raw_text E (RI16 w) = itoa (sint w)"
| "raw_text E (RI32 w) = itoa (sint w)"
| "raw_text E (RI64 w) = itoa (sint w)"
| "raw_text E (RU16 w) = utoa (unat w)"
| "raw_text E (RU32 w) = utoa (unat w)"
| "raw_text E (RU64 w) = utoa (unat w)"
| "raw_text E (RF32 x) = f32_text E x"
| "raw_text E (RF64 x) = float_text E x"
| "raw_text E (RTime t) = time_String E t"
| "raw_text E (RTimePtr t) = kind_text E"
| "raw_text E (ROther s) = s"
| "raw_text E RNil = ''<nil>''"

definition str_of :: "('f, 't) raw \<Rightarrow> string option" where
  "str_of v = (case v of RBytes s \<Rightarrow> Some s | RStr s \<Rightarrow> Some s | _ \<Rightarrow> None)"

definition the_text :: "('f, 't, 'e) venv \<Rightarrow> ('f, 't) raw \<Rightarrow> string" where
  "the_text E v = (case str_of v of Some s \<Rightarrow> s | None \<Rightarrow> raw_text E v)"

definition convert_bool :: "('f, 't, 'e) venv \<Rightarrow> string \<Rightarrow> ('f, 't) raw \<Rightarrow> val_error + ('f, 't) raw" where
  "convert_bool E name v =
     (case v of
        RI64 w \<Rightarrow> Inr (RBool (w = 1))
      | _ \<Rightarrow> (case StrTo_Bool (the_text E v) of (b, None) \<Rightarrow> Inr (RBool b) | (_, Some _) \<Rightarrow> Inl (ConvertFailed name)))"

text \<open>The layout and the part of a text that is parsed as a time; shorter texts are not parsed.\<close>

definition time_layout :: "int option \<Rightarrow> string \<Rightarrow> (string \<times> string) option" where
  "time_layout prec s =
     (if prec \<noteq> None \<and> int (length s) \<ge> 20 + the prec
      then Some (FormatDateTime @ ''.'' @ replicate (nat (the prec)) (CHR ''0''), take (nat (20 + the prec)) s)
      else if length s \<ge> 19 then Some (FormatDateTime, take 19 s)
      else if length s \<ge> 10 then Some (FormatDate, take 10 s)
      else if length s \<ge> 8 then Some (FormatTime, take 8 s)
      else None)"

definition convert_time :: "('f, 't, 'e) venv \<Rightarrow> string \<Rightarrow> int option \<Rightarrow> ('f, 't) raw \<Rightarrow> val_error + ('f, 't) raw" where
  "convert_time E name prec v =
     (case v of
        RTime t \<Rightarrow> Inr (RTime (from_db E t))
      | _ \<Rightarrow>
          (let s = StrTo_String (the_text E v) in
           if prec \<noteq> None \<and> 20 + the prec < 0 then Inl ReflectPanic   \<comment> \<open>a slice with a negative bound\<close>
           else case time_layout prec s of
             None \<Rightarrow> Inr (RTime (default_loc E (tzero E)))
           | Some (layout, s) \<Rightarrow> (case parse_in E layout s of
               Inr t \<Rightarrow> Inr (RTime (default_loc E t))
             | Inl _ \<Rightarrow> if s \<in> {''00:00:00'', ''0000-00-00'', ''0000-00-00 00:00:00''} then Inr (RTime (default_loc E (tzero E)))
                        else Inl (ConvertFailed name))))"

definition int_check :: "('f, 't, 'e) venv \<Rightarrow> nat \<Rightarrow> string \<Rightarrow> bool" where
  "int_check E ft s =
     (if ft = TypeBitField then snd (StrTo_Int8 s) = None
      else if ft = TypeSmallIntegerField then snd (StrTo_Int16 s) = None
      else if ft = TypeIntegerField then snd (StrTo_Int32 s) = None
      else if ft = TypeBigIntegerField then snd (StrTo_Int64 (undef_int E) s) = None
      else if ft = TypePositiveBitField then snd (StrTo_Uint8 s) = None
      else if ft = TypePositiveSmallIntegerField then snd (StrTo_Uint16 s) = None
      else if ft = TypePositiveIntegerField then snd (StrTo_Uint32 s) = None
      else if ft = TypePositiveBigIntegerField then snd (StrTo_Uint64 (undef_uint E) s) = None
      else True)"

definition convert_int :: "('f, 't, 'e) venv \<Rightarrow> string \<Rightarrow> nat \<Rightarrow> ('f, 't) raw \<Rightarrow> val_error + ('f, 't) raw" where
  "convert_int E name ft v =
     (let s = the_text E v in
      if \<not> int_check E ft s then Inl (ConvertFailed name)
      else if in_mask ft IsPositiveIntegerField then Inr (RU64 (word_of_nat (fst (StrTo_Uint64 (undef_uint E) s))))
      else Inr (RI64 (word_of_int (fst (StrTo_Int64 (undef_int E) s)))))"

definition convert_float :: "('f, 't, 'e) venv \<Rightarrow> string \<Rightarrow> ('f, 't) raw \<Rightarrow> val_error + ('f, 't) raw" where
  "convert_float E name v =
     (case v of
        RF64 x \<Rightarrow> Inr (RF64 x)
      | _ \<Rightarrow> (case parse_float E (StrTo_String (the_text E v)) of (x, None) \<Rightarrow> Inr (RF64 x) | (_, Some _) \<Rightarrow> Inl (ConvertFailed name)))"

text \<open>A relation is converted as the primary key that it points to; \<open>fuel\<close> bounds the length of a chain of keys that are relations.\<close>

fun convertValueFromDB :: "nat \<Rightarrow> ('f, 't, 'e) venv \<Rightarrow> (nat \<Rightarrow> FieldDef) \<Rightarrow> FieldDef \<Rightarrow> ('f, 't) raw \<Rightarrow> val_error + ('f, 't) raw" where
  "convertValueFromDB fuel E pks fi v =
     (if v = RNil then Inr RNil
      else let ft = FieldType fi in
        if ft = TypeBooleanField then convert_bool E (FullName fi) v
        else if ft \<in> string_types then Inr (RStr (case str_of v of None \<Rightarrow> raw_text E v | Some s \<Rightarrow> StrTo_String s))
        else if ft \<in> time_types then convert_time E (FullName fi) (TimePrecision fi) v
        else if in_mask ft IsIntegerField then convert_int E (FullName fi) ft v
        else if ft \<in> float_types then convert_float E (FullName fi) v
        else if in_mask ft IsRelField then
          (case fuel of 0 \<Rightarrow> Inl Diverges | Suc n \<Rightarrow> convertValueFromDB n E pks (pks (RelModelInfo fi)) v)
        else Inr RNil)"

section \<open>Into a struct\<close>

definition wrap_int :: "ikind \<Rightarrow> int \<Rightarrow> int" where
  "wrap_int k i = signed_take_bit (ibits k - 1) i"

definition wrap_uint :: "ikind \<Rightarrow> nat \<Rightarrow> nat" where
  "wrap_uint k n = take_bit (ibits k) n"

definition set_bool :: "('f, 't, 'e) slot \<Rightarrow> ('f, 't) raw \<Rightarrow> val_error + ('f, 't, 'e) slot" where
  "set_bool s v = (case s of
     NullBool b ok \<Rightarrow> (case v of RNil \<Rightarrow> Inr (NullBool b False) | RBool c \<Rightarrow> Inr (NullBool c True) | _ \<Rightarrow> Inl ReflectPanic)
   | Ptr ty c \<Rightarrow> (case v of RNil \<Rightarrow> Inr s | RBool b \<Rightarrow> if ty = TyBool then Inr (Ptr ty (Some (CBool b))) else Inl ReflectPanic | _ \<Rightarrow> Inl ReflectPanic)
   | Plain (CBool c) \<Rightarrow> (case v of RNil \<Rightarrow> Inr (Plain (CBool False)) | RBool b \<Rightarrow> Inr (Plain (CBool b)) | _ \<Rightarrow> Inl ReflectPanic)
   | _ \<Rightarrow> Inl ReflectPanic)"

definition set_string :: "('f, 't, 'e) slot \<Rightarrow> ('f, 't) raw \<Rightarrow> val_error + ('f, 't, 'e) slot" where
  "set_string s v = (case s of
     NullString t ok \<Rightarrow> (case v of RNil \<Rightarrow> Inr (NullString t False) | RStr u \<Rightarrow> Inr (NullString u True) | _ \<Rightarrow> Inl ReflectPanic)
   | Ptr ty c \<Rightarrow> (case v of RNil \<Rightarrow> Inr s | RStr u \<Rightarrow> if ty = TyStr then Inr (Ptr ty (Some (CStr u))) else Inl ReflectPanic | _ \<Rightarrow> Inl ReflectPanic)
   | Plain (CStr c) \<Rightarrow> (case v of RNil \<Rightarrow> Inr (Plain (CStr [])) | RStr u \<Rightarrow> Inr (Plain (CStr u)) | _ \<Rightarrow> Inl ReflectPanic)
   | _ \<Rightarrow> Inl ReflectPanic)"

text \<open>A time that is null is not written.\<close>

definition set_time :: "('f, 't, 'e) slot \<Rightarrow> ('f, 't) raw \<Rightarrow> val_error + ('f, 't, 'e) slot" where
  "set_time s v = (case v of
     RNil \<Rightarrow> Inr s
   | RTime t \<Rightarrow> (case s of
         Ptr ty c \<Rightarrow> if ty = TyTime then Inr (Ptr ty (Some (CTime t))) else Inl ReflectPanic
       | Plain (CTime _) \<Rightarrow> Inr (Plain (CTime t))
       | _ \<Rightarrow> Inl ReflectPanic)
   | _ \<Rightarrow> Inl ReflectPanic)"

definition ptr_kind :: "nat \<Rightarrow> ctype \<Rightarrow> ctype option" where
  "ptr_kind ft ty =
     (if ft = TypePositiveBitField then Some (TyUint K8)
      else if ft = TypePositiveSmallIntegerField then Some (TyUint K16)
      else if ft = TypePositiveIntegerField then Some (if ty = TyUint KPlain then TyUint KPlain else TyUint K32)
      else if ft = TypePositiveBigIntegerField then Some (TyUint K64)
      else if ft = TypeBitField then Some (TyInt K8)
      else if ft = TypeSmallIntegerField then Some (TyInt K16)
      else if ft = TypeIntegerField then Some (if ty = TyInt KPlain then TyInt KPlain else TyInt K32)
      else if ft = TypeBigIntegerField then Some (TyInt K64)
      else None)"

definition set_int_ptr :: "ctype \<Rightarrow> ctype \<Rightarrow> ('f, 't) cell option \<Rightarrow> ('f, 't) raw \<Rightarrow> val_error + ('f, 't, 'e) slot" where
  "set_int_ptr want ty c v = (case v of
     RNil \<Rightarrow> Inr (Ptr ty c)
   | RU64 w \<Rightarrow> (case want of TyUint k \<Rightarrow> if ty = want then Inr (Ptr ty (Some (CUint k (wrap_uint k (unat w))))) else Inl ReflectPanic | _ \<Rightarrow> Inl ReflectPanic)
   | RI64 w \<Rightarrow> (case want of TyInt k \<Rightarrow> if ty = want then Inr (Ptr ty (Some (CInt k (wrap_int k (sint w))))) else Inl ReflectPanic | _ \<Rightarrow> Inl ReflectPanic)
   | _ \<Rightarrow> Inl ReflectPanic)"

definition set_uint :: "('f, 't, 'e) slot \<Rightarrow> ('f, 't) raw \<Rightarrow> val_error + ('f, 't, 'e) slot" where
  "set_uint s v = (case s of
     Plain (CUint k n) \<Rightarrow> (case v of RNil \<Rightarrow> Inr (Plain (CUint k 0)) | RU64 w \<Rightarrow> Inr (Plain (CUint k (wrap_uint k (unat w)))) | _ \<Rightarrow> Inl ReflectPanic)
   | _ \<Rightarrow> Inl ReflectPanic)"

definition set_int :: "('f, 't, 'e) slot \<Rightarrow> ('f, 't) raw \<Rightarrow> val_error + ('f, 't, 'e) slot" where
  "set_int s v = (case s of
     NullInt64 i ok \<Rightarrow> (case v of RNil \<Rightarrow> Inr (NullInt64 i False) | RI64 w \<Rightarrow> Inr (NullInt64 (sint w) True) | _ \<Rightarrow> Inl ReflectPanic)
   | Plain (CInt k i) \<Rightarrow> (case v of RNil \<Rightarrow> Inr (Plain (CInt k 0)) | RI64 w \<Rightarrow> Inr (Plain (CInt k (wrap_int k (sint w)))) | _ \<Rightarrow> Inl ReflectPanic)
   | _ \<Rightarrow> Inl ReflectPanic)"

definition set_float :: "('f, 't, 'e) venv \<Rightarrow> ('f, 't, 'e) slot \<Rightarrow> ('f, 't) raw \<Rightarrow> val_error + ('f, 't, 'e) slot" where
  "set_float E s v = (case s of
     NullFloat64 x ok \<Rightarrow> (case v of RNil \<Rightarrow> Inr (NullFloat64 x False) | RF64 y \<Rightarrow> Inr (NullFloat64 y True) | _ \<Rightarrow> Inl ReflectPanic)
   | Ptr ty c \<Rightarrow> (case v of
         RNil \<Rightarrow> Inr s
       | RF64 y \<Rightarrow> if ty = TyF32 then Inr (Ptr ty (Some (CF32 (f32 E y)))) else if ty = TyF64 then Inr (Ptr ty (Some (CF64 y))) else Inl ReflectPanic
       | _ \<Rightarrow> Inl ReflectPanic)
   | Plain (CF32 x) \<Rightarrow> (case v of RNil \<Rightarrow> Inr (Plain (CF32 (fzero E))) | RF64 y \<Rightarrow> Inr (Plain (CF32 (f32 E y))) | _ \<Rightarrow> Inl ReflectPanic)
   | Plain (CF64 x) \<Rightarrow> (case v of RNil \<Rightarrow> Inr (Plain (CF64 (fzero E))) | RF64 y \<Rightarrow> Inr (Plain (CF64 y)) | _ \<Rightarrow> Inl ReflectPanic)
   | _ \<Rightarrow> Inl ReflectPanic)"

text \<open>The assignment for a type that is no relation. A field that is a Fielder is left to \<^verbatim>\<open>SetRaw\<close>.\<close>

definition set_basic :: "('f, 't, 'e) venv \<Rightarrow> bool \<Rightarrow> nat \<Rightarrow> ('f, 't, 'e) slot \<Rightarrow> ('f, 't) raw \<Rightarrow> val_error + ('f, 't, 'e) slot" where
  "set_basic E native ft s v =
     (if ft = TypeBooleanField then (if native then set_bool s v else Inr s)
      else if ft \<in> string_types then (if native then set_string s v else Inr s)
      else if ft \<in> time_types then (if native then set_time s v else Inr s)
      else case (ptr_kind ft (case s of Ptr ty _ \<Rightarrow> ty | _ \<Rightarrow> TyBool), s) of
        (Some want, Ptr ty c) \<Rightarrow> set_int_ptr want ty c v
      | _ \<Rightarrow>
          if in_mask ft IsIntegerField then
            (if native then (if in_mask ft IsPositiveIntegerField then set_uint s v else set_int s v) else Inr s)
          else if ft \<in> float_types then (if native then set_float E s v else Inr s)
          else Inr s)"

text \<open>For a relation a new struct of the related model is allocated and its primary key set; \<open>zero_pk m\<close> is the key of a new struct of model \<open>m\<close>.
  The field description is not changed on the way: when that key is itself a relation, a struct of the same model is assigned to it, which
  panics unless the key points to its own model.\<close>

definition setFieldValue :: "('f, 't, 'e) venv \<Rightarrow> (nat \<Rightarrow> FieldDef) \<Rightarrow> (nat \<Rightarrow> ('f, 't, 'e) slot) \<Rightarrow> FieldDef \<Rightarrow> ('f, 't) raw \<Rightarrow> ('f, 't, 'e) slot
    \<Rightarrow> val_error + ('f, 't, 'e) slot" where
  "setFieldValue E pks zero_pk fi v s =
     (let ft = FieldType fi; native = (\<not> IsFielder fi) in
      res_bind
        (if in_mask ft IsRelField then
           (if v = RNil then Inr s
            else let pk = pks (RelModelInfo fi) in
              if in_mask (FieldType pk) IsRelField then (if RelModelInfo pk = RelModelInfo fi then Inl Diverges else Inl ReflectPanic)
              else (case s of
                      RelSlot _ \<Rightarrow> res_bind (set_basic E native (FieldType pk) (zero_pk (RelModelInfo fi)) v) (\<lambda>s'. Inr (RelSlot (Some s')))
                    | _ \<Rightarrow> Inl ReflectPanic))
         else set_basic E native ft s v)
        (\<lambda>s. if native then Inr s
             else case s of
               FielderSlot e \<Rightarrow> (case set_raw E v e of (None, e) \<Rightarrow> Inr (FielderSlot e) | (Some _, _) \<Rightarrow> Inl (SetRawFailed (FullName fi)))
             | _ \<Rightarrow> Inl ReflectPanic))"

text \<open>The values of the columns into a struct.\<close>

fun setColsValues :: "nat \<Rightarrow> ('f, 't, 'e) venv \<Rightarrow> (nat \<Rightarrow> FieldDef) \<Rightarrow> (nat \<Rightarrow> ('f, 't, 'e) slot) \<Rightarrow> Fields \<Rightarrow> (nat \<Rightarrow> FieldDef) \<Rightarrow> string list \<Rightarrow> ('f, 't) raw list
    \<Rightarrow> (nat \<Rightarrow> ('f, 't, 'e) slot) \<Rightarrow> val_error + (nat \<Rightarrow> ('f, 't, 'e) slot)" where
  "setColsValues fuel E pks zero_pk fs def [] vals ind = Inr ind"
| "setColsValues fuel E pks zero_pk fs def (c # cs) [] ind = Inl ReflectPanic"
| "setColsValues fuel E pks zero_pk fs def (c # cs) (v # vs) ind =
     (case GetByColumn fs c of
        None \<Rightarrow> Inl ReflectPanic
      | Some i \<Rightarrow>
          res_bind (convertValueFromDB fuel E pks (def i) v) (\<lambda>w.
          res_bind (setFieldValue E pks zero_pk (def i) w (ind i)) (\<lambda>s.
            setColsValues fuel E pks zero_pk fs def cs vs (ind(i := s)))))"

section \<open>Writing and reading a field\<close>

definition int_types :: "nat set" where
  "int_types = {TypeBitField, TypeSmallIntegerField, TypeIntegerField, TypeBigIntegerField}"

definition uint_types :: "nat set" where
  "uint_types = {TypePositiveBitField, TypePositiveSmallIntegerField, TypePositiveIntegerField, TypePositiveBigIntegerField}"

definition text_types :: "nat set" where
  "text_types = {TypeVarCharField, TypeCharField, TypeTextField}"

lemmas all_types = TypeBooleanField_def TypeVarCharField_def TypeCharField_def TypeTextField_def TypeTimeField_def TypeDateField_def TypeDateTimeField_def
  TypeBitField_def TypeSmallIntegerField_def TypeIntegerField_def TypeBigIntegerField_def TypePositiveBitField_def TypePositiveSmallIntegerField_def
  TypePositiveIntegerField_def TypePositiveBigIntegerField_def TypeFloatField_def TypeDecimalField_def TypeJSONField_def TypeJsonbField_def type_numbers

lemma no_rel: "k < 19 \<Longrightarrow> \<not> in_mask (2 ^ k) IsRelField"
  by (simp add: field_masks)

lemma int_masks: "ft \<in> int_types \<Longrightarrow> in_mask ft IsIntegerField \<and> \<not> in_mask ft IsPositiveIntegerField \<and> \<not> in_mask ft IsRelField"
  unfolding int_types_def all_types by (auto simp only: field_masks insert_iff empty_iff) 

lemma uint_masks: "ft \<in> uint_types \<Longrightarrow> in_mask ft IsIntegerField \<and> in_mask ft IsPositiveIntegerField \<and> \<not> in_mask ft IsRelField"
  unfolding uint_types_def all_types by (auto simp only: field_masks insert_iff empty_iff)

lemma other_masks: "ft \<in> insert TypeBooleanField text_types \<Longrightarrow> \<not> in_mask ft IsRelField"
  unfolding text_types_def all_types by (auto simp only: field_masks insert_iff empty_iff)

lemma basic_disjoint:
  "ft \<in> int_types \<union> uint_types \<Longrightarrow> ft \<noteq> TypeBooleanField \<and> ft \<notin> string_types \<and> ft \<notin> time_types \<and> ft \<notin> float_types \<and> ft \<notin> {TypeJSONField, TypeJsonbField}"
  "ft \<in> text_types \<Longrightarrow> ft \<noteq> TypeBooleanField \<and> ft \<in> string_types \<and> ft \<notin> time_types \<and> ft \<notin> {TypeJSONField, TypeJsonbField}"
  "TypeBooleanField \<notin> string_types \<union> time_types \<union> {TypeJSONField, TypeJsonbField}"
  by (auto simp: int_types_def uint_types_def text_types_def string_types_def time_types_def float_types_def all_types)

text \<open>The width at which an integer of a type is read back; the range of the integers that it holds.\<close>

definition read_bits :: "nat \<Rightarrow> nat" where
  "read_bits ft = (if ft \<in> {TypeBitField, TypePositiveBitField} then 8 else if ft \<in> {TypeSmallIntegerField, TypePositiveSmallIntegerField} then 16
     else if ft \<in> {TypeIntegerField, TypePositiveIntegerField} then 32 else 64)"

definition kind_fits :: "nat \<Rightarrow> ikind \<Rightarrow> bool" where
  "kind_fits ft k \<longleftrightarrow> ibits k = read_bits ft \<and> k \<noteq> KPlain \<or> k = KPlain \<and> read_bits ft = 32"

definition int_fits :: "nat \<Rightarrow> ikind \<Rightarrow> int \<Rightarrow> bool" where
  "int_fits ft k i \<longleftrightarrow> kind_fits ft k \<and> - (2 ^ (read_bits ft - 1)) \<le> i \<and> i < 2 ^ (read_bits ft - 1)"

definition uint_fits :: "nat \<Rightarrow> ikind \<Rightarrow> nat \<Rightarrow> bool" where
  "uint_fits ft k n \<longleftrightarrow> kind_fits ft k \<and> n < 2 ^ read_bits ft"

fun cell_fits :: "nat \<Rightarrow> ('f, 't) cell \<Rightarrow> bool" where
  "cell_fits ft (CBool b) = (ft = TypeBooleanField)"
| "cell_fits ft (CStr s) = (ft \<in> text_types \<and> StrTo_Exist s)"
| "cell_fits ft (CInt k i) = (ft \<in> int_types \<and> int_fits ft k i)"
| "cell_fits ft (CUint k n) = (ft \<in> uint_types \<and> uint_fits ft k n)"
| "cell_fits ft _ = False"

fun cell_type :: "('f, 't) cell \<Rightarrow> ctype" where
  "cell_type (CBool b) = TyBool" | "cell_type (CStr s) = TyStr" | "cell_type (CInt k i) = TyInt k" | "cell_type (CUint k n) = TyUint k"
| "cell_type (CF32 x) = TyF32" | "cell_type (CF64 x) = TyF64" | "cell_type (CTime t) = TyTime"

text \<open>A slot that holds a value of a type; a nullable one that is not valid holds the zero value.\<close>

fun slot_fits :: "nat \<Rightarrow> ('f, 't, 'e) slot \<Rightarrow> bool" where
  "slot_fits ft (Plain c) = cell_fits ft c"
| "slot_fits ft (Ptr ty (Some c)) = (cell_fits ft c \<and> ty = cell_type c)"
| "slot_fits ft (Ptr ty None) = (ft \<in> insert TypeBooleanField (text_types \<union> int_types \<union> uint_types))"
| "slot_fits ft (NullBool b v) = (ft = TypeBooleanField \<and> (v \<or> \<not> b))"
| "slot_fits ft (NullString s v) = (ft \<in> text_types \<and> (if v then StrTo_Exist s else s = []))"
| "slot_fits ft (NullInt64 i v) = (ft = TypeBigIntegerField \<and> - (2 ^ 63) \<le> i \<and> i < 2 ^ 63 \<and> (v \<or> i = 0))"
| "slot_fits ft _ = False"

fun zero_cell :: "('f, 't) cell \<Rightarrow> ('f, 't) cell" where
  "zero_cell (CBool b) = CBool False" | "zero_cell (CStr s) = CStr []" | "zero_cell (CInt k i) = CInt k 0" | "zero_cell (CUint k n) = CUint k 0"
| "zero_cell c = c"

fun zero_slot :: "('f, 't, 'e) slot \<Rightarrow> ('f, 't, 'e) slot" where
  "zero_slot (Plain c) = Plain (zero_cell c)"
| "zero_slot (Ptr ty c) = Ptr ty None"
| "zero_slot (NullBool b v) = NullBool False False"
| "zero_slot (NullString s v) = NullString [] False"
| "zero_slot (NullInt64 i v) = NullInt64 0 False"
| "zero_slot s = s"

text \<open>What a database hands back for a value: booleans as numbers or text, numbers as numbers or text, text as text or bytes.\<close>

inductive echo :: "('f, 't) raw \<Rightarrow> ('f, 't) raw \<Rightarrow> bool" where
  echo_nil: "echo RNil RNil"
| echo_bool: "echo (RBool b) (RBool b)"
| echo_bool_number: "echo (RBool b) (RI64 (if b then 1 else 0))"
| echo_bool_text: "s = (if b then ''1'' else ''0'') \<Longrightarrow> w \<in> {RStr s, RBytes s} \<Longrightarrow> echo (RBool b) w"
| echo_text: "w \<in> {RStr s, RBytes s} \<Longrightarrow> echo (RStr s) w"
| echo_int: "w \<in> {RI64 i, RStr (itoa (sint i)), RBytes (itoa (sint i))} \<Longrightarrow> echo (RI64 i) w"
| echo_uint: "w \<in> {RU64 n, RStr (utoa (unat n)), RBytes (utoa (unat n))} \<Longrightarrow> echo (RU64 n) w"

inductive_cases echo_nilE: "echo RNil w"
inductive_cases echo_boolE: "echo (RBool b) w"
inductive_cases echo_textE: "echo (RStr s) w"
inductive_cases echo_intE: "echo (RI64 i) w"
inductive_cases echo_uintE: "echo (RU64 n) w"

lemma StrTo_Bool_texts: "StrTo_Bool ''true'' = (True, None)" "StrTo_Bool ''false'' = (False, None)" "StrTo_Bool ''1'' = (True, None)" "StrTo_Bool ''0'' = (False, None)"
  by code_simp+

lemma echo_bool_converts:
  assumes "echo (RBool b) w"
  shows "convert_bool E name w = Inr (RBool b) \<and> w \<noteq> RNil"
  using assms
proof cases
  case echo_bool
  then show ?thesis by (cases b) (simp_all add: convert_bool_def the_text_def str_of_def StrTo_Bool_texts)
next
  case echo_bool_number
  then show ?thesis by (simp add: convert_bool_def)
next
  case (echo_bool_text s)
  then show ?thesis by (cases b) (auto simp: convert_bool_def the_text_def str_of_def StrTo_Bool_texts)
qed

lemma echo_text_converts:
  assumes "echo (RStr s) w" "StrTo_Exist s"
  shows "(case str_of w of None \<Rightarrow> raw_text E w | Some s \<Rightarrow> StrTo_String s) = s \<and> w \<noteq> RNil"
  using assms(1)
proof cases
  case echo_text
  with assms(2) show ?thesis by (auto simp: str_of_def StrTo_String_def)
qed

lemma echo_int_text: "echo (RI64 i) w \<Longrightarrow> the_text E w = itoa (sint i) \<and> w \<noteq> RNil"
  by (elim echo_intE) (auto simp: the_text_def str_of_def)

lemma echo_uint_text: "echo (RU64 n) w \<Longrightarrow> the_text E w = utoa (unat n) \<and> w \<noteq> RNil"
  by (elim echo_uintE) (auto simp: the_text_def str_of_def)

lemma signed_read:
  assumes "ft \<in> int_types" "- (2 ^ (read_bits ft - 1)) \<le> i" "i < 2 ^ (read_bits ft - 1)"
  shows "int_check E ft (itoa i)" "fst (StrTo_Int64 u (itoa i)) = i" "sint (word_of_int i :: 64 word) = i"
proof -
  have b: "read_bits ft \<in> {8, 16, 32, 64}" by (simp add: read_bits_def)
  then have r: "- (2 ^ 63) \<le> i" "i < 2 ^ 63" using assms(2,3) by auto
  have p: "parse_int 64 (itoa i) = (i, None)" by (rule parse_int_itoa) (use r in simp_all)
  show "fst (StrTo_Int64 u (itoa i)) = i" by (simp add: StrTo_Int64_def itoa_not_cleared p)
  show "sint (word_of_int i :: 64 word) = i" unfolding sint_sbintrunc' using r by (intro signed_take_bit_int_eq_self) simp_all
  have q: "parse_int (read_bits ft) (itoa i) = (i, None)" by (rule parse_int_itoa) (use assms(2,3) b in auto)
  have "ft = TypeBitField \<or> ft = TypeSmallIntegerField \<or> ft = TypeIntegerField \<or> ft = TypeBigIntegerField" using assms(1) by (simp add: int_types_def)
  then show "int_check E ft (itoa i)"
    using q by (elim disjE) (simp_all add: int_check_def read_bits_def all_types StrTo_Int8_def StrTo_Int16_def StrTo_Int32_def StrTo_Int64_def itoa_not_cleared)
qed

lemma unsigned_read:
  assumes "ft \<in> uint_types" "n < 2 ^ read_bits ft"
  shows "int_check E ft (utoa n)" "fst (StrTo_Uint64 u (utoa n)) = n" "unat (word_of_nat n :: 64 word) = n"
proof -
  have b: "read_bits ft \<in> {8, 16, 32, 64}" by (simp add: read_bits_def)
  then have r: "n < 2 ^ 64" using assms(2) by auto
  have p: "parse_uint 64 (utoa n) = (n, None)" by (rule parse_uint_utoa) (use r in simp_all)
  show "fst (StrTo_Uint64 u (utoa n)) = n" by (simp add: StrTo_Uint64_def StrTo_digits p)
  show "unat (word_of_nat n :: 64 word) = n" using r by (simp add: unsigned_of_nat take_bit_nat_eq_self)
  have q: "parse_uint (read_bits ft) (utoa n) = (n, None)" by (rule parse_uint_utoa) (use assms(2) in simp_all)
  have "ft = TypePositiveBitField \<or> ft = TypePositiveSmallIntegerField \<or> ft = TypePositiveIntegerField \<or> ft = TypePositiveBigIntegerField" using assms(1) by (simp add: uint_types_def)
  then show "int_check E ft (utoa n)"
    using q by (elim disjE) (simp_all add: int_check_def read_bits_def all_types StrTo_Uint8_def StrTo_Uint16_def StrTo_Uint32_def StrTo_Uint64_def StrTo_digits)
qed

lemma wrap_fits:
  "int_fits ft k i \<Longrightarrow> wrap_int k i = i" "uint_fits ft k n \<Longrightarrow> wrap_uint k n = n"
proof -
  have b: "kind_fits ft k \<Longrightarrow> read_bits ft \<le> ibits k" "0 < read_bits ft" for ft k by (cases k; auto simp: kind_fits_def read_bits_def)+
  show "wrap_int k i = i" if "int_fits ft k i"
  proof -
    have "(2 :: int) ^ (read_bits ft - 1) \<le> 2 ^ (ibits k - 1)" using that b(1) [of ft k] by (intro power_increasing) (auto simp: int_fits_def)
    then have "- (2 ^ (ibits k - 1)) \<le> i" "i < 2 ^ (ibits k - 1)" using that unfolding int_fits_def by linarith+
    then show ?thesis unfolding wrap_int_def by (rule signed_take_bit_int_eq_self)
  qed
  show "wrap_uint k n = n" if "uint_fits ft k n"
  proof -
    have "(2 :: nat) ^ read_bits ft \<le> 2 ^ ibits k" using that b(1) [of ft k] by (intro power_increasing) (auto simp: uint_fits_def)
    then have "n < 2 ^ ibits k" using that unfolding uint_fits_def by linarith
    then show ?thesis unfolding wrap_uint_def by (rule take_bit_nat_eq_self)
  qed
qed

lemma ptr_kind_fits:
  "ft \<in> int_types \<Longrightarrow> kind_fits ft k \<Longrightarrow> ptr_kind ft (TyInt k) = Some (TyInt k)"
  "ft \<in> uint_types \<Longrightarrow> kind_fits ft k \<Longrightarrow> ptr_kind ft (TyUint k) = Some (TyUint k)"
  by (cases k; auto simp: int_types_def uint_types_def kind_fits_def read_bits_def ptr_kind_def all_types)+

lemma ptr_kind_other: "ft \<in> insert TypeBooleanField text_types \<Longrightarrow> ptr_kind ft ty = None"
  by (auto simp: text_types_def ptr_kind_def all_types)

text \<open>The three steps for each kind of type.\<close>

lemma collect_cases:
  assumes "\<not> Pk fi" "\<not> IsFielder fi" "FieldType fi \<notin> time_types" "FieldType fi \<notin> {TypeJSONField, TypeJsonbField}"
  shows "collectFieldValue E now pks fi s ins = map_sum id (\<lambda>v. (v, s)) (collect_native E pks fi s)"
  using assms by (cases "collect_native E pks fi s") (simp_all add: collectFieldValue_def auto_value_def)

lemma bool_steps:
  assumes "FieldType fi = TypeBooleanField" "\<not> IsFielder fi"
  shows "collect_native E pks fi s = collect_bool s" "convertValueFromDB n E pks fi w = (if w = RNil then Inr RNil else convert_bool E (FullName fi) w)"
    "setFieldValue E pks z fi v s = set_bool s v"
  using assms other_masks [of TypeBooleanField]
  by (simp_all add: collect_native_def Let_def setFieldValue_def set_basic_def res_bind_Inr_id)

lemma text_steps:
  assumes "FieldType fi \<in> text_types" "\<not> IsFielder fi"
  shows "collect_native E pks fi s = collect_string E s"
    "convertValueFromDB n E pks fi w = (if w = RNil then Inr RNil else Inr (RStr (case str_of w of None \<Rightarrow> raw_text E w | Some s \<Rightarrow> StrTo_String s)))"
    "setFieldValue E pks z fi v s = set_string s v"
  using assms other_masks [of "FieldType fi"] basic_disjoint(2) [OF assms(1)]
  by (simp_all add: collect_native_def Let_def setFieldValue_def set_basic_def res_bind_Inr_id)

lemma int_steps:
  assumes "FieldType fi \<in> int_types" "\<not> IsFielder fi"
  shows "collect_native E pks fi s = collect_int s" "convertValueFromDB n E pks fi w = (if w = RNil then Inr RNil else convert_int E (FullName fi) (FieldType fi) w)"
    "setFieldValue E pks z fi v s = (case (ptr_kind (FieldType fi) (case s of Ptr ty _ \<Rightarrow> ty | _ \<Rightarrow> TyBool), s) of (Some want, Ptr ty c) \<Rightarrow> set_int_ptr want ty c v | _ \<Rightarrow> set_int s v)"
  using assms int_masks [OF assms(1)] basic_disjoint(1) [of "FieldType fi"]
  by (simp_all add: collect_native_def Let_def setFieldValue_def set_basic_def res_bind_Inr_id)

lemma uint_steps:
  assumes "FieldType fi \<in> uint_types" "\<not> IsFielder fi"
  shows "collect_native E pks fi s = collect_uint s" "convertValueFromDB n E pks fi w = (if w = RNil then Inr RNil else convert_int E (FullName fi) (FieldType fi) w)"
    "setFieldValue E pks z fi v s = (case (ptr_kind (FieldType fi) (case s of Ptr ty _ \<Rightarrow> ty | _ \<Rightarrow> TyBool), s) of (Some want, Ptr ty c) \<Rightarrow> set_int_ptr want ty c v | _ \<Rightarrow> set_uint s v)"
  using assms uint_masks [OF assms(1)] basic_disjoint(1) [of "FieldType fi"]
  by (simp_all add: collect_native_def Let_def setFieldValue_def set_basic_def res_bind_Inr_id)

declare convertValueFromDB.simps [simp del]

text \<open>A value is written and read back into a new struct.\<close>

definition reads_back :: "('f, 't, 'e) venv \<Rightarrow> (nat \<Rightarrow> FieldDef) \<Rightarrow> (nat \<Rightarrow> ('f, 't, 'e) slot) \<Rightarrow> nat \<Rightarrow> FieldDef \<Rightarrow> ('f, 't, 'e) slot \<Rightarrow> ('f, 't) raw \<Rightarrow> bool" where
  "reads_back E pks z n fi s w \<longleftrightarrow> (\<exists>u. convertValueFromDB n E pks fi w = Inr u \<and> setFieldValue E pks z fi u (zero_slot s) = Inr s)"

lemma bool_reads_back:
  assumes "FieldType fi = TypeBooleanField" "\<not> IsFielder fi" "slot_fits TypeBooleanField s"
  shows "\<exists>v. collect_native E pks fi s = Inr v \<and> (\<forall>w. echo v w \<longrightarrow> reads_back E pks z n fi s w)"
proof -
  have no: "TypeBooleanField \<notin> text_types \<union> int_types \<union> uint_types" "TypeBooleanField \<noteq> TypeBigIntegerField" by (simp_all add: text_types_def int_types_def uint_types_def all_types)
  consider b where "collect_bool s = Inr (RBool b)" "set_bool (zero_slot s) (RBool b) = Inr s" | "collect_bool s = Inr RNil" "set_bool (zero_slot s) RNil = Inr s"
  proof (cases s)
    case (Plain c)
    then show ?thesis using assms(3) no that by (cases c) (auto simp: collect_bool_def set_bool_def)
  next
    case (Ptr ty c)
    show ?thesis
    proof (cases c)
      case None
      then show ?thesis using Ptr that by (auto simp: collect_bool_def set_bool_def)
    next
      case (Some d)
      then show ?thesis using Ptr assms(3) no that by (cases d) (auto simp: collect_bool_def set_bool_def)
    qed
  next
    case (NullBool b v)
    then show ?thesis using assms(3) that by (cases v) (auto simp: collect_bool_def set_bool_def)
  qed (use assms(3) no in auto)
  then show ?thesis
  proof cases
    case (1 b)
    with echo_bool_converts [of b] show ?thesis by (auto simp: reads_back_def bool_steps [OF assms(1,2)])
  next
    case 2
    then show ?thesis by (auto simp: reads_back_def bool_steps [OF assms(1,2)] elim: echo_nilE)
  qed
qed

lemma text_reads_back:
  assumes "FieldType fi \<in> text_types" "\<not> IsFielder fi" "slot_fits (FieldType fi) s"
  shows "\<exists>v. collect_native E pks fi s = Inr v \<and> (\<forall>w. echo v w \<longrightarrow> reads_back E pks z n fi s w)"
proof -
  have no: "FieldType fi \<notin> int_types \<union> uint_types" "FieldType fi \<noteq> TypeBooleanField" "FieldType fi \<noteq> TypeBigIntegerField"
    using assms(1) by (auto simp: text_types_def int_types_def uint_types_def all_types)
  consider t where "collect_string E s = Inr (RStr t)" "set_string (zero_slot s) (RStr t) = Inr s" "StrTo_Exist t"
    | "collect_string E s = Inr RNil" "set_string (zero_slot s) RNil = Inr s"
  proof (cases s)
    case (Plain c)
    then show ?thesis using assms(3) no that by (cases c) (auto simp: collect_string_def set_string_def)
  next
    case (Ptr ty c)
    show ?thesis
    proof (cases c)
      case None
      then show ?thesis using Ptr that by (auto simp: collect_string_def set_string_def)
    next
      case (Some d)
      then show ?thesis using Ptr assms(3) no that by (cases d) (auto simp: collect_string_def set_string_def)
    qed
  next
    case (NullString t v)
    then show ?thesis using assms(3) that by (cases v) (auto simp: collect_string_def set_string_def)
  qed (use assms(3) no in auto)
  then show ?thesis
  proof cases
    case (1 t)
    have "reads_back E pks z n fi s w" if "echo (RStr t) w" for w
      using echo_text_converts [OF that 1(3), of E] 1(2) by (simp add: reads_back_def text_steps [OF assms(1,2)])
    with 1(1) show ?thesis by (simp add: text_steps [OF assms(1,2)])
  next
    case 2
    then show ?thesis by (auto simp: reads_back_def text_steps [OF assms(1,2)] elim: echo_nilE)
  qed
qed

lemma int_reads_back:
  assumes "FieldType fi \<in> int_types" "\<not> IsFielder fi" "slot_fits (FieldType fi) s"
  shows "\<exists>v. collect_native E pks fi s = Inr v \<and> (\<forall>w. echo v w \<longrightarrow> reads_back E pks z n fi s w)"
proof -
  let ?ft = "FieldType fi"
  let ?set = "\<lambda>v s. (case (ptr_kind ?ft (case s of Ptr ty _ \<Rightarrow> ty | _ \<Rightarrow> TyBool), s) of (Some want, Ptr ty c) \<Rightarrow> set_int_ptr want ty c v | _ \<Rightarrow> set_int s v)"
  have no: "?ft \<notin> text_types \<union> uint_types" "?ft \<noteq> TypeBooleanField"
    using assms(1) by (auto simp: text_types_def int_types_def uint_types_def all_types)
  have sint: "sint (word_of_int i :: 64 word) = i" if "- (2 ^ (read_bits ?ft - 1)) \<le> i" "i < 2 ^ (read_bits ?ft - 1)" for i
    using signed_read(3) [OF assms(1) that] .
  have pk: "ptr_kind ?ft ty \<noteq> None" for ty using assms(1) by (auto simp: int_types_def ptr_kind_def)
  consider i where "collect_int s = Inr (RI64 (word_of_int i))" "?set (RI64 (word_of_int i)) (zero_slot s) = Inr s" "- (2 ^ (read_bits ?ft - 1)) \<le> i" "i < 2 ^ (read_bits ?ft - 1)"
    | "collect_int s = Inr RNil" "?set RNil (zero_slot s) = Inr s"
  proof (cases s)
    case (Plain c)
    show ?thesis
    proof (cases c)
      case (CInt k i)
      then have f: "int_fits ?ft k i" using Plain assms(3) by simp
      then have "- (2 ^ (read_bits ?ft - 1)) \<le> i" "i < 2 ^ (read_bits ?ft - 1)" by (simp_all add: int_fits_def)
      with that(1) [of i] CInt Plain wrap_fits(1) [OF f] sint show ?thesis by (simp add: collect_int_def set_int_def split: option.splits)
    qed (use Plain assms(3) no in auto)
  next
    case (Ptr ty c)
    show ?thesis
    proof (cases c)
      case None
      then show ?thesis using Ptr that(2) pk [of ty] by (auto simp: collect_int_def set_int_ptr_def)
    next
      case (Some d)
      show ?thesis
      proof (cases d)
        case (CInt k i)
        then have f: "int_fits ?ft k i" "ty = TyInt k" using Ptr Some assms(3) by simp_all
        then have r: "- (2 ^ (read_bits ?ft - 1)) \<le> i" "i < 2 ^ (read_bits ?ft - 1)" "kind_fits ?ft k" by (simp_all add: int_fits_def)
        with that(1) [of i] CInt Ptr Some f(2) wrap_fits(1) [OF f(1)] sint ptr_kind_fits(1) [OF assms(1) r(3)] show ?thesis
          by (simp add: collect_int_def set_int_ptr_def)
      qed (use Ptr Some assms(3) no in auto)
    qed
  next
    case (NullInt64 i v)
    then have b: "?ft = TypeBigIntegerField" "- (2 ^ 63) \<le> i" "i < 2 ^ 63" "v \<or> i = 0" using assms(3) by simp_all
    have "read_bits ?ft = 64" by (simp add: b(1) read_bits_def all_types)
    with that b NullInt64 sint [of i] show ?thesis by (cases v) (auto simp: collect_int_def set_int_def split: option.splits)
  qed (use assms(3) no in auto)
  then show ?thesis
  proof cases
    case (1 i)
    have "reads_back E pks z n fi s w" if e: "echo (RI64 (word_of_int i)) w" for w
    proof -
      have t: "the_text E w = itoa i" "w \<noteq> RNil" using echo_int_text [OF e, of E] sint [OF 1(3,4)] by simp_all
      have "convert_int E (FullName fi) ?ft w = Inr (RI64 (word_of_int i))"
        using signed_read(1) [OF assms(1) 1(3,4), of E] signed_read(2) [OF assms(1) 1(3,4), of "undef_int E"] int_masks [OF assms(1)] by (simp add: convert_int_def t(1))
      with t(2) 1(2) show ?thesis by (simp add: reads_back_def int_steps [OF assms(1,2)])
    qed
    with 1(1) show ?thesis by (simp add: int_steps [OF assms(1,2)])
  next
    case 2
    then show ?thesis by (auto simp: reads_back_def int_steps [OF assms(1,2)] elim: echo_nilE)
  qed
qed

lemma uint_reads_back:
  assumes "FieldType fi \<in> uint_types" "\<not> IsFielder fi" "slot_fits (FieldType fi) s"
  shows "\<exists>v. collect_native E pks fi s = Inr v \<and> (\<forall>w. echo v w \<longrightarrow> reads_back E pks z n fi s w)"
proof -
  let ?ft = "FieldType fi"
  let ?set = "\<lambda>v s. (case (ptr_kind ?ft (case s of Ptr ty _ \<Rightarrow> ty | _ \<Rightarrow> TyBool), s) of (Some want, Ptr ty c) \<Rightarrow> set_int_ptr want ty c v | _ \<Rightarrow> set_uint s v)"
  have no: "?ft \<notin> text_types \<union> int_types" "?ft \<noteq> TypeBooleanField" "?ft \<noteq> TypeBigIntegerField"
    using assms(1) by (auto simp: text_types_def int_types_def uint_types_def all_types)
  have unat: "unat (word_of_nat m :: 64 word) = m" if "m < 2 ^ read_bits ?ft" for m
    using unsigned_read(3) [OF assms(1) that] .
  have pk: "ptr_kind ?ft ty \<noteq> None" for ty using assms(1) by (auto simp: uint_types_def ptr_kind_def)
  consider m where "collect_uint s = Inr (RU64 (word_of_nat m))" "?set (RU64 (word_of_nat m)) (zero_slot s) = Inr s" "m < 2 ^ read_bits ?ft"
    | "collect_uint s = Inr RNil" "?set RNil (zero_slot s) = Inr s"
  proof (cases s)
    case (Plain c)
    show ?thesis
    proof (cases c)
      case (CUint k m)
      then have f: "uint_fits ?ft k m" using Plain assms(3) by simp
      then have "m < 2 ^ read_bits ?ft" by (simp add: uint_fits_def)
      with that(1) [of m] CUint Plain wrap_fits(2) [OF f] unat show ?thesis by (simp add: collect_uint_def set_uint_def split: option.splits)
    qed (use Plain assms(3) no in auto)
  next
    case (Ptr ty c)
    show ?thesis
    proof (cases c)
      case None
      then show ?thesis using Ptr that(2) pk [of ty] by (auto simp: collect_uint_def set_int_ptr_def)
    next
      case (Some d)
      show ?thesis
      proof (cases d)
        case (CUint k m)
        then have f: "uint_fits ?ft k m" "ty = TyUint k" using Ptr Some assms(3) by simp_all
        then have r: "m < 2 ^ read_bits ?ft" "kind_fits ?ft k" by (simp_all add: uint_fits_def)
        with that(1) [of m] CUint Ptr Some f(2) wrap_fits(2) [OF f(1)] unat ptr_kind_fits(2) [OF assms(1) r(2)] show ?thesis
          by (simp add: collect_uint_def set_int_ptr_def)
      qed (use Ptr Some assms(3) no in auto)
    qed
  qed (use assms(3) no in auto)
  then show ?thesis
  proof cases
    case (1 m)
    have "reads_back E pks z n fi s w" if e: "echo (RU64 (word_of_nat m)) w" for w
    proof -
      have t: "the_text E w = utoa m" "w \<noteq> RNil" using echo_uint_text [OF e, of E] unat [OF 1(3)] by simp_all
      have "convert_int E (FullName fi) ?ft w = Inr (RU64 (word_of_nat m))"
        using unsigned_read(1) [OF assms(1) 1(3), of E] unsigned_read(2) [OF assms(1) 1(3), of "undef_uint E"] uint_masks [OF assms(1)] by (simp add: convert_int_def t(1))
      with t(2) 1(2) show ?thesis by (simp add: reads_back_def uint_steps [OF assms(1,2)])
    qed
    with 1(1) show ?thesis by (simp add: uint_steps [OF assms(1,2)])
  next
    case 2
    then show ?thesis by (auto simp: reads_back_def uint_steps [OF assms(1,2)] elim: echo_nilE)
  qed
qed

definition basic_types :: "nat set" where
  "basic_types = insert TypeBooleanField (text_types \<union> int_types \<union> uint_types)"


definition demo_venv :: "(string, string, unit) venv" where
  "demo_venv = \<lparr>parse_float = (\<lambda>s. (s, None)), float_text = id, parse_time = (\<lambda>l s. Inr s), time_String = id, raw_value = (\<lambda>e. RNil), set_raw = (\<lambda>v e. (None, e)),
     under = (\<lambda>e. CBool False), f32 = id, f32_text = id, fzero = ''0'', to_db = id, from_db = id, parse_in = (\<lambda>l s. Inr s), default_loc = id, tzero = [],
     kind_text = ''<struct Value>'', undef_int = id, undef_uint = nat\<rparr>"

definition demo_age :: FieldDef where
  "demo_age = zero_field\<lparr>FieldType := TypeIntegerField\<rparr>"

lemma demo_age_int: "FieldType demo_age \<in> int_types" "\<not> Pk demo_age" "\<not> IsFielder demo_age"
  by (simp_all add: demo_age_def int_types_def zero_field_def)


section \<open>Where a value does not come back\<close>

text \<open>A field type with methods of its own over small integers is written, but the value that is read is an int64, which its
  \<^verbatim>\<open>SetRaw\<close> refuses; so it refuses null.\<close>

lemma small_fielder_refuses_read:
  "convert_int E name TypeIntegerField v = Inr u \<Longrightarrow> fst (IntegerField_SetRaw u e) \<noteq> None"
  "fst (IntegerField_SetRaw RNil e) \<noteq> None" "fst (BigIntegerField_SetRaw undef RNil e') \<noteq> None"
proof -
  show "convert_int E name TypeIntegerField v = Inr u \<Longrightarrow> fst (IntegerField_SetRaw u e) \<noteq> None"
    using int_masks [of TypeIntegerField] by (auto simp: convert_int_def Let_def int_types_def IntegerField_SetRaw_def split: if_splits)
qed (simp_all add: IntegerField_SetRaw_def BigIntegerField_SetRaw_def)

text \<open>Null does not clear a pointer or a time.\<close>

lemma null_keeps_old:
  "set_bool (Ptr ty (Some c)) RNil = Inr (Ptr ty (Some c))" "set_string (Ptr ty (Some c)) RNil = Inr (Ptr ty (Some c))"
  "set_int_ptr want ty (Some c) RNil = Inr (Ptr ty (Some c))" "set_time (Plain (CTime t)) RNil = Inr (Plain (CTime t))"
  by (simp_all add: set_bool_def set_string_def set_int_ptr_def set_time_def)

text \<open>A number of type int beyond 32 bits is written at its value but cannot be read.\<close>

lemma wide_int_unreadable:
  assumes "FieldType fi = TypeIntegerField" "\<not> IsFielder fi"
  shows "collect_native E pks fi (Plain (CInt KPlain 3000000000)) = Inr (RI64 3000000000)"
    "convertValueFromDB n E pks fi (RI64 3000000000) = Inl (ConvertFailed (FullName fi))"
proof -
  have t: "FieldType fi \<in> int_types" using assms(1) by (simp add: int_types_def)
  show "collect_native E pks fi (Plain (CInt KPlain 3000000000)) = Inr (RI64 3000000000)"
    by (simp add: int_steps(1) [OF t assms(2)] collect_int_def)
  have "parse_uint 32 (utoa 3000000000) = (3000000000, None)" by (rule parse_uint_utoa) simp
  moreover have "hd (utoa 3000000000) \<noteq> CHR ''-''" "hd (utoa 3000000000) \<noteq> CHR ''+''"
    using utoa_no_sign [of 3000000000] utoa_nonempty [of 3000000000] hd_in_set by metis+
  ultimately have "snd (parse_int 32 (itoa 3000000000)) \<noteq> None" by (simp add: parse_int_def itoa_def)
  then have "\<not> int_check E TypeIntegerField (itoa 3000000000)" by (simp add: int_check_def all_types StrTo_Int32_def itoa_not_cleared)
  moreover have "the_text E (RI64 3000000000) = itoa 3000000000" by (simp add: the_text_def str_of_def)
  ultimately show "convertValueFromDB n E pks fi (RI64 3000000000) = Inl (ConvertFailed (FullName fi))"
    by (simp add: int_steps(2) [OF t assms(2)] convert_int_def assms(1))
qed

text \<open>A relation to a model whose key is a relation to another model panics.\<close>

lemma relation_key_panics:
  "in_mask (FieldType fi) IsRelField \<Longrightarrow> in_mask (FieldType (pks (RelModelInfo fi))) IsRelField \<Longrightarrow> RelModelInfo (pks (RelModelInfo fi)) \<noteq> RelModelInfo fi \<Longrightarrow> v \<noteq> RNil
   \<Longrightarrow> setFieldValue E pks z fi v s = Inl ReflectPanic"
  by (simp add: setFieldValue_def Let_def)

end
