(* ===== verification/Cors_Filter.thy ===== *)
theory Cors_Filter
  imports Go_Prelude
begin

text \<open>
  The CORS filter (\<^verbatim>\<open>server/web/filter/cors/cors.go\<close>). The package keeps the patterns of allowed
  origins in one global variable, which every call of \<^verbatim>\<open>Allow\<close> extends and every filter reads when a
  request arrives: it is a component of the state here. A pattern is the quoted origin with stars and
  question marks turned into regular expressions; the model matches such patterns directly (a star
  stands for any bytes but line feeds, a question mark for one). Headers are maps from names to values.
\<close>

section \<open>Options and origins\<close>

record Options =
  AllowAllOrigins :: bool
  AllowCredentials :: bool
  AllowOrigins :: "string list"
  AllowMethods :: "string list"
  AllowHeaders :: "string list"
  ExposeHeaders :: "string list"
  MaxAge :: int   \<comment> \<open>nanoseconds\<close>

definition headerAllowOrigin :: string where "headerAllowOrigin = ''Access-Control-Allow-Origin''"
definition headerAllowCredentials :: string where "headerAllowCredentials = ''Access-Control-Allow-Credentials''"
definition headerAllowHeaders :: string where "headerAllowHeaders = ''Access-Control-Allow-Headers''"
definition headerAllowMethods :: string where "headerAllowMethods = ''Access-Control-Allow-Methods''"
definition headerExposeHeaders :: string where "headerExposeHeaders = ''Access-Control-Expose-Headers''"
definition headerMaxAge :: string where "headerMaxAge = ''Access-Control-Max-Age''"

definition defaultAllowHeaders :: "string list" where
  "defaultAllowHeaders = [''Origin'', ''Accept'', ''Content-Type'', ''Authorization'']"

fun pattern_match :: "string \<Rightarrow> string \<Rightarrow> bool" where
  "pattern_match [] s = (s = [])"
| "pattern_match (c # p) [] = (c = CHR ''*'' \<and> pattern_match p [])"
| "pattern_match (c # p) (d # s) =
     (if c = CHR ''*'' then pattern_match p (d # s) \<or> (d \<noteq> CHR 0x0A \<and> pattern_match (c # p) s)
      else if c = CHR ''?'' then d \<noteq> CHR 0x0A \<and> pattern_match p s
      else d = c \<and> pattern_match p s)"

fun IsOriginAllowed :: "string list \<Rightarrow> string \<Rightarrow> bool" where
  "IsOriginAllowed [] origin = False"
| "IsOriginAllowed (pattern # ps) origin = (if pattern_match pattern origin then True else IsOriginAllowed ps origin)"

section \<open>Headers\<close>

type_synonym headers = "string \<rightharpoonup> string"

definition FormatBool :: "bool \<Rightarrow> string" where
  "FormatBool b = (if b then ''true'' else ''false'')"

definition allow_origin :: "Options \<Rightarrow> string \<Rightarrow> headers \<Rightarrow> headers" where
  "allow_origin o' origin hs = hs(headerAllowOrigin \<mapsto> (if AllowAllOrigins o' then ''*'' else origin))"

definition expose_and_age :: "Options \<Rightarrow> headers \<Rightarrow> headers" where
  "expose_and_age o' hs =
     (let hs = (if length (ExposeHeaders o') > 0 then hs(headerExposeHeaders \<mapsto> join '','' (ExposeHeaders o')) else hs)
      in if MaxAge o' > 0 then hs(headerMaxAge \<mapsto> itoa (MaxAge o' div 1000000000)) else hs)"

definition Header :: "string list \<Rightarrow> Options \<Rightarrow> string \<Rightarrow> headers" where
  "Header ps o' origin =
     (if \<not> AllowAllOrigins o' \<and> \<not> IsOriginAllowed ps origin then Map.empty
      else
        let hs = allow_origin o' origin Map.empty;
            hs = hs(headerAllowCredentials \<mapsto> FormatBool (AllowCredentials o'));
            hs = (if length (AllowMethods o') > 0 then hs(headerAllowMethods \<mapsto> join '','' (AllowMethods o')) else hs);
            hs = (if length (AllowHeaders o') > 0 then hs(headerAllowHeaders \<mapsto> join '','' (AllowHeaders o')) else hs)
        in expose_and_age o' hs)"

definition EqualFold :: "string \<Rightarrow> string \<Rightarrow> bool" where
  "EqualFold s t \<longleftrightarrow> to_lower s = to_lower t"

fun lookupLoop :: "string \<Rightarrow> string list \<Rightarrow> string list \<Rightarrow> string list" where
  "lookupLoop rHeader [] allowed = allowed"
| "lookupLoop rHeader (a # as) allowed = (if EqualFold rHeader a then allowed @ [rHeader] else lookupLoop rHeader as allowed)"

fun requested_loop :: "string list \<Rightarrow> string list \<Rightarrow> string list \<Rightarrow> string list" where
  "requested_loop [] allow allowed = allowed"
| "requested_loop (r # rs) allow allowed = requested_loop rs allow (lookupLoop (trim_space r) allow allowed)"

definition PreflightHeader :: "string list \<Rightarrow> Options \<Rightarrow> string \<Rightarrow> string \<Rightarrow> string \<Rightarrow> headers" where
  "PreflightHeader ps o' origin rMethod rHeaders =
     (if \<not> AllowAllOrigins o' \<and> \<not> IsOriginAllowed ps origin then Map.empty
      else
        let hs = (if rMethod \<in> set (AllowMethods o') then [headerAllowMethods \<mapsto> join '','' (AllowMethods o')] else Map.empty);
            allowed = requested_loop (split rHeaders '','') (AllowHeaders o') [];
            hs = hs(headerAllowCredentials \<mapsto> FormatBool (AllowCredentials o'));
            hs = allow_origin o' origin hs;
            hs = (if length allowed > 0 then hs(headerAllowHeaders \<mapsto> join '','' allowed) else hs)
        in expose_and_age o' hs)"

section \<open>The filter\<close>

text \<open>What the filter reads of a request and writes to the response: headers and, for a preflight request, a status.\<close>

record cors_request =
  rmethod :: string
  origin_header :: string
  method_header :: string
  headers_header :: string

record cors_response =
  out_headers :: headers
  out_status :: "nat option"

definition Allow :: "Options \<Rightarrow> string list \<Rightarrow> Options \<times> string list" where
  "Allow opts ps =
     ((if length (AllowHeaders opts) = 0 then opts\<lparr>AllowHeaders := defaultAllowHeaders\<rparr> else opts), ps @ AllowOrigins opts)"

definition cors_filter :: "string list \<Rightarrow> Options \<Rightarrow> cors_request \<Rightarrow> cors_response \<Rightarrow> cors_response" where
  "cors_filter ps opts req resp =
     (if rmethod req = ''OPTIONS'' \<and> (method_header req \<noteq> [] \<or> headers_header req \<noteq> [])
      then resp\<lparr>out_headers := out_headers resp ++ PreflightHeader ps opts (origin_header req) (method_header req) (headers_header req),
                out_status := Some 200\<rparr>
      else resp\<lparr>out_headers := out_headers resp ++ Header ps opts (origin_header req)\<rparr>)"

section \<open>Properties\<close>

lemma IsOriginAllowed_iff: "IsOriginAllowed ps origin \<longleftrightarrow> (\<exists>p \<in> set ps. pattern_match p origin)"
  by (induction ps) auto

lemma lookupLoop_eq: "lookupLoop r as allowed = allowed @ (if \<exists>a \<in> set as. EqualFold r a then [r] else [])"
  by (induction as) auto

lemma requested_loop_eq:
  "requested_loop rs allow allowed = allowed @ filter (\<lambda>r. \<exists>a \<in> set allow. EqualFold r a) (map trim_space rs)"
  by (induction rs arbitrary: allowed) (simp_all add: lookupLoop_eq)

lemmas header_names = headerAllowOrigin_def headerAllowCredentials_def headerAllowHeaders_def headerAllowMethods_def
  headerExposeHeaders_def headerMaxAge_def

lemma pattern_literal:
  "CHR ''*'' \<notin> set p \<Longrightarrow> CHR ''?'' \<notin> set p \<Longrightarrow> pattern_match p s \<longleftrightarrow> s = p"
proof (induction p arbitrary: s)
  case (Cons c p)
  then show ?case by (cases s) auto
qed simp

lemma allow_origin_name: "headerAllowOrigin \<noteq> headerExposeHeaders" "headerAllowOrigin \<noteq> headerMaxAge"
  "headerAllowOrigin \<noteq> headerAllowHeaders" "headerAllowOrigin \<noteq> headerAllowMethods" "headerAllowOrigin \<noteq> headerAllowCredentials"
  "headerAllowHeaders \<noteq> headerExposeHeaders" "headerAllowHeaders \<noteq> headerMaxAge" "headerAllowHeaders \<noteq> headerAllowMethods"
  "headerAllowHeaders \<noteq> headerAllowCredentials"
  by (simp_all add: header_names)

lemma expose_keeps: "n \<noteq> headerExposeHeaders \<Longrightarrow> n \<noteq> headerMaxAge \<Longrightarrow> expose_and_age o' hs n = hs n"
  by (simp add: expose_and_age_def Let_def)

lemma cors_allowed:
  assumes "AllowAllOrigins opts \<or> IsOriginAllowed ps (origin_header req)"
  shows "out_headers (cors_filter ps opts req resp) headerAllowOrigin = Some (if AllowAllOrigins opts then ''*'' else origin_header req)"
proof -
  have "Header ps opts (origin_header req) headerAllowOrigin = Some (if AllowAllOrigins opts then ''*'' else origin_header req)"
    using assms by (simp add: Header_def expose_keeps allow_origin_name allow_origin_def Let_def)
  moreover have "PreflightHeader ps opts (origin_header req) m hs headerAllowOrigin =
      Some (if AllowAllOrigins opts then ''*'' else origin_header req)" for m hs
    using assms by (simp add: PreflightHeader_def expose_keeps allow_origin_name allow_origin_def Let_def)
  ultimately show ?thesis by (simp add: cors_filter_def map_add_def)
qed


definition demo_options :: "string \<Rightarrow> Options" where
  "demo_options origin = \<lparr>AllowAllOrigins = False, AllowCredentials = True, AllowOrigins = [origin], AllowMethods = [''GET''],
     AllowHeaders = [], ExposeHeaders = [], MaxAge = 0\<rparr>"

definition demo_preflight :: cors_request where
  "demo_preflight = \<lparr>rmethod = ''OPTIONS'', origin_header = ''https://b.com'', method_header = ''GET'', headers_header = ''accept, X-Y''\<rparr>"


text \<open> The patterns are shared by all filters of the process: after a second call of Allow, the filter made by the
  first call or by the second answers requests from the origins of the other one as allowed.\<close>

theorem cors_patterns_leak:
  assumes "p \<in> set (AllowOrigins o1)" "pattern_match p (origin_header req)" "\<not> AllowAllOrigins o2"
  shows "case Allow o1 ps0 of (o1', ps1) \<Rightarrow> case Allow o2 ps1 of (o2', ps2) \<Rightarrow>
    out_headers (cors_filter ps2 o2' req resp) headerAllowOrigin = Some (origin_header req)"
proof -
  obtain o1' ps1 where 1: "Allow o1 ps0 = (o1', ps1)" by (cases "Allow o1 ps0")
  obtain o2' ps2 where 2: "Allow o2 ps1 = (o2', ps2)" by (cases "Allow o2 ps1")
  have "p \<in> set ps2" using 1 2 assms(1) by (auto simp: Allow_def)
  then have "IsOriginAllowed ps2 (origin_header req)" using assms(2) IsOriginAllowed_iff by blast
  moreover have "\<not> AllowAllOrigins o2'" using 2 assms(3) by (auto simp: Allow_def split: if_splits)
  ultimately show ?thesis using cors_allowed [of o2' ps2 req resp] 1 2 by simp
qed

theorem cors_patterns_leak_witness:
  "case Allow (demo_options ''https://*.a.com'') [] of (o1', ps1) \<Rightarrow> case Allow (demo_options ''https://b.com'') ps1 of (o2', ps2) \<Rightarrow>
     out_headers (cors_filter ps2 o2' \<lparr>rmethod = ''GET'', origin_header = ''https://x.a.com'', method_header = [], headers_header = []\<rparr>
       \<lparr>out_headers = Map.empty, out_status = None\<rparr>) headerAllowOrigin = Some ''https://x.a.com''"
proof -
  have "''https://*.a.com'' \<in> set (AllowOrigins (demo_options ''https://*.a.com''))" "\<not> AllowAllOrigins (demo_options ''https://b.com'')"
    "pattern_match ''https://*.a.com'' (origin_header \<lparr>rmethod = ''GET'', origin_header = ''https://x.a.com'', method_header = [], headers_header = []\<rparr>)"
    by (simp_all add: demo_options_def)
  from cors_patterns_leak [OF this(1,3,2)] show ?thesis by (simp only: cors_request.simps)
qed

end
