(* ===== verification/Web_Filters.thy ===== *)
theory Web_Filters
  imports Router_Static "HOL-Library.AList" "HOL-Library.Multiset"
begin

text \<open>
  Filters and policies of the server (\<^verbatim>\<open>server/web/filter.go\<close>, \<^verbatim>\<open>server/web/policy.go\<close> and the
  functions of \<^verbatim>\<open>server/web/router.go\<close> that run filters), on top of the routing tree. Of the context
  the model keeps what this code reads and writes: the parameters of the input, the method, the
  path, whether the response was started, and a component for everything else. Filter and policy
  functions belong to the client: they are functions on contexts. The order in which Go iterates
  over the map of saved parameters is a parameter that permutes a list.
\<close>

section \<open>Contexts and filter functions\<close>

record 'u web_ctx =
  wc_input :: BeegoInput
  wc_method :: string
  wc_path :: string
  wc_started :: bool
  wc_user :: 'u

type_synonym 'u filter_func = "'u web_ctx \<Rightarrow> 'u web_ctx"

datatype 'u FilterRouter = FilterRouter (filterFunc: "'u filter_func") (fnext: "'u FilterRouter option")
  (ftree: "bool Tree") (fpattern: string) (returnOnOutput: bool) (resetParams: bool)

record filterOpts =
  fo_returnOnOutput :: bool
  fo_resetParams :: bool
  fo_caseSensitive :: bool

type_synonym filter_opt = "filterOpts \<Rightarrow> filterOpts"

definition WithReturnOnOutput :: "bool \<Rightarrow> filter_opt" where
  "WithReturnOnOutput ret = (\<lambda>opts. opts\<lparr>fo_returnOnOutput := ret\<rparr>)"

definition WithResetParams :: "bool \<Rightarrow> filter_opt" where
  "WithResetParams reset = (\<lambda>opts. opts\<lparr>fo_resetParams := reset\<rparr>)"

definition WithCaseSensitive :: "bool \<Rightarrow> filter_opt" where
  "WithCaseSensitive sensitive = (\<lambda>opts. opts\<lparr>fo_caseSensitive := sensitive\<rparr>)"

definition newFilterRouter :: "regexp_engine \<Rightarrow> string \<Rightarrow> 'u filter_func \<Rightarrow> filter_opt list \<Rightarrow> tree_panic + 'u FilterRouter" where
  "newFilterRouter E pattern ff opts =
     (let fos = fold (\<lambda>opt fos. opt fos) opts \<lparr>fo_returnOnOutput = True, fo_resetParams = False, fo_caseSensitive = False\<rparr>;
          pat = (if \<not> fo_caseSensitive fos then to_lower pattern else pattern)
      in res_bind (AddRouter E NewTree pattern (Some True))
           (\<lambda>t. Inr (FilterRouter ff None t pat (fo_returnOnOutput fos) (fo_resetParams fos))))"

section \<open>Running filters\<close>

definition ValidRouter :: "regexp_engine \<Rightarrow> bool Tree \<Rightarrow> string \<Rightarrow> 'u web_ctx \<Rightarrow> tree_panic + (bool \<times> 'u web_ctx)" where
  "ValidRouter E t url ctx =
     res_bind (Match E t url (wc_input ctx)) (\<lambda>(isOk, inp). Inr (isOk = Some True, ctx\<lparr>wc_input := inp\<rparr>))"

text \<open>The entries of the map that \<^verbatim>\<open>Params\<close> returns.\<close>

definition param_entries :: "BeegoInput \<Rightarrow> tree_panic + (string \<times> string) list" where
  "param_entries inp =
     (case Params inp of
        Inl e \<Rightarrow> Inl (BadParam e)
      | Inr m \<Rightarrow> Inr (map (\<lambda>k. (k, the (m k))) (filter (\<lambda>k. m k \<noteq> None) (remdups (pnames inp)))))"

definition restore_params :: "((string \<times> string) list \<Rightarrow> (string \<times> string) list) \<Rightarrow> (string \<times> string) list \<Rightarrow> 'u web_ctx \<Rightarrow>
    tree_panic + 'u web_ctx" where
  "restore_params order pre ctx =
     (case put_all SetParam (ResetParams (wc_input ctx)) (order pre) of
        Inl e \<Rightarrow> Inl (BadParam e)
      | Inr inp \<Rightarrow> Inr (ctx\<lparr>wc_input := inp\<rparr>))"

definition filter_done :: "bool \<Rightarrow> 'u web_ctx \<Rightarrow> bool \<times> bool \<times> 'u web_ctx" where
  "filter_done ret ctx = (if ret \<and> wc_started ctx then (True, True, ctx) else (False, False, ctx))"

fun run_filter :: "regexp_engine \<Rightarrow> ((string \<times> string) list \<Rightarrow> (string \<times> string) list) \<Rightarrow> 'u FilterRouter \<Rightarrow> 'u web_ctx \<Rightarrow> string \<Rightarrow>
    (string \<times> string) list \<Rightarrow> tree_panic + (bool \<times> bool \<times> 'u web_ctx)" where
  "run_filter E order (FilterRouter ff nx t pat ret rst) ctx urlPath pre =
     (if ret \<and> wc_started ctx then Inr (True, True, ctx)
      else
        res_bind (if rst then param_entries (wc_input ctx) else Inr pre) (\<lambda>pre.
        res_bind (ValidRouter E t urlPath ctx) (\<lambda>(ok, ctx).
          if ok then
            res_bind (if rst then restore_params order pre (ff ctx) else Inr (ff ctx)) (\<lambda>ctx. Inr (filter_done ret ctx))
          else (case nx of
                  Some n \<Rightarrow> run_filter E order n ctx urlPath pre
                | None \<Rightarrow> Inr (filter_done ret ctx)))))"

fun execFilter :: "regexp_engine \<Rightarrow> ((string \<times> string) list \<Rightarrow> (string \<times> string) list) \<Rightarrow> 'u FilterRouter list \<Rightarrow> 'u web_ctx \<Rightarrow> string \<Rightarrow>
    tree_panic + (bool \<times> 'u web_ctx)" where
  "execFilter E order [] ctx urlPath = Inr (False, ctx)"
| "execFilter E order (f # fs) ctx urlPath =
     res_bind (run_filter E order f ctx urlPath []) (\<lambda>(b, fin, ctx).
       if fin then Inr (b, ctx) else execFilter E order fs ctx urlPath)"

section \<open>The registered filters\<close>

record 'u filter_register =
  caseSensitive :: bool
  enableFilter :: bool
  filters :: "nat \<Rightarrow> 'u FilterRouter list"

datatype filter_error = BadPosition | RoutePanic tree_panic

definition insertFilterRouter :: "int \<Rightarrow> 'u FilterRouter \<Rightarrow> 'u filter_register \<Rightarrow> filter_error + 'u filter_register" where
  "insertFilterRouter pos mr p =
     (if pos < 0 \<or> pos > 4 then Inl BadPosition
      else Inr (p\<lparr>enableFilter := True, filters := (filters p)(nat pos := filters p (nat pos) @ [mr])\<rparr>))"

definition InsertFilter :: "regexp_engine \<Rightarrow> string \<Rightarrow> int \<Rightarrow> 'u filter_func \<Rightarrow> filter_opt list \<Rightarrow> 'u filter_register \<Rightarrow>
    filter_error + 'u filter_register" where
  "InsertFilter E pattern pos ff opts p =
     (case newFilterRouter E pattern ff (opts @ [WithCaseSensitive (caseSensitive p)]) of
        Inl e \<Rightarrow> Inl (RoutePanic e)
      | Inr mr \<Rightarrow> insertFilterRouter pos mr p)"

definition getUrlPath :: "bool \<Rightarrow> 'u web_ctx \<Rightarrow> string" where
  "getUrlPath sensitive ctx = (if \<not> sensitive then to_lower (wc_path ctx) else wc_path ctx)"

section \<open>Policies\<close>

record 'p policy_register =
  policies :: "(string \<times> 'p list Tree) list"
  enablePolicy :: bool

definition addToPolicy :: "regexp_engine \<Rightarrow> bool \<Rightarrow> string \<Rightarrow> string \<Rightarrow> 'p list \<Rightarrow> 'p policy_register \<Rightarrow> tree_panic + 'p policy_register" where
  "addToPolicy E sensitive method pattern r p =
     (let m = to_upper method; pat = (if \<not> sensitive then to_lower pattern else pattern);
          t = (case map_of (policies p) m of Some t \<Rightarrow> t | None \<Rightarrow> NewTree)
      in res_bind (AddRouter E t pat (Some r)) (\<lambda>t. Inr (p\<lparr>enablePolicy := True, policies := AList.update m t (policies p)\<rparr>)))"

definition match_policy :: "regexp_engine \<Rightarrow> 'p list Tree \<Rightarrow> string \<Rightarrow> 'u web_ctx \<Rightarrow> tree_panic + ('p list option \<times> 'u web_ctx)" where
  "match_policy E t urlPath ctx =
     res_bind (Match E t urlPath (wc_input ctx)) (\<lambda>(r, inp). Inr (r, ctx\<lparr>wc_input := inp\<rparr>))"

definition FindPolicy :: "regexp_engine \<Rightarrow> bool \<Rightarrow> 'p policy_register \<Rightarrow> 'u web_ctx \<Rightarrow> tree_panic + ('p list \<times> 'u web_ctx)" where
  "FindPolicy E sensitive p ctx =
     (let urlPath = getUrlPath sensitive ctx;
          (found, isWildcard) = (case map_of (policies p) (wc_method ctx) of Some t \<Rightarrow> (Some t, False) | None \<Rightarrow> (map_of (policies p) ''*'', True))
      in case found of
           None \<Rightarrow> Inr ([], ctx)
         | Some t \<Rightarrow>
             res_bind (match_policy E t urlPath ctx) (\<lambda>(r, ctx).
               case r of
                 Some r \<Rightarrow> Inr (r, ctx)
               | None \<Rightarrow>
                   if isWildcard then Inr ([], ctx)
                   else (case map_of (policies p) ''*'' of
                           None \<Rightarrow> Inr ([], ctx)
                         | Some t \<Rightarrow> res_bind (match_policy E t urlPath ctx) (\<lambda>(r, ctx).
                             case r of Some r \<Rightarrow> Inr (r, ctx) | None \<Rightarrow> Inr ([], ctx)))))"

fun run_policies :: "'u filter_func list \<Rightarrow> 'u web_ctx \<Rightarrow> bool \<times> 'u web_ctx" where
  "run_policies [] ctx = (False, ctx)"
| "run_policies (r # rs) ctx = (let ctx = r ctx in if wc_started ctx then (True, ctx) else run_policies rs ctx)"

definition execPolicy :: "regexp_engine \<Rightarrow> bool \<Rightarrow> 'u filter_func policy_register \<Rightarrow> 'u web_ctx \<Rightarrow> tree_panic + (bool \<times> 'u web_ctx)" where
  "execPolicy E sensitive p ctx =
     (if \<not> enablePolicy p then Inr (False, ctx)
      else res_bind (FindPolicy E sensitive p ctx) (\<lambda>(policyList, ctx).
        if length policyList > 0 then Inr (run_policies policyList ctx) else Inr (False, ctx)))"

section \<open>Parameters are restored\<close>

lemma map_of_mset:
  assumes "distinct (map fst xs)" "mset ys = mset xs"
  shows "map_of (rev ys) = map_of xs"
proof -
  have "distinct (map fst ys)" using assms by (metis mset_eq_imp_distinct_iff mset_map)
  moreover have "set ys = set xs" using assms(2) by (rule mset_eq_setD)
  ultimately show ?thesis using assms(1)
    by (intro map_of_eqI) (auto simp: map_of_eq_Some_iff rev_map [symmetric] distinct_map_filter)
qed

lemma param_entries_inv:
  assumes "params_inv inp"
  shows "\<exists>es. param_entries inp = Inr es \<and> distinct (map fst es) \<and> map_of es = map_of (zip (pnames inp) (pvalues inp))"
proof -
  let ?m = "map_of (zip (pnames inp) (pvalues inp))"
  have P: "Params inp = Inr ?m" using assms Params_loop_eq [of 0 "pnames inp" "pvalues inp" Map.empty] by (simp add: Params_def params_inv_def)
  let ?es = "map (\<lambda>k. (k, the (?m k))) (filter (\<lambda>k. ?m k \<noteq> None) (remdups (pnames inp)))"
  have "map_of ?es k = ?m k" for k
  proof -
    have "?m k \<noteq> None \<Longrightarrow> k \<in> set (pnames inp)" using assms by (auto simp: params_inv_def dest: map_of_SomeD set_zip_leftD)
    then show ?thesis by (cases "?m k") (auto simp: map_of_map_restrict restrict_map_def comp_def)
  qed
  moreover have "distinct (map fst ?es)" by (simp add: comp_def)
  ultimately show ?thesis using P by (auto simp: param_entries_def)
qed

text \<open>C34. A filter that was inserted with the reset option and matches the request runs its function and then
  gives every route parameter back the value it had before the filter, whatever the match and the function did to
  the parameters and in whatever order the saved parameters are written back; nothing panics.\<close>

theorem filter_restores_params:
  assumes "params_inv (wc_input ctx)" "\<And>xs. mset (order xs) = mset xs" "ValidRouter E t url ctx = Inr (True, ctx1)"
    "\<not> (ret \<and> wc_started ctx)"
  shows "\<exists>b fin ctx'. run_filter E order (FilterRouter ff nx t pat ret True) ctx url pre = Inr (b, fin, ctx') \<and>
    (\<forall>k. Param (wc_input ctx') k = Param (wc_input ctx) k) \<and> wc_user ctx' = wc_user (ff ctx1) \<and> wc_started ctx' = wc_started (ff ctx1)"
proof -
  obtain es where es: "param_entries (wc_input ctx) = Inr es" "distinct (map fst es)"
    "map_of es = map_of (zip (pnames (wc_input ctx)) (pvalues (wc_input ctx)))" using param_entries_inv [OF assms(1)] by blast
  obtain inp where inp: "put_all SetParam (ResetParams (wc_input (ff ctx1))) (order es) = Inr inp"
    "\<And>k. Param inp k = (case map_of (rev (order es)) k of Some v \<Rightarrow> Inr v | None \<Rightarrow> Param (ResetParams (wc_input (ff ctx1))) k)"
    using input_params.put_all_ok [of "ResetParams (wc_input (ff ctx1))" "order es"] by (auto simp: list_all_iff)
  have "Param (ResetParams i) k = Inr []" for i k by (simp add: Param_def ResetParams_def)
  then have "Param inp k = Param (wc_input ctx) k" for k
    using inp(2) [of k] es(3) by (simp add: map_of_mset [OF es(2) assms(2)] Param_lookup [OF assms(1)] split: option.split)
  moreover have "restore_params order es (ff ctx1) = Inr ((ff ctx1)\<lparr>wc_input := inp\<rparr>)" by (simp add: restore_params_def inp(1))
  ultimately show ?thesis using assms(3,4) es(1) by (auto simp: filter_done_def)
qed

section \<open>Letters of the pattern\<close>

lemma clean_push_sub: "set (clean_push b c st) \<subseteq> insert c (set st)"
  by (auto simp: clean_push_def dest: list.set_sel(2))

lemma clean_segs_sub: "set (clean_segs p) \<subseteq> set (split p ''/'')"
proof -
  have "set (fold (clean_push True) xs st) \<subseteq> set xs \<union> set st" for xs st
  proof (induction xs arbitrary: st)
    case (Cons x xs)
    then show ?case using clean_push_sub [of True x st] by fastforce
  qed simp
  from this [of "split p ''/''" "[]"] show ?thesis by (simp add: clean_segs_def)
qed

definition lower_text :: "string \<Rightarrow> bool" where
  "lower_text s \<longleftrightarrow> (\<forall>c. c \<in> set s \<longrightarrow> lower_char c = c)"

lemma lower_text_to_lower: "lower_text (to_lower s)"
  by (auto simp: lower_text_def to_lower_def)

lemma lower_text_id: "lower_text s \<longleftrightarrow> to_lower s = s"
  by (auto simp: lower_text_def to_lower_def map_idI) (metis map_eq_conv map_ident)

lemma split_parts_sub: "x \<in> set (split s [d]) \<Longrightarrow> set x \<subseteq> set s"
proof -
  have "y \<in> set (split_aux [d] acc s) \<Longrightarrow> set y \<subseteq> set acc \<union> set s" for acc y
    by (induction "[d]" acc s arbitrary: y rule: split_aux.induct) (fastforce simp: has_prefix_single split: if_splits)+
  from this [of x "[]"] show "x \<in> set (split s [d]) \<Longrightarrow> set x \<subseteq> set s" by (simp add: split_def)
qed

lemma lower_segs: "s \<in> set (clean_segs (to_lower p)) \<Longrightarrow> lower_text s"
  using clean_segs_sub [of "to_lower p"] split_parts_sub [of s "to_lower p" "CHR ''/''"] lower_text_to_lower [of p]
  by (auto simp: lower_text_def)

text \<open>A static route with a capital letter is never found for a path in lower case.\<close>

lemma upper_route_not_found:
  assumes "seg \<in> set segs0" "\<not> lower_text seg"
  shows "static_find [segs0 \<mapsto> r] (clean_segs (to_lower p)) inp = Inr (None, inp)"
proof -
  let ?segs = "clean_segs (to_lower p)"
  have "?segs \<noteq> segs0" using assms lower_segs by blast
  moreover have "butlast ?segs @ [base] \<noteq> segs0" if "?segs \<noteq> []" "ext_split (last ?segs) = Some (base, e)" for base e
  proof
    assume eq: "butlast ?segs @ [base] = segs0"
    have "set base \<subseteq> set (last ?segs)" using that(2) by (auto simp: ext_split_def split: option.splits dest: in_set_takeD)
    then have "lower_text base" using lower_segs [of "last ?segs" p] that(1) by (auto simp: lower_text_def)
    moreover have "lower_text s" if "s \<in> set (butlast ?segs)" for s using lower_segs in_set_butlastD [OF that] by blast
    ultimately show False using assms eq by auto
  qed
  ultimately show ?thesis by (auto simp: static_find_def split: option.splits)
qed

theorem filter_restores_params_witness:
  "\<exists>b fin ctx'. run_filter no_regexps rev (FilterRouter (\<lambda>c. c\<lparr>wc_input := new_input, wc_user := 1 :: nat\<rparr>) None
       (Tree [] [] None [\<lparr>wildcards = [], regexps = None, runObject = Some True\<rparr>]) ''/'' True True)
       \<lparr>wc_input = \<lparr>pnames = [''a''], pvalues = [''x'']\<rparr>, wc_method = ''GET'', wc_path = ''/'', wc_started = False, wc_user = 0\<rparr> ''/'' [] =
     Inr (b, fin, ctx') \<and> Param (wc_input ctx') ''a'' = Param \<lparr>pnames = [''a''], pvalues = [''x'']\<rparr> ''a'' \<and> wc_user ctx' = 1"
proof -
  let ?t = "Tree [] [] None [\<lparr>wildcards = [], regexps = None, runObject = Some True\<rparr>]"
  let ?c = "\<lparr>wc_input = \<lparr>pnames = [''a''], pvalues = [''x'']\<rparr>, wc_method = ''GET'', wc_path = ''/'', wc_started = False, wc_user = 0 :: nat\<rparr>"
  have "Match no_regexps ?t ''/'' inp = Inr (Some True, inp)" for inp
    by (simp add: Match_def path_Clean_def clean_push_def go_eval strip_slashes_def leaf_match_def)
  then have v: "ValidRouter no_regexps ?t ''/'' ?c = Inr (True, ?c)" by (simp add: ValidRouter_def)
  have "params_inv (wc_input ?c)" "\<not> (True \<and> wc_started ?c)" by (simp_all add: params_inv_def)
  from filter_restores_params [OF this(1) mset_rev v this(2), of "\<lambda>c. c\<lparr>wc_input := new_input, wc_user := 1\<rparr>" None "''/''" "[]"]
  show ?thesis by fastforce
qed

text \<open> When routing is not case sensitive the server matches paths in lower case, but InsertFilter registers the
  pattern as written: a filter for a fixed pattern with a capital letter is accepted and then never runs, for any request.\<close>

theorem upper_case_filter_never_runs:
  assumes "\<not> caseSensitive p" "list_all static_seg (splitPath pattern)" "seg \<in> set (splitPath pattern)" "to_lower seg \<noteq> seg"
    "0 \<le> pos" "pos \<le> 4" "filters p (nat pos) = []" "params_inv (wc_input ctx)" "wc_path ctx = CHR ''/'' # rest"
  shows "\<exists>p' b. InsertFilter E pattern pos ff opts p = Inr p' \<and>
    execFilter E order (filters p' (nat pos)) ctx (getUrlPath (caseSensitive p') ctx) = Inr (b, ctx)"
proof -
  obtain t where t: "add_static E NewTree (splitPath pattern) True = Inr t" "static_tree t" "routes_at t = [splitPath pattern \<mapsto> True]"
    using add_static_spec [OF static_tree_New(1) assms(2), of E True] by auto
  then have add: "AddRouter E NewTree pattern (Some True) = Inr t" by (simp add: AddRouter_def add_static_def)
  obtain pat ret rst where mr: "newFilterRouter E pattern ff (opts @ [WithCaseSensitive (caseSensitive p)]) = Inr (FilterRouter ff None t pat ret rst)"
    by (simp add: newFilterRouter_def add Let_def)
  let ?f = "FilterRouter ff None t pat ret rst"
  obtain p' where p': "InsertFilter E pattern pos ff opts p = Inr p'" "filters p' (nat pos) = [?f]" "caseSensitive p' = caseSensitive p"
    using assms(5-7) mr by (simp add: InsertFilter_def insertFilterRouter_def)
  have low: "to_lower (CHR ''/'' # rest) = CHR ''/'' # to_lower rest" by (simp add: to_lower_def lower_char_def)
  have "\<not> lower_text seg" using assms(4) lower_text_id by blast
  from upper_route_not_found [OF assms(3) this, of True "CHR ''/'' # rest"]
  have "Match E t (getUrlPath False ctx) (wc_input ctx) = Inr (None, wc_input ctx)"
    using Match_static [OF t(2), of E "to_lower rest" "wc_input ctx"] t(3) assms(9) low by (simp add: getUrlPath_def)
  then have v: "ValidRouter E t (getUrlPath False ctx) ctx = Inr (False, ctx)" by (simp add: ValidRouter_def)
  obtain es where "param_entries (wc_input ctx) = Inr es" using param_entries_inv [OF assms(8)] by blast
  then have "\<exists>b fin. run_filter E order ?f ctx (getUrlPath False ctx) [] = Inr (b, fin, ctx)"
    using v by (auto simp: filter_done_def)
  then obtain b fin where "run_filter E order ?f ctx (getUrlPath False ctx) [] = Inr (b, fin, ctx)" by blast
  then have "\<exists>b. execFilter E order (filters p' (nat pos)) ctx (getUrlPath (caseSensitive p') ctx) = Inr (b, ctx)"
    using p'(2,3) assms(1) by (cases fin) (auto simp del: run_filter.simps)
  with p'(1) show ?thesis by blast
qed

theorem upper_case_filter_never_runs_witness:
  "\<exists>p' b. InsertFilter no_regexps ''/Admin'' 0 (\<lambda>c. c\<lparr>wc_started := True, wc_user := 1 :: nat\<rparr>) []
       \<lparr>caseSensitive = False, enableFilter = False, filters = (\<lambda>_. [])\<rparr> = Inr p' \<and>
     execFilter no_regexps id (filters p' (nat 0)) \<lparr>wc_input = new_input, wc_method = ''GET'', wc_path = ''/Admin'', wc_started = False, wc_user = 0\<rparr>
       (getUrlPath (caseSensitive p') \<lparr>wc_input = new_input, wc_method = ''GET'', wc_path = ''/Admin'', wc_started = False, wc_user = 0 :: nat\<rparr>) =
     Inr (b, \<lparr>wc_input = new_input, wc_method = ''GET'', wc_path = ''/Admin'', wc_started = False, wc_user = 0\<rparr>)"
proof (rule upper_case_filter_never_runs)
  show "list_all static_seg (splitPath ''/Admin'')" "''Admin'' \<in> set (splitPath ''/Admin'')"
    by (simp_all add: static_seg_def splitPath_def go_eval)
  show "to_lower ''Admin'' \<noteq> ''Admin''" by code_simp
qed simp_all

section \<open>Policies refine a finite map\<close>

definition policy_at :: "'p policy_register \<Rightarrow> string \<times> string list \<Rightarrow> 'p list option" where
  "policy_at p = (\<lambda>(m, segs). case map_of (policies p) m of Some t \<Rightarrow> routes_at t segs | None \<Rightarrow> None)"

definition policy_put :: "regexp_engine \<Rightarrow> 'p policy_register \<Rightarrow> string \<times> string list \<Rightarrow> 'p list \<Rightarrow> tree_panic + 'p policy_register" where
  "policy_put E p = (\<lambda>(m, segs) r.
     let t = (case map_of (policies p) m of Some t \<Rightarrow> t | None \<Rightarrow> NewTree)
     in res_bind (add_static E t segs r) (\<lambda>t. Inr (p\<lparr>enablePolicy := True, policies := AList.update m t (policies p)\<rparr>)))"

definition policy_inv :: "'p policy_register \<Rightarrow> bool" where
  "policy_inv p \<longleftrightarrow> (\<forall>m t. map_of (policies p) m = Some t \<longrightarrow> static_tree t)"

lemma policy_at_empty: "policy_at \<lparr>policies = [], enablePolicy = False\<rparr> k = None"
  by (simp add: policy_at_def split: prod.split)

lemma policy_put_spec:
  assumes "policy_inv p" "list_all static_seg segs"
  shows "\<exists>p'. policy_put E p (m, segs) r = Inr p' \<and> policy_inv p' \<and>
    (\<forall>k. policy_at p' k = (if k = (m, segs) then Some r else policy_at p k))"
proof -
  let ?t = "case map_of (policies p) m of Some t \<Rightarrow> t | None \<Rightarrow> NewTree"
  have st: "static_tree ?t" using assms(1) by (auto simp: policy_inv_def split: option.split)
  obtain t' where t': "add_static E ?t segs r = Inr t'" "static_tree t'" "routes_at t' = (routes_at ?t)(segs \<mapsto> r)"
    using add_static_spec [OF st assms(2), of E r] by blast
  let ?p = "p\<lparr>enablePolicy := True, policies := AList.update m t' (policies p)\<rparr>"
  have "policy_put E p (m, segs) r = Inr ?p" by (simp add: policy_put_def t'(1))
  moreover have "policy_inv ?p" using assms(1) t'(2) by (auto simp: policy_inv_def update_conv' split: if_splits)
  moreover have "policy_at ?p k = (if k = (m, segs) then Some r else policy_at p k)" for k
    by (cases k) (auto simp: policy_at_def update_conv' t'(3) split: option.splits)
  ultimately show ?thesis by blast
qed

interpretation policy_store: kv_store policy_at "policy_put E" Some policy_inv "\<lambda>(m, segs). list_all static_seg segs" for E
proof unfold_locales
  fix s :: "'p policy_register" and k :: "string \<times> string list" and v
  assume s: "policy_inv s" "case k of (m, segs) \<Rightarrow> list_all static_seg segs"
  obtain m segs where k: "k = (m, segs)" by (cases k)
  have "list_all static_seg segs" using s(2) k by simp
  from policy_put_spec [OF s(1) this, of E m v] obtain p' where
    p': "policy_put E s k v = Inr p'" "policy_inv p'" "\<And>k'. policy_at p' k' = (if k' = k then Some v else policy_at s k')"
    unfolding k by blast
  then show "\<exists>s'. policy_put E s k v = Inr s' \<and> policy_inv s'" by blast
  fix s' assume "policy_put E s k v = Inr s'"
  with p' have r: "policy_at s' k' = (if k' = k then Some v else policy_at s k')" for k' by simp
  show "policy_at s' k = Some v" by (simp add: r)
  show "policy_at s' k' = policy_at s k'" if "k' \<noteq> k" for k' using that by (simp add: r)
qed

lemma addToPolicy_put:
  "addToPolicy E sensitive method pattern r p = policy_put E p (to_upper method, splitPath (if \<not> sensitive then to_lower pattern else pattern)) r"
  by (simp add: addToPolicy_def policy_put_def add_static_def AddRouter_def Let_def)

text \<open>The policies that apply to a request: those of its method for the path, else those of the method star.\<close>

definition policy_spec :: "(string \<times> string list \<Rightarrow> 'p list option) \<Rightarrow> string \<Rightarrow> string list \<Rightarrow> BeegoInput \<Rightarrow> tree_panic + ('p list \<times> BeegoInput)" where
  "policy_spec regs m segs inp =
     res_bind (static_find (\<lambda>s. regs (m, s)) segs inp) (\<lambda>(r, inp).
       case r of Some r \<Rightarrow> Inr (r, inp)
       | None \<Rightarrow> res_bind (static_find (\<lambda>s. regs (''*'', s)) segs inp) (\<lambda>(r, inp).
           case r of Some r \<Rightarrow> Inr (r, inp) | None \<Rightarrow> Inr ([], inp)))"

lemma static_find_none: "static_find (\<lambda>_. None) segs inp = Inr (None, inp)"
  by (simp add: static_find_def split: option.split)

lemma match_policy_static:
  assumes "policy_inv p" "map_of (policies p) m = Some t"
  shows "match_policy E t (CHR ''/'' # url) ctx =
    res_bind (static_find (\<lambda>s. policy_at p (m, s)) (clean_segs (CHR ''/'' # url)) (wc_input ctx)) (\<lambda>(r, inp). Inr (r, ctx\<lparr>wc_input := inp\<rparr>))"
proof -
  have "static_tree t" using assms by (auto simp: policy_inv_def)
  moreover have "(\<lambda>s. policy_at p (m, s)) = routes_at t" using assms(2) by (simp add: policy_at_def fun_eq_iff)
  ultimately show ?thesis by (simp add: match_policy_def Match_static)
qed

lemma FindPolicy_static:
  assumes "policy_inv p" "getUrlPath sensitive ctx = CHR ''/'' # url"
  shows "FindPolicy E sensitive p ctx =
    res_bind (policy_spec (policy_at p) (wc_method ctx) (clean_segs (CHR ''/'' # url)) (wc_input ctx))
      (\<lambda>(r, inp). Inr (r, ctx\<lparr>wc_input := inp\<rparr>))"
proof -
  have absent: "map_of (policies p) m = None \<Longrightarrow> (\<lambda>s. policy_at p (m, s)) = (\<lambda>_. None)" for m by (simp add: policy_at_def)
  note ms = match_policy_static [OF assms(1), of _ _ E url]
  show ?thesis
    using assms(2) absent [of "wc_method ctx"] absent [of "''*''"]
    by (cases "map_of (policies p) (wc_method ctx)"; cases "map_of (policies p) ''*''")
      (auto simp: FindPolicy_def policy_spec_def ms static_find_none res_bind_def split: sum.splits option.splits prod.splits)
qed

text \<open>C14. After any sequence of registrations of policies for fixed patterns (in any case when routing is not case
  sensitive), the policies found for a request are those last registered for its method and cleaned path, and if
  there are none those registered for the method star; suffixes as in the routing tree. Registration never panics.\<close>

theorem policies_refine_map:
  assumes "list_all (\<lambda>((method, pattern), r). list_all static_seg (splitPath (if \<not> sensitive then to_lower pattern else pattern))) regs"
  shows "\<exists>p. put_all (\<lambda>p (method, pattern) r. addToPolicy E sensitive method pattern r p) \<lparr>policies = [], enablePolicy = False\<rparr> regs = Inr p \<and>
    (\<forall>ctx url. if getUrlPath sensitive ctx = CHR ''/'' # url
      then FindPolicy E sensitive p ctx =
        res_bind (policy_spec (map_of (rev (map (\<lambda>((method, pattern), r).
              ((to_upper method, splitPath (if \<not> sensitive then to_lower pattern else pattern)), r)) regs)))
            (wc_method ctx) (clean_segs (CHR ''/'' # url)) (wc_input ctx))
          (\<lambda>(r, inp). Inr (r, ctx\<lparr>wc_input := inp\<rparr>))
      else True)"
proof -
  let ?kvs = "map (\<lambda>((method, pattern), r). ((to_upper method, splitPath (if \<not> sensitive then to_lower pattern else pattern)), r)) regs"
  let ?p0 = "\<lparr>policies = [], enablePolicy = False\<rparr>"
  have eq: "put_all (\<lambda>p (method, pattern) r. addToPolicy E sensitive method pattern r p) p regs = put_all (policy_put E) p ?kvs" for p
    by (induction regs arbitrary: p) (auto simp: addToPolicy_put res_bind_def split: sum.splits)
  have "list_all (\<lambda>(k, v). case k of (m, segs) \<Rightarrow> list_all static_seg segs) ?kvs" using assms by (auto simp: list_all_iff)
  from policy_store.put_all_ok [of ?p0, OF _ this, of E] obtain p where
    p: "put_all (policy_put E) ?p0 ?kvs = Inr p" "policy_inv p"
    "\<And>k. policy_at p k = (case map_of (rev ?kvs) k of Some v \<Rightarrow> Some v | None \<Rightarrow> policy_at ?p0 k)" by (auto simp: policy_inv_def)
  have "policy_at p = map_of (rev ?kvs)"
    by (intro ext) (simp add: p(3) policy_at_empty split: option.split)
  with p(1) eq FindPolicy_static [OF p(2)] show ?thesis by auto
qed

theorem policies_refine_map_witness:
  "\<exists>p. put_all (\<lambda>p (method, pattern) r. addToPolicy no_regexps True method pattern r p) \<lparr>policies = [], enablePolicy = False\<rparr>
       [((''get'', ''/a''), [5 :: nat]), ((''*'', ''/b''), [2])] = Inr p \<and>
     FindPolicy no_regexps True p \<lparr>wc_input = new_input, wc_method = ''GET'', wc_path = ''/b'', wc_started = False, wc_user = ()\<rparr> =
       Inr ([2], \<lparr>wc_input = new_input, wc_method = ''GET'', wc_path = ''/b'', wc_started = False, wc_user = ()\<rparr>)"
proof -
  let ?regs = "[((''get'', ''/a''), [5 :: nat]), ((''*'', ''/b''), [2])]"
  let ?c = "\<lparr>wc_input = new_input, wc_method = ''GET'', wc_path = ''/b'', wc_started = False, wc_user = ()\<rparr>"
  have "list_all (\<lambda>((method, pattern), r). list_all static_seg (splitPath (if \<not> True then to_lower pattern else pattern))) ?regs"
    by (simp add: static_seg_def splitPath_def go_eval)
  from policies_refine_map [OF this, of no_regexps] obtain p where
    p: "put_all (\<lambda>p (method, pattern) r. addToPolicy no_regexps True method pattern r p) \<lparr>policies = [], enablePolicy = False\<rparr> ?regs = Inr p"
    "getUrlPath True ctx = CHR ''/'' # url \<Longrightarrow> FindPolicy no_regexps True p ctx =
        res_bind (policy_spec (map_of (rev (map (\<lambda>((method, pattern), r).
              ((to_upper method, splitPath (if \<not> True then to_lower pattern else pattern)), r)) ?regs)))
            (wc_method ctx) (clean_segs (CHR ''/'' # url)) (wc_input ctx))
          (\<lambda>(r, inp). Inr (r, ctx\<lparr>wc_input := inp\<rparr>))" for ctx :: "unit web_ctx" and url
    by (auto split: if_splits)
  have m: "map_of (rev (map (\<lambda>((method, pattern), r). ((to_upper method, splitPath (if \<not> True then to_lower pattern else pattern)), r)) ?regs)) =
      map_of [((''*'', [''b'']), [2]), ((to_upper ''get'', [''a'']), [5])]"
    by (simp add: splitPath_def go_eval)
  have s: "clean_segs ''/b'' = [''b'']" by (simp add: clean_segs_def clean_push_def go_eval)
  have "policy_spec (map_of [((''*'', [''b'']), [2 :: nat]), ((to_upper ''get'', [''a'']), [5])]) ''GET'' [''b''] new_input = Inr ([2], new_input)"
    by (simp add: policy_spec_def static_find_def ext_split_def allowSuffixExt_def has_suffix_def)
  then have "FindPolicy no_regexps True p ?c = Inr ([2], ?c)"
    using p(2) [of ?c "''b''"] unfolding m by (simp add: getUrlPath_def s)
  with p(1) show ?thesis by blast
qed

end
