(* ===== verification/Web_Router.thy ===== *)
theory Web_Router
  imports Web_Filters
begin

text \<open>
  The registration of routes (\<^verbatim>\<open>server/web/router.go\<close>): route descriptions, method mappings, controllers, functions and handlers, automatic routes,
  \<^verbatim>\<open>Include\<close>, and the search of the route of a request. One routing tree per HTTP method. What the code learns of a controller by reflection
  (package, name and methods of its type) is data of the model. Loops over Go maps run in the order of a list: each step adds the same
  route to a tree of its own.
\<close>

section \<open>Routes\<close>

definition HTTPMETHOD :: "string list" where
  "HTTPMETHOD = [''GET'', ''POST'', ''PUT'', ''DELETE'', ''PATCH'', ''OPTIONS'', ''HEAD'', ''TRACE'', ''CONNECT'', ''MKCOL'', ''COPY'', ''MOVE'',
     ''PROPFIND'', ''PROPPATCH'', ''LOCK'', ''UNLOCK'']"

text \<open>The type of a controller.\<close>

record controller_type =
  ct_pkg :: string
  ct_name :: string
  ct_methods :: "string list"

datatype ('f, 'h) route_kind = BeegoRoute controller_type | RestfulRoute 'f | HandlerRoute 'h

record ('f, 'h, 'm) ControllerInfo =
  ci_pattern :: string
  routerType :: "('f, 'h) route_kind"
  methods :: "(string \<times> string) list"
  initialize :: bool   \<comment> \<open>whether there is a function that copies the registered controller\<close>
  methodParams :: "'m list option"
  sessionOn :: bool

datatype route_panic = RouteTree tree_panic | MappingInvalid | NoHttpMethod string | NoControllerMethod string | NotAMethod string

definition GetPattern :: "('f, 'h, 'm) ControllerInfo \<Rightarrow> string" where
  "GetPattern c = ci_pattern c"

definition GetMethod :: "('f, 'h, 'm) ControllerInfo \<Rightarrow> (string \<times> string) list" where
  "GetMethod c = methods c"

record web_cfg =
  RouterCaseSensitive :: bool
  SessionOn :: bool

record ('u, 'f, 'h, 'm) ControllerRegister =
  reg_cfg :: web_cfg
  routers :: "(string \<times> ('f, 'h, 'm) ControllerInfo Tree) list"
  reg_filters :: "'u filter_register"
  reg_policies :: "'u filter_func policy_register"

definition NewControllerRegisterWithCfg :: "web_cfg \<Rightarrow> ('u, 'f, 'h, 'm) ControllerRegister" where
  "NewControllerRegisterWithCfg cfg = \<lparr>reg_cfg = cfg, routers = [],
     reg_filters = \<lparr>caseSensitive = RouterCaseSensitive cfg, enableFilter = False, filters = (\<lambda>pos. [])\<rparr>,
     reg_policies = \<lparr>policies = [], enablePolicy = False\<rparr>\<rparr>"

section \<open>Method mappings\<close>

fun map_methods :: "controller_type \<Rightarrow> string \<Rightarrow> string list \<Rightarrow> (string \<times> string) list \<Rightarrow> route_panic + (string \<times> string) list" where
  "map_methods c target [] ms = Inr ms"
| "map_methods c target (m # rest) ms =
     (if m \<noteq> ''*'' \<and> to_upper m \<notin> set HTTPMETHOD then Inl (NoHttpMethod m)
      else if target \<in> set (ct_methods c) then map_methods c target rest (AList.update (to_upper m) target ms)
      else Inl (NoControllerMethod target))"

fun map_parts :: "controller_type \<Rightarrow> string list \<Rightarrow> (string \<times> string) list \<Rightarrow> route_panic + (string \<times> string) list" where
  "map_parts c [] ms = Inr ms"
| "map_parts c (v # vs) ms =
     (case split v '':'' of
        [names, target] \<Rightarrow> res_bind (map_methods c target (split names '','') ms) (\<lambda>ms. map_parts c vs ms)
      | _ \<Rightarrow> Inl MappingInvalid)"

definition parseMappingMethods :: "controller_type \<Rightarrow> string list \<Rightarrow> route_panic + (string \<times> string) list" where
  "parseMappingMethods c mapping = (case mapping of [] \<Rightarrow> Inr [] | m # _ \<Rightarrow> map_parts c (split m '';'') [])"

datatype ControllerOption = WithRouterMethods controller_type "string list" | WithRouterSessionOn bool

fun apply_option :: "ControllerOption \<Rightarrow> ('f, 'h, 'm) ControllerInfo \<Rightarrow> route_panic + ('f, 'h, 'm) ControllerInfo" where
  "apply_option (WithRouterMethods c mapping) r = res_bind (parseMappingMethods c mapping) (\<lambda>ms. Inr (r\<lparr>methods := ms\<rparr>))"
| "apply_option (WithRouterSessionOn b) r = Inr (r\<lparr>sessionOn := b\<rparr>)"

fun apply_options :: "ControllerOption list \<Rightarrow> ('f, 'h, 'm) ControllerInfo \<Rightarrow> route_panic + ('f, 'h, 'm) ControllerInfo" where
  "apply_options [] r = Inr r"
| "apply_options (opt # opts) r = res_bind (apply_option opt r) (apply_options opts)"

definition getUpperMethodString :: "string \<Rightarrow> route_panic + string" where
  "getUpperMethodString m = (let m = to_upper m in if m \<noteq> ''*'' \<and> m \<notin> set HTTPMETHOD then Inl (NoHttpMethod m) else Inr m)"

definition getHttpMethodMapMethod :: "string \<Rightarrow> string \<Rightarrow> (string \<times> string) list" where
  "getHttpMethodMapMethod httpMethod ctMethod =
     (if httpMethod \<noteq> ''*'' then [(httpMethod, if ctMethod = [] then httpMethod else ctMethod)]
      else map (\<lambda>val. (val, if ctMethod = [] then val else ctMethod)) HTTPMETHOD)"

section \<open>Adding routes\<close>

definition createBeegoRouter :: "web_cfg \<Rightarrow> controller_type \<Rightarrow> string \<Rightarrow> ('f, 'h, 'm) ControllerInfo" where
  "createBeegoRouter cfg ct pattern = \<lparr>ci_pattern = pattern, routerType = BeegoRoute ct, methods = [], initialize = False, methodParams = None, sessionOn = SessionOn cfg\<rparr>"

definition createRestfulRouter :: "web_cfg \<Rightarrow> 'f \<Rightarrow> string \<Rightarrow> ('f, 'h, 'm) ControllerInfo" where
  "createRestfulRouter cfg f pattern = \<lparr>ci_pattern = pattern, routerType = RestfulRoute f, methods = [], initialize = False, methodParams = None, sessionOn = SessionOn cfg\<rparr>"

definition createHandlerRouter :: "web_cfg \<Rightarrow> 'h \<Rightarrow> string \<Rightarrow> ('f, 'h, 'm) ControllerInfo" where
  "createHandlerRouter cfg h pattern = \<lparr>ci_pattern = pattern, routerType = HandlerRoute h, methods = [], initialize = False, methodParams = None, sessionOn = SessionOn cfg\<rparr>"

definition addToRouter :: "regexp_engine \<Rightarrow> string \<Rightarrow> string \<Rightarrow> ('f, 'h, 'm) ControllerInfo \<Rightarrow> ('u, 'f, 'h, 'm) ControllerRegister
    \<Rightarrow> route_panic + ('u, 'f, 'h, 'm) ControllerRegister" where
  "addToRouter E m pattern r p =
     (let pattern = (if \<not> RouterCaseSensitive (reg_cfg p) then to_lower pattern else pattern);
          t = (case map_of (routers p) m of Some t \<Rightarrow> t | None \<Rightarrow> NewTree)
      in case AddRouter E t pattern (Some r) of
           Inl e \<Rightarrow> Inl (RouteTree e)
         | Inr t \<Rightarrow> Inr (p\<lparr>routers := AList.update m t (routers p)\<rparr>))"

fun addToRouters :: "regexp_engine \<Rightarrow> string list \<Rightarrow> string \<Rightarrow> ('f, 'h, 'm) ControllerInfo \<Rightarrow> ('u, 'f, 'h, 'm) ControllerRegister
    \<Rightarrow> route_panic + ('u, 'f, 'h, 'm) ControllerRegister" where
  "addToRouters E [] pattern r p = Inr p"
| "addToRouters E (m # ms) pattern r p = res_bind (addToRouter E m pattern r p) (addToRouters E ms pattern r)"

definition addRouterForMethod :: "regexp_engine \<Rightarrow> ('f, 'h, 'm) ControllerInfo \<Rightarrow> ('u, 'f, 'h, 'm) ControllerRegister
    \<Rightarrow> route_panic + ('u, 'f, 'h, 'm) ControllerRegister" where
  "addRouterForMethod E route p =
     (if methods route = [] then addToRouters E HTTPMETHOD (ci_pattern route) route p
      else addToRouters E (concat (map (\<lambda>(k, v). if k \<noteq> ''*'' then [k] else HTTPMETHOD) (methods route))) (ci_pattern route) route p)"

definition addWithMethodParams :: "regexp_engine \<Rightarrow> string \<Rightarrow> controller_type \<Rightarrow> 'm list option \<Rightarrow> ControllerOption list \<Rightarrow> ('u, 'f, 'h, 'm) ControllerRegister
    \<Rightarrow> route_panic + ('u, 'f, 'h, 'm) ControllerRegister" where
  "addWithMethodParams E pattern c mps opts p =
     res_bind (apply_options opts ((createBeegoRouter (reg_cfg p) c pattern)\<lparr>initialize := True, methodParams := mps\<rparr>)) (\<lambda>route.
       let global = SessionOn (reg_cfg p);
           route = (if \<not> global \<and> sessionOn route then route\<lparr>sessionOn := global\<rparr> else route)
       in addRouterForMethod E route p)"

definition Add :: "regexp_engine \<Rightarrow> string \<Rightarrow> controller_type \<Rightarrow> ControllerOption list \<Rightarrow> ('u, 'f, 'h, 'm) ControllerRegister
    \<Rightarrow> route_panic + ('u, 'f, 'h, 'm) ControllerRegister" where
  "Add E pattern c opts p = addWithMethodParams E pattern c None opts p"

definition AddMethod :: "regexp_engine \<Rightarrow> string \<Rightarrow> string \<Rightarrow> 'f \<Rightarrow> ('u, 'f, 'h, 'm) ControllerRegister \<Rightarrow> route_panic + ('u, 'f, 'h, 'm) ControllerRegister" where
  "AddMethod E m pattern f p =
     res_bind (getUpperMethodString m) (\<lambda>m.
       addRouterForMethod E ((createRestfulRouter (reg_cfg p) f pattern)\<lparr>methods := getHttpMethodMapMethod m []\<rparr>) p)"

definition Get :: "regexp_engine \<Rightarrow> string \<Rightarrow> 'f \<Rightarrow> ('u, 'f, 'h, 'm) ControllerRegister \<Rightarrow> route_panic + ('u, 'f, 'h, 'm) ControllerRegister" where
  "Get E pattern f p = AddMethod E ''get'' pattern f p"

definition Post :: "regexp_engine \<Rightarrow> string \<Rightarrow> 'f \<Rightarrow> ('u, 'f, 'h, 'm) ControllerRegister \<Rightarrow> route_panic + ('u, 'f, 'h, 'm) ControllerRegister" where
  "Post E pattern f p = AddMethod E ''post'' pattern f p"

definition Put :: "regexp_engine \<Rightarrow> string \<Rightarrow> 'f \<Rightarrow> ('u, 'f, 'h, 'm) ControllerRegister \<Rightarrow> route_panic + ('u, 'f, 'h, 'm) ControllerRegister" where
  "Put E pattern f p = AddMethod E ''put'' pattern f p"

definition Delete :: "regexp_engine \<Rightarrow> string \<Rightarrow> 'f \<Rightarrow> ('u, 'f, 'h, 'm) ControllerRegister \<Rightarrow> route_panic + ('u, 'f, 'h, 'm) ControllerRegister" where
  "Delete E pattern f p = AddMethod E ''delete'' pattern f p"

definition Head :: "regexp_engine \<Rightarrow> string \<Rightarrow> 'f \<Rightarrow> ('u, 'f, 'h, 'm) ControllerRegister \<Rightarrow> route_panic + ('u, 'f, 'h, 'm) ControllerRegister" where
  "Head E pattern f p = AddMethod E ''head'' pattern f p"

definition Patch :: "regexp_engine \<Rightarrow> string \<Rightarrow> 'f \<Rightarrow> ('u, 'f, 'h, 'm) ControllerRegister \<Rightarrow> route_panic + ('u, 'f, 'h, 'm) ControllerRegister" where
  "Patch E pattern f p = AddMethod E ''patch'' pattern f p"

definition Options_route :: "regexp_engine \<Rightarrow> string \<Rightarrow> 'f \<Rightarrow> ('u, 'f, 'h, 'm) ControllerRegister \<Rightarrow> route_panic + ('u, 'f, 'h, 'm) ControllerRegister" where
  "Options_route E pattern f p = AddMethod E ''options'' pattern f p"

definition Any :: "regexp_engine \<Rightarrow> string \<Rightarrow> 'f \<Rightarrow> ('u, 'f, 'h, 'm) ControllerRegister \<Rightarrow> route_panic + ('u, 'f, 'h, 'm) ControllerRegister" where
  "Any E pattern f p = AddMethod E ''*'' pattern f p"

text \<open>Any Boolean option makes the handler serve everything below the pattern.\<close>

definition Handler :: "regexp_engine \<Rightarrow> string \<Rightarrow> 'h \<Rightarrow> bool option \<Rightarrow> ('u, 'f, 'h, 'm) ControllerRegister \<Rightarrow> route_panic + ('u, 'f, 'h, 'm) ControllerRegister" where
  "Handler E pattern h opt p =
     addToRouters E HTTPMETHOD (if opt \<noteq> None then path_Join [pattern, ''?:all(.*)''] else pattern) (createHandlerRouter (reg_cfg p) h pattern) p"

section \<open>Controllers by method expression\<close>

text \<open>What reflection tells of a value: no function, or the full name of the function, the number of its parameters, the type of the first with
  the methods of that type, and whether a pointer to it is a controller.\<close>

datatype method_expr = NotFunc | Func "string option" nat controller_type "string list" bool

definition getReflectTypeAndMethod :: "method_expr \<Rightarrow> route_panic + controller_type \<times> string" where
  "getReflectTypeAndMethod f =
     (case f of
        NotFunc \<Rightarrow> Inl (NotAMethod ''not a method'')
      | Func None n ct ms ctrl \<Rightarrow> Inl (NotAMethod ''cannot find the method'')
      | Func (Some full) n ct ms ctrl \<Rightarrow>
          (let m = last (split full ''.'') in
           if m = [] then Inl (NotAMethod ''method name is empty'')
           else if of_char (hd m) > (96 :: nat) \<or> of_char (hd m) < (65 :: nat) then Inl (NotAMethod ''not a public method'')
           else if n \<noteq> 1 then Inl (NotAMethod ''invalid number of param in'')
           else if m \<notin> set ms then Inl (NotAMethod ''has no method'')
           else if \<not> ctrl then Inl (NotAMethod ''is not implemented ControllerInterface'')
           else Inr (ct, m)))"

definition addBeegoTypeRouter :: "regexp_engine \<Rightarrow> controller_type \<Rightarrow> string \<Rightarrow> string \<Rightarrow> string \<Rightarrow> ('u, 'f, 'h, 'm) ControllerRegister
    \<Rightarrow> route_panic + ('u, 'f, 'h, 'm) ControllerRegister" where
  "addBeegoTypeRouter E ct ctMethod httpMethod pattern p =
     addRouterForMethod E ((createBeegoRouter (reg_cfg p) ct pattern)\<lparr>methods := getHttpMethodMapMethod httpMethod ctMethod\<rparr>) p"

definition AddRouterMethod :: "regexp_engine \<Rightarrow> string \<Rightarrow> string \<Rightarrow> method_expr \<Rightarrow> ('u, 'f, 'h, 'm) ControllerRegister
    \<Rightarrow> route_panic + ('u, 'f, 'h, 'm) ControllerRegister" where
  "AddRouterMethod E m pattern f p =
     res_bind (getUpperMethodString m) (\<lambda>m. res_bind (getReflectTypeAndMethod f) (\<lambda>(ct, name). addBeegoTypeRouter E ct name m pattern p))"

definition CtrlGet :: "regexp_engine \<Rightarrow> string \<Rightarrow> method_expr \<Rightarrow> ('u, 'f, 'h, 'm) ControllerRegister \<Rightarrow> route_panic + ('u, 'f, 'h, 'm) ControllerRegister" where
  "CtrlGet E pattern f p = AddRouterMethod E ''GET'' pattern f p"

definition CtrlPost :: "regexp_engine \<Rightarrow> string \<Rightarrow> method_expr \<Rightarrow> ('u, 'f, 'h, 'm) ControllerRegister \<Rightarrow> route_panic + ('u, 'f, 'h, 'm) ControllerRegister" where
  "CtrlPost E pattern f p = AddRouterMethod E ''POST'' pattern f p"

definition CtrlHead :: "regexp_engine \<Rightarrow> string \<Rightarrow> method_expr \<Rightarrow> ('u, 'f, 'h, 'm) ControllerRegister \<Rightarrow> route_panic + ('u, 'f, 'h, 'm) ControllerRegister" where
  "CtrlHead E pattern f p = AddRouterMethod E ''HEAD'' pattern f p"

definition CtrlPut :: "regexp_engine \<Rightarrow> string \<Rightarrow> method_expr \<Rightarrow> ('u, 'f, 'h, 'm) ControllerRegister \<Rightarrow> route_panic + ('u, 'f, 'h, 'm) ControllerRegister" where
  "CtrlPut E pattern f p = AddRouterMethod E ''PUT'' pattern f p"

definition CtrlPatch :: "regexp_engine \<Rightarrow> string \<Rightarrow> method_expr \<Rightarrow> ('u, 'f, 'h, 'm) ControllerRegister \<Rightarrow> route_panic + ('u, 'f, 'h, 'm) ControllerRegister" where
  "CtrlPatch E pattern f p = AddRouterMethod E ''PATCH'' pattern f p"

definition CtrlDelete :: "regexp_engine \<Rightarrow> string \<Rightarrow> method_expr \<Rightarrow> ('u, 'f, 'h, 'm) ControllerRegister \<Rightarrow> route_panic + ('u, 'f, 'h, 'm) ControllerRegister" where
  "CtrlDelete E pattern f p = AddRouterMethod E ''DELETE'' pattern f p"

definition CtrlOptions :: "regexp_engine \<Rightarrow> string \<Rightarrow> method_expr \<Rightarrow> ('u, 'f, 'h, 'm) ControllerRegister \<Rightarrow> route_panic + ('u, 'f, 'h, 'm) ControllerRegister" where
  "CtrlOptions E pattern f p = AddRouterMethod E ''OPTIONS'' pattern f p"

definition CtrlAny :: "regexp_engine \<Rightarrow> string \<Rightarrow> method_expr \<Rightarrow> ('u, 'f, 'h, 'm) ControllerRegister \<Rightarrow> route_panic + ('u, 'f, 'h, 'm) ControllerRegister" where
  "CtrlAny E pattern f p = AddRouterMethod E ''*'' pattern f p"

section \<open>Automatic routes\<close>

definition trim_suffix :: "string \<Rightarrow> string \<Rightarrow> string" where
  "trim_suffix s suf = (if has_suffix s suf then take (length s - length suf) s else s)"

fun auto_routes :: "regexp_engine \<Rightarrow> bool \<Rightarrow> string \<Rightarrow> string list \<Rightarrow> ('f, 'h, 'm) ControllerInfo \<Rightarrow> string list \<Rightarrow> ('u, 'f, 'h, 'm) ControllerRegister
    \<Rightarrow> route_panic + ('u, 'f, 'h, 'm) ControllerRegister" where
  "auto_routes E sensitive pattern extra route [] p = Inr p"
| "auto_routes E sensitive pattern extra route (m # ms) p =
     res_bind (addToRouter E m pattern route p) (\<lambda>p.
     res_bind (if sensitive then put_all (\<lambda>p pat r. addToRouter E m pat r p) p (map (\<lambda>pat. (pat, route)) extra) else Inr p)
       (auto_routes E sensitive pattern extra route ms))"

definition addAutoPrefixMethod :: "regexp_engine \<Rightarrow> string \<Rightarrow> string \<Rightarrow> string \<Rightarrow> controller_type \<Rightarrow> ('u, 'f, 'h, 'm) ControllerRegister
    \<Rightarrow> route_panic + ('u, 'f, 'h, 'm) ControllerRegister" where
  "addAutoPrefixMethod E pre controllerName methodName ctrl p =
     (let pattern = path_Join [pre, to_lower controllerName, to_lower methodName, ''*''];
          patternInit = path_Join [pre, controllerName, methodName, ''*''];
          patternFix = path_Join [pre, to_lower controllerName, to_lower methodName];
          patternFixInit = path_Join [pre, controllerName, methodName];
          route = (createBeegoRouter (reg_cfg p) ctrl pattern)\<lparr>methods := [(''*'', methodName)]\<rparr>
      in auto_routes E (RouterCaseSensitive (reg_cfg p)) pattern [patternInit, patternFix, patternFixInit] route HTTPMETHOD p)"

fun auto_methods :: "regexp_engine \<Rightarrow> string list \<Rightarrow> string \<Rightarrow> string \<Rightarrow> controller_type \<Rightarrow> string list \<Rightarrow> ('u, 'f, 'h, 'm) ControllerRegister
    \<Rightarrow> route_panic + ('u, 'f, 'h, 'm) ControllerRegister" where
  "auto_methods E exceptMethod pre name ct [] p = Inr p"
| "auto_methods E exceptMethod pre name ct (m # ms) p =
     res_bind (if m \<in> set exceptMethod then Inr p else addAutoPrefixMethod E pre name m ct p) (auto_methods E exceptMethod pre name ct ms)"

definition AddAutoPrefix :: "regexp_engine \<Rightarrow> string list \<Rightarrow> string \<Rightarrow> controller_type \<Rightarrow> ('u, 'f, 'h, 'm) ControllerRegister
    \<Rightarrow> route_panic + ('u, 'f, 'h, 'm) ControllerRegister" where
  "AddAutoPrefix E exceptMethod pre c p = auto_methods E exceptMethod pre (trim_suffix (ct_name c) ''Controller'') c (ct_methods c) p"

definition AddAuto :: "regexp_engine \<Rightarrow> string list \<Rightarrow> controller_type \<Rightarrow> ('u, 'f, 'h, 'm) ControllerRegister
    \<Rightarrow> route_panic + ('u, 'f, 'h, 'm) ControllerRegister" where
  "AddAuto E exceptMethod c p = AddAutoPrefix E exceptMethod ''/'' c p"

section \<open>Included controllers\<close>

text \<open>The entries of \<^verbatim>\<open>GlobalControllerRouter\<close>, with their filters.\<close>

record 'u ctrl_filter =
  cf_Pattern :: string
  cf_Pos :: int
  cf_Filter :: "'u filter_func"
  cf_ReturnOnOutput :: bool
  cf_ResetParams :: bool

record ('u, 'm) ControllerComments =
  cc_Method :: string
  cc_Router :: string
  cc_Filters :: "'u ctrl_filter list"
  cc_AllowHTTPMethods :: "string list"
  cc_MethodParams :: "'m list option"

fun include_filters :: "regexp_engine \<Rightarrow> 'u ctrl_filter list \<Rightarrow> ('u, 'f, 'h, 'm) ControllerRegister \<Rightarrow> route_panic + ('u, 'f, 'h, 'm) ControllerRegister" where
  "include_filters E [] p = Inr p"
| "include_filters E (f # fs) p =
     (case InsertFilter E (cf_Pattern f) (cf_Pos f) (cf_Filter f) [WithReturnOnOutput (cf_ReturnOnOutput f), WithResetParams (cf_ResetParams f)] (reg_filters p) of
        Inl (RoutePanic e) \<Rightarrow> Inl (RouteTree e)
      | Inl BadPosition \<Rightarrow> include_filters E fs p
      | Inr fr \<Rightarrow> include_filters E fs (p\<lparr>reg_filters := fr\<rparr>))"

fun include_comments :: "regexp_engine \<Rightarrow> controller_type \<Rightarrow> ('u, 'm) ControllerComments list \<Rightarrow> ('u, 'f, 'h, 'm) ControllerRegister
    \<Rightarrow> route_panic + ('u, 'f, 'h, 'm) ControllerRegister" where
  "include_comments E c [] p = Inr p"
| "include_comments E c (a # as) p =
     res_bind (include_filters E (cc_Filters a) p) (\<lambda>p.
     res_bind (addWithMethodParams E (cc_Router a) c (cc_MethodParams a)
                 [WithRouterMethods c [join '','' (cc_AllowHTTPMethods a) @ '':'' @ cc_Method a]] p)
       (include_comments E c as))"

fun Include :: "regexp_engine \<Rightarrow> (string \<Rightarrow> ('u, 'm) ControllerComments list option) \<Rightarrow> controller_type list \<Rightarrow> ('u, 'f, 'h, 'm) ControllerRegister
    \<Rightarrow> route_panic + ('u, 'f, 'h, 'm) ControllerRegister" where
  "Include E glob [] p = Inr p"
| "Include E glob (c # cs) p =
     res_bind (case glob (ct_pkg c @ '':'' @ ct_name c) of None \<Rightarrow> Inr p | Some comm \<Rightarrow> include_comments E c comm p) (Include E glob cs)"

section \<open>The route of a request\<close>

definition FindRouter :: "regexp_engine \<Rightarrow> ('u, 'f, 'h, 'm) ControllerRegister \<Rightarrow> 'u web_ctx \<Rightarrow> tree_panic + ('f, 'h, 'm) ControllerInfo option \<times> 'u web_ctx" where
  "FindRouter E p ctx =
     (case map_of (routers p) (wc_method ctx) of
        None \<Rightarrow> Inr (None, ctx)
      | Some t \<Rightarrow> res_bind (Match E t (getUrlPath (RouterCaseSensitive (reg_cfg p)) ctx) (wc_input ctx)) (\<lambda>(r, inp). Inr (r, ctx\<lparr>wc_input := inp\<rparr>)))"

fun composeControllerInfos :: "'a Tree \<Rightarrow> 'a list" where
  "composeControllerInfos (Tree pre fixs wild lvs) =
     concat (map composeControllerInfos fixs) @ (case wild of Some w \<Rightarrow> composeControllerInfos w | None \<Rightarrow> [])
     @ concat (map (\<lambda>l. case runObject l of Some r \<Rightarrow> [r] | None \<Rightarrow> []) lvs)"

definition GetAllControllerInfo :: "('u, 'f, 'h, 'm) ControllerRegister \<Rightarrow> ('f, 'h, 'm) ControllerInfo list" where
  "GetAllControllerInfo p = concat (map (\<lambda>(m, t). composeControllerInfos t) (routers p))"

section \<open>A request finds a route of its method\<close>

text \<open>Every object of a tree was added to it, and a search gives an object of the tree.\<close>

lemma objs_Tree: "set (composeControllerInfos (Tree pre fixs wild lvs)) =
    (\<Union>t \<in> set fixs. set (composeControllerInfos t)) \<union> (case wild of Some w \<Rightarrow> set (composeControllerInfos w) | None \<Rightarrow> {})
    \<union> (\<Union>l \<in> set lvs. set_option (runObject l))"
  by (auto split: option.splits)

declare composeControllerInfos.simps [simp del]


lemma update_fix_objs:
  assumes "update_fix seg f ts = Inr ts'" "\<And>t t'. f t = Inr t' \<Longrightarrow> set (composeControllerInfos t') \<subseteq> set (composeControllerInfos t) \<union> S"
  shows "(\<Union>t \<in> set ts'. set (composeControllerInfos t)) \<subseteq> (\<Union>t \<in> set ts. set (composeControllerInfos t)) \<union> S"
  using assms(1)
proof (induction ts arbitrary: ts')
  case Nil
  then obtain t where "f (Tree seg [] None []) = Inr t" "ts' = [t]" by (auto simp: res_bind_def split: sum.splits)
  with assms(2) [of "Tree seg [] None []" t] show ?case by (simp add: objs_Tree)
next
  case (Cons t ts)
  then show ?case using assms(2) [of t] by (fastforce simp: res_bind_def split: sum.splits if_splits)
qed

lemma addseg_objs:
  "addseg E segs route ws reg t = Inr t' \<Longrightarrow> set (composeControllerInfos t') \<subseteq> set (composeControllerInfos t) \<union> set_option route"
proof (induction segs arbitrary: ws reg t t')
  case Nil
  then show ?case by (cases t) (auto simp: newLeaf_def res_bind_def objs_Tree split: sum.splits if_splits)
next
  case (Cons seg segs)
  let ?O = "\<lambda>t. set (composeControllerInfos t)" and ?R = "set_option route"
  obtain iswild ps rs where sp: "splitSegment seg = (iswild, ps, rs)" by (cases "splitSegment seg")
  let ?opt = "ps \<noteq> [] \<and> hd ps = '':''"
  obtain t1 where t1: "(if ?opt then addseg E segs route ws reg t else Inr t) = Inr t1"
    using Cons.prems by (auto simp: sp Let_def res_bind_def split: sum.splits)
  have o1: "?O t1 \<subseteq> ?O t \<union> ?R" using t1 Cons.IH by (auto split: if_splits)
  obtain pre fixs wild lvs where tr: "t1 = Tree pre fixs wild lvs" by (cases t1)
  have wild: "?O (Tree pre fixs (Some w) lvs) \<subseteq> ?O t \<union> ?R"
    if "addseg E segs route ws' reg' (case wild of None \<Rightarrow> NewTree | Some w \<Rightarrow> w) = Inr w" for ws' reg' w
  proof -
    have "?O w \<subseteq> ?O (case wild of None \<Rightarrow> NewTree | Some w \<Rightarrow> w) \<union> ?R" using Cons.IH that by blast
    then have "?O w \<subseteq> ?O t1 \<union> ?R" by (auto simp: tr objs_Tree NewTree_def split: option.splits)
    moreover have "?O (Tree pre fixs (Some w) lvs) \<subseteq> ?O t1 \<union> ?O w" by (auto simp: tr objs_Tree)
    ultimately show ?thesis using o1 by blast
  qed
  have fixed: "?O (Tree pre fs wild lvs) \<subseteq> ?O t \<union> ?R" if "update_fix seg (addseg E segs route ws reg) fixs = Inr fs" for fs
    using update_fix_objs [OF that Cons.IH] o1 by (fastforce simp: tr objs_Tree)
  have "(\<exists>ws' reg' w. addseg E segs route ws' reg' (case wild of None \<Rightarrow> NewTree | Some w \<Rightarrow> w) = Inr w \<and> t' = Tree pre fixs (Some w) lvs) \<or>
      (\<exists>fs. update_fix seg (addseg E segs route ws reg) fixs = Inr fs \<and> t' = Tree pre fs wild lvs)"
    using Cons.prems by (simp add: sp Let_def t1 [unfolded Let_def] tr res_bind_def split: sum.splits if_splits prod.splits) blast+
  with wild fixed show ?case by blast
qed

lemma leaves_objs: "match_leaves E ls tp vals inp = Inr (Some l, inp') \<Longrightarrow> l \<in> set ls"
  by (induction E ls tp vals inp rule: match_leaves.induct) (auto simp: res_bind_def split: sum.splits prod.splits if_splits)

lemma match_objs:
  "tree_match E t tp p vals inp = Inr (Some r, inp') \<Longrightarrow> r \<in> set (composeControllerInfos t)"
  "match_fix E ts seg p tp vals inp = Inr (Some r, tp', inp') \<Longrightarrow> \<exists>t \<in> set ts. r \<in> set (composeControllerInfos t)"
  "match_ext E strs ts seg tp p vals q inp = Inr (Some r, inp') \<Longrightarrow> q = Some r \<or> (\<exists>t \<in> set ts. r \<in> set (composeControllerInfos t))"
  "match_sub E str ts seg tp p vals q inp = Inr (Some r, inp') \<Longrightarrow> q = Some r \<or> (\<exists>t \<in> set ts. r \<in> set (composeControllerInfos t))"
proof (induction arbitrary: r inp' and r tp' inp' and r inp' and r inp' rule: tree_match_match_fix_match_ext_match_sub.induct)
  case (1 E pre fixs wild lvs tp p0 vals inp)
  let ?O = "\<lambda>t. set (composeControllerInfos t)"
  let ?p1 = "strip_slashes p0"
  have leaf: "r \<in> ?O (Tree pre fixs wild lvs)" if "match_leaves E ls tp' vals' inp1 = Inr (Some l, inp2)" "runObject l = Some r"
    "ls = lvs \<or> (\<exists>w. wild = Some w \<and> ls = leaves w)" for ls tp' vals' inp1 l inp2
  proof -
    have "l \<in> set ls" using leaves_objs [OF that(1)] .
    with that(2,3) show ?thesis
    proof (elim disjE exE conjE)
      fix w assume "l \<in> set ls" "runObject l = Some r" "wild = Some w" "ls = leaves w"
      then have "r \<in> ?O w" by (cases w) (auto simp: objs_Tree)
      with \<open>wild = Some w\<close> show ?thesis by (simp add: objs_Tree)
    qed (auto simp: objs_Tree)
  qed
  show ?case
  proof (cases "?p1 = []")
    case True
    with "1.prems" leaf show ?thesis
      by (auto simp: res_bind_def Let_def split: sum.splits prod.splits option.splits)
  next
    case False
    let ?seg = "first_seg ?p1" and ?pat = "after_seg ?p1"
    from "1.prems" False obtain r1 tp1 inp1 where f: "match_fix E fixs ?seg ?pat tp vals inp = Inr (r1, tp1, inp1)"
      by (auto simp: Let_def res_bind_def split: sum.splits)
    with "1.prems" False obtain r2 inp2 where e: "(if r1 = None then match_ext E allowSuffixExt fixs ?seg tp1 ?pat vals r1 inp1 else Inr (r1, inp1)) = Inr (r2, inp2)"
      by (auto simp: Let_def res_bind_def split: sum.splits if_splits)
    with "1.prems" False f obtain r3 inp3 where w: "(case (r2, wild) of (None, Some w) \<Rightarrow> tree_match E w tp1 ?pat (vals @ [?seg]) inp2 | _ \<Rightarrow> Inr (r2, inp2)) = Inr (r3, inp3)"
      by (cases "r1 = None") (auto simp: Let_def res_bind_def split: sum.splits)
    have r1: "q \<in> ?O (Tree pre fixs wild lvs)" if "r1 = Some q" for q
      using "1.IH"(1) [OF refl False refl refl] f that by (auto simp: objs_Tree)
    have r2: "q \<in> ?O (Tree pre fixs wild lvs)" if "r2 = Some q" for q
    proof (cases r1)
      case None
      with "1.IH"(2) [OF refl False refl refl] e that show ?thesis by (auto simp: objs_Tree)
    qed (use e r1 that in auto)
    have r3: "q \<in> ?O (Tree pre fixs wild lvs)" if "r3 = Some q" for q
    proof (cases "r2 = None \<and> wild \<noteq> None")
      case True
      then obtain v where v: "r2 = None" "wild = Some v" by auto
      from "1.IH"(3) [OF refl False refl refl refl v] w v that show ?thesis by (auto simp: objs_Tree)
    qed (use w r2 that in \<open>auto split: option.splits\<close>)
    show ?thesis using "1.prems" False f e w r3 leaf
      by (cases "r3 = None \<and> lvs \<noteq> []") (auto simp: Let_def res_bind_def split: sum.splits option.splits if_splits)
  qed
next
  case (3 E t ts seg pattern tp vals inp)
  then show ?case by (auto simp: res_bind_def Let_def split: sum.splits prod.splits if_splits)
next
  case (5 E str strs fixs seg tp pattern vals r inp)
  then show ?case by (fastforce simp: res_bind_def Let_def split: sum.splits prod.splits if_splits)
next
  case (7 E str t ts seg tp pattern vals r inp)
  then show ?case by (fastforce simp: res_bind_def Let_def split: sum.splits prod.splits if_splits)
qed auto


lemma Match_objs: "Match E t p inp = Inr (Some r, inp') \<Longrightarrow> r \<in> set (composeControllerInfos t)"
  by (auto simp: Match_def Let_def split: if_splits dest: match_objs(1))

text \<open>A route may serve a method when its mapping has it or the star or is empty; a function only when its mapping has it.\<close>

definition serves :: "string \<Rightarrow> ('f, 'h, 'm) ControllerInfo \<Rightarrow> bool" where
  "serves m r \<longleftrightarrow> m \<in> set HTTPMETHOD \<and>
     (case routerType r of
        RestfulRoute f \<Rightarrow> m \<in> fst ` set (methods r)
      | HandlerRoute h \<Rightarrow> True
      | BeegoRoute c \<Rightarrow> methods r = [] \<or> m \<in> fst ` set (methods r) \<or> ''*'' \<in> fst ` set (methods r))"

definition routes_inv :: "('u, 'f, 'h, 'm) ControllerRegister \<Rightarrow> bool" where
  "routes_inv p \<longleftrightarrow> (\<forall>m t. map_of (routers p) m = Some t \<longrightarrow> (\<forall>r \<in> set (composeControllerInfos t). serves m r))"

lemma routes_inv_empty: "routes_inv (NewControllerRegisterWithCfg cfg)"
  by (simp add: routes_inv_def NewControllerRegisterWithCfg_def)

lemma addToRouter_inv:
  assumes "routes_inv p" "serves m r" "addToRouter E m pattern r p = Inr p'"
  shows "routes_inv p' \<and> reg_cfg p' = reg_cfg p"
proof -
  let ?t = "case map_of (routers p) m of Some t \<Rightarrow> t | None \<Rightarrow> NewTree"
  obtain pat t where t: "AddRouter E ?t pat (Some r) = Inr t" "p' = p\<lparr>routers := AList.update m t (routers p)\<rparr>"
    using assms(3) by (auto simp: addToRouter_def Let_def split: sum.splits)
  have "set (composeControllerInfos ?t) \<subseteq> {q. serves m q}"
    using assms(1) by (auto simp: routes_inv_def NewTree_def objs_Tree split: option.splits)
  then have "set (composeControllerInfos t) \<subseteq> {q. serves m q}"
    using addseg_objs [OF t(1) [unfolded AddRouter_def]] assms(2) by auto
  with assms(1) t(2) show ?thesis by (auto simp: routes_inv_def update_conv' split: if_splits)
qed

lemma addToRouters_inv:
  assumes "routes_inv p" "\<And>m. m \<in> set ms \<Longrightarrow> serves m r" "addToRouters E ms pattern r p = Inr p'"
  shows "routes_inv p' \<and> reg_cfg p' = reg_cfg p"
  using assms
proof (induction ms arbitrary: p)
  case (Cons m ms)
  then obtain p1 where p1: "addToRouter E m pattern r p = Inr p1" "addToRouters E ms pattern r p1 = Inr p'" by (auto simp: res_bind_def split: sum.splits)
  have "routes_inv p1 \<and> reg_cfg p1 = reg_cfg p" using addToRouter_inv [OF Cons.prems(1) _ p1(1)] Cons.prems(2) by simp
  with Cons.IH [OF _ _ p1(2)] Cons.prems(2) show ?case by simp
qed simp

text \<open>A mapping that the code builds has only known methods or the star.\<close>

definition mapping_ok :: "(string \<times> string) list \<Rightarrow> bool" where
  "mapping_ok ms \<longleftrightarrow> fst ` set ms \<subseteq> insert ''*'' (set HTTPMETHOD)"

lemma star_upper: "to_upper ''*'' = ''*''"
  by code_simp

lemma map_methods_ok: "map_methods c target ns ms = Inr ms' \<Longrightarrow> mapping_ok ms \<Longrightarrow> mapping_ok ms'"
proof (induction c target ns ms rule: map_methods.induct)
  case (2 c target m rest ms)
  have "mapping_ok (AList.update (to_upper m) target ms)" if "m = ''*'' \<or> to_upper m \<in> set HTTPMETHOD"
    using 2(3) that star_upper by (auto simp: mapping_ok_def dom_map_of_conv_image_fst [symmetric] update_conv')
  with 2 show ?case by (auto split: if_splits)
qed simp

lemma map_parts_ok: "map_parts c vs ms = Inr ms' \<Longrightarrow> mapping_ok ms \<Longrightarrow> mapping_ok ms'"
  by (induction c vs ms rule: map_parts.induct) (auto simp: res_bind_def split: list.splits sum.splits dest: map_methods_ok)

lemma parseMappingMethods_ok: "parseMappingMethods c mapping = Inr ms \<Longrightarrow> mapping_ok ms"
  using map_parts_ok [of c _ "[]" ms] by (auto simp: parseMappingMethods_def mapping_ok_def split: list.splits)

lemma apply_options_ok:
  "apply_options opts r = Inr r' \<Longrightarrow> mapping_ok (methods r) \<Longrightarrow> mapping_ok (methods r') \<and> routerType r' = routerType r"
proof (induction opts arbitrary: r)
  case (Cons opt opts)
  then obtain r1 where r1: "apply_option opt r = Inr r1" "apply_options opts r1 = Inr r'" by (auto simp: res_bind_def split: sum.splits)
  have "mapping_ok (methods r1) \<and> routerType r1 = routerType r"
    using r1(1) Cons.prems(2) by (cases opt) (auto simp: res_bind_def split: sum.splits dest: parseMappingMethods_ok)
  with Cons r1(2) show ?case by auto
qed simp

lemma addRouterForMethod_inv:
  assumes "routes_inv p" "mapping_ok (methods r)" "addRouterForMethod E r p = Inr p'"
    "\<And>f. routerType r = RestfulRoute f \<Longrightarrow> methods r \<noteq> [] \<and> ''*'' \<notin> fst ` set (methods r)"
  shows "routes_inv p' \<and> reg_cfg p' = reg_cfg p"
proof (cases "methods r = []")
  case True
  then show ?thesis using assms by (intro addToRouters_inv [OF assms(1)]) (auto simp: addRouterForMethod_def serves_def split: route_kind.splits)
next
  case False
  let ?ms = "concat (map (\<lambda>(k, v). if k \<noteq> ''*'' then [k] else HTTPMETHOD) (methods r))"
  have "serves m r" if "m \<in> set ?ms" for m
  proof -
    from that obtain x where x: "x \<in> set (methods r)" "m \<in> set ((\<lambda>(k, v). if k \<noteq> ''*'' then [k] else HTTPMETHOD) x)"
      unfolding set_concat set_map by blast
    obtain k v where kv: "(k, v) \<in> set (methods r)" "m \<in> set (if k \<noteq> ''*'' then [k] else HTTPMETHOD)" by (cases x) (use x in simp)
    have k: "k \<in> fst ` set (methods r)" using kv(1) by force
    show ?thesis
    proof (cases "k = ''*''")
      case True
      with kv(2) k assms(4) show ?thesis by (auto simp: serves_def split: route_kind.split)
    next
      case False
      with kv(2) have "m = k" by simp
      moreover have "k \<in> set HTTPMETHOD" using assms(2) k False unfolding mapping_ok_def by blast
      ultimately show ?thesis using k by (auto simp: serves_def split: route_kind.split)
    qed
  qed
  then show ?thesis using assms(3) False by (intro addToRouters_inv [OF assms(1), of ?ms]) (auto simp: addRouterForMethod_def)
qed


lemma mapping_of_method:
  "m \<in> insert ''*'' (set HTTPMETHOD) \<Longrightarrow> mapping_ok (getHttpMethodMapMethod m ct)" "getHttpMethodMapMethod m ct \<noteq> []"
  "''*'' \<notin> fst ` set (getHttpMethodMapMethod m ct)"
proof -
  have star: "''*'' \<notin> set HTTPMETHOD" by (simp add: HTTPMETHOD_def)
  have all: "fst ` set (map (\<lambda>val. (val, f val)) HTTPMETHOD) = set HTTPMETHOD" for f :: "string \<Rightarrow> string" by (simp add: image_image)
  show "m \<in> insert ''*'' (set HTTPMETHOD) \<Longrightarrow> mapping_ok (getHttpMethodMapMethod m ct)"
    using all [of "\<lambda>val. if ct = [] then val else ct"] by (auto simp: getHttpMethodMapMethod_def mapping_ok_def)
  show "getHttpMethodMapMethod m ct \<noteq> []" by (simp add: getHttpMethodMapMethod_def HTTPMETHOD_def)
  show "''*'' \<notin> fst ` set (getHttpMethodMapMethod m ct)"
    using star all [of "\<lambda>val. if ct = [] then val else ct"] by (auto simp: getHttpMethodMapMethod_def)
qed

lemma upper_method: "getUpperMethodString m = Inr m' \<Longrightarrow> m' \<in> insert ''*'' (set HTTPMETHOD)"
  by (auto simp: getUpperMethodString_def Let_def split: if_splits)

lemma AddMethod_inv:
  assumes "routes_inv p" "AddMethod E m pattern f p = Inr p'"
  shows "routes_inv p'"
proof -
  obtain m' where m': "getUpperMethodString m = Inr m'"
    "addRouterForMethod E ((createRestfulRouter (reg_cfg p) f pattern)\<lparr>methods := getHttpMethodMapMethod m' []\<rparr>) p = Inr p'"
    using assms(2) by (auto simp: AddMethod_def res_bind_def split: sum.splits)
  show ?thesis
    using addRouterForMethod_inv [OF assms(1) _ m'(2)] mapping_of_method [of m' "[]"] upper_method [OF m'(1)] by simp
qed

lemma addWithMethodParams_inv:
  fixes p :: "('u, 'f, 'h, 'm) ControllerRegister"
  assumes "routes_inv p" "addWithMethodParams E pattern c mps opts p = Inr p'"
  shows "routes_inv p'"
proof -
  let ?r0 = "(createBeegoRouter (reg_cfg p) c pattern)\<lparr>initialize := True, methodParams := mps\<rparr> :: ('f, 'h, 'm) ControllerInfo"
  obtain r where r: "apply_options opts ?r0 = Inr r" using assms(2) by (auto simp: addWithMethodParams_def res_bind_def split: sum.splits)
  have ok: "mapping_ok (methods r)" "routerType r = BeegoRoute c"
    using apply_options_ok [OF r] by (simp_all add: createBeegoRouter_def mapping_ok_def)
  let ?r1 = "if \<not> SessionOn (reg_cfg p) \<and> sessionOn r then r\<lparr>sessionOn := SessionOn (reg_cfg p)\<rparr> else r"
  have add: "addRouterForMethod E ?r1 p = Inr p'" using assms(2) r by (simp add: addWithMethodParams_def Let_def)
  have "mapping_ok (methods ?r1)" "routerType ?r1 = BeegoRoute c" using ok by simp_all
  then show ?thesis using addRouterForMethod_inv [OF assms(1) _ add] by (metis route_kind.distinct(1))
qed

lemma AddRouterMethod_inv:
  assumes "routes_inv p" "AddRouterMethod E m pattern f p = Inr p'"
  shows "routes_inv p'"
proof -
  obtain m' ct name where m': "getUpperMethodString m = Inr m'" "addBeegoTypeRouter E ct name m' pattern p = Inr p'"
    using assms(2) by (auto simp: AddRouterMethod_def res_bind_def split: sum.splits)
  show ?thesis
    using addRouterForMethod_inv [OF assms(1) _ m'(2) [unfolded addBeegoTypeRouter_def]] mapping_of_method(1) [of m' name] upper_method [OF m'(1)]
    by (simp add: createBeegoRouter_def)
qed

lemma Handler_inv:
  assumes "routes_inv p" "Handler E pattern h opt p = Inr p'"
  shows "routes_inv p'"
  using addToRouters_inv [OF assms(1) _ assms(2) [unfolded Handler_def]] by (simp add: serves_def createHandlerRouter_def)

lemma put_routes_inv:
  "put_all (\<lambda>p pat r. addToRouter E m pat r p) q (map (\<lambda>pat. (pat, r)) pats) = Inr q' \<Longrightarrow> routes_inv q \<Longrightarrow> serves m r \<Longrightarrow> routes_inv q'"
proof (induction pats arbitrary: q)
  case (Cons pat pats)
  then obtain q1 where q1: "addToRouter E m pat r q = Inr q1" "put_all (\<lambda>p pat r. addToRouter E m pat r p) q1 (map (\<lambda>pat. (pat, r)) pats) = Inr q'"
    by (auto simp: res_bind_def split: sum.splits)
  with Cons.IH [OF q1(2)] addToRouter_inv [OF Cons.prems(2,3) q1(1)] Cons.prems(3) show ?case by simp
qed simp

lemma auto_routes_inv:
  assumes "routes_inv p" "\<And>m. m \<in> set ms \<Longrightarrow> serves m r" "auto_routes E sensitive pattern extra r ms p = Inr p'"
  shows "routes_inv p'"
  using assms
proof (induction ms arbitrary: p)
  case (Cons m ms)
  let ?put = "put_all (\<lambda>p pat r. addToRouter E m pat r p)"
  obtain p1 p2 where p1: "addToRouter E m pattern r p = Inr p1" "(if sensitive then ?put p1 (map (\<lambda>pat. (pat, r)) extra) else Inr p1) = Inr p2"
    "auto_routes E sensitive pattern extra r ms p2 = Inr p'" using Cons.prems(3) by (auto simp: res_bind_def split: sum.splits)
  have "routes_inv p1" using addToRouter_inv [OF Cons.prems(1) _ p1(1)] Cons.prems(2) by simp
  with p1(2) put_routes_inv [of E m p1 r extra p2] Cons.prems(2) have "routes_inv p2" by (cases sensitive) simp_all
  from Cons.IH [OF this _ p1(3)] Cons.prems(2) show ?case by simp
qed simp

lemma AddAutoPrefix_inv:
  assumes "routes_inv p" "AddAutoPrefix E except pre c p = Inr p'"
  shows "routes_inv p'"
proof -
  have "auto_methods E except pre name c ms p = Inr p' \<Longrightarrow> routes_inv p \<Longrightarrow> routes_inv p'" for name ms
  proof (induction ms arbitrary: p)
    case (Cons m ms)
    then obtain p1 where p1: "(if m \<in> set except then Inr p else addAutoPrefixMethod E pre name m c p) = Inr p1" "auto_methods E except pre name c ms p1 = Inr p'"
      by (auto simp: res_bind_def split: sum.splits)
    have "routes_inv p1"
    proof (cases "m \<in> set except")
      case False
      with p1(1) have "addAutoPrefixMethod E pre name m c p = Inr p1" by simp
      from auto_routes_inv [OF Cons.prems(2) _ this [unfolded addAutoPrefixMethod_def Let_def]] show ?thesis by (simp add: serves_def createBeegoRouter_def)
    qed (use p1(1) Cons.prems(2) in simp)
    with Cons.IH p1(2) show ?case by blast
  qed simp
  from this [OF assms(2) [unfolded AddAutoPrefix_def] assms(1)] show ?thesis .
qed

lemma include_filters_inv: "include_filters E fs p = Inr p' \<Longrightarrow> routes_inv p \<Longrightarrow> routes_inv p'"
  by (induction E fs p rule: include_filters.induct) (auto simp: routes_inv_def split: sum.splits filter_error.splits)

lemma include_comments_inv: "include_comments E c as p = Inr p' \<Longrightarrow> routes_inv p \<Longrightarrow> routes_inv p'"
proof (induction as arbitrary: p)
  case (Cons a as)
  then obtain p1 p2 where p1: "include_filters E (cc_Filters a) p = Inr p1" "include_comments E c as p2 = Inr p'"
    "addWithMethodParams E (cc_Router a) c (cc_MethodParams a) [WithRouterMethods c [join '','' (cc_AllowHTTPMethods a) @ '':'' @ cc_Method a]] p1 = Inr p2"
    by (auto simp: res_bind_def split: sum.splits)
  have "routes_inv p1" using include_filters_inv [OF p1(1) Cons.prems(2)] .
  then have "routes_inv p2" using addWithMethodParams_inv p1(3) by blast
  with Cons.IH p1(2) show ?case by blast
qed simp

lemma Include_inv: "Include E glob cs p = Inr p' \<Longrightarrow> routes_inv p \<Longrightarrow> routes_inv p'"
proof (induction cs arbitrary: p)
  case (Cons c cs)
  then obtain p1 where p1: "(case glob (ct_pkg c @ '':'' @ ct_name c) of None \<Rightarrow> Inr p | Some comm \<Rightarrow> include_comments E c comm p) = Inr p1" "Include E glob cs p1 = Inr p'"
    by (auto simp: res_bind_def split: sum.splits)
  have "routes_inv p1" using p1(1) Cons.prems(2) include_comments_inv by (auto split: option.splits)
  with Cons.IH p1(2) show ?case by blast
qed simp

text \<open>The operations that register routes.\<close>

datatype ('u, 'f, 'h, 'm) route_op = OpAdd string controller_type "ControllerOption list" | OpMethod string string 'f | OpHandler string 'h "bool option"
  | OpCtrl string string method_expr | OpAuto string controller_type | OpInclude "controller_type list"

fun route_step :: "regexp_engine \<Rightarrow> string list \<Rightarrow> (string \<Rightarrow> ('u, 'm) ControllerComments list option) \<Rightarrow> ('u, 'f, 'h, 'm) route_op
    \<Rightarrow> ('u, 'f, 'h, 'm) ControllerRegister \<Rightarrow> route_panic + ('u, 'f, 'h, 'm) ControllerRegister" where
  "route_step E except glob (OpAdd pattern c opts) p = Add E pattern c opts p"
| "route_step E except glob (OpMethod m pattern f) p = AddMethod E m pattern f p"
| "route_step E except glob (OpHandler pattern h opt) p = Handler E pattern h opt p"
| "route_step E except glob (OpCtrl m pattern f) p = AddRouterMethod E m pattern f p"
| "route_step E except glob (OpAuto pre c) p = AddAutoPrefix E except pre c p"
| "route_step E except glob (OpInclude cs) p = Include E glob cs p"

fun route_steps :: "regexp_engine \<Rightarrow> string list \<Rightarrow> (string \<Rightarrow> ('u, 'm) ControllerComments list option) \<Rightarrow> ('u, 'f, 'h, 'm) route_op list
    \<Rightarrow> ('u, 'f, 'h, 'm) ControllerRegister \<Rightarrow> route_panic + ('u, 'f, 'h, 'm) ControllerRegister" where
  "route_steps E except glob [] p = Inr p"
| "route_steps E except glob (x # xs) p = res_bind (route_step E except glob x p) (route_steps E except glob xs)"

lemma route_step_inv: "route_step E except glob x p = Inr p' \<Longrightarrow> routes_inv p \<Longrightarrow> routes_inv p'"
  by (cases x; simp only: route_step.simps Add_def)
    (rule addWithMethodParams_inv AddMethod_inv Handler_inv AddRouterMethod_inv AddAutoPrefix_inv Include_inv, assumption, assumption)+

lemma route_steps_inv: "route_steps E except glob xs p = Inr p' \<Longrightarrow> routes_inv p \<Longrightarrow> routes_inv p'"
proof (induction xs arbitrary: p)
  case (Cons x xs)
  then obtain p1 where "route_step E except glob x p = Inr p1" "route_steps E except glob xs p1 = Inr p'" by (auto simp: res_bind_def split: sum.splits)
  with Cons route_step_inv show ?case by blast
qed simp

text \<open>C7. After any sequence of registrations, whatever their patterns, a request finds only a route that was registered for its method:
  the method is one of HTTP, a function has it in its mapping, a controller has it or the star or no mapping at all. So the answer 405 for a
  function that does not map the method is never given: a wrong method is answered with 404.\<close>

theorem found_route_serves_method:
  assumes "route_steps E except glob ops (NewControllerRegisterWithCfg cfg) = Inr p" "FindRouter E p ctx = Inr (Some r, ctx')"
  shows "serves (wc_method ctx) r"
proof -
  have inv: "routes_inv p" using route_steps_inv [OF assms(1) routes_inv_empty] .
  obtain t inp where t: "map_of (routers p) (wc_method ctx) = Some t" "Match E t (getUrlPath (RouterCaseSensitive (reg_cfg p)) ctx) (wc_input ctx) = Inr (Some r, inp)"
    using assms(2) by (auto simp: FindRouter_def res_bind_def split: option.splits sum.splits prod.splits)
  from inv t(1) have "\<forall>r \<in> set (composeControllerInfos t). serves (wc_method ctx) r" by (simp add: routes_inv_def)
  with Match_objs [OF t(2)] show ?thesis by blast
qed


theorem found_route_serves_method_witness:
  "\<exists>p r ctx'. AddMethod no_regexps ''get'' ''/a'' (7 :: nat) (NewControllerRegisterWithCfg \<lparr>RouterCaseSensitive = True, SessionOn = False\<rparr>
         :: (unit, nat, unit, unit) ControllerRegister) = Inr p \<and>
     FindRouter no_regexps p \<lparr>wc_input = new_input, wc_method = ''GET'', wc_path = ''/a'', wc_started = False, wc_user = ()\<rparr> = Inr (Some r, ctx') \<and>
     serves ''GET'' r"
proof -
  let ?new = "NewControllerRegisterWithCfg \<lparr>RouterCaseSensitive = True, SessionOn = False\<rparr> :: (unit, nat, unit, unit) ControllerRegister"
  let ?r = "(createRestfulRouter (reg_cfg ?new) 7 ''/a'')\<lparr>methods := [(''GET'', ''GET'')]\<rparr> :: (nat, unit, unit) ControllerInfo"
  let ?c = "\<lparr>wc_input = new_input, wc_method = ''GET'', wc_path = ''/a'', wc_started = False, wc_user = ()\<rparr>"
  have "to_upper ''get'' = ''GET''" by code_simp
  then have up: "getUpperMethodString ''get'' = Inr ''GET''" by (simp add: getUpperMethodString_def HTTPMETHOD_def)
  have segs: "splitPath ''/a'' = [''a'']" "clean_segs ''/a'' = [''a'']" by (simp_all add: splitPath_def clean_segs_def clean_push_def go_eval)
  obtain t where t: "add_static no_regexps NewTree [''a''] ?r = Inr t" "static_tree t" "routes_at t = [[''a''] \<mapsto> ?r]"
    using add_static_spec [OF static_tree_New(1), of "[''a'']" no_regexps ?r] by (auto simp: static_seg_def go_eval)
  let ?reg = "?new\<lparr>routers := [(''GET'', t)]\<rparr>"
  have cfg: "reg_cfg ?new = \<lparr>RouterCaseSensitive = True, SessionOn = False\<rparr>" "routers ?new = []"
    by (simp_all add: NewControllerRegisterWithCfg_def)
  have "addRouterForMethod no_regexps ?r ?new = Inr ?reg"
    using t(1) by (simp add: addRouterForMethod_def addToRouter_def createRestfulRouter_def AddRouter_def add_static_def segs cfg)
  then have add: "AddMethod no_regexps ''get'' ''/a'' 7 ?new = Inr ?reg" by (simp add: AddMethod_def up getHttpMethodMapMethod_def)
  have "Match no_regexps t ''/a'' new_input = Inr (Some ?r, new_input)"
    using Match_static [OF t(2), of no_regexps "''a''" new_input] by (simp add: t(3) segs static_find_def)
  then have find: "FindRouter no_regexps ?reg ?c = Inr (Some ?r, ?c)" by (simp add: FindRouter_def getUrlPath_def cfg)
  have "route_steps no_regexps [] (\<lambda>k. None) [OpMethod ''get'' ''/a'' 7] ?new = Inr ?reg" by (simp add: add)
  from found_route_serves_method [OF this find] have "serves ''GET'' ?r" by simp
  with add find show ?thesis by blast
qed

text \<open>The option of a handler is tested for its type only: false makes it serve the whole subtree as true does.\<close>

lemma handler_option_ignored: "Handler E pattern h (Some b) p = Handler E pattern h (Some c) p"
  by (simp add: Handler_def)

end
