(* ===== verification/Web_Serve.thy ===== *)
theory Web_Serve
  imports Web_Router
begin

text \<open>
  Serving a request (\<^verbatim>\<open>serveHttp\<close> of \<^verbatim>\<open>server/web/router.go\<close>, \<^verbatim>\<open>exception\<close> of \<^verbatim>\<open>error.go\<close>, the response writer of \<^verbatim>\<open>context.go\<close>):
  the filters at their five positions, static files, the body, the session, the route, the policies, and the function, handler or controller. What
  belongs to the application or to the standard library (functions, handlers, methods of controllers, static files, reading the body,
  sessions) is a record of parameters; each may change the context and, where the code lets it, panic. The access log and the statistics are left out;
  a panic is the result, before any recover function of the application.
\<close>

section \<open>The context of a request\<close>

record ('s, 'v) srv =
  out_status :: int   \<comment> \<open>Output.Status\<close>
  wr_status :: int   \<comment> \<open>ResponseWriter.Status\<close>
  input_controller :: "controller_type option"   \<comment> \<open>RunController and RunMethod, set by filters\<close>
  input_method :: string
  cru_session :: "'s option"
  ctx_data :: "(string \<times> string) list"
  app :: 'v

type_synonym ('s, 'v) sctx = "('s, 'v) srv web_ctx"

datatype 'x serve_panic = ServeTree tree_panic | AppPanic 'x

datatype ('s, 'v, 'x) errorInfo = ErrorHandlerInfo "('s, 'v) sctx \<Rightarrow> 'x + ('s, 'v) sctx" | ErrorControllerInfo controller_type string

record serve_cfg =
  MaxUploadSize :: int
  CopyRequestBody :: bool
  MaxMemory :: int
  EnableXSRF :: bool
  AutoRender :: bool

record ('s, 'v, 'f, 'h, 'm, 'r, 'x) serve_env =
  prepare_output :: "('s, 'v) sctx \<Rightarrow> ('s, 'v) sctx"   \<comment> \<open>compression and the Server header\<close>
  static_files :: "('s, 'v) sctx \<Rightarrow> ('s, 'v) sctx"
  is_upload :: "('s, 'v) sctx \<Rightarrow> bool"
  content_length :: "('s, 'v) sctx \<Rightarrow> int"
  limit_body :: "int \<Rightarrow> ('s, 'v) sctx \<Rightarrow> ('s, 'v) sctx"
  copy_body :: "int \<Rightarrow> ('s, 'v) sctx \<Rightarrow> ('s, 'v) sctx"
  parse_form :: "int \<Rightarrow> ('s, 'v) sctx \<Rightarrow> string option \<times> ('s, 'v) sctx"   \<comment> \<open>the text of the error\<close>
  session_start :: "('s, 'v) sctx \<Rightarrow> 's option \<times> ('s, 'v) sctx"
  session_release :: "'s \<Rightarrow> ('s, 'v) sctx \<Rightarrow> ('s, 'v) sctx"
  form_query :: "('s, 'v) sctx \<Rightarrow> string \<Rightarrow> string"
  write_body :: "string \<Rightarrow> ('s, 'v) sctx \<Rightarrow> ('s, 'v) sctx"
  run_function :: "'f \<Rightarrow> ('s, 'v) sctx \<Rightarrow> 'x + ('s, 'v) sctx"
  run_handler :: "'h \<Rightarrow> ('s, 'v) sctx \<Rightarrow> 'x + ('s, 'v) sctx"
  error_maps :: "string \<Rightarrow> ('s, 'v, 'x) errorInfo option"
  c_new :: "bool \<Rightarrow> controller_type \<Rightarrow> ('s, 'v) sctx \<Rightarrow> 'x + ('s, 'v) sctx"   \<comment> \<open>whether by the registered initialize function\<close>
  c_init :: "controller_type \<Rightarrow> string \<Rightarrow> ('s, 'v) sctx \<Rightarrow> 'x + ('s, 'v) sctx"
  c_prepare :: "controller_type \<Rightarrow> ('s, 'v) sctx \<Rightarrow> 'x + ('s, 'v) sctx"
  c_xsrf_token :: "controller_type \<Rightarrow> ('s, 'v) sctx \<Rightarrow> 'x + ('s, 'v) sctx"
  c_check_xsrf :: "controller_type \<Rightarrow> ('s, 'v) sctx \<Rightarrow> 'x + ('s, 'v) sctx"
  c_url_mapping :: "controller_type \<Rightarrow> ('s, 'v) sctx \<Rightarrow> 'x + ('s, 'v) sctx"
  c_verb :: "controller_type \<Rightarrow> string \<Rightarrow> ('s, 'v) sctx \<Rightarrow> 'x + ('s, 'v) sctx"   \<comment> \<open>Get, Post and so on\<close>
  c_handler_func :: "controller_type \<Rightarrow> string \<Rightarrow> ('s, 'v) sctx \<Rightarrow> 'x + bool \<times> ('s, 'v) sctx"
  c_call :: "controller_type \<Rightarrow> string \<Rightarrow> 'm list option \<Rightarrow> ('s, 'v) sctx \<Rightarrow> 'x + 'r option list \<times> ('s, 'v) sctx"   \<comment> \<open>by reflection; a nil interface is None\<close>
  c_render_result :: "'r \<Rightarrow> ('s, 'v) sctx \<Rightarrow> 'x + ('s, 'v) sctx"
  c_render :: "controller_type \<Rightarrow> ('s, 'v) sctx \<Rightarrow> 'x + string option \<times> ('s, 'v) sctx"
  c_finish :: "controller_type \<Rightarrow> ('s, 'v) sctx \<Rightarrow> 'x + ('s, 'v) sctx"
  render_panic :: "string \<Rightarrow> 'x"

definition upd_srv :: "(('s, 'v) srv \<Rightarrow> ('s, 'v) srv) \<Rightarrow> ('s, 'v) sctx \<Rightarrow> ('s, 'v) sctx" where
  "upd_srv g ctx = ctx\<lparr>wc_user := g (wc_user ctx)\<rparr>"

definition SetStatus :: "int \<Rightarrow> ('s, 'v) sctx \<Rightarrow> ('s, 'v) sctx" where
  "SetStatus code = upd_srv (\<lambda>s. s\<lparr>out_status := code\<rparr>)"

definition WriteHeader :: "int \<Rightarrow> ('s, 'v) sctx \<Rightarrow> ('s, 'v) sctx" where
  "WriteHeader code ctx = (if wr_status (wc_user ctx) > 0 then ctx else (upd_srv (\<lambda>s. s\<lparr>wr_status := code\<rparr>) ctx)\<lparr>wc_started := True\<rparr>)"

definition WriteString :: "('s, 'v, 'f, 'h, 'm, 'r, 'x) serve_env \<Rightarrow> string \<Rightarrow> ('s, 'v) sctx \<Rightarrow> ('s, 'v) sctx" where
  "WriteString V content ctx = write_body V content (ctx\<lparr>wc_started := True\<rparr>)"

definition SetData :: "string \<Rightarrow> string \<Rightarrow> ('s, 'v) sctx \<Rightarrow> ('s, 'v) sctx" where
  "SetData k v = upd_srv (\<lambda>s. s\<lparr>ctx_data := AList.update k v (ctx_data s)\<rparr>)"

section \<open>Errors\<close>

definition executeError :: "('s, 'v, 'f, 'h, 'm, 'r, 'x) serve_env \<Rightarrow> serve_cfg \<Rightarrow> ('s, 'v, 'x) errorInfo \<Rightarrow> ('s, 'v) sctx \<Rightarrow> int \<Rightarrow> 'x + ('s, 'v) sctx" where
  "executeError V cfg err ctx code =
     (case err of
        ErrorHandlerInfo h \<Rightarrow> h (WriteHeader code ctx)
      | ErrorControllerInfo ct m \<Rightarrow>
          res_bind (c_new V False ct (SetStatus code ctx)) (\<lambda>ctx.
          res_bind (c_init V ct m ctx) (\<lambda>ctx.
          res_bind (c_prepare V ct ctx) (\<lambda>ctx.
          res_bind (c_url_mapping V ct ctx) (\<lambda>ctx.
          res_bind (c_call V ct m None ctx) (\<lambda>(out, ctx).
          res_bind (if AutoRender cfg
                    then res_bind (c_render V ct ctx) (\<lambda>(e, ctx). case e of Some t \<Rightarrow> Inl (render_panic V t) | None \<Rightarrow> Inr ctx)
                    else Inr ctx)
            (c_finish V ct)))))))"

definition error_code :: "('s, 'v) sctx \<Rightarrow> string \<Rightarrow> int" where
  "error_code ctx code = (case atoi code of (v, None) \<Rightarrow> v | _ \<Rightarrow> if out_status (wc_user ctx) = 0 then 503 else out_status (wc_user ctx))"

fun error_loop :: "('s, 'v, 'f, 'h, 'm, 'r, 'x) serve_env \<Rightarrow> serve_cfg \<Rightarrow> string \<Rightarrow> ('s, 'v) sctx \<Rightarrow> string list \<Rightarrow> 'x + ('s, 'v) sctx" where
  "error_loop V cfg errCode ctx [] = Inr (WriteString V errCode (WriteHeader (error_code ctx errCode) ctx))"
| "error_loop V cfg errCode ctx (ec # ecs) =
     (case error_maps V ec of Some h \<Rightarrow> executeError V cfg h ctx (error_code ctx ec) | None \<Rightarrow> error_loop V cfg errCode ctx ecs)"

definition exception :: "('s, 'v, 'f, 'h, 'm, 'r, 'x) serve_env \<Rightarrow> serve_cfg \<Rightarrow> string \<Rightarrow> ('s, 'v) sctx \<Rightarrow> 'x serve_panic + ('s, 'v) sctx" where
  "exception V cfg errCode ctx = map_sum AppPanic id (error_loop V cfg errCode ctx [errCode, ''503'', ''500''])"

section \<open>The body\<close>

definition str_contains :: "string \<Rightarrow> string \<Rightarrow> bool" where
  "str_contains s sub = list_ex (\<lambda>k. has_prefix (drop k s) sub) [0..<Suc (length s)]"

text \<open>The error code with which the request is answered, if any.\<close>

definition read_body :: "('s, 'v, 'f, 'h, 'm, 'r, 'x) serve_env \<Rightarrow> serve_cfg \<Rightarrow> ('s, 'v) sctx \<Rightarrow> string option \<times> ('s, 'v) sctx" where
  "read_body V cfg ctx =
     (let parse = (\<lambda>ctx. case parse_form V (MaxMemory cfg) ctx of
             (None, ctx) \<Rightarrow> (None, ctx)
           | (Some msg, ctx) \<Rightarrow> (Some (if str_contains msg ''http: request body too large'' then ''413'' else ''500''), ctx)) in
      if wc_method ctx = ''GET'' \<or> wc_method ctx = ''HEAD'' then (None, ctx)
      else if is_upload V ctx then parse (limit_body V (MaxUploadSize cfg) ctx)
      else if CopyRequestBody cfg then
        (if content_length V ctx > MaxMemory cfg then (Some ''413'', ctx) else parse (copy_body V (MaxMemory cfg) ctx))
      else parse (limit_body V (MaxMemory cfg) ctx))"

section \<open>Controllers\<close>

fun render_results :: "('s, 'v, 'f, 'h, 'm, 'r, 'x) serve_env \<Rightarrow> 'r option list \<Rightarrow> ('s, 'v) sctx \<Rightarrow> 'x + ('s, 'v) sctx" where
  "render_results V [] ctx = Inr ctx"
| "render_results V (None # rs) ctx = render_results V rs ctx"
| "render_results V (Some r # rs) ctx = res_bind (c_render_result V r ctx) (render_results V rs)"

definition handleParamResponse :: "('s, 'v, 'f, 'h, 'm, 'r, 'x) serve_env \<Rightarrow> 'r option list \<Rightarrow> ('s, 'v) sctx \<Rightarrow> 'x + ('s, 'v) sctx" where
  "handleParamResponse V results ctx =
     res_bind (render_results V (rev results) ctx) (\<lambda>ctx.
       Inr (if \<not> wc_started ctx \<and> length results > 0 \<and> out_status (wc_user ctx) = 0 then SetStatus 200 ctx else ctx))"

definition controller_main :: "('s, 'v, 'f, 'h, 'm, 'r, 'x) serve_env \<Rightarrow> controller_type \<Rightarrow> string \<Rightarrow> 'm list option \<Rightarrow> ('s, 'v) sctx \<Rightarrow> 'x + ('s, 'v) sctx" where
  "controller_main V ct m mps ctx =
     (if m \<in> {''GET'', ''POST'', ''DELETE'', ''PUT'', ''HEAD'', ''PATCH'', ''OPTIONS'', ''TRACE''} then c_verb V ct m ctx
      else res_bind (c_handler_func V ct m ctx) (\<lambda>(handled, ctx).
        if handled then Inr ctx
        else res_bind (c_call V ct m mps ctx) (\<lambda>(out, ctx). if mps \<noteq> None then handleParamResponse V out ctx else Inr ctx)))"

definition run_controller :: "('s, 'v, 'f, 'h, 'm, 'r, 'x) serve_env \<Rightarrow> serve_cfg \<Rightarrow> bool \<Rightarrow> controller_type \<Rightarrow> string \<Rightarrow> 'm list option
    \<Rightarrow> ('s, 'v) sctx \<Rightarrow> 'x + ('s, 'v) sctx" where
  "run_controller V cfg init ct m mps ctx =
     res_bind (c_new V init ct ctx) (\<lambda>ctx.
     res_bind (c_init V ct m ctx) (\<lambda>ctx.
     res_bind (c_prepare V ct ctx) (\<lambda>ctx.
     res_bind (if EnableXSRF cfg
               then res_bind (c_xsrf_token V ct ctx) (\<lambda>ctx. if wc_method ctx \<in> {''POST'', ''DELETE'', ''PUT''} then c_check_xsrf V ct ctx else Inr ctx)
               else Inr ctx) (\<lambda>ctx.
     res_bind (c_url_mapping V ct ctx) (\<lambda>ctx.
     res_bind (if wc_started ctx then Inr ctx
               else res_bind (controller_main V ct m mps ctx) (\<lambda>ctx.
                 if \<not> wc_started ctx \<and> out_status (wc_user ctx) = 0 \<and> AutoRender cfg
                 then res_bind (c_render V ct ctx) (\<lambda>(e, ctx). Inr ctx) else Inr ctx))
       (c_finish V ct))))))"

text \<open>The method of a controller for a request: a form may ask for PUT or DELETE.\<close>

definition controller_method :: "('s, 'v, 'f, 'h, 'm, 'r, 'x) serve_env \<Rightarrow> ('f, 'h, 'm) ControllerInfo \<Rightarrow> ('s, 'v) sctx \<Rightarrow> string" where
  "controller_method V r ctx =
     (let m = (if wc_method ctx = ''POST'' \<and> form_query V ctx ''_method'' = ''PUT'' then ''PUT''
               else if wc_method ctx = ''POST'' \<and> form_query V ctx ''_method'' = ''DELETE'' then ''DELETE'' else wc_method ctx)
      in case map_of (methods r) m of Some t \<Rightarrow> t | None \<Rightarrow> (case map_of (methods r) ''*'' of Some t \<Rightarrow> t | None \<Rightarrow> m))"

section \<open>The pipeline\<close>

fun splat_params :: "nat \<Rightarrow> string list \<Rightarrow> BeegoInput \<Rightarrow> tree_panic + BeegoInput" where
  "splat_params k [] inp = Inr inp"
| "splat_params k (v # vs) inp = res_bind (set_param inp (utoa k) v) (splat_params (Suc k) vs)"

definition set_splat :: "('s, 'v) sctx \<Rightarrow> tree_panic + ('s, 'v) sctx" where
  "set_splat ctx =
     (case Param (wc_input ctx) '':splat'' of
        Inl e \<Rightarrow> Inl (BadParam e)
      | Inr splat \<Rightarrow> if splat \<noteq> [] then res_bind (splat_params 0 (split splat ''/'') (wc_input ctx)) (\<lambda>inp. Inr (ctx\<lparr>wc_input := inp\<rparr>)) else Inr ctx)"

definition lift_tree :: "tree_panic + 'a \<Rightarrow> 'x serve_panic + 'a" where
  "lift_tree r = map_sum ServeTree id r"

type_synonym ('s, 'v, 'f, 'h, 'm) server = "(('s, 'v) srv, 'f, 'h, 'm) ControllerRegister"

definition filters_at :: "regexp_engine \<Rightarrow> ((string \<times> string) list \<Rightarrow> (string \<times> string) list) \<Rightarrow> ('s, 'v, 'f, 'h, 'm) server \<Rightarrow> string \<Rightarrow> nat
    \<Rightarrow> ('s, 'v) sctx \<Rightarrow> 'x serve_panic + bool \<times> ('s, 'v) sctx" where
  "filters_at E order p urlPath pos ctx =
     (if filters (reg_filters p) pos \<noteq> [] then lift_tree (execFilter E order (filters (reg_filters p) pos) ctx urlPath) else Inr (False, ctx))"

text \<open>What runs for a request; true when the rest of the pipeline is skipped.\<close>

definition dispatch :: "('s, 'v, 'f, 'h, 'm, 'r, 'x) serve_env \<Rightarrow> serve_cfg \<Rightarrow> ('f, 'h, 'm) ControllerInfo option \<Rightarrow> controller_type option \<Rightarrow> string
    \<Rightarrow> ('s, 'v) sctx \<Rightarrow> 'x serve_panic + bool \<times> ('s, 'v) sctx" where
  "dispatch V cfg route runRouter runMethod ctx =
     (let ran = (\<lambda>r. map_sum AppPanic (\<lambda>ctx. (False, ctx)) r) in
      case route of
        Some r \<Rightarrow>
          (case routerType r of
             RestfulRoute f \<Rightarrow>
               if wc_method ctx \<in> fst ` set (methods r) then ran (run_function V f ctx)
               else res_bind (exception V cfg ''405'' ctx) (\<lambda>ctx. Inr (True, ctx))
           | HandlerRoute h \<Rightarrow> ran (run_handler V h ctx)
           | BeegoRoute ct \<Rightarrow> ran (run_controller V cfg (initialize r) ct (controller_method V r ctx) (methodParams r) ctx))
      | None \<Rightarrow> (case runRouter of
             Some ct \<Rightarrow> ran (run_controller V cfg False ct runMethod None ctx)
           | None \<Rightarrow> Inr (False, ctx)))"

definition serve_route :: "('s, 'v, 'f, 'h, 'm, 'r, 'x) serve_env \<Rightarrow> serve_cfg \<Rightarrow> regexp_engine \<Rightarrow> ((string \<times> string) list \<Rightarrow> (string \<times> string) list)
    \<Rightarrow> ('s, 'v, 'f, 'h, 'm) server \<Rightarrow> string \<Rightarrow> ('s, 'v) sctx \<Rightarrow> 'x serve_panic + ('s, 'v) sctx" where
  "serve_route V cfg E order p urlPath ctx =
     res_bind (filters_at E order p urlPath 1 ctx) (\<lambda>(stop, ctx). if stop then Inr ctx else
     let given = (input_controller (wc_user ctx) \<noteq> None \<and> input_method (wc_user ctx) \<noteq> []);
         runRouter = input_controller (wc_user ctx); runMethod = input_method (wc_user ctx) in
     res_bind (if given then Inr (None, ctx) else lift_tree (FindRouter E p ctx)) (\<lambda>(route, ctx).
     if \<not> given \<and> route = None then exception V cfg ''404'' ctx else
     res_bind (lift_tree (set_splat ctx)) (\<lambda>ctx.
     let ctx' = (case route of Some r \<Rightarrow> SetData ''RouterPattern'' (ci_pattern r) ctx | None \<Rightarrow> ctx) in
     res_bind (filters_at E order p urlPath 2 ctx') (\<lambda>(stop, ctx). if stop then Inr ctx else
     res_bind (lift_tree (execPolicy E (RouterCaseSensitive (reg_cfg p)) (reg_policies p) ctx)) (\<lambda>(stop, ctx). if stop then Inr ctx else
     res_bind (dispatch V cfg route runRouter runMethod ctx) (\<lambda>(stop, ctx). if stop then Inr ctx else
     res_bind (filters_at E order p urlPath 3 ctx) (\<lambda>(stop, ctx). if stop then Inr ctx else
     res_bind (filters_at E order p urlPath 4 ctx) (\<lambda>(stop, ctx). Inr ctx))))))))"

definition serve_session :: "('s, 'v, 'f, 'h, 'm, 'r, 'x) serve_env \<Rightarrow> serve_cfg \<Rightarrow> regexp_engine \<Rightarrow> ((string \<times> string) list \<Rightarrow> (string \<times> string) list)
    \<Rightarrow> ('s, 'v, 'f, 'h, 'm) server \<Rightarrow> string \<Rightarrow> ('s, 'v) sctx \<Rightarrow> 'x serve_panic + bool \<times> ('s, 'v) sctx" where
  "serve_session V cfg E order p urlPath ctx =
     res_bind (lift_tree (FindRouter E p ctx)) (\<lambda>(route, ctx).
       if (case route of Some r \<Rightarrow> sessionOn r | None \<Rightarrow> SessionOn (reg_cfg p)) then
         (case session_start V ctx of
            (None, ctx) \<Rightarrow> res_bind (exception V cfg ''503'' (upd_srv (\<lambda>s. s\<lparr>cru_session := None\<rparr>) ctx)) (\<lambda>ctx. Inr (False, ctx))
          | (Some ss, ctx) \<Rightarrow> res_bind (serve_route V cfg E order p urlPath (upd_srv (\<lambda>s. s\<lparr>cru_session := Some ss\<rparr>) ctx)) (\<lambda>ctx. Inr (True, ctx)))
       else res_bind (serve_route V cfg E order p urlPath ctx) (\<lambda>ctx. Inr (False, ctx)))"

definition serve_request :: "('s, 'v, 'f, 'h, 'm, 'r, 'x) serve_env \<Rightarrow> serve_cfg \<Rightarrow> regexp_engine \<Rightarrow> ((string \<times> string) list \<Rightarrow> (string \<times> string) list)
    \<Rightarrow> ('s, 'v, 'f, 'h, 'm) server \<Rightarrow> string \<Rightarrow> ('s, 'v) sctx \<Rightarrow> 'x serve_panic + bool \<times> ('s, 'v) sctx" where
  "serve_request V cfg E order p urlPath ctx =
     (let failed = (\<lambda>code ctx. res_bind (exception V cfg code ctx) (\<lambda>ctx. Inr (False, ctx))) in
      if wc_method ctx \<notin> set HTTPMETHOD then failed ''405'' ctx
      else res_bind (filters_at E order p urlPath 0 ctx) (\<lambda>(stop, ctx). if stop then Inr (False, ctx) else
        let ctx = static_files V ctx in
        if wc_started ctx then Inr (False, ctx)
        else case read_body V cfg ctx of
            (Some code, ctx) \<Rightarrow> failed code ctx
          | (None, ctx) \<Rightarrow> serve_session V cfg E order p urlPath ctx))"

definition finish_request :: "('s, 'v, 'f, 'h, 'm, 'r, 'x) serve_env \<Rightarrow> bool \<Rightarrow> ('s, 'v) sctx \<Rightarrow> ('s, 'v) sctx" where
  "finish_request V started ctx =
     (let ctx = (if out_status (wc_user ctx) \<noteq> 0 then WriteHeader (out_status (wc_user ctx)) ctx else ctx)
      in if started then (case cru_session (wc_user ctx) of Some ss \<Rightarrow> session_release V ss ctx | None \<Rightarrow> ctx) else ctx)"

definition serveHttp :: "('s, 'v, 'f, 'h, 'm, 'r, 'x) serve_env \<Rightarrow> serve_cfg \<Rightarrow> regexp_engine \<Rightarrow> ((string \<times> string) list \<Rightarrow> (string \<times> string) list)
    \<Rightarrow> ('s, 'v, 'f, 'h, 'm) server \<Rightarrow> ('s, 'v) sctx \<Rightarrow> 'x serve_panic + ('s, 'v) sctx" where
  "serveHttp V cfg E order p ctx =
     (let ctx = prepare_output V ctx; urlPath = getUrlPath (RouterCaseSensitive (reg_cfg p)) ctx
      in res_bind (serve_request V cfg E order p urlPath ctx) (\<lambda>(started, ctx). Inr (finish_request V started ctx)))"


section \<open>From the server to the pipeline\<close>

text \<open>A context comes from a pool. The fields in which filters name a controller and its method are not reset.\<close>

definition Context_Reset :: "string \<Rightarrow> string \<Rightarrow> ('s, 'v) sctx \<Rightarrow> ('s, 'v) sctx" where
  "Context_Reset m path ctx = \<lparr>wc_input = ResetParams (wc_input ctx), wc_method = m, wc_path = path, wc_started = False,
     wc_user = (wc_user ctx)\<lparr>out_status := 0, wr_status := 0, cru_session := None, ctx_data := []\<rparr>\<rparr>"

text \<open>The filters of a chain: the filter routers of \<^verbatim>\<open>filter.go\<close> around functions that may panic.\<close>

datatype ('u, 'e) ChainRouter = ChainRouter (chainFunc: "'u web_ctx \<Rightarrow> 'e + 'u web_ctx") (chainNext: "('u, 'e) ChainRouter option")
  (chainTree: "bool Tree") (chainReturn: bool) (chainReset: bool)

type_synonym ('s, 'v, 'x) chain_router = "(('s, 'v) srv, 'x serve_panic) ChainRouter"

definition newChainRouter :: "regexp_engine \<Rightarrow> string \<Rightarrow> ('u web_ctx \<Rightarrow> 'e + 'u web_ctx) \<Rightarrow> filter_opt list \<Rightarrow> ('u, 'e) ChainRouter option \<Rightarrow> tree_panic + ('u, 'e) ChainRouter" where
  "newChainRouter E pattern ff opts nx =
     (let fos = fold (\<lambda>opt fos. opt fos) opts \<lparr>fo_returnOnOutput = True, fo_resetParams = False, fo_caseSensitive = False\<rparr>
      in res_bind (AddRouter E NewTree pattern (Some True)) (\<lambda>t. Inr (ChainRouter ff nx t (fo_returnOnOutput fos) (fo_resetParams fos))))"

fun run_chain :: "regexp_engine \<Rightarrow> ((string \<times> string) list \<Rightarrow> (string \<times> string) list) \<Rightarrow> ('s, 'v, 'x) chain_router \<Rightarrow> ('s, 'v) sctx \<Rightarrow> string \<Rightarrow>
    (string \<times> string) list \<Rightarrow> 'x serve_panic + bool \<times> bool \<times> ('s, 'v) sctx" where
  "run_chain E order (ChainRouter ff nx t ret rst) ctx urlPath pre =
     (if ret \<and> wc_started ctx then Inr (True, True, ctx)
      else
        res_bind (if rst then lift_tree (param_entries (wc_input ctx)) else Inr pre) (\<lambda>pre.
        res_bind (lift_tree (ValidRouter E t urlPath ctx)) (\<lambda>(ok, ctx).
          if ok then
            res_bind (ff ctx) (\<lambda>ctx.
            res_bind (if rst then lift_tree (restore_params order pre ctx) else Inr ctx) (\<lambda>ctx. Inr (filter_done ret ctx)))
          else (case nx of
                  Some n \<Rightarrow> run_chain E order n ctx urlPath pre
                | None \<Rightarrow> Inr (filter_done ret ctx)))))"

type_synonym ('s, 'v, 'x) chain_func = "(('s, 'v) sctx \<Rightarrow> 'x serve_panic + ('s, 'v) sctx) \<Rightarrow> ('s, 'v) sctx \<Rightarrow> 'x serve_panic + ('s, 'v) sctx"

definition InsertFilterChain :: "web_cfg \<Rightarrow> string \<Rightarrow> ('s, 'v, 'x) chain_func \<Rightarrow> filter_opt list \<Rightarrow> (string \<times> ('s, 'v, 'x) chain_func \<times> filter_opt list) list
    \<Rightarrow> (string \<times> ('s, 'v, 'x) chain_func \<times> filter_opt list) list" where
  "InsertFilterChain cfg pattern chain opts fcs = fcs @ [(pattern, chain, WithCaseSensitive (RouterCaseSensitive cfg) # opts)]"

text \<open>The last registered chain is wrapped first, so the first one is the outermost.\<close>

fun Init :: "regexp_engine \<Rightarrow> ((string \<times> string) list \<Rightarrow> (string \<times> string) list) \<Rightarrow> web_cfg \<Rightarrow> (string \<times> ('s, 'v, 'x) chain_func \<times> filter_opt list) list
    \<Rightarrow> ('s, 'v, 'x) chain_router \<Rightarrow> tree_panic + ('s, 'v, 'x) chain_router" where
  "Init E order cfg [] root = Inr root"
| "Init E order cfg ((pattern, chain, opts) # fcs) root =
     res_bind (Init E order cfg fcs root) (\<lambda>root.
       newChainRouter E pattern
         (chain (\<lambda>ctx. res_bind (run_chain E order root ctx (getUrlPath (RouterCaseSensitive cfg) ctx) []) (\<lambda>(b, fin, ctx). Inr ctx))) opts (Some root))"

definition chain_root :: "('s, 'v, 'f, 'h, 'm, 'r, 'x) serve_env \<Rightarrow> serve_cfg \<Rightarrow> regexp_engine \<Rightarrow> ((string \<times> string) list \<Rightarrow> (string \<times> string) list)
    \<Rightarrow> ('s, 'v, 'f, 'h, 'm) server \<Rightarrow> tree_panic + ('s, 'v, 'x) chain_router" where
  "chain_root V cfg E order p = newChainRouter E ''/*'' (serveHttp V cfg E order p) [WithCaseSensitive False] None"

definition ServeHTTP :: "('s, 'v, 'f, 'h, 'm, 'r, 'x) serve_env \<Rightarrow> serve_cfg \<Rightarrow> regexp_engine \<Rightarrow> ((string \<times> string) list \<Rightarrow> (string \<times> string) list)
    \<Rightarrow> (string \<times> ('s, 'v, 'x) chain_func \<times> filter_opt list) list \<Rightarrow> ('s, 'v, 'f, 'h, 'm) server \<Rightarrow> string \<Rightarrow> string \<Rightarrow> ('s, 'v) sctx \<Rightarrow> 'x serve_panic + ('s, 'v) sctx" where
  "ServeHTTP V cfg E order fcs p m path pooled =
     (let ctx = Context_Reset m path pooled in
      res_bind (lift_tree (res_bind (chain_root V cfg E order p) (Init E order (reg_cfg p) fcs))) (\<lambda>root.
      res_bind (run_chain E order root ctx (getUrlPath (RouterCaseSensitive (reg_cfg p)) ctx) []) (\<lambda>(b, fin, ctx). Inr ctx)))"

text \<open>The root of the chain matches every rooted path and leaves the path in the parameter of the star.\<close>

definition root_tree :: "bool Tree" where
  "root_tree = Tree [] [] (Some (Tree [] [] None [\<lparr>wildcards = ['':splat''], regexps = None, runObject = Some True\<rparr>])) []"

lemma root_AddRouter: "AddRouter E NewTree ''/*'' (Some True) = Inr root_tree"
proof -
  have "splitPath ''/*'' = [''*'']" by (simp add: splitPath_def go_eval)
  moreover have "splitSegment ''*'' = (True, ['':splat''], [])" by (simp add: splitSegment_def has_prefix_def)
  ultimately show ?thesis by (simp add: AddRouter_def wild_segment_def newLeaf_def NewTree_def root_tree_def)
qed

lemma root_Match:
  "Match E root_tree (CHR ''/'' # url) inp = res_bind (set_param inp '':splat'' (tl (path_Clean (CHR ''/'' # url)))) (\<lambda>inp. Inr (Some True, inp))"
proof -
  let ?w = "Tree [] [] None [\<lparr>wildcards = ['':splat''], regexps = None, runObject = Some True\<rparr>] :: bool Tree"
  have leaf: "match_leaves E [\<lparr>wildcards = ['':splat''], regexps = None, runObject = Some True\<rparr>] tp vals inp =
      res_bind (set_param inp '':splat'' tp) (\<lambda>inp. Inr (Some \<lparr>wildcards = ['':splat''], regexps = None, runObject = Some True\<rparr>, inp))" for tp vals
    by (simp add: leaf_match_def res_bind_def split: sum.splits)
  have ext: "match_ext E strs [] seg tp pat vals r inp = Inr (r, inp)" for strs seg tp pat vals r
    by (induction strs) auto
  have w: "tree_match E ?w tp pat vals inp = res_bind (set_param inp '':splat'' tp) (\<lambda>inp. Inr (Some True, inp))" for tp pat vals
    by (cases "set_param inp '':splat'' tp") (simp_all add: Let_def leaf ext del: match_leaves.simps)
  obtain q where q: "path_Clean (CHR ''/'' # url) = CHR ''/'' # q" by (simp add: path_Clean_def Let_def)
  show ?thesis
    by (cases "set_param inp '':splat'' q") (simp_all add: Match_def q root_tree_def Let_def leaf ext w del: match_leaves.simps(2))
qed

section \<open>Functions on fixed routes\<close>

text \<open>The register as a store of routes by method and segments.\<close>

definition route_at :: "('u, 'f, 'h, 'm) ControllerRegister \<Rightarrow> string \<times> string list \<Rightarrow> ('f, 'h, 'm) ControllerInfo option" where
  "route_at p = (\<lambda>(m, segs). case map_of (routers p) m of Some t \<Rightarrow> routes_at t segs | None \<Rightarrow> None)"

definition route_put :: "regexp_engine \<Rightarrow> ('u, 'f, 'h, 'm) ControllerRegister \<Rightarrow> string \<times> string list \<Rightarrow> ('f, 'h, 'm) ControllerInfo
    \<Rightarrow> route_panic + ('u, 'f, 'h, 'm) ControllerRegister" where
  "route_put E p = (\<lambda>(m, segs) r.
     let t = (case map_of (routers p) m of Some t \<Rightarrow> t | None \<Rightarrow> NewTree)
     in case add_static E t segs r of Inl e \<Rightarrow> Inl (RouteTree e) | Inr t \<Rightarrow> Inr (p\<lparr>routers := AList.update m t (routers p)\<rparr>))"

definition static_inv :: "('u, 'f, 'h, 'm) ControllerRegister \<Rightarrow> bool" where
  "static_inv p \<longleftrightarrow> (\<forall>m t. map_of (routers p) m = Some t \<longrightarrow> static_tree t)"

lemma route_put_spec:
  assumes "static_inv p" "list_all static_seg segs"
  shows "\<exists>p'. route_put E p (m, segs) r = Inr p' \<and> static_inv p' \<and> (\<forall>k. route_at p' k = (if k = (m, segs) then Some r else route_at p k))"
proof -
  let ?t = "case map_of (routers p) m of Some t \<Rightarrow> t | None \<Rightarrow> NewTree"
  have st: "static_tree ?t" using assms(1) by (auto simp: static_inv_def split: option.split)
  obtain t' where t': "add_static E ?t segs r = Inr t'" "static_tree t'" "routes_at t' = (routes_at ?t)(segs \<mapsto> r)"
    using add_static_spec [OF st assms(2), of E r] by blast
  let ?p = "p\<lparr>routers := AList.update m t' (routers p)\<rparr>"
  have "route_put E p (m, segs) r = Inr ?p" by (simp add: route_put_def t'(1))
  moreover have "static_inv ?p" using assms(1) t'(2) by (auto simp: static_inv_def update_conv' split: if_splits)
  moreover have "route_at ?p k = (if k = (m, segs) then Some r else route_at p k)" for k
    by (cases k) (auto simp: route_at_def update_conv' t'(3) split: option.splits)
  ultimately show ?thesis by blast
qed

interpretation route_store: kv_store route_at "route_put E" Some static_inv "\<lambda>(m, segs). list_all static_seg segs" for E
proof unfold_locales
  fix s :: "('u, 'f, 'h, 'm) ControllerRegister" and k :: "string \<times> string list" and v
  assume s: "static_inv s" "case k of (m, segs) \<Rightarrow> list_all static_seg segs"
  obtain m segs where k: "k = (m, segs)" by (cases k)
  have "list_all static_seg segs" using s(2) k by simp
  from route_put_spec [OF s(1) this, of E m v] obtain p' where
    p': "route_put E s k v = Inr p'" "static_inv p'" "\<And>k'. route_at p' k' = (if k' = k then Some v else route_at s k')"
    unfolding k by blast
  then show "\<exists>s'. route_put E s k v = Inr s' \<and> static_inv s'" by blast
  fix s' assume "route_put E s k v = Inr s'"
  with p' have r: "route_at s' k' = (if k' = k then Some v else route_at s k')" for k' by simp
  show "route_at s' k = Some v" by (simp add: r)
  show "route_at s' k' = route_at s k'" if "k' \<noteq> k" for k' using that by (simp add: r)
qed

definition route_segs :: "web_cfg \<Rightarrow> string \<Rightarrow> string list" where
  "route_segs cfg pattern = splitPath (if \<not> RouterCaseSensitive cfg then to_lower pattern else pattern)"

lemma addToRouter_put: "addToRouter E m pattern r p = route_put E p (m, route_segs (reg_cfg p) pattern) r"
  by (simp add: addToRouter_def route_put_def add_static_def AddRouter_def route_segs_def Let_def)

lemma route_put_cfg: "route_put E p k r = Inr p' \<Longrightarrow> reg_cfg p' = reg_cfg p \<and> reg_filters p' = reg_filters p \<and> reg_policies p' = reg_policies p"
  by (cases k) (auto simp: route_put_def Let_def split: sum.splits)

lemma addToRouters_put:
  "addToRouters E ms pattern r p = put_all (route_put E) p (map (\<lambda>m. ((m, route_segs (reg_cfg p) pattern), r)) ms)"
proof (induction ms arbitrary: p)
  case (Cons m ms)
  show ?case
  proof (cases "route_put E p (m, route_segs (reg_cfg p) pattern) r")
    case (Inr p1)
    with route_put_cfg [OF Inr] Cons.IH [of p1] show ?thesis by (simp add: addToRouter_put)
  qed (simp add: addToRouter_put)
qed simp

text \<open>A registered function: its method (or the star), its pattern and the function, and the routes that it stands for.\<close>

definition function_route :: "web_cfg \<Rightarrow> string \<Rightarrow> string \<Rightarrow> 'f \<Rightarrow> ('f, 'h, 'm) ControllerInfo" where
  "function_route cfg m pattern f = (createRestfulRouter cfg f pattern)\<lparr>methods := getHttpMethodMapMethod m []\<rparr>"

definition function_routes :: "web_cfg \<Rightarrow> string \<times> string \<times> 'f \<Rightarrow> ((string \<times> string list) \<times> ('f, 'h, 'm) ControllerInfo) list" where
  "function_routes cfg = (\<lambda>(m, pattern, f). map (\<lambda>k. ((k, route_segs cfg pattern), function_route cfg (to_upper m) pattern f))
     (if to_upper m = ''*'' then HTTPMETHOD else [to_upper m]))"

fun add_functions :: "regexp_engine \<Rightarrow> (string \<times> string \<times> 'f) list \<Rightarrow> ('u, 'f, 'h, 'm) ControllerRegister \<Rightarrow> route_panic + ('u, 'f, 'h, 'm) ControllerRegister" where
  "add_functions E [] p = Inr p"
| "add_functions E ((m, pattern, f) # fs) p = res_bind (AddMethod E m pattern f p) (add_functions E fs)"

lemma AddMethod_put:
  assumes "to_upper m \<in> insert ''*'' (set HTTPMETHOD)"
  shows "AddMethod E m pattern f p = put_all (route_put E) p (function_routes (reg_cfg p) (m, pattern, f))"
proof -
  let ?m = "to_upper m" and ?r = "function_route (reg_cfg p) (to_upper m) pattern f"
  have g: "getUpperMethodString m = Inr ?m" using assms by (auto simp: getUpperMethodString_def Let_def)
  have star: "''*'' \<notin> set HTTPMETHOD" by (simp add: HTTPMETHOD_def)
  have ids: "(\<forall>x \<in> set xs. fst x \<noteq> ''*'') \<Longrightarrow> concat (map (\<lambda>(k, v). if k \<noteq> ''*'' then [k] else HTTPMETHOD) xs) = map fst xs" for xs :: "(string \<times> string) list"
    by (induction xs) auto
  have ks: "concat (map (\<lambda>(k, v). if k \<noteq> ''*'' then [k] else HTTPMETHOD) (methods ?r)) = (if ?m = ''*'' then HTTPMETHOD else [?m])"
  proof -
    have "\<forall>x \<in> set (getHttpMethodMapMethod ?m []). fst x \<noteq> ''*''" using mapping_of_method(3) [of ?m "[]"] by force
    from ids [OF this] show ?thesis by (auto simp: function_route_def getHttpMethodMapMethod_def comp_def)
  qed
  have pat: "ci_pattern ?r = pattern" by (simp add: function_route_def createRestfulRouter_def)
  have ne: "methods ?r \<noteq> []" using mapping_of_method(2) [of ?m "[]"] by (simp add: function_route_def)
  have "AddMethod E m pattern f p = addRouterForMethod E ?r p" by (simp add: AddMethod_def g function_route_def)
  also have "\<dots> = addToRouters E (if ?m = ''*'' then HTTPMETHOD else [?m]) pattern ?r p"
    by (simp only: addRouterForMethod_def ne ks pat if_False)
  finally show ?thesis by (simp add: addToRouters_put function_routes_def)
qed

lemma put_all_cfg: "put_all (route_put E) p kvs = Inr p' \<Longrightarrow> reg_cfg p' = reg_cfg p \<and> reg_filters p' = reg_filters p \<and> reg_policies p' = reg_policies p"
proof (induction kvs arbitrary: p)
  case (Cons kv kvs)
  obtain k v where kv: "kv = (k, v)" by (cases kv)
  with Cons.prems obtain p1 where "route_put E p k v = Inr p1" "put_all (route_put E) p1 kvs = Inr p'" by (auto simp: res_bind_def split: sum.splits)
  with Cons.IH [of p1] route_put_cfg [of E p k v p1] show ?case by simp
qed simp

lemma add_functions_put:
  assumes "list_all (\<lambda>(m, pattern, f). to_upper m \<in> insert ''*'' (set HTTPMETHOD)) fs"
  shows "add_functions E fs p = put_all (route_put E) p (concat (map (function_routes (reg_cfg p)) fs))"
  using assms
proof (induction fs arbitrary: p)
  case (Cons x fs)
  obtain m pattern f where x: "x = (m, pattern, f)" by (cases x)
  have a: "AddMethod E m pattern f p = put_all (route_put E) p (function_routes (reg_cfg p) x)" using Cons.prems by (simp add: x AddMethod_put)
  show ?case
  proof (cases "put_all (route_put E) p (function_routes (reg_cfg p) x)")
    case (Inr p1)
    with put_all_cfg [OF Inr] Cons.IH [of p1] Cons.prems a show ?thesis by (simp add: x put_all_append)
  qed (simp add: x a put_all_append)
qed simp


text \<open>The answer of a table of fixed routes: the path itself, else the path without a known suffix, which becomes a parameter.\<close>

definition static_route :: "(string list \<Rightarrow> 'a option) \<Rightarrow> string list \<Rightarrow> 'a option" where
  "static_route m segs =
     (case m segs of
        Some r \<Rightarrow> Some r
      | None \<Rightarrow> if segs = [] then None else (case ext_split (last segs) of None \<Rightarrow> None | Some (base, ext) \<Rightarrow> m (butlast segs @ [base])))"

lemma static_find_params:
  assumes "params_inv inp"
  shows "\<exists>inp'. static_find m segs inp = Inr (static_route m segs, inp') \<and> params_inv inp' \<and> (\<forall>k. k \<noteq> '':ext'' \<longrightarrow> Param inp' k = Param inp k)"
proof -
  obtain inp' where i: "SetParam inp '':ext'' e = Inr (inp' e)" "params_inv (inp' e)" "k \<noteq> '':ext'' \<Longrightarrow> Param (inp' e) k = Param inp k" for e k
    using input_params.put_ok [OF assms] input_params.get_put_other [OF assms] by metis
  show ?thesis
  proof (cases "m segs = None \<and> segs \<noteq> []")
    case True
    then show ?thesis using assms i by (auto simp: static_find_def static_route_def set_param_def split: option.split)
  next
    case False
    then show ?thesis using assms by (cases "m segs") (auto simp: static_find_def static_route_def)
  qed
qed

lemma static_route_map: "static_route (\<lambda>s. map_option g (m s)) segs = map_option g (static_route m segs)"
  by (auto simp: static_route_def split: option.split)

lemma static_route_Some: "static_route m segs = Some r \<Longrightarrow> \<exists>s. m s = Some r"
  by (auto simp: static_route_def split: option.splits if_splits)

text \<open>The table of the registered functions: later registrations come first.\<close>

definition function_entries :: "web_cfg \<Rightarrow> string \<times> string \<times> 'f \<Rightarrow> ((string \<times> string list) \<times> string \<times> string \<times> 'f) list" where
  "function_entries cfg = (\<lambda>(m, pattern, f). map (\<lambda>k. ((k, route_segs cfg pattern), (to_upper m, pattern, f))) (if to_upper m = ''*'' then HTTPMETHOD else [to_upper m]))"

definition function_table :: "web_cfg \<Rightarrow> (string \<times> string \<times> 'f) list \<Rightarrow> string \<Rightarrow> string list \<Rightarrow> (string \<times> string \<times> 'f) option" where
  "function_table cfg fs m segs = map_of (rev (concat (map (function_entries cfg) fs))) (m, segs)"

lemma function_routes_entries:
  "concat (map (function_routes cfg) fs) = map (\<lambda>(k, (m, pattern, f)). (k, function_route cfg m pattern f)) (concat (map (function_entries cfg) fs))"
  by (induction fs) (auto simp: function_routes_def function_entries_def)

lemma function_routes_table:
  fixes fs :: "(string \<times> string \<times> 'f) list"
  shows "map_of (rev (concat (map (function_routes cfg) fs))) (m, s) =
    map_option (\<lambda>(m, pattern, f). function_route cfg m pattern f :: ('f, 'h, 'm) ControllerInfo) (function_table cfg fs m s)"
proof -
  let ?g = "\<lambda>(m, pattern, f). function_route cfg m pattern f :: ('f, 'h, 'm) ControllerInfo"
  have "rev (concat (map (function_routes cfg) fs)) = map (\<lambda>(k, v). (k, ?g v)) (rev (concat (map (function_entries cfg) fs)))"
    unfolding function_routes_entries rev_map by (rule map_cong) auto
  then show ?thesis unfolding function_table_def by (simp only: map_of_map comp_apply)
qed

lemma function_table_serves:
  assumes "list_all (\<lambda>(m, pattern, f). to_upper m \<in> insert ''*'' (set HTTPMETHOD)) fs" "function_table cfg fs m segs = Some (mu, pattern, f)"
  shows "m \<in> fst ` set (methods (function_route cfg mu pattern f))"
proof -
  have "((m, segs), (mu, pattern, f)) \<in> set (concat (map (function_entries cfg) fs))"
    using map_of_SomeD [OF assms(2) [unfolded function_table_def]] by simp
  then have "m = mu \<and> mu \<noteq> ''*'' \<or> mu = ''*'' \<and> m \<in> set HTTPMETHOD" by (auto simp: function_entries_def split: if_splits)
  then show ?thesis by (auto simp: function_route_def getHttpMethodMapMethod_def image_image)
qed

lemma new_register: "reg_cfg (NewControllerRegisterWithCfg cfg) = cfg" "filters (reg_filters (NewControllerRegisterWithCfg cfg)) = (\<lambda>pos. [])"
  "\<not> enablePolicy (reg_policies (NewControllerRegisterWithCfg cfg))"
  by (simp_all add: NewControllerRegisterWithCfg_def)

lemma function_register:
  fixes fs :: "(string \<times> string \<times> 'f) list"
  assumes "list_all (\<lambda>(m, pattern, f). to_upper m \<in> insert ''*'' (set HTTPMETHOD) \<and> list_all static_seg (route_segs cfg pattern)) fs"
  shows "\<exists>p :: ('u, 'f, 'h, 'm) ControllerRegister. add_functions E fs (NewControllerRegisterWithCfg cfg) = Inr p \<and> static_inv p \<and> reg_cfg p = cfg \<and> filters (reg_filters p) = (\<lambda>pos. []) \<and>
    \<not> enablePolicy (reg_policies p) \<and> (\<forall>m s. route_at p (m, s) = map_option (\<lambda>(mu, pattern, f). function_route cfg mu pattern f) (function_table cfg fs m s))"
proof -
  let ?p0 = "NewControllerRegisterWithCfg cfg :: ('u, 'f, 'h, 'm) ControllerRegister"
  let ?kvs = "concat (map (function_routes cfg) fs) :: ((string \<times> string list) \<times> ('f, 'h, 'm) ControllerInfo) list"
  have p0: "static_inv ?p0" "reg_cfg ?p0 = cfg" "route_at ?p0 k = None" for k
    by (simp_all add: static_inv_def NewControllerRegisterWithCfg_def route_at_def split: prod.split)
  have "list_all (\<lambda>(m, pattern, f). to_upper m \<in> insert ''*'' (set HTTPMETHOD)) fs" using assms by (auto simp: list_all_iff)
  then have eq: "add_functions E fs ?p0 = put_all (route_put E) ?p0 ?kvs" using add_functions_put [of fs E ?p0] by (simp add: new_register)
  have "list_all (\<lambda>(k, v). case k of (m, segs) \<Rightarrow> list_all static_seg segs) ?kvs"
    using assms by (auto simp: list_all_iff function_routes_def split: if_splits)
  from route_store.put_all_ok [OF p0(1) this, of E] obtain p where
    p: "put_all (route_put E) ?p0 ?kvs = Inr p" "static_inv p" "\<And>k. route_at p k = (case map_of (rev ?kvs) k of Some v \<Rightarrow> Some v | None \<Rightarrow> route_at ?p0 k)" by blast
  have "route_at p k = map_of (rev ?kvs) k" for k by (simp add: p(3) p0(3) split: option.split)
  then have "route_at p (m, s) = map_option (\<lambda>(mu, pattern, f). function_route cfg mu pattern f) (function_table cfg fs m s)" for m s
    by (simp only: function_routes_table)
  moreover have "reg_cfg p = cfg \<and> filters (reg_filters p) = (\<lambda>pos. []) \<and> \<not> enablePolicy (reg_policies p)"
    using put_all_cfg [OF p(1)] by (simp add: new_register)
  ultimately show ?thesis using eq p(1,2) by auto
qed

lemma FindRouter_static:
  assumes "static_inv p" "getUrlPath (RouterCaseSensitive (reg_cfg p)) ctx = CHR ''/'' # url"
  shows "FindRouter E p ctx = res_bind (static_find (\<lambda>s. route_at p (wc_method ctx, s)) (clean_segs (CHR ''/'' # url)) (wc_input ctx))
     (\<lambda>(r, inp). Inr (r, ctx\<lparr>wc_input := inp\<rparr>))"
proof (cases "map_of (routers p) (wc_method ctx)")
  case None
  then have "(\<lambda>s. route_at p (wc_method ctx, s)) = (\<lambda>_. None)" by (simp add: route_at_def)
  with None show ?thesis by (simp add: FindRouter_def static_find_none)
next
  case (Some t)
  then have "static_tree t" "(\<lambda>s. route_at p (wc_method ctx, s)) = routes_at t" using assms(1) by (auto simp: static_inv_def route_at_def)
  with Some assms(2) show ?thesis by (simp add: FindRouter_def Match_static)
qed




text \<open>Storing the parts of the splat succeeds and keeps the named parameters.\<close>

lemma utoa_not_splat: "utoa k \<noteq> '':splat''"
proof
  assume "utoa k = '':splat''"
  then have "CHR '':'' \<in> set (utoa k)" by simp
  then obtain d where "d < 10" "digit_char d = CHR '':''" using utoa_digits [of "CHR '':''" k] by fastforce
  then have "digit_val (CHR '':'') = Some d" using digit_val_digit_char [of d] by simp
  moreover have "digit_val (CHR '':'') = None" by code_simp
  ultimately show False by simp
qed

lemma splat_params_ok:
  assumes "params_inv inp"
  shows "\<exists>inp'. splat_params k vs inp = Inr inp' \<and> params_inv inp' \<and> Param inp' '':splat'' = Param inp '':splat''"
  using assms
proof (induction vs arbitrary: k inp)
  case (Cons v vs)
  obtain inp1 where i: "SetParam inp (utoa k) v = Inr inp1" "params_inv inp1" "Param inp1 '':splat'' = Param inp '':splat''"
    using input_params.put_obtain [OF Cons.prems, of "utoa k" v] utoa_not_splat [of k] by metis
  from Cons.IH [OF i(2), of "Suc k"] i show ?case by (auto simp: set_param_def)
qed simp

lemma set_splat_ok:
  assumes "params_inv (wc_input x)" "Param (wc_input x) '':splat'' = Inr sp"
  shows "\<exists>inp'. set_splat x = Inr (x\<lparr>wc_input := inp'\<rparr>) \<and> params_inv inp' \<and> Param inp' '':splat'' = Inr sp"
proof (cases "sp = []")
  case True
  with assms have "set_splat x = Inr (x\<lparr>wc_input := wc_input x\<rparr>)" by (simp add: set_splat_def)
  with assms show ?thesis by blast
next
  case False
  then show ?thesis using splat_params_ok [OF assms(1), of 0 "split sp ''/''"] assms by (auto simp: set_splat_def)
qed


text \<open>The context with which the root of the filter chain starts the pipeline.\<close>

definition start_context :: "string \<Rightarrow> string \<Rightarrow> string \<Rightarrow> ('s, 'v) sctx \<Rightarrow> ('s, 'v) sctx" where
  "start_context m path url pooled =
     (Context_Reset m path pooled)\<lparr>wc_input := \<lparr>pnames = ['':splat''], pvalues = [tl (path_Clean (CHR ''/'' # url))]\<rparr>\<rparr>"

text \<open>C3. A server of functions on fixed routes answers like a table. After any list of registrations of functions (for one method or for
  all), a request with a method of HTTP and a rooted path whose body can be read, without sessions, filters, policies and filter chains, on any context of the pool
  in which no filter has left a controller, runs exactly the function last registered for the method and the cleaned path (else for the path without a
  known suffix), once, with the pattern of its route in the context; without such a function the error 404 is raised; then the status is written. Registration never
  panics. The parameters always hold the path as the star, since the root of the filter chain matches every path.\<close>

theorem functions_refine_table:
  fixes fs :: "(string \<times> string \<times> 'f) list" and V :: "('s, 'v, 'f, 'h, 'm, 'r, 'x) serve_env"
  assumes "list_all (\<lambda>(m, pattern, f). to_upper m \<in> insert ''*'' (set HTTPMETHOD) \<and> list_all static_seg (route_segs c pattern)) fs"
    "\<not> SessionOn c" "m \<in> set HTTPMETHOD" "(if RouterCaseSensitive c then path else to_lower path) = CHR ''/'' # url" "input_controller (wc_user pooled) = None"
    "prepare_output V (start_context m path url pooled) = start_context m path url pooled" "static_files V (start_context m path url pooled) = start_context m path url pooled"
    "read_body V cfg (start_context m path url pooled) = (None, start_context m path url pooled)"
  shows "\<exists>p inp. add_functions E fs (NewControllerRegisterWithCfg c) = Inr p \<and> params_inv inp \<and> Param inp '':splat'' = Inr (tl (path_Clean (CHR ''/'' # url))) \<and>
    ServeHTTP V cfg E order [] p m path pooled =
    (let ctx = (Context_Reset m path pooled)\<lparr>wc_input := inp\<rparr> in
     case static_route (function_table c fs m) (clean_segs (CHR ''/'' # url)) of
       None \<Rightarrow> map_sum id (finish_request V False) (exception V cfg ''404'' ctx)
     | Some (k, pattern, f) \<Rightarrow> map_sum AppPanic (finish_request V False) (run_function V f (SetData ''RouterPattern'' pattern ctx)))"
proof -
  obtain p :: "('s, 'v, 'f, 'h, 'm) server" where p: "add_functions E fs (NewControllerRegisterWithCfg c) = Inr p" "static_inv p" "reg_cfg p = c" "filters (reg_filters p) = (\<lambda>pos. [])"
    "\<not> enablePolicy (reg_policies p)" "\<And>m s. route_at p (m, s) = map_option (\<lambda>(mu, pattern, f). function_route c mu pattern f) (function_table c fs m s)"
    using function_register [OF assms(1), of E] by blast
  let ?x = "Context_Reset m path pooled" and ?segs = "clean_segs (CHR ''/'' # url)" and ?sp = "tl (path_Clean (CHR ''/'' # url))"
  let ?ctx = "start_context m path url pooled" and ?table = "function_table c fs m"
  let ?g = "\<lambda>(mu, pattern, f). function_route c mu pattern f :: ('f, 'h, 'm) ControllerInfo"
  have x: "wc_method (?x\<lparr>wc_input := i\<rparr>) = m" "wc_path (?x\<lparr>wc_input := i\<rparr>) = path" "\<not> wc_started (?x\<lparr>wc_input := i\<rparr>)"
    "input_controller (wc_user (?x\<lparr>wc_input := i\<rparr>)) = None" "wc_method ?x = m" "\<not> wc_started ?x" "input_controller (wc_user ?x) = None" for i
    by (simp_all add: Context_Reset_def assms(5))
  have ctx: "?ctx = ?x\<lparr>wc_input := \<lparr>pnames = ['':splat''], pvalues = [?sp]\<rparr>\<rparr>" by (simp add: start_context_def)
  have url: "getUrlPath (RouterCaseSensitive c) (?x\<lparr>wc_input := i\<rparr>) = CHR ''/'' # url" for i
    using assms(4) by (simp add: getUrlPath_def x split: if_splits)
  have url0: "getUrlPath (RouterCaseSensitive c) ?x = CHR ''/'' # url" using assms(4) by (simp add: getUrlPath_def Context_Reset_def split: if_splits)
  define rt where "rt = map_option ?g (static_route ?table ?segs)"
  have find: "\<exists>i'. FindRouter E p (?x\<lparr>wc_input := i\<rparr>) = Inr (rt, ?x\<lparr>wc_input := i'\<rparr>) \<and> params_inv i' \<and> Param i' '':splat'' = Param i '':splat''"
    if i: "params_inv i" for i
  proof -
    have tab: "(\<lambda>s. route_at p (m, s)) = (\<lambda>s. map_option ?g (?table s))" by (simp only: p(6))
    obtain i' where "static_find (\<lambda>s. map_option ?g (?table s)) ?segs i = Inr (rt, i')" "params_inv i'" "Param i' '':splat'' = Param i '':splat''"
      using static_find_params [OF i, of "\<lambda>s. map_option ?g (?table s)" ?segs] unfolding static_route_map rt_def by force
    with FindRouter_static [OF p(2), of "?x\<lparr>wc_input := i\<rparr>" url E] url p(3) x tab show ?thesis by auto
  qed
  have nofilter: "filters_at E order p u pos y = Inr (False, y)" for u pos y by (simp add: filters_at_def p(4))
  have nopolicy: "lift_tree (execPolicy E sn (reg_policies p) y) = Inr (False, y)" for sn y by (simp add: execPolicy_def p(5) lift_tree_def)
  have off: "\<not> (case rt of Some r \<Rightarrow> sessionOn r | None \<Rightarrow> SessionOn c)"
    using assms(2) by (auto simp: rt_def function_route_def createRestfulRouter_def split: option.split)
  have inv0: "params_inv \<lparr>pnames = ['':splat''], pvalues = [?sp]\<rparr>" "Param \<lparr>pnames = ['':splat''], pvalues = [?sp]\<rparr> '':splat'' = Inr ?sp"
    by (simp_all add: params_inv_def Param_def)
  obtain i1 where i1: "FindRouter E p ?ctx = Inr (rt, ?x\<lparr>wc_input := i1\<rparr>)" "params_inv i1" "Param i1 '':splat'' = Inr ?sp"
    using find [OF inv0(1)] inv0(2) ctx by auto
  obtain i2 where i2: "FindRouter E p (?x\<lparr>wc_input := i1\<rparr>) = Inr (rt, ?x\<lparr>wc_input := i2\<rparr>)" "params_inv i2" "Param i2 '':splat'' = Inr ?sp"
    using find [OF i1(2)] i1(3) by auto
  obtain i3 where i3: "set_splat (?x\<lparr>wc_input := i2\<rparr>) = Inr (?x\<lparr>wc_input := i3\<rparr>)" "params_inv i3" "Param i3 '':splat'' = Inr ?sp"
    using set_splat_ok [of "?x\<lparr>wc_input := i2\<rparr>" ?sp] i2(2,3) by auto
  define inp where "inp = (if rt = None then i2 else i3)"
  let ?res = "\<lambda>fin. case static_route ?table ?segs of
       None \<Rightarrow> map_sum id fin (exception V cfg ''404'' (?x\<lparr>wc_input := inp\<rparr>))
     | Some (k, pattern, f) \<Rightarrow> map_sum AppPanic fin (run_function V f (SetData ''RouterPattern'' pattern (?x\<lparr>wc_input := inp\<rparr>)))"
  have route: "serve_route V cfg E order p (CHR ''/'' # url) (?x\<lparr>wc_input := i1\<rparr>) = ?res id"
  proof (cases "static_route ?table ?segs")
    case None
    then have "rt = None" by (simp add: rt_def)
    with None show ?thesis unfolding serve_route_def by (simp add: nofilter x i2(1) lift_tree_def inp_def sum.map_id0)
  next
    case (Some y)
    obtain k pattern f where y: "y = (k, pattern, f)" by (cases y)
    let ?r = "function_route c k pattern f :: ('f, 'h, 'm) ControllerInfo"
    have "list_all (\<lambda>(m, pattern, f). to_upper m \<in> insert ''*'' (set HTTPMETHOD)) fs" using assms(1) by (auto simp: list_all_iff)
    from static_route_Some [OF Some] function_table_serves [OF this] y
    have m: "m \<in> fst ` set (methods ?r)" by blast
    have r: "routerType ?r = RestfulRoute f" "ci_pattern ?r = pattern" by (simp_all add: function_route_def createRestfulRouter_def)
    have rt: "rt = Some ?r" using Some y by (simp add: rt_def)
    have d: "dispatch V cfg (Some ?r) rr rm (SetData ''RouterPattern'' pattern (?x\<lparr>wc_input := i\<rparr>)) =
        map_sum AppPanic (\<lambda>ctx. (False, ctx)) (run_function V f (SetData ''RouterPattern'' pattern (?x\<lparr>wc_input := i\<rparr>)))" for rr rm i
      using m x by (simp add: dispatch_def r SetData_def upd_srv_def)
    have lt: "lift_tree (Inr z) = Inr z" for z by (simp add: lift_tree_def)
    have "serve_route V cfg E order p (CHR ''/'' # url) (?x\<lparr>wc_input := i1\<rparr>) =
        map_sum AppPanic id (run_function V f (SetData ''RouterPattern'' pattern (?x\<lparr>wc_input := i3\<rparr>)))"
      unfolding serve_route_def using rt r(2)
      by (cases "run_function V f (SetData ''RouterPattern'' pattern (?x\<lparr>wc_input := i3\<rparr>))") (simp_all add: nofilter nopolicy x i2(1) i3(1) lt d)
    with Some y rt show ?thesis by (simp add: inp_def)
  qed
  have "serve_session V cfg E order p (CHR ''/'' # url) ?ctx = res_bind (?res id) (\<lambda>ctx. Inr (False, ctx))"
    unfolding serve_session_def p(3) using off route by (simp add: i1(1) lift_tree_def)
  moreover have "serveHttp V cfg E order p ?ctx = res_bind (serve_session V cfg E order p (CHR ''/'' # url) ?ctx) (\<lambda>(started, ctx). Inr (finish_request V started ctx))"
    unfolding serveHttp_def serve_request_def p(3) using assms(3,6-8) url x by (simp add: nofilter ctx)
  ultimately have "serveHttp V cfg E order p ?ctx = res_bind (res_bind (?res id) (\<lambda>ctx. Inr (False, ctx))) (\<lambda>(started, ctx). Inr (finish_request V started ctx))"
    by (simp only:)
  also have "\<dots> = map_sum id (finish_request V False) (?res id)" by (cases "?res id") (simp_all only: res_bind_simps map_sum.simps prod.case id_apply)
  also have "\<dots> = ?res (finish_request V False)" by (simp add: sum.map_comp split: option.split prod.split)
  finally have serve: "serveHttp V cfg E order p ?ctx = ?res (finish_request V False)" .
  have root: "chain_root V cfg E order p = Inr (ChainRouter (serveHttp V cfg E order p) None root_tree True False)"
    by (simp add: chain_root_def newChainRouter_def root_AddRouter WithCaseSensitive_def Let_def)
  have "wc_input ?x = \<lparr>pnames = [], pvalues = []\<rparr>" by (simp add: Context_Reset_def ResetParams_def)
  then have valid: "lift_tree (ValidRouter E root_tree (CHR ''/'' # url) ?x) = Inr (True, ?ctx)"
    by (simp add: ValidRouter_def root_Match set_param_def SetParam_def lift_tree_def ctx)
  have "ServeHTTP V cfg E order [] p m path pooled = serveHttp V cfg E order p ?ctx"
    unfolding ServeHTTP_def p(3) Let_def root using x
    by (cases "serveHttp V cfg E order p ?ctx") (simp_all add: lift_tree_def [of "Inr y" for y] url0 filter_done_def valid)
  then have "ServeHTTP V cfg E order [] p m path pooled = ?res (finish_request V False)" using serve by simp
  moreover have "params_inv inp" "Param inp '':splat'' = Inr ?sp" using i2 i3 by (simp_all add: inp_def)
  ultimately show ?thesis using p(1) by (auto simp: Let_def)
qed


text \<open>A server in which functions record that they ran.\<close>

definition plain_env :: "(unit, nat list, nat, unit, unit, unit, unit) serve_env" where
  "plain_env = \<lparr>prepare_output = id, static_files = id, is_upload = (\<lambda>c. False), content_length = (\<lambda>c. 0), limit_body = (\<lambda>n c. c), copy_body = (\<lambda>n c. c),
     parse_form = (\<lambda>n c. (None, c)), session_start = (\<lambda>c. (None, c)), session_release = (\<lambda>s c. c), form_query = (\<lambda>c k. []), write_body = (\<lambda>t c. c),
     run_function = (\<lambda>f c. Inr (upd_srv (\<lambda>s. s\<lparr>app := f # app s\<rparr>) c)), run_handler = (\<lambda>h c. Inr c), error_maps = (\<lambda>e. None), c_new = (\<lambda>i t c. Inr c),
     c_init = (\<lambda>t m c. Inr c), c_prepare = (\<lambda>t c. Inr c), c_xsrf_token = (\<lambda>t c. Inr c), c_check_xsrf = (\<lambda>t c. Inr c), c_url_mapping = (\<lambda>t c. Inr c),
     c_verb = (\<lambda>t m c. Inr c), c_handler_func = (\<lambda>t m c. Inr (True, c)), c_call = (\<lambda>t m ps c. Inr ([], c)), c_render_result = (\<lambda>r c. Inr c),
     c_render = (\<lambda>t c. Inr (None, c)), c_finish = (\<lambda>t c. Inr c), render_panic = (\<lambda>t. ())\<rparr>"

definition plain_cfg :: serve_cfg where
  "plain_cfg = \<lparr>MaxUploadSize = 100, CopyRequestBody = False, MaxMemory = 100, EnableXSRF = False, AutoRender = False\<rparr>"

definition pooled_context :: "(unit, nat list) sctx" where
  "pooled_context = \<lparr>wc_input = new_input, wc_method = [], wc_path = [], wc_started = False,
     wc_user = \<lparr>out_status = 0, wr_status = 0, input_controller = None, input_method = [], cru_session = None, ctx_data = [], app = []\<rparr>\<rparr>"

lemma plain_fields: "prepare_output plain_env = id" "static_files plain_env = id" "is_upload plain_env = (\<lambda>c. False)" "limit_body plain_env = (\<lambda>n c. c)"
  "copy_body plain_env = (\<lambda>n c. c)" "content_length plain_env = (\<lambda>c. 0)" "parse_form plain_env = (\<lambda>n c. (None, c))"
  "run_function plain_env = (\<lambda>f c. Inr (upd_srv (\<lambda>s. s\<lparr>app := f # app s\<rparr>) c))"
  by (simp_all add: plain_env_def)

theorem functions_refine_table_witness:
  "\<exists>p ctx. add_functions no_regexps [(''get'', ''/a'', 7), (''GET'', ''/b'', 8)] (NewControllerRegisterWithCfg \<lparr>RouterCaseSensitive = True, SessionOn = False\<rparr>) = Inr p \<and>
     ServeHTTP plain_env plain_cfg no_regexps id [] p ''GET'' ''/a'' pooled_context = Inr ctx \<and>
     app (wc_user ctx) = [7] \<and> ctx_data (wc_user ctx) = [(''RouterPattern'', ''/a'')]"
proof -
  let ?c = "\<lparr>RouterCaseSensitive = True, SessionOn = False\<rparr>" and ?fs = "[(''get'', ''/a'', 7 :: nat), (''GET'', ''/b'', 8)]"
  have up: "to_upper ''get'' = ''GET''" "to_upper ''GET'' = ''GET''" by code_simp+
  have segs: "route_segs ?c ''/a'' = [''a'']" "route_segs ?c ''/b'' = [''b'']" by (simp_all add: route_segs_def splitPath_def go_eval)
  have st: "static_seg ''a''" "static_seg ''b''" by (simp_all add: static_seg_def go_eval)
  have regs: "list_all (\<lambda>(m, pattern, f). to_upper m \<in> insert ''*'' (set HTTPMETHOD) \<and> list_all static_seg (route_segs ?c pattern)) ?fs"
    by (simp add: up segs HTTPMETHOD_def st)
  have m: "''GET'' \<in> set HTTPMETHOD" by (simp add: HTTPMETHOD_def)
  have env: "prepare_output plain_env x = x" "static_files plain_env x = x" "read_body plain_env plain_cfg x = (None, x)" for x
    by (simp_all add: plain_fields read_body_def Let_def plain_cfg_def)
  have path: "(if RouterCaseSensitive ?c then ''/a'' else to_lower ''/a'') = CHR ''/'' # ''a''" by simp
  from functions_refine_table [OF regs _ m path, of pooled_context plain_env, OF _ _ env, of no_regexps id]
  obtain p inp where p: "add_functions no_regexps ?fs (NewControllerRegisterWithCfg ?c) = Inr p"
    "ServeHTTP plain_env plain_cfg no_regexps id [] p ''GET'' ''/a'' pooled_context =
    (let ctx = (Context_Reset ''GET'' ''/a'' pooled_context)\<lparr>wc_input := inp\<rparr> in
     case static_route (function_table ?c ?fs ''GET'') (clean_segs ''/a'') of
       None \<Rightarrow> map_sum id (finish_request plain_env False) (exception plain_env plain_cfg ''404'' ctx)
     | Some (k, pattern, f) \<Rightarrow> map_sum AppPanic (finish_request plain_env False) (run_function plain_env f (SetData ''RouterPattern'' pattern ctx)))"
    by (auto simp: pooled_context_def)
  have "clean_segs ''/a'' = [''a'']" by (simp add: clean_segs_def clean_push_def go_eval)
  moreover have "function_table ?c ?fs ''GET'' [''a''] = Some (''GET'', ''/a'', 7)"
    by (simp add: function_table_def function_entries_def up segs)
  ultimately have "static_route (function_table ?c ?fs ''GET'') (clean_segs ''/a'') = Some (''GET'', ''/a'', 7)" by (simp add: static_route_def)
  with p show ?thesis by (simp add: Let_def plain_fields finish_request_def SetData_def upd_srv_def Context_Reset_def pooled_context_def)
qed

section \<open>Contexts that keep a controller\<close>

text \<open>A context of the pool in which a filter has named a controller runs that controller for the next request too, whatever its path.\<close>

lemma stale_controller_runs:
  assumes "input_controller (wc_user pooled) = Some ct" "input_method (wc_user pooled) \<noteq> []" "filters (reg_filters p) = (\<lambda>pos. [])" "\<not> enablePolicy (reg_policies p)"
  shows "serve_route V cfg E order p u (Context_Reset m path pooled) =
    map_sum AppPanic id (run_controller V cfg False ct (input_method (wc_user pooled)) None (Context_Reset m path pooled))"
proof -
  let ?x = "Context_Reset m path pooled"
  have x: "input_controller (wc_user ?x) = Some ct" "input_method (wc_user ?x) = input_method (wc_user pooled)" using assms(1) by (simp_all add: Context_Reset_def)
  have f: "filters_at E order p u pos y = Inr (False, y)" for pos y by (simp add: filters_at_def assms(3))
  have pol: "lift_tree (execPolicy E sn (reg_policies p) y) = Inr (False, y)" for sn y by (simp add: execPolicy_def assms(4) lift_tree_def)
  have sp: "lift_tree (set_splat ?x) = Inr ?x" by (simp add: set_splat_def Context_Reset_def ResetParams_def Param_def lift_tree_def)
  show ?thesis unfolding serve_route_def using assms(2)
    by (cases "run_controller V cfg False ct (input_method (wc_user pooled)) None ?x") (simp_all add: f pol sp x dispatch_def)
qed

end
