(* ===== verification/Go_Regexp.thy ===== *)
theory Go_Regexp
  imports Go_Prelude
begin

text \<open>
  The part of Go's package \<^verbatim>\<open>regexp\<close> that the program's own patterns use: character classes,
  concatenation, alternatives, repetition, between the anchors of the whole text. A pattern
  denotes a language; the matcher computes with Brzozowski derivatives and decides it. All
  classes of the modelled patterns are sets of ASCII characters or a complement of one, for which matching
  bytes and matching code points agree.

  A compiled pattern (\<^verbatim>\<open>*regexp.Regexp\<close>) is a record of its source text and of its
  \<^verbatim>\<open>MatchString\<close>, so patterns supplied by a caller are compiled patterns as well.
\<close>

section \<open>Patterns\<close>

datatype pat = Zero | One | Class "(char \<times> char) list" | Alt pat pat | Seq pat pat | Star pat

definition in_class :: "(char \<times> char) list \<Rightarrow> char \<Rightarrow> bool" where
  "in_class rs c \<longleftrightarrow> list_ex (\<lambda>(a, b). (of_char a :: nat) \<le> of_char c \<and> of_char c \<le> (of_char b :: nat)) rs"

definition Opt :: "pat \<Rightarrow> pat" where
  "Opt r = Alt One r"

definition Chr :: "char \<Rightarrow> pat" where
  "Chr c = Class [(c, c)]"

fun Lit :: "string \<Rightarrow> pat" where
  "Lit [] = One"
| "Lit (c # cs) = Seq (Chr c) (Lit cs)"

fun Rep :: "nat \<Rightarrow> pat \<Rightarrow> pat" where
  "Rep 0 r = One"
| "Rep (Suc n) r = Seq r (Rep n r)"

fun Alts :: "pat list \<Rightarrow> pat" where
  "Alts [] = Zero"
| "Alts (r # rs) = Alt r (Alts rs)"

fun Seqs :: "pat list \<Rightarrow> pat" where
  "Seqs [] = One"
| "Seqs (r # rs) = Seq r (Seqs rs)"

definition Plus :: "pat \<Rightarrow> pat" where
  "Plus r = Seq r (Star r)"

section \<open>Language and matcher\<close>

inductive_set star :: "string set \<Rightarrow> string set" for L where
  star_Nil: "[] \<in> star L"
| star_append: "x \<in> L \<Longrightarrow> y \<in> star L \<Longrightarrow> x @ y \<in> star L"

fun lang :: "pat \<Rightarrow> string set" where
  "lang Zero = {}"
| "lang One = {[]}"
| "lang (Class rs) = {[c] | c. in_class rs c}"
| "lang (Alt r s) = lang r \<union> lang s"
| "lang (Seq r s) = {x @ y | x y. x \<in> lang r \<and> y \<in> lang s}"
| "lang (Star r) = star (lang r)"

fun nullable :: "pat \<Rightarrow> bool" where
  "nullable Zero = False"
| "nullable One = True"
| "nullable (Class rs) = False"
| "nullable (Alt r s) = (nullable r \<or> nullable s)"
| "nullable (Seq r s) = (nullable r \<and> nullable s)"
| "nullable (Star r) = True"

fun alt :: "pat \<Rightarrow> pat \<Rightarrow> pat" where
  "alt Zero s = s"
| "alt r Zero = r"
| "alt r s = Alt r s"

fun seq :: "pat \<Rightarrow> pat \<Rightarrow> pat" where
  "seq Zero s = Zero"
| "seq One s = s"
| "seq r s = Seq r s"

fun deriv :: "char \<Rightarrow> pat \<Rightarrow> pat" where
  "deriv c Zero = Zero"
| "deriv c One = Zero"
| "deriv c (Class rs) = (if in_class rs c then One else Zero)"
| "deriv c (Alt r s) = alt (deriv c r) (deriv c s)"
| "deriv c (Seq r s) =
     (if nullable r then alt (seq (deriv c r) s) (deriv c s) else seq (deriv c r) s)"
| "deriv c (Star r) = seq (deriv c r) (Star r)"

fun full_match :: "pat \<Rightarrow> string \<Rightarrow> bool" where
  "full_match r [] = nullable r"
| "full_match r (c # cs) = full_match (deriv c r) cs"

lemma nullable_iff: "nullable r \<longleftrightarrow> [] \<in> lang r"
  by (induction r) (auto intro: star_Nil)

lemma lang_alt [simp]: "lang (alt r s) = lang r \<union> lang s"
  by (induction r s rule: alt.induct) auto

lemma lang_seq [simp]: "lang (seq r s) = lang (Seq r s)"
  by (induction r s rule: seq.induct) auto

lemma star_Cons: "c # cs \<in> star L \<longleftrightarrow> (\<exists>x y. cs = x @ y \<and> c # x \<in> L \<and> y \<in> star L)"
proof
  assume "c # cs \<in> star L"
  then show "\<exists>x y. cs = x @ y \<and> c # x \<in> L \<and> y \<in> star L"
    by (induction "c # cs" arbitrary: cs rule: star.induct) (auto simp: append_eq_Cons_conv)
next
  assume "\<exists>x y. cs = x @ y \<and> c # x \<in> L \<and> y \<in> star L"
  then obtain x y where "cs = x @ y" "c # x \<in> L" "y \<in> star L" by blast
  then show "c # cs \<in> star L" using star_append [of "c # x" L y] by simp
qed

lemma lang_deriv: "cs \<in> lang (deriv c r) \<longleftrightarrow> c # cs \<in> lang r"
proof (induction r arbitrary: cs)
  case (Seq r s)
  have "c # cs \<in> lang (Seq r s) \<longleftrightarrow>
    (\<exists>x y. cs = x @ y \<and> c # x \<in> lang r \<and> y \<in> lang s) \<or> ([] \<in> lang r \<and> c # cs \<in> lang s)"
    by (auto simp: Cons_eq_append_conv)
  moreover have "cs \<in> lang (deriv c (Seq r s)) \<longleftrightarrow>
    (\<exists>x y. cs = x @ y \<and> x \<in> lang (deriv c r) \<and> y \<in> lang s) \<or> ([] \<in> lang r \<and> cs \<in> lang (deriv c s))"
    by (simp add: nullable_iff)
  ultimately show ?case using Seq by simp
next
  case (Star r)
  then show ?case by (simp add: star_Cons)
qed auto

lemma full_match_lang: "full_match r s \<longleftrightarrow> s \<in> lang r"
  by (induction r s rule: full_match.induct) (simp_all add: nullable_iff lang_deriv)

section \<open>Compiled patterns\<close>

record regexp =
  re_String :: string
  MatchString :: "string \<Rightarrow> bool"

text \<open>A pattern between the anchors \<open>^\<close> and \<open>$\<close>, and a search for one character of a complement.\<close>

definition anchored :: "string \<Rightarrow> pat \<Rightarrow> regexp" where
  "anchored src r = \<lparr>re_String = src, MatchString = full_match r\<rparr>"

definition search_outside :: "string \<Rightarrow> (char \<times> char) list \<Rightarrow> regexp" where
  "search_outside src rs = \<lparr>re_String = src, MatchString = list_ex (\<lambda>c. \<not> in_class rs c)\<rparr>"

lemma anchored_match [simp]: "MatchString (anchored src r) s \<longleftrightarrow> s \<in> lang r"
  by (simp add: anchored_def full_match_lang)

subsection \<open>Languages of the derived forms\<close>

lemma lang_Opt [simp]: "s \<in> lang (Opt r) \<longleftrightarrow> s = [] \<or> s \<in> lang r"
  by (simp add: Opt_def)

lemma in_class_single [simp]: "in_class [(a, a)] c \<longleftrightarrow> c = a"
  by (auto simp: in_class_def)

lemma lang_Chr [simp]: "lang (Chr c) = {[c]}"
  by (auto simp: Chr_def)

lemma lang_Lit [simp]: "lang (Lit cs) = {cs}"
  by (induction cs) auto

lemma lang_Alts [simp]: "lang (Alts rs) = (\<Union>r \<in> set rs. lang r)"
  by (induction rs) auto

lemma lang_Seqs: "s \<in> lang (Seqs rs) \<longleftrightarrow> (\<exists>xs. s = concat xs \<and> list_all2 (\<lambda>x r. x \<in> lang r) xs rs)"
proof (induction rs arbitrary: s)
  case (Cons r rs)
  show ?case
  proof
    assume "s \<in> lang (Seqs (r # rs))"
    then obtain x y where "s = x @ y" "x \<in> lang r" "y \<in> lang (Seqs rs)" by auto
    with Cons obtain xs where "y = concat xs" "list_all2 (\<lambda>x r. x \<in> lang r) xs rs" by blast
    with \<open>s = x @ y\<close> \<open>x \<in> lang r\<close> show "\<exists>xs. s = concat xs \<and> list_all2 (\<lambda>x r. x \<in> lang r) xs (r # rs)"
      by (intro exI [of _ "x # xs"]) simp
  next
    assume "\<exists>xs. s = concat xs \<and> list_all2 (\<lambda>x r. x \<in> lang r) xs (r # rs)"
    then obtain x xs where "s = x @ concat xs" "x \<in> lang r" "list_all2 (\<lambda>x r. x \<in> lang r) xs rs"
      by (auto simp: list_all2_Cons2)
    with Cons show "s \<in> lang (Seqs (r # rs))" by auto
  qed
qed simp

lemma lang_Class_Seq: "s \<in> lang (Seq (Class rs) r) \<longleftrightarrow> s \<noteq> [] \<and> in_class rs (hd s) \<and> tl s \<in> lang r"
proof (cases s)
  case (Cons a t)
  have "in_class rs a \<Longrightarrow> t \<in> lang r \<Longrightarrow> a # t \<in> lang (Seq (Class rs) r)"
    by simp (rule exI [of _ "[a]"], simp)
  then show ?thesis using Cons by auto
qed auto

lemma lang_Rep_Class: "s \<in> lang (Rep n (Class rs)) \<longleftrightarrow> length s = n \<and> list_all (in_class rs) s"
proof (induction n arbitrary: s)
  case (Suc n)
  show ?case by (cases s) (simp_all only: Rep.simps lang_Class_Seq Suc list.sel list.size, auto)
qed auto

lemma lang_Star_Class: "s \<in> lang (Star (Class rs)) \<longleftrightarrow> list_all (in_class rs) s"
proof (induction s)
  case Nil
  then show ?case by (simp add: star_Nil)
next
  case (Cons c s)
  have "c # s \<in> star (lang (Class rs)) \<longleftrightarrow> in_class rs c \<and> s \<in> star (lang (Class rs))"
    by (subst star_Cons) simp
  with Cons show ?case by simp
qed

lemma lang_Opt_Seq: "s \<in> lang (Seq (Opt p) r) \<longleftrightarrow> s \<in> lang r \<or> s \<in> lang (Seq p r)"
  by (auto simp: Opt_def)

lemma lang_Seq_One: "lang (Seq r One) = lang r" "lang (Seq One r) = lang r"
  by simp_all

lemma lang_Seq_mem: "s \<in> lang (Seq p r) \<longleftrightarrow> (\<exists>x y. s = x @ y \<and> x \<in> lang p \<and> y \<in> lang r)"
  by auto

lemma lang_Seq_assoc: "lang (Seq (Seq p q) r) = lang (Seq p (Seq q r))"
proof (intro set_eqI iffI)
  fix s
  assume "s \<in> lang (Seq (Seq p q) r)"
  then obtain x y z where "s = x @ (y @ z)" "x \<in> lang p" "y \<in> lang q" "z \<in> lang r" by auto
  then show "s \<in> lang (Seq p (Seq q r))" unfolding lang_Seq_mem by blast
next
  fix s
  assume "s \<in> lang (Seq p (Seq q r))"
  then obtain x y z where "s = (x @ y) @ z" "x \<in> lang p" "y \<in> lang q" "z \<in> lang r" by auto
  then show "s \<in> lang (Seq (Seq p q) r)" unfolding lang_Seq_mem by blast
qed

lemma lang_Chr_Seq: "s \<in> lang (Seq (Chr c) r) \<longleftrightarrow> (\<exists>y. s = c # y \<and> y \<in> lang r)"
  by auto

text \<open>Rules that reduce membership in a sequence of classes and options to conditions on the characters.\<close>

lemmas lang_chain = lang_Class_Seq lang_Opt_Seq lang_Seq_One Seqs.simps

declare lang.simps(5) [simp del]

end
