(* ===== verification/Validators.thy ===== *)
theory Validators
  imports Go_Regexp
begin

text \<open>
  The validators of \<^verbatim>\<open>core/validation/validators.go\<close>: the values they look at, the
  check \<^verbatim>\<open>IsSatisfied\<close> of each of them, its key, its limit and its default message, and the
  table of message templates.

  A value in an interface is one of the dynamic types the code distinguishes; a value of another type
  (floating point numbers, maps, named types) is \<open>VOther\<close>. A struct holds its fields with the tags
  \<^verbatim>\<open>valid\<close> and \<^verbatim>\<open>label\<close>; a nil pointer to a struct holds the fields of the struct type, with the mark of those that are
  structs or pointers to structs. What \<^verbatim>\<open>fmt\<close> prints for a value that is not a
  string, a boolean or an integer is part of the value. The machine is a 64-bit one.
\<close>

section \<open>Values\<close>

datatype int_type = TInt | TInt8 | TInt16 | TInt32 | TInt64 | TUint | TUint8 | TUint16 | TUint32 | TUint64

datatype ftype = FType (ft_name: string) (ft_valid: string) (ft_label: string) (ft_struct: bool)

datatype vval = VNil | VStr string | VBool bool | VInt int_type int | VTime bool string | VSlice nat string
  | VNilPtr "ftype list option" | VPtr vval string | VStruct "sfield list" string | VOther string
and sfield = SField (sf_name: string) (sf_valid: string) (sf_label: string) (sf_exported: bool) (sf_val: vval)

fun Sprintf_v :: "vval \<Rightarrow> string" where
  "Sprintf_v VNil = ''<nil>''"
| "Sprintf_v (VStr s) = s"
| "Sprintf_v (VBool b) = (if b then ''true'' else ''false'')"
| "Sprintf_v (VInt t i) = itoa i"
| "Sprintf_v (VTime z r) = r"
| "Sprintf_v (VSlice n r) = r"
| "Sprintf_v (VNilPtr t) = ''<nil>''"
| "Sprintf_v (VPtr p r) = r"
| "Sprintf_v (VStruct fs r) = r"
| "Sprintf_v (VOther r) = r"

definition wordsize :: nat where
  "wordsize = 64"

text \<open>\<^verbatim>\<open>utf8.RuneCountInString\<close>: the length of the encoding that starts with a byte and the range of its
  second byte; a byte that starts no complete encoding counts as one rune.\<close>

definition utf8_first :: "nat \<Rightarrow> (nat \<times> nat \<times> nat) option" where
  "utf8_first b =
     (if 0xC2 \<le> b \<and> b \<le> 0xDF then Some (2, 0x80, 0xBF)
      else if b = 0xE0 then Some (3, 0xA0, 0xBF)
      else if b = 0xED then Some (3, 0x80, 0x9F)
      else if 0xE1 \<le> b \<and> b \<le> 0xEF then Some (3, 0x80, 0xBF)
      else if b = 0xF0 then Some (4, 0x90, 0xBF)
      else if 0xF1 \<le> b \<and> b \<le> 0xF3 then Some (4, 0x80, 0xBF)
      else if b = 0xF4 then Some (4, 0x80, 0x8F)
      else None)"

definition utf8_size :: "string \<Rightarrow> nat" where
  "utf8_size s = (case map of_char s of
       [] \<Rightarrow> 0
     | b # bs \<Rightarrow> (case utf8_first b of
           None \<Rightarrow> 1
         | Some (n, lo, hi) \<Rightarrow>
             if n - 1 \<le> length bs \<and> lo \<le> hd bs \<and> hd bs \<le> hi \<and> list_all (\<lambda>c. 0x80 \<le> c \<and> c \<le> 0xBF) (take (n - 2) (tl bs))
             then n else 1))"

function RuneCount :: "string \<Rightarrow> nat" where
  "RuneCount s = (if s = [] then 0 else Suc (RuneCount (drop (utf8_size s) s)))"
  by pat_completeness auto
termination
proof (relation "measure length")
  fix s :: string
  assume "s \<noteq> []"
  then have "0 < utf8_size s"
    by (cases s) (auto simp: utf8_size_def utf8_first_def split: option.splits if_splits)
  with \<open>s \<noteq> []\<close> show "(drop (utf8_size s) s, s) \<in> measure length" by simp
qed simp

declare RuneCount.simps [simp del]

section \<open>Patterns\<close>

definition digit :: pat where "digit = Class [(CHR ''0'', CHR ''9'')]"

definition word_class :: "(char \<times> char) list" where
  "word_class = [(CHR ''0'', CHR ''9''), (CHR ''A'', CHR ''Z''), (CHR ''a'', CHR ''z''), (CHR ''_'', CHR ''_'')]"

definition single :: "string \<Rightarrow> (char \<times> char) list" where
  "single cs = map (\<lambda>c. (c, c)) cs"

text \<open>The source text of a pattern, from its parts between the backslashes.\<close>

definition esc :: "string list \<Rightarrow> string" where
  "esc = join [CHR 0x5C]"

definition alphaDashPattern :: regexp where
  "alphaDashPattern = search_outside (esc [''[^'', ''d'', ''w-_]'']) ([(CHR ''0'', CHR ''9'')] @ word_class @ single ''-_'')"

definition email_atom :: pat where
  "email_atom = Plus (Class (word_class @ single ''!#$%&*+/=?^_{|}~-'' @ single [CHR 0x27, CHR 0x60]))"

definition emailPattern :: regexp where
  "emailPattern = anchored
     (esc [''^['', ''w!#$%&'' @ [CHR 0x27] @ ''*+/=?^_'' @ [CHR 0x60] @ ''{|}~-]+(?:'', ''.['', ''w!#$%&'' @ [CHR 0x27] @ ''*+/=?^_'' @ [CHR 0x60] @
        ''{|}~-]+)*@(?:['', ''w](?:['', ''w-]*['', ''w])?'', ''.)+[a-zA-Z0-9](?:['', ''w-]*['', ''w])?$''])
     (Seqs [email_atom, Star (Seq (Chr CHR ''.'') email_atom), Chr CHR ''@'',
        Plus (Seqs [Class word_class, Opt (Seq (Star (Class (word_class @ single ''-''))) (Class word_class)), Chr CHR ''.'']),
        Class [(CHR ''a'', CHR ''z''), (CHR ''A'', CHR ''Z''), (CHR ''0'', CHR ''9'')],
        Opt (Seq (Star (Class (word_class @ single ''-''))) (Class word_class))])"

definition octet :: pat where
  "octet = Alts [Seqs [Chr CHR ''2'', Class [(CHR ''0'', CHR ''4'')], digit],
     Seqs [Chr CHR ''2'', Chr CHR ''5'', Class [(CHR ''0'', CHR ''5'')]],
     Seqs [Opt (Class (single ''01'')), digit, Opt digit]]"

definition ipPattern :: regexp where
  "ipPattern = anchored (esc [''^((2[0-4]'', ''d|25[0-5]|[01]?'', ''d'', ''d?)'', ''.){3}(2[0-4]'', ''d|25[0-5]|[01]?'', ''d'', ''d?)$''])
     (Seq (Rep 3 (Seq octet (Chr CHR ''.''))) octet)"

definition base64_class :: pat where
  "base64_class = Class [(CHR ''A'', CHR ''Z''), (CHR ''a'', CHR ''z''), (CHR ''0'', CHR ''9''), (CHR ''+'', CHR ''+''), (CHR ''/'', CHR ''/'')]"

definition base64Pattern :: regexp where
  "base64Pattern = anchored ''^(?:[A-Za-z0-99+/]{4})*(?:[A-Za-z0-9+/]{2}==|[A-Za-z0-9+/]{3}=)?$''
     (Seq (Star (Rep 4 base64_class))
       (Opt (Alt (Seq (Rep 2 base64_class) (Lit ''=='')) (Seq (Rep 3 base64_class) (Lit ''='')))))"

definition mobilePattern :: regexp where
  "mobilePattern = anchored (esc [''^(('', ''+86)|(86))?1([356789][0-9]|4[579]|6[67]|7[0135678]|9[189])[0-9]{8}$''])
     (Seqs [Opt (Alt (Lit ''+86'') (Lit ''86'')), Chr CHR ''1'',
        Alts [Seq (Class (single ''356789'')) digit, Seq (Chr CHR ''4'') (Class (single ''579'')), Seq (Chr CHR ''6'') (Class (single ''67'')),
              Seq (Chr CHR ''7'') (Class (single ''0135678'')), Seq (Chr CHR ''9'') (Class (single ''189''))],
        Rep 8 digit])"

definition telPattern :: regexp where
  "telPattern = anchored (esc [''^(0'', ''d{2,3}('', ''-)?)?'', ''d{7,8}$''])
     (Seqs [Opt (Seqs [Chr CHR ''0'', Rep 2 digit, Opt digit, Opt (Chr CHR ''-'')]), Rep 7 digit, Opt digit])"

definition zipCodePattern :: regexp where
  "zipCodePattern = anchored (esc [''^[1-9]'', ''d{5}$'']) (Seq (Class [(CHR ''1'', CHR ''9'')]) (Rep 5 digit))"

section \<open>Validators\<close>

datatype validator = Required string | MinV int string | MaxV int string | Range int int string
  | MinSize int string | MaxSize int string | Length int string
  | Alpha string | Numeric string | AlphaNumeric string
  | Match regexp string | NoMatch regexp string | AlphaDash regexp string | Email regexp string | IP regexp string
  | Base64 regexp string | Mobile regexp string | Tel regexp string | Phone regexp regexp string | ZipCode regexp string
  | Enum string string

fun Required_IsSatisfied :: "vval \<Rightarrow> bool" where
  "Required_IsSatisfied VNil = False"
| "Required_IsSatisfied (VStr s) = (length (trim_space s) > 0)"
| "Required_IsSatisfied (VBool b) = True"
| "Required_IsSatisfied (VInt t i) = (i \<noteq> 0)"
| "Required_IsSatisfied (VTime zero r) = (\<not> zero)"
| "Required_IsSatisfied (VSlice n r) = (n > 0)"
| "Required_IsSatisfied _ = True"

fun signed_val :: "vval \<Rightarrow> int option" where
  "signed_val (VInt TInt64 i) = (if wordsize = 32 then None else Some i)"
| "signed_val (VInt TInt i) = Some i"
| "signed_val (VInt TInt32 i) = Some i"
| "signed_val (VInt TInt16 i) = Some i"
| "signed_val (VInt TInt8 i) = Some i"
| "signed_val _ = None"

definition Min_IsSatisfied :: "int \<Rightarrow> vval \<Rightarrow> bool" where
  "Min_IsSatisfied m obj = (case signed_val obj of None \<Rightarrow> False | Some v \<Rightarrow> v \<ge> m)"

definition Max_IsSatisfied :: "int \<Rightarrow> vval \<Rightarrow> bool" where
  "Max_IsSatisfied m obj = (case signed_val obj of None \<Rightarrow> False | Some v \<Rightarrow> v \<le> m)"

definition Range_IsSatisfied :: "int \<Rightarrow> int \<Rightarrow> vval \<Rightarrow> bool" where
  "Range_IsSatisfied lo hi obj \<longleftrightarrow> Min_IsSatisfied lo obj \<and> Max_IsSatisfied hi obj"

fun MinSize_IsSatisfied :: "int \<Rightarrow> vval \<Rightarrow> bool" where
  "MinSize_IsSatisfied m (VStr s) = (int (RuneCount s) \<ge> m)"
| "MinSize_IsSatisfied m (VSlice n r) = (int n \<ge> m)"
| "MinSize_IsSatisfied m _ = False"

fun MaxSize_IsSatisfied :: "int \<Rightarrow> vval \<Rightarrow> bool" where
  "MaxSize_IsSatisfied m (VStr s) = (int (RuneCount s) \<le> m)"
| "MaxSize_IsSatisfied m (VSlice n r) = (int n \<le> m)"
| "MaxSize_IsSatisfied m _ = False"

fun Length_IsSatisfied :: "int \<Rightarrow> vval \<Rightarrow> bool" where
  "Length_IsSatisfied k (VStr s) = (int (RuneCount s) = k)"
| "Length_IsSatisfied k (VSlice n r) = (int n = k)"
| "Length_IsSatisfied k _ = False"

fun rune_loop :: "(char \<Rightarrow> bool) \<Rightarrow> string \<Rightarrow> bool" where
  "rune_loop bad [] = True"
| "rune_loop bad (c # cs) = (if bad c then False else rune_loop bad cs)"

definition not_between :: "char \<Rightarrow> char \<Rightarrow> char \<Rightarrow> bool" where
  "not_between a b v \<longleftrightarrow> (of_char b :: nat) < of_char v \<or> (of_char v :: nat) < of_char a"

fun Alpha_IsSatisfied :: "vval \<Rightarrow> bool" where
  "Alpha_IsSatisfied (VStr s) = rune_loop (\<lambda>v. not_between CHR ''A'' CHR ''Z'' v \<and> not_between CHR ''a'' CHR ''z'' v) s"
| "Alpha_IsSatisfied _ = False"

fun Numeric_IsSatisfied :: "vval \<Rightarrow> bool" where
  "Numeric_IsSatisfied (VStr s) = rune_loop (not_between CHR ''0'' CHR ''9'') s"
| "Numeric_IsSatisfied _ = False"

fun AlphaNumeric_IsSatisfied :: "vval \<Rightarrow> bool" where
  "AlphaNumeric_IsSatisfied (VStr s) = rune_loop
     (\<lambda>v. not_between CHR ''A'' CHR ''Z'' v \<and> not_between CHR ''a'' CHR ''z'' v \<and> not_between CHR ''0'' CHR ''9'' v) s"
| "AlphaNumeric_IsSatisfied _ = False"

definition Match_IsSatisfied :: "regexp \<Rightarrow> vval \<Rightarrow> bool" where
  "Match_IsSatisfied re obj = MatchString re (Sprintf_v obj)"

definition NoMatch_IsSatisfied :: "regexp \<Rightarrow> vval \<Rightarrow> bool" where
  "NoMatch_IsSatisfied re obj = (\<not> Match_IsSatisfied re obj)"

definition Phone_IsSatisfied :: "regexp \<Rightarrow> regexp \<Rightarrow> vval \<Rightarrow> bool" where
  "Phone_IsSatisfied mobile tel obj \<longleftrightarrow> Match_IsSatisfied mobile obj \<or> Match_IsSatisfied tel obj"

fun enum_loop :: "string \<Rightarrow> string list \<Rightarrow> bool" where
  "enum_loop val [] = False"
| "enum_loop val (v # vs) = (if val = trim_space v then True else enum_loop val vs)"

fun Enum_IsSatisfied :: "string \<Rightarrow> vval \<Rightarrow> bool" where
  "Enum_IsSatisfied rules (VStr val) = enum_loop val (split rules ''|'')"
| "Enum_IsSatisfied rules _ = False"

fun IsSatisfied :: "validator \<Rightarrow> vval \<Rightarrow> bool" where
  "IsSatisfied (Required k) obj = Required_IsSatisfied obj"
| "IsSatisfied (MinV m k) obj = Min_IsSatisfied m obj"
| "IsSatisfied (MaxV m k) obj = Max_IsSatisfied m obj"
| "IsSatisfied (Range lo hi k) obj = Range_IsSatisfied lo hi obj"
| "IsSatisfied (MinSize m k) obj = MinSize_IsSatisfied m obj"
| "IsSatisfied (MaxSize m k) obj = MaxSize_IsSatisfied m obj"
| "IsSatisfied (Length n k) obj = Length_IsSatisfied n obj"
| "IsSatisfied (Alpha k) obj = Alpha_IsSatisfied obj"
| "IsSatisfied (Numeric k) obj = Numeric_IsSatisfied obj"
| "IsSatisfied (AlphaNumeric k) obj = AlphaNumeric_IsSatisfied obj"
| "IsSatisfied (Match re k) obj = Match_IsSatisfied re obj"
| "IsSatisfied (NoMatch re k) obj = NoMatch_IsSatisfied re obj"
| "IsSatisfied (AlphaDash re k) obj = NoMatch_IsSatisfied re obj"
| "IsSatisfied (Email re k) obj = Match_IsSatisfied re obj"
| "IsSatisfied (IP re k) obj = Match_IsSatisfied re obj"
| "IsSatisfied (Base64 re k) obj = Match_IsSatisfied re obj"
| "IsSatisfied (Mobile re k) obj = Match_IsSatisfied re obj"
| "IsSatisfied (Tel re k) obj = Match_IsSatisfied re obj"
| "IsSatisfied (Phone m t k) obj = Phone_IsSatisfied m t obj"
| "IsSatisfied (ZipCode re k) obj = Match_IsSatisfied re obj"
| "IsSatisfied (Enum rules k) obj = Enum_IsSatisfied rules obj"

fun chk_GetKey :: "validator \<Rightarrow> string" where
  "chk_GetKey (Required k) = k"
| "chk_GetKey (MinV m k) = k"
| "chk_GetKey (MaxV m k) = k"
| "chk_GetKey (Range lo hi k) = k"
| "chk_GetKey (MinSize m k) = k"
| "chk_GetKey (MaxSize m k) = k"
| "chk_GetKey (Length n k) = k"
| "chk_GetKey (Alpha k) = k"
| "chk_GetKey (Numeric k) = k"
| "chk_GetKey (AlphaNumeric k) = k"
| "chk_GetKey (Match re k) = k"
| "chk_GetKey (NoMatch re k) = k"
| "chk_GetKey (AlphaDash re k) = k"
| "chk_GetKey (Email re k) = k"
| "chk_GetKey (IP re k) = k"
| "chk_GetKey (Base64 re k) = k"
| "chk_GetKey (Mobile re k) = k"
| "chk_GetKey (Tel re k) = k"
| "chk_GetKey (Phone m t k) = k"
| "chk_GetKey (ZipCode re k) = k"
| "chk_GetKey (Enum rules k) = k"

datatype limit = LNil | LInt int | LInts "int list" | LStr string

fun GetLimitValue :: "validator \<Rightarrow> limit" where
  "GetLimitValue (MinV m k) = LInt m"
| "GetLimitValue (MaxV m k) = LInt m"
| "GetLimitValue (Range lo hi k) = LInts [lo, hi]"
| "GetLimitValue (MinSize m k) = LInt m"
| "GetLimitValue (MaxSize m k) = LInt m"
| "GetLimitValue (Length n k) = LInt n"
| "GetLimitValue (Match re k) = LStr (re_String re)"
| "GetLimitValue (NoMatch re k) = LStr (re_String re)"
| "GetLimitValue _ = LNil"

section \<open>Messages\<close>

text \<open>\<^verbatim>\<open>fmt.Sprintf\<close> for verbs without flags and integer or string arguments, with the marks that it leaves for a
  missing, a superfluous or an unsuitable argument.\<close>

datatype farg = FInt int | FStr string

fun farg_extra :: "farg \<Rightarrow> string" where
  "farg_extra (FInt i) = ''int='' @ itoa i"
| "farg_extra (FStr s) = ''string='' @ s"

fun fmt_verb :: "char \<Rightarrow> farg \<Rightarrow> string" where
  "fmt_verb v (FInt i) = (if v = CHR ''d'' \<or> v = CHR ''v'' then itoa i else ''%!'' @ [v] @ ''('' @ farg_extra (FInt i) @ '')'')"
| "fmt_verb v (FStr s) = (if v = CHR ''s'' \<or> v = CHR ''v'' then s else ''%!'' @ [v] @ ''('' @ farg_extra (FStr s) @ '')'')"

fun Sprintf :: "string \<Rightarrow> farg list \<Rightarrow> string" where
  "Sprintf [] args = (if args = [] then [] else ''%!(EXTRA '' @ join '', '' (map farg_extra args) @ '')'')"
| "Sprintf [c] args = (if c = CHR ''%'' then ''%!(NOVERB)'' else [c]) @
     (if args = [] then [] else ''%!(EXTRA '' @ join '', '' (map farg_extra args) @ '')'')"
| "Sprintf (c # d # cs) args =
     (if c = CHR ''%'' then
        (if d = CHR ''%'' then CHR ''%'' # Sprintf cs args
         else case args of
                [] \<Rightarrow> ''%!'' @ [d] @ ''(MISSING)'' @ Sprintf cs []
              | a # as \<Rightarrow> fmt_verb d a @ Sprintf cs as)
      else c # Sprintf (d # cs) args)"

record messages =
  MessageTmpls :: "string \<rightharpoonup> string"
  once_done :: bool

definition MessageTmpls_init :: "string \<rightharpoonup> string" where
  "MessageTmpls_init = map_of
     [(''Required'', ''Can not be empty''), (''Min'', ''Minimum is %d''), (''Max'', ''Maximum is %d''), (''Range'', ''Range is %d to %d''),
      (''MinSize'', ''Minimum size is %d''), (''MaxSize'', ''Maximum size is %d''), (''Length'', ''Required length is %d''),
      (''Alpha'', ''Must be valid alpha characters''), (''Numeric'', ''Must be valid numeric characters''),
      (''AlphaNumeric'', ''Must be valid alpha or numeric characters''), (''Match'', ''Must match %s''), (''NoMatch'', ''Must not match %s''),
      (''AlphaDash'', ''Must be valid alpha or numeric or dash(-_) characters''), (''Email'', ''Must be a valid email address''),
      (''IP'', ''Must be a valid ip address''), (''Base64'', ''Must be valid base64 characters''), (''Mobile'', ''Must be valid mobile number''),
      (''Tel'', ''Must be valid telephone number''), (''Phone'', ''Must be valid telephone or mobile phone number''),
      (''ZipCode'', ''Must be valid zipcode''), (''Enum'', ''Must be a string value in '' @ [CHR 0x22] @ ''%s'' @ [CHR 0x22])]"

definition messages_init :: messages where
  "messages_init = \<lparr>MessageTmpls = MessageTmpls_init, once_done = False\<rparr>"

definition SetDefaultMessage :: "(string \<rightharpoonup> string) \<Rightarrow> messages \<Rightarrow> messages" where
  "SetDefaultMessage msg ms =
     (if msg = Map.empty then ms
      else if once_done ms then ms
      else ms\<lparr>MessageTmpls := MessageTmpls ms ++ msg, once_done := True\<rparr>)"

definition tmpl :: "messages \<Rightarrow> string \<Rightarrow> string" where
  "tmpl ms name = (case MessageTmpls ms name of None \<Rightarrow> [] | Some t \<Rightarrow> t)"

fun DefaultMessage :: "messages \<Rightarrow> validator \<Rightarrow> string" where
  "DefaultMessage ms (Required k) = tmpl ms ''Required''"
| "DefaultMessage ms (MinV m k) = Sprintf (tmpl ms ''Min'') [FInt m]"
| "DefaultMessage ms (MaxV m k) = Sprintf (tmpl ms ''Max'') [FInt m]"
| "DefaultMessage ms (Range lo hi k) = Sprintf (tmpl ms ''Range'') [FInt lo, FInt hi]"
| "DefaultMessage ms (MinSize m k) = Sprintf (tmpl ms ''MinSize'') [FInt m]"
| "DefaultMessage ms (MaxSize m k) = Sprintf (tmpl ms ''MaxSize'') [FInt m]"
| "DefaultMessage ms (Length n k) = Sprintf (tmpl ms ''Length'') [FInt n]"
| "DefaultMessage ms (Alpha k) = tmpl ms ''Alpha''"
| "DefaultMessage ms (Numeric k) = tmpl ms ''Numeric''"
| "DefaultMessage ms (AlphaNumeric k) = tmpl ms ''AlphaNumeric''"
| "DefaultMessage ms (Match re k) = Sprintf (tmpl ms ''Match'') [FStr (re_String re)]"
| "DefaultMessage ms (NoMatch re k) = Sprintf (tmpl ms ''NoMatch'') [FStr (re_String re)]"
| "DefaultMessage ms (AlphaDash re k) = tmpl ms ''AlphaDash''"
| "DefaultMessage ms (Email re k) = tmpl ms ''Email''"
| "DefaultMessage ms (IP re k) = tmpl ms ''IP''"
| "DefaultMessage ms (Base64 re k) = tmpl ms ''Base64''"
| "DefaultMessage ms (Mobile re k) = tmpl ms ''Mobile''"
| "DefaultMessage ms (Tel re k) = tmpl ms ''Tel''"
| "DefaultMessage ms (Phone m t k) = tmpl ms ''Phone''"
| "DefaultMessage ms (ZipCode re k) = tmpl ms ''ZipCode''"
| "DefaultMessage ms (Enum rules k) = Sprintf (tmpl ms ''Enum'') [FStr rules]"

section \<open>What the checks accept\<close>

lemma rune_loop_iff: "rune_loop bad s \<longleftrightarrow> list_all (\<lambda>c. \<not> bad c) s"
  by (induction s) auto

lemma enum_loop_iff: "enum_loop val vs \<longleftrightarrow> val \<in> trim_space ` set vs"
  by (induction vs) auto

lemma digit_iff: "in_class [(CHR ''0'', CHR ''9'')] c \<longleftrightarrow> (48 :: nat) \<le> of_char c \<and> of_char c \<le> (57 :: nat)"
  by (simp add: in_class_def)

text \<open>The numbers of an address.\<close>

lemma octet_cases: "x \<in> lang octet \<longleftrightarrow>
    (case map of_char x :: nat list of
       [a] \<Rightarrow> 48 \<le> a \<and> a \<le> 57
     | [a, b] \<Rightarrow> 48 \<le> a \<and> a \<le> 57 \<and> 48 \<le> b \<and> b \<le> 57
     | [a, b, c] \<Rightarrow> 48 \<le> b \<and> b \<le> 57 \<and> 48 \<le> c \<and> c \<le> 57 \<and>
         (a = 48 \<or> a = 49 \<or> a = 50 \<and> (b \<le> 52 \<or> b = 53 \<and> c \<le> 53))
     | _ \<Rightarrow> False)"
proof -
  have c3: "\<And>a b c d t. x = a # b # c # d # t \<Longrightarrow> x \<notin> lang octet"
    by (simp add: octet_def digit_def Chr_def lang_chain)
  consider "x = []" | a where "x = [a]" | a b where "x = [a, b]" | a b c where "x = [a, b, c]" | a b c d t where "x = a # b # c # d # t"
    by (metis list.exhaust)
  then show ?thesis
  proof cases
    case 5
    with c3 show ?thesis by simp
  qed (auto simp: octet_def digit_def Chr_def single_def lang_chain in_class_def)
qed

lemma parse_octet_cases: "length x \<le> 3 \<and> snd (parse_uint 8 x) = None \<longleftrightarrow>
    (case map of_char x :: nat list of
       [a] \<Rightarrow> 48 \<le> a \<and> a \<le> 57
     | [a, b] \<Rightarrow> 48 \<le> a \<and> a \<le> 57 \<and> 48 \<le> b \<and> b \<le> 57
     | [a, b, c] \<Rightarrow> 48 \<le> b \<and> b \<le> 57 \<and> 48 \<le> c \<and> c \<le> 57 \<and>
         (a = 48 \<or> a = 49 \<or> a = 50 \<and> (b \<le> 52 \<or> b = 53 \<and> c \<le> 53))
     | _ \<Rightarrow> False)"
proof (cases "length x \<le> 3")
  case True
  then consider "x = []" | a where "x = [a]" | a b where "x = [a, b]" | a b c where "x = [a, b, c]"
    by (metis One_nat_def Suc_le_eq le_Suc_eq le_zero_eq length_0_conv length_Suc_conv numeral_3_eq_3)
  then show ?thesis
    by cases (auto simp: parse_uint_def digit_val_def Let_def split: if_splits)
next
  case False
  then show ?thesis by (auto split: list.splits)
qed

lemma octet_iff: "x \<in> lang octet \<longleftrightarrow> length x \<le> 3 \<and> snd (parse_uint 8 x) = None"
  unfolding octet_cases parse_octet_cases ..

lemma octet_no_dot: "x \<in> lang octet \<Longrightarrow> CHR ''.'' \<notin> set x"
  by (auto simp: octet_cases split: list.splits)

lemma dot_Seq: "s \<in> lang (Seq (Seq octet (Chr CHR ''.'')) r) \<longleftrightarrow> (\<exists>a t. s = a @ CHR ''.'' # t \<and> a \<in> lang octet \<and> t \<in> lang r)"
  unfolding lang_Seq_assoc lang_Seq_mem [of s octet] lang_Chr_Seq by blast

lemma ip_lang: "s \<in> lang (Seq (Rep 3 (Seq octet (Chr CHR ''.''))) octet) \<longleftrightarrow>
    (\<exists>a b c d. s = join ''.'' [a, b, c, d] \<and> list_all (\<lambda>x. x \<in> lang octet) [a, b, c, d])" (is "?l \<longleftrightarrow> ?r")
proof -
  let ?D = "Seq octet (Chr CHR ''.'')"
  have "?l \<longleftrightarrow> s \<in> lang (Seq ?D (Seq (Seq ?D (Seq ?D One)) octet))"
    unfolding numeral_3_eq_3 Rep.simps lang_Seq_assoc [of ?D] ..
  also have "\<dots> \<longleftrightarrow> (\<exists>a b c d. s = a @ CHR ''.'' # (b @ CHR ''.'' # (c @ CHR ''.'' # d)) \<and>
      a \<in> lang octet \<and> b \<in> lang octet \<and> c \<in> lang octet \<and> d \<in> lang octet)"
    unfolding dot_Seq lang_Seq_assoc [of ?D] lang_Seq_One by blast
  finally show ?thesis by simp
qed

text \<open>C25. The pattern of the validator IP accepts exactly the texts of four parts between dots, each a number from 0 to 255
  in one to three decimal digits (leading zeros included).\<close>

theorem ip_pattern_exact:
  "IsSatisfied (IP ipPattern k) (VStr s) \<longleftrightarrow>
     length (split s ''.'') = 4 \<and> list_all (\<lambda>x. length x \<le> 3 \<and> snd (parse_uint 8 x) = None) (split s ''.'')"
proof
  assume "IsSatisfied (IP ipPattern k) (VStr s)"
  then obtain a b c d where s: "s = join ''.'' [a, b, c, d]" and o: "list_all (\<lambda>x. x \<in> lang octet) [a, b, c, d]"
    by (auto simp: Match_IsSatisfied_def ipPattern_def ip_lang)
  have "split s ''.'' = [a, b, c, d]"
    unfolding s by (rule split_join_single) (use o octet_no_dot in \<open>auto simp: list_all_iff\<close>)
  with o show "length (split s ''.'') = 4 \<and> list_all (\<lambda>x. length x \<le> 3 \<and> snd (parse_uint 8 x) = None) (split s ''.'')"
    by (simp add: octet_iff)
next
  assume h: "length (split s ''.'') = 4 \<and> list_all (\<lambda>x. length x \<le> 3 \<and> snd (parse_uint 8 x) = None) (split s ''.'')"
  then obtain a b c d where sp: "split s ''.'' = [a, b, c, d]"
    by (auto simp: eval_nat_numeral length_Suc_conv)
  have "s = join ''.'' (split s ''.'')" by (simp add: join_split)
  with h show "IsSatisfied (IP ipPattern k) (VStr s)"
    unfolding sp octet_iff [symmetric]
    by (auto simp: Match_IsSatisfied_def ipPattern_def ip_lang)
qed

end
