(* ===== verification/Validation.thy ===== *)
theory Validation
  imports Validators
begin

text \<open>
  Validation of structs: \<^verbatim>\<open>core/validation/validation.go\<close> (the context that collects errors, \<^verbatim>\<open>apply\<close>,
  \<^verbatim>\<open>Valid\<close>, \<^verbatim>\<open>RecursiveValid\<close>) and \<^verbatim>\<open>core/validation/util.go\<close> (the struct tag \<^verbatim>\<open>valid\<close>, the table of
  validation functions and their calls by reflection).

  Errors are shared: a result, the list \<open>Errors\<close> and the map \<open>ErrorsMap\<close> hold pointers to them. A pointer is an
  index into \<open>err_objs\<close>, the errors that the context has allocated. Go errors and panics are the two kinds of
  \<open>vstop\<close>. The compiler of regular expressions, custom validation functions and the method \<^verbatim>\<open>Valid\<close> of
  the caller's types (\<^verbatim>\<open>ValidFormer\<close>) are parameters.
\<close>

section \<open>The context of a validation\<close>

record VError =
  e_Message :: string
  e_Key :: string
  e_Name :: string
  e_Field :: string
  e_Tmpl :: string
  e_Label :: string
  e_Value :: vval
  e_LimitValue :: limit

record Validation =
  RequiredFirst :: bool
  Errors :: "nat list"
  ErrorsMap :: "(string \<rightharpoonup> nat list) option"
  err_objs :: "VError list"

record Result =
  r_Error :: "nat option"
  r_Ok :: bool

definition upd_error :: "nat \<Rightarrow> (VError \<Rightarrow> VError) \<Rightarrow> Validation \<Rightarrow> Validation" where
  "upd_error i f v = v\<lparr>err_objs := (err_objs v)[i := f (err_objs v ! i)]\<rparr>"

definition Result_Key :: "Result \<Rightarrow> string \<Rightarrow> Validation \<Rightarrow> Validation" where
  "Result_Key r key v = (case r_Error r of None \<Rightarrow> v | Some i \<Rightarrow> upd_error i (e_Key_update (\<lambda>_. key)) v)"

definition Result_Message :: "Result \<Rightarrow> string \<Rightarrow> farg list \<Rightarrow> Validation \<Rightarrow> Validation" where
  "Result_Message r message args v =
     (case r_Error r of
        None \<Rightarrow> v
      | Some i \<Rightarrow> upd_error i (e_Message_update (\<lambda>_. if args = [] then message else Sprintf message args)) v)"

definition Clear :: "Validation \<Rightarrow> Validation" where
  "Clear v = v\<lparr>Errors := [], ErrorsMap := None\<rparr>"

definition HasErrors :: "Validation \<Rightarrow> bool" where
  "HasErrors v \<longleftrightarrow> length (Errors v) > 0"

definition ErrorMap :: "Validation \<Rightarrow> (string \<rightharpoonup> nat list) option" where
  "ErrorMap v = ErrorsMap v"

definition new_error :: "VError \<Rightarrow> Validation \<Rightarrow> nat \<times> Validation" where
  "new_error e v = (length (err_objs v), v\<lparr>err_objs := err_objs v @ [e]\<rparr>)"

definition zero_error :: VError where
  "zero_error = \<lparr>e_Message = [], e_Key = [], e_Name = [], e_Field = [], e_Tmpl = [], e_Label = [], e_Value = VNil, e_LimitValue = LNil\<rparr>"

definition Validation_Error :: "string \<Rightarrow> farg list \<Rightarrow> Validation \<Rightarrow> Result \<times> Validation" where
  "Validation_Error message args v =
     (case new_error zero_error v of
        (i, v1) \<Rightarrow>
          let r = \<lparr>r_Error = Some i, r_Ok = False\<rparr>;
              v2 = Result_Message r message args v1
          in (r, v2\<lparr>Errors := Errors v2 @ [i]\<rparr>))"

definition setError :: "nat \<Rightarrow> Validation \<Rightarrow> Validation" where
  "setError i v =
     (let m = (case ErrorsMap v of None \<Rightarrow> Map.empty | Some m \<Rightarrow> m);
          f = e_Field (err_objs v ! i);
          m1 = (if m f = None then m(f \<mapsto> []) else m)
      in v\<lparr>Errors := Errors v @ [i], ErrorsMap := Some (m1(f \<mapsto> the (m1 f) @ [i]))\<rparr>)"

definition SetError :: "string \<Rightarrow> string \<Rightarrow> Validation \<Rightarrow> nat \<times> Validation" where
  "SetError fieldName errMsg v =
     (case new_error (zero_error\<lparr>e_Key := fieldName, e_Field := fieldName, e_Tmpl := errMsg, e_Message := errMsg\<rparr>) v of
        (i, v1) \<Rightarrow> (i, setError i v1))"

definition AddError :: "string \<Rightarrow> string \<Rightarrow> Validation \<Rightarrow> Validation" where
  "AddError key message v =
     (let (Field, Name, Label) = (case split key ''.'' of
            [a, b, c] \<Rightarrow> (a, b, if length c = 0 then a else c)
          | _ \<Rightarrow> ([], key, []))
      in case new_error (zero_error\<lparr>e_Message := Label @ '' '' @ message, e_Key := key, e_Name := Name, e_Field := Field, e_Label := Label\<rparr>) v of
           (i, v1) \<Rightarrow> setError i v1)"

definition apply_target :: "vval \<Rightarrow> vval" where
  "apply_target obj = (case obj of VNilPtr t \<Rightarrow> VNil | VPtr x r \<Rightarrow> x | _ \<Rightarrow> obj)"

definition key_parts :: "string \<Rightarrow> string \<times> string \<times> string" where
  "key_parts key = (case split key ''.'' of
       [a, b] \<Rightarrow> (a, b, a)
     | [a, b, c] \<Rightarrow> (a, b, if length c = 0 then a else c)
     | _ \<Rightarrow> ([], key, []))"

definition check_error :: "messages \<Rightarrow> validator \<Rightarrow> vval \<Rightarrow> VError" where
  "check_error ms chk obj =
     (let key = chk_GetKey chk; (Field, Name, Label) = key_parts key
      in \<lparr>e_Message = Label @ '' '' @ DefaultMessage ms chk, e_Key = key, e_Name = Name, e_Field = Field, e_Tmpl = tmpl ms Name,
          e_Label = Label, e_Value = obj, e_LimitValue = GetLimitValue chk\<rparr>)"

definition apply_check :: "messages \<Rightarrow> validator \<Rightarrow> vval \<Rightarrow> Validation \<Rightarrow> Result \<times> Validation" where
  "apply_check ms chk obj v =
     (if IsSatisfied chk (apply_target obj) then (\<lparr>r_Error = None, r_Ok = True\<rparr>, v)
      else case new_error (check_error ms chk obj) v of
             (i, v1) \<Rightarrow> (\<lparr>r_Error = Some i, r_Ok = False\<rparr>, setError i v1))"

fun check_loop :: "messages \<Rightarrow> vval \<Rightarrow> validator list \<Rightarrow> Result option \<Rightarrow> Validation \<Rightarrow> Result option \<times> Validation" where
  "check_loop ms obj [] result v = (result, v)"
| "check_loop ms obj (chk # chks) result v =
     (case apply_check ms chk obj v of
        (r, v1) \<Rightarrow> if \<not> r_Ok r then (Some r, v1) else check_loop ms obj chks (Some r) v1)"

definition Check :: "messages \<Rightarrow> vval \<Rightarrow> validator list \<Rightarrow> Validation \<Rightarrow> Result option \<times> Validation" where
  "Check ms obj checks v = check_loop ms obj checks None v"

section \<open>Validation functions and struct tags\<close>

datatype kind = KValidation | KIface | KInt | KInt64 | KInt32 | KInt16 | KInt8 | KString | KPtr string | KOther string

datatype vparam = PInt int_type int | PStr string | PRegexp regexp

datatype verr = NotStruct | InvalidMatch | CompileError string | RequireParams string int | InvalidFunc | NoSuchFunc string
  | NumErr num_error | Int64On32 | NotSupport string | SliceRecovered | DoesNotExist string | NotAdapted | CallPanic string | InvalidName string

datatype vstop = VPanic string | VErr verr

datatype vfn = BuiltinFn "kind list" | CustomFn "Validation \<Rightarrow> vval \<Rightarrow> string \<Rightarrow> Validation \<times> verr option"

record ValidFunc =
  vf_Name :: string
  vf_Params :: "vparam list"

record valid_env =
  funcs :: "string \<rightharpoonup> vfn"
  CanSkipFuncs :: "string list"
  msgs :: messages
  compile :: "string \<Rightarrow> string + regexp"

text \<open>The exported methods of \<^verbatim>\<open>*Validation\<close> with the kinds of their inputs, the receiver first.\<close>

definition methods :: "(string \<times> kind list) list" where
  "methods =
    [(''AddError'', [KValidation, KString, KString]), (''Alpha'', [KValidation, KIface, KString]), (''AlphaDash'', [KValidation, KIface, KString]),
     (''AlphaNumeric'', [KValidation, KIface, KString]), (''Base64'', [KValidation, KIface, KString]), (''CanSkipAlso'', [KValidation, KString]),
     (''Check'', [KValidation, KIface, KOther ''slice'']), (''Clear'', [KValidation]), (''Email'', [KValidation, KIface, KString]),
     (''Enum'', [KValidation, KIface, KString, KString]), (''Error'', [KValidation, KString, KOther ''slice'']), (''ErrorMap'', [KValidation]),
     (''HasErrors'', [KValidation]), (''IP'', [KValidation, KIface, KString]), (''Length'', [KValidation, KIface, KInt, KString]),
     (''Match'', [KValidation, KIface, KPtr ''regexp.Regexp'', KString]), (''Max'', [KValidation, KIface, KInt, KString]),
     (''MaxSize'', [KValidation, KIface, KInt, KString]), (''Min'', [KValidation, KIface, KInt, KString]),
     (''MinSize'', [KValidation, KIface, KInt, KString]), (''Mobile'', [KValidation, KIface, KString]),
     (''NoMatch'', [KValidation, KIface, KPtr ''regexp.Regexp'', KString]), (''Numeric'', [KValidation, KIface, KString]),
     (''Phone'', [KValidation, KIface, KString]), (''Range'', [KValidation, KIface, KInt, KInt, KString]),
     (''RecursiveValid'', [KValidation, KIface]), (''Required'', [KValidation, KIface, KString]), (''SetError'', [KValidation, KString, KString]),
     (''Tel'', [KValidation, KIface, KString]), (''Valid'', [KValidation, KIface]), (''ZipCode'', [KValidation, KIface, KString])]"

definition unFuncs :: "string list" where
  "unFuncs = [''Clear'', ''HasErrors'', ''ErrorMap'', ''Error'', ''apply'', ''Check'', ''Valid'', ''NoMatch'']"

fun init_loop :: "(string \<times> kind list) list \<Rightarrow> (string \<rightharpoonup> vfn) \<Rightarrow> (string \<rightharpoonup> vfn)" where
  "init_loop [] m = m"
| "init_loop ((name, ks) # ms) m = init_loop ms (if name \<notin> set unFuncs then m(name \<mapsto> BuiltinFn ks) else m)"

definition funcs_init :: "string \<rightharpoonup> vfn" where
  "funcs_init = init_loop methods Map.empty"

definition AddCustomFunc :: "string \<Rightarrow> (Validation \<Rightarrow> vval \<Rightarrow> string \<Rightarrow> Validation \<times> verr option) \<Rightarrow> valid_env \<Rightarrow> verr + valid_env" where
  "AddCustomFunc name f env = (if name \<in> set unFuncs then Inl (InvalidName name) else Inr (env\<lparr>funcs := (funcs env)(name \<mapsto> CustomFn f)\<rparr>))"

definition CanSkipFuncs_init :: "string list" where
  "CanSkipFuncs_init = [''Email'', ''IP'', ''Mobile'', ''Tel'', ''Phone'', ''ZipCode'']"

definition CanSkipAlso :: "string \<Rightarrow> valid_env \<Rightarrow> valid_env" where
  "CanSkipAlso skipFunc env = (if skipFunc \<notin> set (CanSkipFuncs env) then env\<lparr>CanSkipFuncs := CanSkipFuncs env @ [skipFunc]\<rparr> else env)"

fun fn_kinds :: "vfn \<Rightarrow> kind list" where
  "fn_kinds (BuiltinFn ks) = ks"
| "fn_kinds (CustomFn f) = [KValidation, KIface, KString]"

definition numIn :: "valid_env \<Rightarrow> string \<Rightarrow> verr + int" where
  "numIn env name = (case funcs env name of
       None \<Rightarrow> Inl (NoSuchFunc name)
     | Some fn \<Rightarrow> Inr (int (length (fn_kinds fn)) - 3))"

definition int_param :: "int_type \<Rightarrow> int \<times> num_error option \<Rightarrow> verr + vparam" where
  "int_param t r = (case r of (i, None) \<Rightarrow> Inr (PInt t i) | (i, Some e) \<Rightarrow> Inl (NumErr e))"

fun parseParam :: "valid_env \<Rightarrow> kind \<Rightarrow> string \<Rightarrow> verr + vparam" where
  "parseParam env KInt s = int_param TInt (atoi s)"
| "parseParam env KInt64 s = (if wordsize = 32 then Inl Int64On32 else int_param TInt64 (parse_int 64 s))"
| "parseParam env KInt32 s = int_param TInt32 (parse_int 32 s)"
| "parseParam env KInt16 s = int_param TInt16 (parse_int 16 s)"
| "parseParam env KInt8 s = int_param TInt8 (parse_int 8 s)"
| "parseParam env KString s = Inr (PStr s)"
| "parseParam env (KPtr elem) s =
     (if elem \<noteq> ''regexp.Regexp'' then Inl (NotSupport elem)
      else case compile env s of Inl e \<Rightarrow> Inl (CompileError e) | Inr re \<Rightarrow> Inr (PRegexp re))"
| "parseParam env KValidation s = Inl (NotSupport ''validation.Validation'')"
| "parseParam env KIface s = Inl (NotSupport ''interface'')"
| "parseParam env (KOther k) s = Inl (NotSupport k)"

fun trim_params :: "valid_env \<Rightarrow> kind list \<Rightarrow> string list \<Rightarrow> verr + vparam list" where
  "trim_params env ks [] = Inr []"
| "trim_params env [] (s # ss) = Inl (CallPanic ''reflect: Func index out of bounds'')"
| "trim_params env (k # ks) (s # ss) =
     res_bind (parseParam env k (trim_space s)) (\<lambda>p. res_bind (trim_params env ks ss) (\<lambda>ps. Inr (p # ps)))"

definition trim_args :: "valid_env \<Rightarrow> string \<Rightarrow> string \<Rightarrow> string list \<Rightarrow> verr + vparam list" where
  "trim_args env name key s = (case funcs env name of
       None \<Rightarrow> Inl (NoSuchFunc name)
     | Some fn \<Rightarrow> res_bind (trim_params env (drop 2 (fn_kinds fn)) s) (\<lambda>ts. Inr (ts @ [PStr key])))"

fun str_index :: "string \<Rightarrow> string \<Rightarrow> nat option" where
  "str_index sub [] = (if sub = [] then Some 0 else None)"
| "str_index sub (c # cs) = (if has_prefix (c # cs) sub then Some 0 else map_option Suc (str_index sub cs))"

fun str_last_index :: "string \<Rightarrow> string \<Rightarrow> nat option" where
  "str_last_index sub [] = (if sub = [] then Some 0 else None)"
| "str_last_index sub (c # cs) = (case str_last_index sub cs of
       Some i \<Rightarrow> Some (Suc i)
     | None \<Rightarrow> if has_prefix (c # cs) sub then Some 0 else None)"

definition parseFunc :: "valid_env \<Rightarrow> string \<Rightarrow> string \<Rightarrow> string \<Rightarrow> verr + ValidFunc" where
  "parseFunc env vfunc0 key label =
     (let vfunc = trim_space vfunc0 in
      case str_index ''('' vfunc of
        None \<Rightarrow> res_bind (numIn env vfunc)
          (\<lambda>num. if num \<noteq> 0 then Inl (RequireParams vfunc num)
                 else Inr \<lparr>vf_Name = vfunc, vf_Params = [PStr (key @ ''.'' @ vfunc @ ''.'' @ label)]\<rparr>)
      | Some start \<Rightarrow> (case str_index '')'' vfunc of
          None \<Rightarrow> Inl InvalidFunc
        | Some end' \<Rightarrow>
            let name = trim_space (take start vfunc) in
            res_bind (numIn env name)
              (\<lambda>num. if end' < start + 1 then Inl SliceRecovered
                     else let params = split (take (end' - (start + 1)) (drop (start + 1) vfunc)) '','' in
                       if num \<noteq> int (length params) then Inl (RequireParams name num)
                       else res_bind (trim_args env name (key @ ''.'' @ name @ ''.'' @ label) params)
                              (\<lambda>tParams. Inr \<lparr>vf_Name = name, vf_Params = tParams\<rparr>))))"

definition getRegFuncs :: "valid_env \<Rightarrow> string \<Rightarrow> string \<Rightarrow> vstop + ValidFunc list \<times> string" where
  "getRegFuncs env tag0 key =
     (let tag = trim_space tag0 in
      case str_index ''Match(/'' tag of
        None \<Rightarrow> Inr ([], tag)
      | Some index \<Rightarrow> (case str_last_index ''/)'' tag of
          None \<Rightarrow> Inl (VErr InvalidMatch)
        | Some end' \<Rightarrow>
            if end' < index then Inl (VErr InvalidMatch)
            else if end' < index + length ''Match(/'' then Inl (VPanic ''slice bounds out of range'')
            else case compile env (take (end' - (index + length ''Match(/'')) (drop (index + length ''Match(/'') tag)) of
                   Inl e \<Rightarrow> Inl (VErr (CompileError e))
                 | Inr reg \<Rightarrow> Inr ([\<lparr>vf_Name = ''Match'', vf_Params = [PRegexp reg, PStr (key @ ''.Match'')]\<rparr>],
                     trim_space (take index tag) @ trim_space (drop (end' + length ''/)'') tag))))"

fun parse_loop :: "valid_env \<Rightarrow> string \<Rightarrow> string \<Rightarrow> string list \<Rightarrow> verr + ValidFunc list" where
  "parse_loop env key label [] = Inr []"
| "parse_loop env key label (vfunc # fs) =
     (if length vfunc = 0 then parse_loop env key label fs
      else res_bind (parseFunc env vfunc key label) (\<lambda>vf. res_bind (parse_loop env key label fs) (\<lambda>vfs. Inr (vf # vfs))))"

definition getValidFuncs :: "valid_env \<Rightarrow> string \<Rightarrow> string \<Rightarrow> string \<Rightarrow> vstop + ValidFunc list" where
  "getValidFuncs env name tag label =
     (if length tag = 0 then Inr []
      else res_bind (getRegFuncs env tag name) (\<lambda>(vfs, tag').
        case parse_loop env name label (split tag' '';'') of
          Inl e \<Rightarrow> Inl (VErr e)
        | Inr vfs' \<Rightarrow> Inr (vfs @ vfs')))"

section \<open>Calls by name\<close>

definition with_key :: "(string \<Rightarrow> validator) \<Rightarrow> vparam list \<Rightarrow> validator option" where
  "with_key c ps = (case ps of [PStr k] \<Rightarrow> Some (c k) | _ \<Rightarrow> None)"

definition with_int :: "(int \<Rightarrow> string \<Rightarrow> validator) \<Rightarrow> vparam list \<Rightarrow> validator option" where
  "with_int c ps = (case ps of [PInt TInt i, PStr k] \<Rightarrow> Some (c i k) | _ \<Rightarrow> None)"

text \<open>The validator that each of the methods \<^verbatim>\<open>Required\<close> to \<^verbatim>\<open>Enum\<close> applies, from the parameters after the object.\<close>

definition method_checks :: "(string \<times> (vparam list \<Rightarrow> validator option)) list" where
  "method_checks =
    [(''Required'', with_key Required), (''Min'', with_int MinV), (''Max'', with_int MaxV),
     (''Range'', \<lambda>ps. case ps of [PInt TInt lo, PInt TInt hi, PStr k] \<Rightarrow> Some (Range lo hi k) | _ \<Rightarrow> None),
     (''MinSize'', with_int MinSize), (''MaxSize'', with_int MaxSize), (''Length'', with_int Length),
     (''Alpha'', with_key Alpha), (''Numeric'', with_key Numeric), (''AlphaNumeric'', with_key AlphaNumeric),
     (''Match'', \<lambda>ps. case ps of [PRegexp re, PStr k] \<Rightarrow> Some (Match re k) | _ \<Rightarrow> None),
     (''NoMatch'', \<lambda>ps. case ps of [PRegexp re, PStr k] \<Rightarrow> Some (NoMatch re k) | _ \<Rightarrow> None),
     (''AlphaDash'', with_key (AlphaDash alphaDashPattern)), (''Email'', with_key (Email emailPattern)), (''IP'', with_key (IP ipPattern)),
     (''Base64'', with_key (Base64 base64Pattern)), (''Mobile'', with_key (Mobile mobilePattern)), (''Tel'', with_key (Tel telPattern)),
     (''Phone'', with_key (Phone mobilePattern telPattern)), (''ZipCode'', with_key (ZipCode zipCodePattern)),
     (''Enum'', \<lambda>ps. case ps of [PStr vals, PStr k] \<Rightarrow> Some (Enum vals k) | _ \<Rightarrow> None)]"

definition method_check :: "string \<Rightarrow> vparam list \<Rightarrow> validator option" where
  "method_check name ps = (case map_of method_checks name of None \<Rightarrow> None | Some f \<Rightarrow> f ps)"

text \<open>A call by reflection panics when the argument types do not fit; \<^verbatim>\<open>Call\<close> recovers it. Of the methods that are in the
  table without being a check only \<^verbatim>\<open>AddError\<close> and \<^verbatim>\<open>SetError\<close> take three inputs.\<close>

definition invoke :: "messages \<Rightarrow> string \<Rightarrow> Validation \<Rightarrow> vval \<Rightarrow> vparam list \<Rightarrow> Validation \<times> verr option" where
  "invoke ms name v obj ps =
     (if name = ''AddError'' \<or> name = ''SetError'' then
        (case (obj, ps) of
           (VStr s, [PStr m]) \<Rightarrow> (if name = ''AddError'' then AddError s m v else snd (SetError s m v), None)
         | _ \<Rightarrow> (v, Some (CallPanic ''reflect: Call using wrong type'')))
      else case method_check name ps of
             None \<Rightarrow> (v, Some (CallPanic ''reflect: Call using wrong type''))
           | Some chk \<Rightarrow> (snd (apply_check ms chk obj v), None))"

definition Call :: "valid_env \<Rightarrow> string \<Rightarrow> Validation \<Rightarrow> vval \<Rightarrow> vparam list \<Rightarrow> Validation \<times> verr option" where
  "Call env name v obj ps =
     (case funcs env name of
        None \<Rightarrow> (v, Some (DoesNotExist name))
      | Some fn \<Rightarrow>
          if length ps + 2 \<noteq> length (fn_kinds fn) then (v, Some NotAdapted)
          else if obj = VNil then (v, Some (CallPanic ''reflect: Call using zero Value argument''))
          else case fn of
                 BuiltinFn ks \<Rightarrow> invoke (msgs env) name v obj ps
               | CustomFn f \<Rightarrow> (case ps of
                     [PStr k] \<Rightarrow> f v obj k
                   | _ \<Rightarrow> (v, Some (CallPanic ''reflect: Call using wrong type''))))"

section \<open>Validation of a struct\<close>

definition current_field :: "vval \<Rightarrow> vval" where
  "current_field x = (case x of VNilPtr t \<Rightarrow> VStr [] | VPtr y r \<Rightarrow> y | _ \<Rightarrow> x)"

definition skips :: "valid_env \<Rightarrow> bool \<Rightarrow> string \<Rightarrow> vval \<Rightarrow> Validation \<Rightarrow> bool" where
  "skips env hasRequired name x v \<longleftrightarrow>
     \<not> hasRequired \<and> RequiredFirst v \<and> \<not> IsSatisfied (Required []) (current_field x) \<and> name \<in> set (CanSkipFuncs env)"

fun vf_loop :: "valid_env \<Rightarrow> sfield \<Rightarrow> bool \<Rightarrow> ValidFunc list \<Rightarrow> Validation \<Rightarrow> Validation \<times> vstop option" where
  "vf_loop env f hasRequired [] v = (v, None)"
| "vf_loop env f hasRequired (vf # vfs) v =
     (let hasRequired' = (hasRequired \<or> vf_Name vf = ''Required'') in
      if \<not> sf_exported f then (v, Some (VPanic ''reflect.Value.Interface: cannot return value obtained from unexported field''))
      else if skips env hasRequired' (vf_Name vf) (sf_val f) v then vf_loop env f hasRequired' vfs v
      else case Call env (vf_Name vf) v (sf_val f) (vf_Params vf) of
             (v1, Some e) \<Rightarrow> (v1, Some (VErr e))
           | (v1, None) \<Rightarrow> vf_loop env f hasRequired' vfs v1)"

fun field_loop :: "valid_env \<Rightarrow> sfield list \<Rightarrow> Validation \<Rightarrow> Validation \<times> vstop option" where
  "field_loop env [] v = (v, None)"
| "field_loop env (f # fs) v =
     (case getValidFuncs env (sf_name f) (sf_valid f) (sf_label f) of
        Inl stop \<Rightarrow> (v, Some stop)
      | Inr vfs \<Rightarrow> (case vf_loop env f False vfs v of
            (v1, Some stop) \<Rightarrow> (v1, Some stop)
          | (v1, None) \<Rightarrow> field_loop env fs v1))"

text \<open>The loop over the fields of a nil pointer: a field with a validation function is read through the zero value.\<close>

fun nil_loop :: "valid_env \<Rightarrow> ftype list \<Rightarrow> vstop option" where
  "nil_loop env [] = None"
| "nil_loop env (t # ts) =
     (case getValidFuncs env (ft_name t) (ft_valid t) (ft_label t) of
        Inl stop \<Rightarrow> Some stop
      | Inr [] \<Rightarrow> nil_loop env ts
      | Inr (vf # vfs) \<Rightarrow> Some (VPanic ''reflect: call of reflect.Value.Field on zero Value''))"

fun struct_loop :: "valid_env \<Rightarrow> vval \<Rightarrow> Validation \<Rightarrow> Validation \<times> vstop option" where
  "struct_loop env (VStruct fs r) v = field_loop env fs v"
| "struct_loop env (VTime z r) v = (v, None)"
| "struct_loop env (VPtr (VStruct fs r) r') v = field_loop env fs v"
| "struct_loop env (VPtr (VTime z r) r') v = (v, None)"
| "struct_loop env (VNilPtr (Some ts)) v = (v, nil_loop env ts)"
| "struct_loop env VNil v = (v, Some (VPanic ''invalid memory address or nil pointer dereference''))"
| "struct_loop env _ v = (v, Some (VErr NotStruct))"

definition Valid :: "valid_env \<Rightarrow> (vval \<Rightarrow> (Validation \<Rightarrow> Validation) option) \<Rightarrow> vval \<Rightarrow> Validation \<Rightarrow> Validation \<times> (vstop + bool)" where
  "Valid env former obj v =
     (case struct_loop env obj v of
        (v1, Some stop) \<Rightarrow> (v1, Inl stop)
      | (v1, None) \<Rightarrow>
          let v2 = (if \<not> HasErrors v1 then (case former obj of None \<Rightarrow> v1 | Some form_Valid \<Rightarrow> form_Valid v1) else v1)
          in (v2, Inr (\<not> HasErrors v2)))"

fun is_struct_or_ptr :: "vval \<Rightarrow> bool" where
  "is_struct_or_ptr (VStruct fs r) = True"
| "is_struct_or_ptr (VTime z r) = True"
| "is_struct_or_ptr (VPtr (VStruct fs r) r') = True"
| "is_struct_or_ptr (VPtr (VTime z r) r') = True"
| "is_struct_or_ptr (VNilPtr (Some ts)) = True"
| "is_struct_or_ptr _ = False"

fun struct_fields :: "vval \<Rightarrow> sfield list" where
  "struct_fields (VStruct fs r) = fs"
| "struct_fields (VPtr (VStruct fs r) r') = fs"
| "struct_fields _ = []"

lemma struct_fields_size: "size_list (\<lambda>f. size (sf_val f) + 1) (struct_fields x) \<le> size x"
proof -
  have "Suc (size (sf_val f)) \<le> size f" for f by (cases f) simp
  then have "size_list (\<lambda>f. Suc (size (sf_val f))) fs \<le> size_list size fs" for fs
    by (intro size_list_pointwise) simp
  then show ?thesis by (induction x rule: struct_fields.induct) (simp_all add: le_SucI trans_le_add1)
qed

definition nil_struct_field :: "vval \<Rightarrow> bool" where
  "nil_struct_field obj = (case obj of VNilPtr (Some ts) \<Rightarrow> list_ex ft_struct ts | _ \<Rightarrow> False)"

text \<open>\<^verbatim>\<open>RecursiveValid\<close>: the loop over the fields keeps the result of the last field that was validated.\<close>

function (sequential)
  RecursiveValid :: "valid_env \<Rightarrow> (vval \<Rightarrow> (Validation \<Rightarrow> Validation) option) \<Rightarrow> vval \<Rightarrow> Validation \<Rightarrow> Validation \<times> (vstop + bool)" and
  recursive_loop :: "valid_env \<Rightarrow> (vval \<Rightarrow> (Validation \<Rightarrow> Validation) option) \<Rightarrow> sfield list \<Rightarrow> Validation \<times> (vstop + bool) \<Rightarrow> Validation \<times> (vstop + bool)"
where
  "RecursiveValid env former obj v =
     (case Valid env former obj v of
        (v1, Inr True) \<Rightarrow>
          if nil_struct_field obj then (v1, Inl (VPanic ''reflect: call of reflect.Value.Field on zero Value''))
          else recursive_loop env former (struct_fields obj) (v1, Inr True)
      | (v1, r) \<Rightarrow> (v1, r))"
| "recursive_loop env former [] res = res"
| "recursive_loop env former (f # fs) (v, Inl (VPanic m)) = (v, Inl (VPanic m))"
| "recursive_loop env former (f # fs) (v, r) =
     (if is_struct_or_ptr (sf_val f) \<and> sf_exported f
      then recursive_loop env former fs (RecursiveValid env former (sf_val f) v)
      else recursive_loop env former fs (v, r))"
  by pat_completeness auto
termination
proof (relation "measure (\<lambda>x. case x of Inl (env, former, obj, v) \<Rightarrow> 2 * size obj + 1 | Inr (env, former, fs, res) \<Rightarrow> 2 * size_list (\<lambda>f. size (sf_val f) + 1) fs)")
qed (use struct_fields_size in \<open>auto simp: less_Suc_eq_le\<close>)

section \<open>Tags that parse are well typed\<close>

text \<open>The environments a program can have: the initial one, after registrations of custom functions (under any name but
  \<^verbatim>\<open>Match\<close>, whose parameters \<^verbatim>\<open>getRegFuncs\<close> fixes), of skipped functions and of messages.\<close>

definition init_env :: "(string \<Rightarrow> string + regexp) \<Rightarrow> valid_env" where
  "init_env cmp = \<lparr>funcs = funcs_init, CanSkipFuncs = CanSkipFuncs_init, msgs = messages_init, compile = cmp\<rparr>"

inductive configured :: "valid_env \<Rightarrow> bool" where
  init: "configured (init_env cmp)"
| custom: "configured env \<Longrightarrow> name \<noteq> ''Match'' \<Longrightarrow> AddCustomFunc name f env = Inr env' \<Longrightarrow> configured env'"
| skip: "configured env \<Longrightarrow> configured (CanSkipAlso name env)"
| message: "configured env \<Longrightarrow> configured (env\<lparr>msgs := SetDefaultMessage m (msgs env)\<rparr>)"

fun fits :: "kind \<Rightarrow> vparam \<Rightarrow> bool" where
  "fits KInt (PInt TInt i) = True"
| "fits KInt64 (PInt TInt64 i) = True"
| "fits KInt32 (PInt TInt32 i) = True"
| "fits KInt16 (PInt TInt16 i) = True"
| "fits KInt8 (PInt TInt8 i) = True"
| "fits KString (PStr s) = True"
| "fits (KPtr e) (PRegexp re) = (e = ''regexp.Regexp'')"
| "fits _ _ = False"

definition typed :: "valid_env \<Rightarrow> ValidFunc \<Rightarrow> bool" where
  "typed env vf = (case funcs env (vf_Name vf) of
       None \<Rightarrow> False
     | Some fn \<Rightarrow> 3 \<le> length (fn_kinds fn) \<and> list_all2 fits (drop 2 (fn_kinds fn)) (vf_Params vf))"

text \<open>The functions of the table that a tag can call, with the kinds of the inputs after the object.\<close>

definition tag_methods :: "(string \<times> kind list) list" where
  "tag_methods = map (\<lambda>(n, ks). (n, drop 2 ks)) (filter (\<lambda>(n, ks). n \<notin> set unFuncs \<and> 3 \<le> length ks) methods)"

lemma tag_methods_eq: "tag_methods =
    [(''AddError'', [KString]), (''Alpha'', [KString]), (''AlphaDash'', [KString]), (''AlphaNumeric'', [KString]), (''Base64'', [KString]),
     (''Email'', [KString]), (''Enum'', [KString, KString]), (''IP'', [KString]), (''Length'', [KInt, KString]),
     (''Match'', [KPtr ''regexp.Regexp'', KString]), (''Max'', [KInt, KString]), (''MaxSize'', [KInt, KString]), (''Min'', [KInt, KString]),
     (''MinSize'', [KInt, KString]), (''Mobile'', [KString]), (''Numeric'', [KString]), (''Phone'', [KString]), (''Range'', [KInt, KInt, KString]),
     (''Required'', [KString]), (''SetError'', [KString]), (''Tel'', [KString]), (''ZipCode'', [KString])]"
  by code_simp

lemma init_loop_eq: "init_loop ms m = m ++ map_of (rev (map (\<lambda>(n, ks). (n, BuiltinFn ks)) (filter (\<lambda>(n, ks). n \<notin> set unFuncs) ms)))"
  by (induction ms m rule: init_loop.induct) auto

lemma funcs_init_builtin: "funcs_init name = Some fn \<Longrightarrow> \<exists>ks. fn = BuiltinFn ks \<and> name \<notin> set unFuncs \<and> (name, ks) \<in> set methods"
  by (auto simp: funcs_init_def init_loop_eq dest!: map_of_SomeD)

lemma funcs_init_tag: "funcs_init name = Some fn \<Longrightarrow> 3 \<le> length (fn_kinds fn) \<Longrightarrow> (name, drop 2 (fn_kinds fn)) \<in> set tag_methods"
  by (drule funcs_init_builtin) (auto simp: tag_methods_def intro!: image_eqI [of _ _ "(name, fn_kinds fn)"])

lemma funcs_init_Match: "funcs_init ''Match'' = Some (BuiltinFn [KValidation, KIface, KPtr ''regexp.Regexp'', KString])"
  by (simp add: funcs_init_def methods_def unFuncs_def)

lemma configured_funcs:
  "configured env \<Longrightarrow> funcs env ''Match'' = funcs_init ''Match'' \<and>
     (\<forall>name ks. funcs env name = Some (BuiltinFn ks) \<longrightarrow> funcs_init name = Some (BuiltinFn ks))"
proof (induction rule: configured.induct)
  case (custom env name f env')
  then have "env' = env\<lparr>funcs := (funcs env)(name \<mapsto> CustomFn f)\<rparr>"
    by (simp add: AddCustomFunc_def split: if_split_asm)
  then have upd: "funcs env' = (funcs env)(name \<mapsto> CustomFn f)" by simp
  show ?case
  proof (intro conjI allI impI)
    show "funcs env' ''Match'' = funcs_init ''Match''"
      unfolding upd fun_upd_other [OF not_sym [OF custom.hyps(2)]] using custom.IH by (rule conjunct1)
    fix n ks
    assume "funcs env' n = Some (BuiltinFn ks)"
    then have "funcs env n = Some (BuiltinFn ks)" unfolding upd by (cases "n = name") simp_all
    with custom.IH show "funcs_init n = Some (BuiltinFn ks)" by blast
  qed
next
  case (skip env name)
  have same: "funcs (CanSkipAlso name env) = funcs env" by (simp add: CanSkipAlso_def)
  show ?case unfolding same by (rule skip.IH)
next
  case (message env m)
  have same: "funcs (env\<lparr>msgs := SetDefaultMessage m (msgs env)\<rparr>) = funcs env" by simp
  show ?case unfolding same by (rule message.IH)
qed (simp add: init_env_def)

lemma configured_tag:
  assumes "configured env" "funcs env name = Some (BuiltinFn ks)" "3 \<le> length ks"
  shows "(name, drop 2 ks) \<in> set tag_methods"
  using assms configured_funcs [OF assms(1)] funcs_init_tag [of name "BuiltinFn ks"] by simp

lemma configured_last_key:
  assumes "configured env" "funcs env name = Some fn" "3 \<le> length (fn_kinds fn)"
  shows "\<exists>ks. drop 2 (fn_kinds fn) = ks @ [KString]"
proof (cases fn)
  case (BuiltinFn ks)
  with assms configured_tag have "(name, drop 2 ks) \<in> set tag_methods" by simp
  then have "drop 2 ks \<noteq> [] \<and> last (drop 2 ks) = KString" unfolding tag_methods_eq by auto
  with BuiltinFn show ?thesis by (metis append_butlast_last_id fn_kinds.simps(1))
qed simp

lemma parseParam_fits: "parseParam env k s = Inr p \<Longrightarrow> fits k p"
  by (cases k) (auto simp: int_param_def split: if_splits prod.splits option.splits sum.splits)

lemma trim_params_fits: "trim_params env ks ss = Inr ps \<Longrightarrow> list_all2 fits (take (length ss) ks) ps \<and> length ss \<le> length ks"
  by (induction env ks ss arbitrary: ps rule: trim_params.induct) (auto simp: res_bind_Inr_iff parseParam_fits)

lemma numIn_Inr: "numIn env name = Inr num \<longleftrightarrow> (\<exists>fn. funcs env name = Some fn \<and> num = int (length (fn_kinds fn)) - 3)"
  by (auto simp: numIn_def split: option.splits)

lemma parseFunc_typed:
  assumes "configured env" "parseFunc env t key label = Inr vf"
  shows "typed env vf"
proof -
  from assms(2) consider
    (plain) name fn where "funcs env name = Some fn" "length (fn_kinds fn) = 3" "vf = \<lparr>vf_Name = name, vf_Params = [PStr (key @ ''.'' @ name @ ''.'' @ label)]\<rparr>"
  | (args) name fn params k ts where "funcs env name = Some fn" "int (length params) = int (length (fn_kinds fn)) - 3"
      "trim_params env (drop 2 (fn_kinds fn)) params = Inr ts" "vf = \<lparr>vf_Name = name, vf_Params = ts @ [PStr k]\<rparr>"
    by (auto simp: parseFunc_def Let_def res_bind_Inr_iff numIn_Inr trim_args_def split: option.splits if_splits)
  then show ?thesis
  proof cases
    case plain
    with configured_last_key [OF assms(1) plain(1)] obtain ks where ks: "drop 2 (fn_kinds fn) = ks @ [KString]" by auto
    moreover have "length (drop 2 (fn_kinds fn)) = 1" using plain(2) by simp
    ultimately have "drop 2 (fn_kinds fn) = [KString]" by simp
    with plain show ?thesis by (simp add: typed_def)
  next
    case args
    then have len: "length (fn_kinds fn) = length params + 3" by linarith
    with configured_last_key [OF assms(1) args(1)] obtain ks where ks: "drop 2 (fn_kinds fn) = ks @ [KString]" by auto
    have "length (drop 2 (fn_kinds fn)) = length params + 1" using len by simp
    with ks have "length ks = length params" by simp
    with trim_params_fits [OF args(3)] ks args(1,4) len show ?thesis
      by (simp add: typed_def list_all2_appendI)
  qed
qed

lemma parse_loop_typed:
  "configured env \<Longrightarrow> parse_loop env key label fs = Inr vfs \<Longrightarrow> list_all (typed env) vfs"
  by (induction env key label fs arbitrary: vfs rule: parse_loop.induct)
    (auto simp: res_bind_Inr_iff parseFunc_typed split: if_splits)

lemma Match_typed:
  assumes "configured env"
  shows "typed env \<lparr>vf_Name = ''Match'', vf_Params = [PRegexp re, PStr k]\<rparr>"
proof -
  have "funcs env ''Match'' = Some (BuiltinFn [KValidation, KIface, KPtr ''regexp.Regexp'', KString])"
    using configured_funcs [OF assms] funcs_init_Match by (metis (no_types))
  then show ?thesis by (simp add: typed_def)
qed

lemma getValidFuncs_typed:
  assumes "configured env" "getValidFuncs env name tag label = Inr vfs"
  shows "list_all (typed env) vfs"
proof (cases "tag = []")
  case False
  with assms(2) obtain v1 t where reg: "getRegFuncs env tag name = Inr (v1, t)"
    by (auto simp: getValidFuncs_def res_bind_Inr_iff)
  with False assms(2) obtain v2 where 1: "parse_loop env name label (split t '';'') = Inr v2" "vfs = v1 @ v2"
    by (cases "parse_loop env name label (split t '';'')") (auto simp: getValidFuncs_def)
  have "list_all (typed env) v1"
    using reg Match_typed [OF assms(1)] by (auto simp: getRegFuncs_def Let_def split: option.splits if_splits sum.splits)
  moreover have "list_all (typed env) v2" using parse_loop_typed [OF assms(1) 1(1)] .
  ultimately show ?thesis using 1(2) by simp
qed (use assms in \<open>simp add: getValidFuncs_def\<close>)

lemma fits_iff:
  "fits KString p \<longleftrightarrow> (\<exists>s. p = PStr s)"
  "fits KInt p \<longleftrightarrow> (\<exists>i. p = PInt TInt i)"
  "fits (KPtr ''regexp.Regexp'') p \<longleftrightarrow> (\<exists>re. p = PRegexp re)"
  by (cases p; auto elim: fits.elims)+

lemma fits_lists:
  "list_all2 fits [KString] ps \<longleftrightarrow> (\<exists>k. ps = [PStr k])"
  "list_all2 fits [KInt, KString] ps \<longleftrightarrow> (\<exists>i k. ps = [PInt TInt i, PStr k])"
  "list_all2 fits [KInt, KInt, KString] ps \<longleftrightarrow> (\<exists>i j k. ps = [PInt TInt i, PInt TInt j, PStr k])"
  "list_all2 fits [KString, KString] ps \<longleftrightarrow> (\<exists>s k. ps = [PStr s, PStr k])"
  "list_all2 fits [KPtr ''regexp.Regexp'', KString] ps \<longleftrightarrow> (\<exists>re k. ps = [PRegexp re, PStr k])"
  by (auto simp: list_all2_Cons1 fits_iff)

lemma method_check_total:
  assumes "(name, ks) \<in> set tag_methods" "name \<noteq> ''AddError''" "name \<noteq> ''SetError''" "list_all2 fits ks ps"
  shows "\<exists>chk. method_check name ps = Some chk"
proof -
  have "list_all (\<lambda>(n, ks). n = ''AddError'' \<or> n = ''SetError'' \<or> (\<forall>ps. list_all2 fits ks ps \<longrightarrow> (\<exists>chk. method_check n ps = Some chk))) tag_methods"
    unfolding tag_methods_eq
    by (simp only: list.pred_inject prod.case fits_lists)
      (auto simp: method_check_def method_checks_def with_key_def with_int_def)
  with assms show ?thesis unfolding list_all_iff by blast
qed

text \<open>C18. A struct tag that parses is well typed: every function it lists exists and takes parameters of the kinds that were
  parsed. So a call on a non-nil value is never refused for its parameters, and a built-in check always runs.\<close>

theorem tag_calls_typed:
  assumes "configured env" "getValidFuncs env name tag label = Inr vfs" "vf \<in> set vfs" "obj \<noteq> VNil"
  shows "\<exists>fn. funcs env (vf_Name vf) = Some fn \<and> list_all2 fits (drop 2 (fn_kinds fn)) (vf_Params vf) \<and>
    (case fn of
       CustomFn f \<Rightarrow> \<exists>k. vf_Params vf = [PStr k] \<and> Call env (vf_Name vf) v obj (vf_Params vf) = f v obj k
     | BuiltinFn ks \<Rightarrow> (if vf_Name vf = ''AddError'' \<or> vf_Name vf = ''SetError'' then snd (Call env (vf_Name vf) v obj (vf_Params vf)) \<noteq> Some NotAdapted
         else \<exists>chk. method_check (vf_Name vf) (vf_Params vf) = Some chk \<and>
           Call env (vf_Name vf) v obj (vf_Params vf) = (snd (apply_check (msgs env) chk obj v), None)))"
proof -
  from getValidFuncs_typed [OF assms(1,2)] assms(3) have "typed env vf" by (auto simp: list_all_iff)
  then obtain fn where fn: "funcs env (vf_Name vf) = Some fn" "3 \<le> length (fn_kinds fn)" "list_all2 fits (drop 2 (fn_kinds fn)) (vf_Params vf)"
    by (auto simp: typed_def split: option.splits)
  from fn(3) have "length (vf_Params vf) = length (fn_kinds fn) - 2" by (auto dest!: list_all2_lengthD)
  with fn(2) have len: "length (vf_Params vf) + 2 = length (fn_kinds fn)" by linarith
  show ?thesis
  proof (cases fn)
    case (BuiltinFn ks)
    with fn configured_tag [OF assms(1)] have tag: "(vf_Name vf, drop 2 ks) \<in> set tag_methods" by simp
    have Call: "Call env (vf_Name vf) v obj (vf_Params vf) = invoke (msgs env) (vf_Name vf) v obj (vf_Params vf)"
      using fn len BuiltinFn assms(4) by (simp add: Call_def)
    show ?thesis
    proof (cases "vf_Name vf = ''AddError'' \<or> vf_Name vf = ''SetError''")
      case True
      then have "snd (invoke (msgs env) (vf_Name vf) v obj (vf_Params vf)) \<noteq> Some NotAdapted"
        by (simp add: invoke_def split: prod.splits vval.splits list.splits vparam.splits)
      with fn BuiltinFn Call True show ?thesis by auto
    next
      case False
      with method_check_total [OF tag] fn(3) BuiltinFn obtain chk where chk: "method_check (vf_Name vf) (vf_Params vf) = Some chk" by auto
      with False have "invoke (msgs env) (vf_Name vf) v obj (vf_Params vf) = (snd (apply_check (msgs env) chk obj v), None)"
        by (simp add: invoke_def)
      with fn BuiltinFn Call False chk show ?thesis by simp
    qed
  next
    case (CustomFn f)
    with fn have "list_all2 fits [KString] (vf_Params vf)" by (simp add: numeral_2_eq_2)
    then obtain k where "vf_Params vf = [PStr k]" unfolding fits_lists by blast
    with fn CustomFn assms(4) show ?thesis by (simp add: Call_def)
  qed
qed

section \<open>How errors are collected\<close>

definition put_error :: "VError \<Rightarrow> Validation \<Rightarrow> Validation" where
  "put_error e v = (case new_error e v of (i, v1) \<Rightarrow> setError i v1)"

lemma SetError_put: "snd (SetError a b v) = put_error (zero_error\<lparr>e_Key := a, e_Field := a, e_Tmpl := b, e_Message := b\<rparr>) v"
  by (simp add: SetError_def put_error_def new_error_def)

lemma AddError_put: "\<exists>e. AddError a b v = put_error e v"
  unfolding AddError_def put_error_def Let_def case_prod_beta by blast

lemma apply_check_put: "snd (apply_check ms chk obj v) = (if IsSatisfied chk (apply_target obj) then v else put_error (check_error ms chk obj) v)"
  by (simp add: apply_check_def put_error_def new_error_def)

text \<open>Without custom functions and without a method \<^verbatim>\<open>Valid\<close> of the struct, all errors are added in one way, so what that
  way keeps is kept by the whole of a validation.\<close>

definition builtin_only :: "valid_env \<Rightarrow> bool" where
  "builtin_only env \<longleftrightarrow> (\<forall>n fn. funcs env n = Some fn \<longrightarrow> (\<exists>ks. fn = BuiltinFn ks))"

locale error_collector =
  fixes inv :: "Validation \<Rightarrow> bool"
  assumes put: "inv v \<Longrightarrow> inv (put_error e v)"
begin

lemma apply_check: "inv v \<Longrightarrow> inv (snd (apply_check ms chk obj v))"
  by (simp add: apply_check_put put)

lemma SetError: "inv v \<Longrightarrow> inv (snd (SetError a b v))"
  by (simp add: SetError_put put)

lemma AddError: "inv v \<Longrightarrow> inv (AddError a b v)"
  using AddError_put [of a b v] put by auto

lemma check_loop: "inv v \<Longrightarrow> inv (snd (check_loop ms obj chks r v))"
proof (induction ms obj chks r v rule: check_loop.induct)
  case (2 ms obj chk chks result v)
  then show ?case using apply_check [of v ms chk obj] by (auto split: prod.splits)
qed simp

lemma Check: "inv v \<Longrightarrow> inv (snd (Check ms obj chks v))"
  by (simp add: Check_def check_loop)

lemma invoke: "inv v \<Longrightarrow> inv (fst (invoke ms name v obj ps))"
  by (auto simp: invoke_def apply_check AddError SetError split: option.splits vval.splits list.splits vparam.splits)

lemma Call:
  assumes "builtin_only env" "inv v"
  shows "inv (fst (Call env name v obj ps))"
proof (cases "funcs env name")
  case (Some fn)
  with assms(1) obtain ks where "fn = BuiltinFn ks" by (auto simp: builtin_only_def)
  with Some show ?thesis using assms(2) invoke by (simp add: Call_def)
qed (use assms in \<open>simp add: Call_def\<close>)

lemma vf_loop:
  assumes "builtin_only env" "inv v"
  shows "inv (fst (vf_loop env f has vfs v))"
  using assms
proof (induction env f has vfs v rule: vf_loop.induct)
  case (2 env f has vf vfs v)
  have c: "inv (fst (Call env (vf_Name vf) v (sf_val f) (vf_Params vf)))"
    using 2(3,4) by (rule Call)
  show ?case
  proof (cases "Call env (vf_Name vf) v (sf_val f) (vf_Params vf)")
    case (Pair v1 e)
    with c have "inv v1" by simp
    with 2 Pair show ?thesis by (cases e) (auto simp: Let_def)
  qed
qed simp

lemma field_loop:
  assumes "builtin_only env" "inv v"
  shows "inv (fst (field_loop env fs v))"
  using assms
proof (induction env fs v rule: field_loop.induct)
  case (2 env f fs v)
  have c: "inv (fst (vf_loop env f False vfs v))" for vfs
    using 2(2,3) by (rule vf_loop)
  show ?case
  proof (cases "getValidFuncs env (sf_name f) (sf_valid f) (sf_label f)")
    case (Inr vfs)
    obtain v1 e where "vf_loop env f False vfs v = (v1, e)" by force
    moreover from this c [of vfs] have "inv v1" by simp
    ultimately show ?thesis using 2 Inr by (cases e) simp_all
  qed (use 2 in simp)
qed simp

lemma Valid:
  assumes "builtin_only env" "inv v"
  shows "inv (fst (Valid env (\<lambda>_. None) obj v))"
proof -
  have "inv (fst (struct_loop env obj v))"
    using field_loop [OF assms] assms(2) by (induction env obj v rule: struct_loop.induct) auto
  then show ?thesis by (auto simp: Valid_def Let_def split: prod.splits option.splits)
qed

lemma recursive:
  "builtin_only env \<Longrightarrow> former = (\<lambda>_. None) \<Longrightarrow> inv v \<Longrightarrow> inv (fst (RecursiveValid env former obj v))"
  "builtin_only env \<Longrightarrow> former = (\<lambda>_. None) \<Longrightarrow> inv (fst res) \<Longrightarrow> inv (fst (recursive_loop env former fs res))"
proof (induction env former obj v and env former fs res rule: RecursiveValid_recursive_loop.induct)
  case (1 env former obj v)
  obtain v1 r where v: "Valid env former obj v = (v1, r)" by force
  with Valid [OF 1(2,4), of obj] 1(3) have "inv v1" by simp
  then show ?case using 1 v by (auto split: sum.splits bool.splits)
qed (auto simp del: RecursiveValid.simps)

end

text \<open>The errors of a field in the map, and what the list and the map of a context have to do with each other.\<close>

definition errors_of :: "Validation \<Rightarrow> string \<Rightarrow> nat list" where
  "errors_of v f = (case ErrorsMap v of None \<Rightarrow> [] | Some m \<Rightarrow> (case m f of None \<Rightarrow> [] | Some is \<Rightarrow> is))"

definition grouped :: "Validation \<Rightarrow> bool" where
  "grouped v \<longleftrightarrow> list_all (\<lambda>i. i < length (err_objs v)) (Errors v) \<and>
     errors_of v = (\<lambda>f. filter (\<lambda>i. e_Field (err_objs v ! i) = f) (Errors v))"

lemma put_error_fields:
  "Errors (put_error e v) = Errors v @ [length (err_objs v)]"
  "err_objs (put_error e v) = err_objs v @ [e]"
  "RequiredFirst (put_error e v) = RequiredFirst v"
  "errors_of (put_error e v) f = errors_of v f @ (if f = e_Field e then [length (err_objs v)] else [])"
  by (auto simp: put_error_def new_error_def setError_def errors_of_def Let_def split: option.splits)

interpretation grouping: error_collector grouped
proof
  fix v e
  assume g: "grouped v"
  then have "filter (\<lambda>i. e_Field ((err_objs v @ [e]) ! i) = f) (Errors v) = filter (\<lambda>i. e_Field (err_objs v ! i) = f) (Errors v)" for f
    by (intro filter_cong) (auto simp: grouped_def list_all_iff nth_append)
  with g show "grouped (put_error e v)"
    by (auto simp: grouped_def put_error_fields list_all_iff fun_eq_iff)
qed

lemma upd_error_grouped:
  assumes "grouped v" "\<And>e. e_Field (f e) = e_Field e"
  shows "grouped (upd_error i f v)"
proof -
  let ?l = "(err_objs v)[i := f (err_objs v ! i)]"
  have "e_Field (?l ! j) = e_Field (err_objs v ! j)" if "j < length (err_objs v)" for j
    using that assms(2) by (cases "i = j") simp_all
  then have "filter (\<lambda>j. e_Field (?l ! j) = g) (Errors v) = filter (\<lambda>j. e_Field (err_objs v ! j) = g) (Errors v)" for g
    using assms(1) by (intro filter_cong) (auto simp: grouped_def list_all_iff)
  with assms(1) show ?thesis by (simp add: grouped_def upd_error_def errors_of_def fun_eq_iff)
qed

text \<open>The contexts that calls of the methods produce from a new one. (\<^verbatim>\<open>Error\<close> is left out: see below.)\<close>

inductive collected :: "Validation \<Rightarrow> bool" where
  new: "collected \<lparr>RequiredFirst = rf, Errors = [], ErrorsMap = None, err_objs = []\<rparr>"
| clear: "collected v \<Longrightarrow> collected (Clear v)"
| set_error: "collected v \<Longrightarrow> collected (snd (SetError a b v))"
| add_error: "collected v \<Longrightarrow> collected (AddError a b v)"
| check_one: "collected v \<Longrightarrow> collected (snd (apply_check ms chk obj v))"
| check: "collected v \<Longrightarrow> collected (snd (Check ms obj chks v))"
| result_key: "collected v \<Longrightarrow> collected (Result_Key r k v)"
| result_message: "collected v \<Longrightarrow> collected (Result_Message r t args v)"
| valid: "collected v \<Longrightarrow> builtin_only env \<Longrightarrow> collected (fst (Valid env (\<lambda>_. None) obj v))"
| recursive_valid: "collected v \<Longrightarrow> builtin_only env \<Longrightarrow> collected (fst (RecursiveValid env (\<lambda>_. None) obj v))"

lemma collected_grouped: "collected v \<Longrightarrow> grouped v"
proof (induction rule: collected.induct)
  case (new rf)
  show ?case by (simp add: grouped_def errors_of_def fun_eq_iff)
next
  case (clear v)
  show ?case by (simp add: grouped_def errors_of_def Clear_def fun_eq_iff)
next
  case (result_key v r k)
  then show ?case by (auto simp: Result_Key_def intro!: upd_error_grouped split: option.split)
next
  case (result_message v r t args)
  then show ?case by (auto simp: Result_Message_def intro!: upd_error_grouped split: option.split)
qed (simp_all add: grouping.SetError grouping.AddError grouping.apply_check grouping.Check grouping.Valid grouping.recursive del: RecursiveValid.simps)



text \<open>The method \<^verbatim>\<open>Error\<close> appends to the list only: its error is in no list of the map.\<close>

lemma Error_not_in_map:
  "errors_of (snd (Validation_Error m args v)) = errors_of v \<and> Errors (snd (Validation_Error m args v)) = Errors v @ [length (err_objs v)]"
  by (simp add: Validation_Error_def new_error_def Result_Message_def upd_error_def errors_of_def fun_eq_iff Let_def)

section \<open>What a validation finds\<close>

text \<open>The checks of a field that are not skipped, and the errors that they give.\<close>

fun active :: "valid_env \<Rightarrow> bool \<Rightarrow> vval \<Rightarrow> bool \<Rightarrow> ValidFunc list \<Rightarrow> ValidFunc list" where
  "active env required_first x has [] = []"
| "active env required_first x has (vf # vfs) =
     (let has' = (has \<or> vf_Name vf = ''Required'');
          rest = active env required_first x has' vfs
      in if \<not> has' \<and> required_first \<and> \<not> Required_IsSatisfied (current_field x) \<and> vf_Name vf \<in> set (CanSkipFuncs env) then rest else vf # rest)"

definition vf_errors :: "valid_env \<Rightarrow> vval \<Rightarrow> ValidFunc \<Rightarrow> VError list" where
  "vf_errors env x vf = (case method_check (vf_Name vf) (vf_Params vf) of
       None \<Rightarrow> []
     | Some chk \<Rightarrow> if IsSatisfied chk (apply_target x) then [] else [check_error (msgs env) chk x])"

definition field_errors :: "valid_env \<Rightarrow> bool \<Rightarrow> sfield \<Rightarrow> VError list" where
  "field_errors env required_first f = (case getValidFuncs env (sf_name f) (sf_valid f) (sf_label f) of
       Inl e \<Rightarrow> []
     | Inr vfs \<Rightarrow> concat (map (vf_errors env (sf_val f)) (active env required_first (sf_val f) False vfs)))"

definition found :: "Validation \<Rightarrow> VError list" where
  "found v = map (\<lambda>i. err_objs v ! i) (Errors v)"

definition plain_field :: "valid_env \<Rightarrow> sfield \<Rightarrow> bool" where
  "plain_field env f \<longleftrightarrow> sf_exported f \<and> sf_val f \<noteq> VNil \<and>
     (case getValidFuncs env (sf_name f) (sf_valid f) (sf_label f) of
        Inl e \<Rightarrow> False
      | Inr vfs \<Rightarrow> list_all (\<lambda>vf. vf_Name vf \<noteq> ''AddError'' \<and> vf_Name vf \<noteq> ''SetError'') vfs)"

lemma found_put: "grouped v \<Longrightarrow> found (put_error e v) = found v @ [e]"
  by (auto simp: found_def put_error_fields grouped_def list_all_iff nth_append intro!: map_cong)

lemma Call_plain:
  assumes "configured env" "builtin_only env" "typed env vf" "vf_Name vf \<noteq> ''AddError''" "vf_Name vf \<noteq> ''SetError''" "x \<noteq> VNil" "grouped v"
  obtains v1 where "Call env (vf_Name vf) v x (vf_Params vf) = (v1, None)" "grouped v1" "found v1 = found v @ vf_errors env x vf"
    "RequiredFirst v1 = RequiredFirst v"
proof -
  from assms(3) obtain f where f: "funcs env (vf_Name vf) = Some f" "3 \<le> length (fn_kinds f)" "list_all2 fits (drop 2 (fn_kinds f)) (vf_Params vf)"
    by (auto simp: typed_def split: option.splits)
  with assms(2) obtain ks where "f = BuiltinFn ks" by (auto simp: builtin_only_def)
  with f have fn: "funcs env (vf_Name vf) = Some (BuiltinFn ks)" "3 \<le> length ks" "list_all2 fits (drop 2 ks) (vf_Params vf)" by simp_all
  from fn(3) have "length (vf_Params vf) = length ks - 2" by (auto dest!: list_all2_lengthD)
  with fn(2) have len: "length (vf_Params vf) + 2 = length ks" by linarith
  from method_check_total [OF configured_tag [OF assms(1) fn(1,2)] assms(4,5) fn(3)]
  obtain chk where chk: "method_check (vf_Name vf) (vf_Params vf) = Some chk" ..
  have "Call env (vf_Name vf) v x (vf_Params vf) = (snd (apply_check (msgs env) chk x v), None)"
    using fn len chk assms(4-6) by (simp add: Call_def invoke_def)
  moreover have "grouped (snd (apply_check (msgs env) chk x v))" using grouping.apply_check assms(7) .
  moreover have "found (snd (apply_check (msgs env) chk x v)) = found v @ vf_errors env x vf"
    using chk assms(7) by (simp add: apply_check_put vf_errors_def found_put)
  moreover have "RequiredFirst (snd (apply_check (msgs env) chk x v)) = RequiredFirst v" by (simp add: apply_check_put put_error_fields)
  ultimately show ?thesis by (rule that)
qed

lemma vf_loop_found:
  assumes "configured env" "builtin_only env" "sf_exported f" "sf_val f \<noteq> VNil"
    "list_all (typed env) vfs" "list_all (\<lambda>vf. vf_Name vf \<noteq> ''AddError'' \<and> vf_Name vf \<noteq> ''SetError'') vfs" "grouped v"
  shows "\<exists>v1. vf_loop env f has vfs v = (v1, None) \<and> grouped v1 \<and> RequiredFirst v1 = RequiredFirst v \<and>
    found v1 = found v @ concat (map (vf_errors env (sf_val f)) (active env (RequiredFirst v) (sf_val f) has vfs))"
  using assms
proof (induction vfs arbitrary: has v)
  case (Cons vf vfs)
  let ?has = "has \<or> vf_Name vf = ''Required''"
  show ?case
  proof (cases "skips env ?has (vf_Name vf) (sf_val f) v")
    case True
    with Cons.prems Cons.IH [of v ?has] show ?thesis by (simp add: skips_def Let_def)
  next
    case False
    from Cons.prems Call_plain [of env vf "sf_val f" v] obtain v1 where
      1: "Call env (vf_Name vf) v (sf_val f) (vf_Params vf) = (v1, None)" "grouped v1" "found v1 = found v @ vf_errors env (sf_val f) vf"
        "RequiredFirst v1 = RequiredFirst v" by auto
    from Cons.IH [of v1 ?has] Cons.prems 1(2) obtain v2 where
      2: "vf_loop env f ?has vfs v1 = (v2, None)" "grouped v2" "RequiredFirst v2 = RequiredFirst v1"
        "found v2 = found v1 @ concat (map (vf_errors env (sf_val f)) (active env (RequiredFirst v1) (sf_val f) ?has vfs))" by auto
    have "vf_loop env f has (vf # vfs) v = (v2, None)" using False 1(1) 2(1) Cons.prems(3) by (simp add: Let_def)
    moreover have "active env (RequiredFirst v) (sf_val f) has (vf # vfs) = vf # active env (RequiredFirst v) (sf_val f) ?has vfs"
      using False by (auto simp: skips_def Let_def)
    ultimately show ?thesis using 1 2 by simp
  qed
qed simp

lemma field_loop_found:
  assumes "configured env" "builtin_only env" "list_all (plain_field env) fs" "grouped v"
  shows "\<exists>v1. field_loop env fs v = (v1, None) \<and> grouped v1 \<and> RequiredFirst v1 = RequiredFirst v \<and>
    found v1 = found v @ concat (map (field_errors env (RequiredFirst v)) fs)"
  using assms
proof (induction fs arbitrary: v)
  case (Cons f fs)
  then obtain vfs where g: "getValidFuncs env (sf_name f) (sf_valid f) (sf_label f) = Inr vfs"
    and vfs: "list_all (\<lambda>vf. vf_Name vf \<noteq> ''AddError'' \<and> vf_Name vf \<noteq> ''SetError'') vfs" and x: "sf_exported f" "sf_val f \<noteq> VNil"
    by (auto simp: plain_field_def split: sum.splits)
  from vf_loop_found [OF Cons.prems(1,2) x getValidFuncs_typed [OF Cons.prems(1) g] vfs Cons.prems(4), of False] obtain v1 where
    1: "vf_loop env f False vfs v = (v1, None)" "grouped v1" "RequiredFirst v1 = RequiredFirst v" "found v1 = found v @ field_errors env (RequiredFirst v) f"
    by (auto simp: field_errors_def g)
  with Cons.IH [of v1] Cons.prems show ?case by (auto simp: g)
qed simp


section \<open>Printed tags\<close>

definition item_text :: "string \<times> string list \<Rightarrow> string" where
  "item_text it = (case it of (n, as) \<Rightarrow> if as = [] then n else n @ ''('' @ join '','' as @ '')'')"

definition tag_chars :: "string \<Rightarrow> string \<Rightarrow> bool" where
  "tag_chars bad s \<longleftrightarrow> list_all (\<lambda>c. c \<notin> set bad) s"

definition item_func :: "valid_env \<Rightarrow> string \<Rightarrow> string \<Rightarrow> string \<times> string list \<Rightarrow> verr + ValidFunc" where
  "item_func env key label it = (case it of (n, as) \<Rightarrow>
     (case funcs env n of
        None \<Rightarrow> Inl (NoSuchFunc n)
      | Some fn \<Rightarrow> res_bind (trim_params env (drop 2 (fn_kinds fn)) as)
          (\<lambda>ps. Inr \<lparr>vf_Name = n, vf_Params = ps @ [PStr (key @ ''.'' @ n @ ''.'' @ label)]\<rparr>)))"

definition item_ok :: "valid_env \<Rightarrow> string \<times> string list \<Rightarrow> bool" where
  "item_ok env it = (case it of (n, as) \<Rightarrow>
     n \<noteq> [] \<and> tag_chars ('';()/'' @ space_chars) n \<and> list_all (tag_chars '',;()/'') as \<and>
     (case funcs env n of None \<Rightarrow> False | Some fn \<Rightarrow> length (fn_kinds fn) = length as + 3))"

lemma str_index_notin: "d \<notin> set s \<Longrightarrow> str_index [d] s = None"
  by (induction s) (auto simp: has_prefix_single)

lemma str_index_append: "d \<notin> set s \<Longrightarrow> str_index [d] (s @ d # t) = Some (length s)"
  by (induction s) (auto simp: has_prefix_single)

lemma str_index_subset: "str_index sub s = Some i \<Longrightarrow> set sub \<subseteq> set s"
proof (induction s arbitrary: i)
  case (Cons c s)
  show ?case
  proof (cases "has_prefix (c # s) sub")
    case True
    then obtain t where "c # s = sub @ t" by (auto simp: has_prefix_iff)
    then have "set (c # s) = set sub \<union> set t" by (metis set_append)
    then show ?thesis by auto
  next
    case False
    with Cons show ?thesis by auto
  qed
qed (simp split: if_splits)

lemma join_chars: "set (join sep xs) \<subseteq> set sep \<union> (\<Union>x \<in> set xs. set x)"
  by (induction sep xs rule: join.induct) auto

lemma item_text_props:
  assumes "item_ok env it"
  shows "item_text it \<noteq> []" "CHR '';'' \<notin> set (item_text it)" "CHR ''/'' \<notin> set (item_text it)"
    "hd (item_text it) \<notin> set space_chars" "last (item_text it) \<notin> set space_chars"
proof -
  obtain n as where it: "it = (n, as)" by force
  have n: "n \<noteq> []" "tag_chars ('';()/'' @ space_chars) n" "list_all (tag_chars '',;()/'') as" using assms by (simp_all add: item_ok_def it)
  have j: "c \<in> set (join '','' as) \<Longrightarrow> c = CHR '','' \<or> c \<notin> set '',;()/''" for c
    using join_chars [of "'',''" as] n(3) by (auto simp: tag_chars_def list_all_iff)
  show "item_text it \<noteq> []" using n(1) by (simp add: item_text_def it)
  show "CHR '';'' \<notin> set (item_text it)" "CHR ''/'' \<notin> set (item_text it)"
    using n(2) j [of "CHR '';''"] j [of "CHR ''/''"] by (auto simp: item_text_def it tag_chars_def list_all_iff)
  show "hd (item_text it) \<notin> set space_chars" using n(1,2) by (auto simp: item_text_def it tag_chars_def list_all_iff)
  show "last (item_text it) \<notin> set space_chars"
    using n(1,2) by (auto simp: item_text_def it tag_chars_def list_all_iff space_chars_def)
qed

lemma parseFunc_item:
  assumes "item_ok env it"
  shows "parseFunc env (item_text it) key label = item_func env key label it"
proof -
  obtain n as where it: "it = (n, as)" by force
  obtain fn where fn: "funcs env n = Some fn" "length (fn_kinds fn) = length as + 3" using assms by (auto simp: item_ok_def it split: option.splits)
  have n: "n \<noteq> []" "tag_chars ('';()/'' @ space_chars) n" "list_all (tag_chars '',;()/'') as" using assms by (simp_all add: item_ok_def it)
  then have out: "CHR ''('' \<notin> set n" "CHR '')'' \<notin> set n" by (auto simp: tag_chars_def list_all_iff)
  have t: "trim_space (item_text it) = item_text it"
    unfolding trim_space_def by (rule trim_no_cut) (use item_text_props [OF assms] in auto)
  have tn: "trim_space n = n"
    unfolding trim_space_def by (rule trim_no_cut) (use n in \<open>auto simp: tag_chars_def list_all_iff\<close>)
  show ?thesis
  proof (cases "as = []")
    case True
    then have "str_index ''('' (item_text it) = None" using out by (simp add: item_text_def it str_index_notin)
    then show ?thesis using True fn t by (simp add: parseFunc_def Let_def item_text_def it numIn_def item_func_def)
  next
    case False
    let ?j = "join '','' as"
    have j: "CHR '')'' \<notin> set ?j"
      using join_chars [of "'',''" as] n(3) by (auto simp: tag_chars_def list_all_iff)
    have open': "str_index ''('' (n @ ''('' @ ?j @ '')'') = Some (length n)" using out(1) str_index_append [of "CHR ''(''" n] by simp
    have close': "str_index '')'' (n @ ''('' @ ?j @ '')'') = Some (length n + 1 + length ?j)"
      using out(2) j str_index_append [of "CHR '')''" "n @ ''('' @ ?j" "[]"] by simp
    have sp: "split ?j '','' = as" by (rule split_join_single) (use False n(3) in \<open>auto simp: tag_chars_def list_all_iff\<close>)
    have "item_text it = n @ ''('' @ ?j @ '')''" using False by (simp add: item_text_def it)
    then show ?thesis
      using fn t tn open' close' sp
      by (simp add: parseFunc_def Let_def it numIn_def item_func_def trim_args_def res_bind_def split: sum.splits)
  qed
qed

fun all_right :: "('e + 'a) list \<Rightarrow> 'e + 'a list" where
  "all_right [] = Inr []"
| "all_right (x # xs) = res_bind x (\<lambda>a. res_bind (all_right xs) (\<lambda>as. Inr (a # as)))"

lemma parse_loop_items:
  "list_all (item_ok env) items \<Longrightarrow> parse_loop env key label (map item_text items) = all_right (map (item_func env key label) items)"
proof (induction items)
  case (Cons it items)
  then have "item_text it \<noteq> []" using item_text_props(1) [of env it] by simp
  with Cons show ?case by (simp add: parseFunc_item)
qed simp

text \<open>C26. A tag printed from a list of functions of the table with their arguments is read back as these functions, in their order,
  with the arguments converted to the types of the parameters; the only error is that of an argument that does not convert.\<close>

theorem valid_tag_roundtrip:
  assumes "items \<noteq> []" "list_all (item_ok env) items"
  shows "getValidFuncs env key (join '';'' (map item_text items)) label =
    (case all_right (map (item_func env key label) items) of Inl e \<Rightarrow> Inl (VErr e) | Inr vfs \<Rightarrow> Inr vfs)"
proof -
  let ?t = "join '';'' (map item_text items)"
  note ok = assms(2) [unfolded list_all_iff, rule_format, THEN item_text_props(1)] assms(2) [unfolded list_all_iff, rule_format, THEN item_text_props(2)]
    assms(2) [unfolded list_all_iff, rule_format, THEN item_text_props(3)] 
  have ends: "?t \<noteq> [] \<and> hd ?t \<notin> set space_chars \<and> last ?t \<notin> set space_chars"
    using assms
  proof (induction items)
    case (Cons it items)
    then show ?case
      using item_text_props [of env it] by (cases items) auto
  qed simp
  then have t: "trim_space ?t = ?t" unfolding trim_space_def by (intro trim_no_cut) auto
  have "CHR ''/'' \<notin> set ?t" using join_chars [of "'';''" "map item_text items"] ok(3) by auto
  then have "str_index ''Match(/'' ?t = None" using str_index_subset [of "''Match(/''" ?t] by (cases "str_index ''Match(/'' ?t") auto
  then have "getRegFuncs env ?t key = Inr ([], ?t)" using t by (simp add: getRegFuncs_def Let_def)
  moreover have "split ?t '';'' = map item_text items"
    by (rule split_join_single) (use assms ok in auto)
  ultimately show ?thesis
    using ends parse_loop_items [OF assms(2)] by (simp add: getValidFuncs_def split: sum.split)
qed

definition demo_env :: valid_env where
  "demo_env = init_env (\<lambda>p. Inl ''no regular expressions'')"

lemma demo_configured: "configured demo_env" "builtin_only demo_env"
proof -
  show "configured demo_env" unfolding demo_env_def by (rule configured.init)
  show "builtin_only demo_env" by (auto simp: demo_env_def builtin_only_def init_env_def dest: funcs_init_builtin)
qed

lemma demo_funcs:
  "funcs demo_env ''Required'' = Some (BuiltinFn [KValidation, KIface, KString])"
  "funcs demo_env ''Range'' = Some (BuiltinFn [KValidation, KIface, KInt, KInt, KString])"
  by (simp_all add: demo_env_def init_env_def funcs_init_def methods_def unFuncs_def)

definition demo_vfs :: "ValidFunc list" where
  "demo_vfs = [\<lparr>vf_Name = ''Required'', vf_Params = [PStr ''Age.Required.'']\<rparr>,
     \<lparr>vf_Name = ''Range'', vf_Params = [PInt TInt 1, PInt TInt 140, PStr ''Age.Range.'']\<rparr>]"

theorem valid_tag_roundtrip_witness:
  "getValidFuncs demo_env ''Age'' (join '';'' (map item_text [(''Required'', []), (''Range'', [''1'', '' 140''])])) [] = Inr demo_vfs"
proof -
  let ?items = "[(''Required'', []), (''Range'', [''1'', '' 140''])]"
  have ok: "list_all (item_ok demo_env) ?items"
    by (simp add: item_ok_def demo_funcs tag_chars_def space_chars_def)
  have "all_right (map (item_func demo_env ''Age'' []) ?items) = Inr demo_vfs"
    by (simp add: item_func_def demo_funcs demo_vfs_def int_param_def go_eval)
  with valid_tag_roundtrip [OF _ ok, of "''Age''" "[]"] show ?thesis by simp
qed

lemma demo_tag_parse: "getValidFuncs demo_env ''Age'' ''Required;Range(1, 140)'' [] = Inr demo_vfs"
proof -
  have "getRegFuncs demo_env ''Required;Range(1, 140)'' ''Age'' = Inr ([], ''Required;Range(1, 140)'')"
    by (simp add: getRegFuncs_def go_eval)
  moreover have "split ''Required;Range(1, 140)'' '';'' = [''Required'', ''Range(1, 140)'']" by (simp add: go_eval)
  moreover have "parseFunc demo_env ''Required'' ''Age'' [] = Inr (demo_vfs ! 0)"
    by (simp add: parseFunc_def numIn_def demo_funcs demo_vfs_def go_eval)
  moreover have "parseFunc demo_env ''Range(1, 140)'' ''Age'' [] = Inr (demo_vfs ! 1)"
    by (simp add: parseFunc_def numIn_def trim_args_def demo_funcs demo_vfs_def int_param_def go_eval)
  ultimately show ?thesis by (simp add: getValidFuncs_def) (simp add: demo_vfs_def)
qed

theorem tag_calls_typed_witness:
  "\<exists>fn. funcs demo_env ''Range'' = Some fn \<and> list_all2 fits (drop 2 (fn_kinds fn)) [PInt TInt 1, PInt TInt 140, PStr ''Age.Range.'']"
  using tag_calls_typed [OF demo_configured(1) demo_tag_parse, of "demo_vfs ! 1" "VStr []" undefined] by (auto simp: demo_vfs_def)


section \<open>Errors of a recursive validation\<close>

lemma Valid_pass: "Valid env former obj v = (v1, Inr b) \<Longrightarrow> b \<longleftrightarrow> \<not> HasErrors v1"
  by (auto simp: Valid_def Let_def split: prod.splits option.splits)

text \<open>The verdict of a recursive validation is that of its context.\<close>

lemma recursive_pass:
  "RecursiveValid env former obj v = (v1, Inr b) \<Longrightarrow> b \<longleftrightarrow> \<not> HasErrors v1"
  "(\<And>b. snd res = Inr b \<Longrightarrow> b \<longleftrightarrow> \<not> HasErrors (fst res)) \<Longrightarrow> recursive_loop env former fs res = (v1, Inr b) \<Longrightarrow> b \<longleftrightarrow> \<not> HasErrors v1"
proof (induction env former obj v and env former fs res arbitrary: v1 b and v1 b rule: RecursiveValid_recursive_loop.induct [case_names whole finished panicked failed passed])
  case (whole env former obj v)
  obtain w r where v: "Valid env former obj v = (w, r)" by force
  show ?case
  proof (cases "r = Inr True \<and> \<not> nil_struct_field obj")
    case True
    with whole(2) v have loop: "recursive_loop env former (struct_fields obj) (w, Inr True) = (v1, Inr b)" by simp
    from v True have v': "(w, Inr True) = Valid env former obj v" and nn: "\<not> nil_struct_field obj" by simp_all
    have "\<not> HasErrors w" using Valid_pass [OF v' [symmetric]] by simp
    then show ?thesis by (intro whole(1) [OF v' refl refl nn _ loop]) auto
  next
    case False
    with whole(2) v have "Valid env former obj v = (v1, Inr b)" by (auto split: sum.splits bool.splits if_splits)
    then show ?thesis by (rule Valid_pass)
  qed
next
  case (finished env former res)
  then show ?case by simp
next
  case (panicked env former f fs v m)
  then show ?case by simp
next
  case (failed env former f fs v x)
  show ?case
  proof (cases "is_struct_or_ptr (sf_val f) \<and> sf_exported f")
    case True
    note IH = failed(1,2) [OF True]
    have "recursive_loop env former fs (RecursiveValid env former (sf_val f) v) = (v1, Inr b)" using failed(5) True by (simp del: RecursiveValid.simps)
    then show ?thesis by (rule IH(2) [rotated]) (metis IH(1) prod.collapse)
  next
    case False
    have "recursive_loop env former fs (v, Inl (VErr x)) = (v1, Inr b)" using failed(5) False by (auto simp del: RecursiveValid.simps)
    then show ?thesis by (rule failed(3) [OF False, rotated]) (rule failed(4))
  qed
next
  case (passed env former f fs v x)
  show ?case
  proof (cases "is_struct_or_ptr (sf_val f) \<and> sf_exported f")
    case True
    note IH = passed(1,2) [OF True]
    have "recursive_loop env former fs (RecursiveValid env former (sf_val f) v) = (v1, Inr b)" using passed(5) True by (simp del: RecursiveValid.simps)
    then show ?thesis by (rule IH(2) [rotated]) (metis IH(1) prod.collapse)
  next
    case False
    have "recursive_loop env former fs (v, Inr x) = (v1, Inr b)" using passed(5) False by (auto simp del: RecursiveValid.simps)
    then show ?thesis by (rule passed(3) [OF False, rotated]) (rule passed(4))
  qed
qed


definition demo_nested :: vval where
  "demo_nested = VStruct [SField ''A'' [] [] True (VStruct [SField ''X'' ''Nope'' [] True (VStr [])] []),
     SField ''B'' [] [] True (VStruct [] [])] []"


text \<open>The tag \<open>Match(/)\<close> passes the test of \<^verbatim>\<open>getRegFuncs\<close> that the end is not before the start, but leaves a
  slice with a negative length: the validation panics.\<close>

lemma empty_match_panics: "\<exists>m. getValidFuncs env key ''Match(/)'' label = Inl (VPanic m)"
  by (simp add: getValidFuncs_def getRegFuncs_def go_eval)

end
