(* ===== verification/Spec2Isabelle.thy ===== *)
theory Spec2Isabelle
  imports Task_Manager Router_Params Cache_Patterns Session_Memory Rate_Limit Core_Utils Ini_Config
    Sip_Rng Pagination Query_Builder Orm_Query Orm_Values Cors_Filter Web_Serve Validation
begin

text \<open>
  A verification development of the web framework in \<^verbatim>\<open>src/\<close> (beego, written in Go).

  \<^bold>\<open>The program.\<close> The framework has independent packages and a server that combines them. The server
  (\<^verbatim>\<open>server/web\<close>) finds the handler of a request in a routing tree, gives it a context with the
  parameters of the route and a session, and runs filters such as the rate limiter; a captcha draws
  its random numbers from a generator of its own. Beside the server stand the cron-like task runner
  (\<^verbatim>\<open>task\<close>), the cache with its decorators (\<^verbatim>\<open>client/cache\<close>), the ORM with its query builders
  (\<^verbatim>\<open>client/orm\<close>), the configuration files (\<^verbatim>\<open>core/config\<close>), the error codes
  (\<^verbatim>\<open>core/berror\<close>), the validation of structs (\<^verbatim>\<open>core/validation\<close>) and utilities (\<^verbatim>\<open>core/utils\<close>).

  \<^bold>\<open>Conventions.\<close> A Go string or byte slice is a list of characters of eight bits. An integer whose
  overflow matters is a word of its width; others are \<^typ>\<open>int\<close>. A panic or a returned error is
  the left side of a sum; a computation that may not return has an outer option whose \<^const>\<open>None\<close> is
  divergence, and is defined as a partial function, without fuel, so that returning is a statement to
  prove. Maps are functions or association lists; in the second case the order of the list stands for
  Go's arbitrary order of iteration and the theorems hold for every order. A clock reading or a random
  number is an argument. Code that runs under a mutex is one atomic step; goroutines interleave by steps.
  Case mapping and white space follow the ASCII rules.

  \<^bold>\<open>Shared theories.\<close>
    \<^item> \<open>Go_Prelude\<close>: results, machine integers, the packages \<^verbatim>\<open>strings\<close> and \<^verbatim>\<open>strconv\<close>.
    \<^item> \<open>Go_Path\<close>: the package \<^verbatim>\<open>path\<close>. \<open>Go_Time\<close>: civil time with its normalisation.
    \<^item> \<open>Kv_Store\<close>: the contract of a key-value store (locales \<open>kv_store\<close>, \<open>kv_store_del\<close>), interpreted by
      the route parameters, the sessions, the safe map, the cache and the configuration containers.

  \<^bold>\<open>Tasks\<close> (\<^verbatim>\<open>task/task.go\<close>).
    \<^item> \<open>Cron_Spec\<close>: \<^verbatim>\<open>getField\<close>, \<^verbatim>\<open>getRange\<close>, \<^verbatim>\<open>getBits\<close>, \<^verbatim>\<open>parse\<close>. A field parses to exactly the
      values that its ranges denote, inside the bounds; parsing diverges exactly on a reached step of 0.
    \<^item> \<open>Cron_Next\<close>: \<^verbatim>\<open>Schedule.Next\<close>. It returns on every valid time, with the earliest later second that
      matches, or the zero time when five years hold none.
    \<^item> \<open>Task_Manager\<close>: tasks in a heap and the manager as a step relation: due tasks run, one loop exists
      while started, errors are kept in a ring; an interleaving that panics is exhibited.

  \<^bold>\<open>Routing\<close> (\<^verbatim>\<open>server/web/tree.go\<close>, \<^verbatim>\<open>server/web/context/input.go\<close>).
    \<^item> \<open>Input_Params\<close>: the parameters of a request. \<open>Router_Tree\<close>: the tree with \<^verbatim>\<open>AddRouter\<close>, \<^verbatim>\<open>Match\<close>,
      \<^verbatim>\<open>splitSegment\<close>; compiled regular expressions are a parameter of the model.
    \<^item> \<open>Router_Static\<close>: trees of fixed routes refine a finite map on cleaned paths.
    \<^item> \<open>Router_Params\<close>: a route of fixed and named segments serves exactly the fitting requests and binds the names.

  \<^bold>\<open>Cache\<close> (\<^verbatim>\<open>client/cache\<close>).
    \<^item> \<open>Berror\<close>: error codes of \<^verbatim>\<open>core/berror\<close> and their use by the cache and the HTTP client.
    \<^item> \<open>Cache_Values\<close>: counters at their width and conversions. \<open>Memory_Cache\<close>: the memory cache with expiry
      and the two halves of the cleaning goroutine.
    \<^item> \<open>Cache_Patterns\<close>: read-through, write-through, write-delete, double delete, Bloom filter and random
      expiry over any cache that meets the locale \<open>cache_contract\<close>, and their composition with the memory cache.

  \<^bold>\<open>Sessions and filters\<close> (\<^verbatim>\<open>server/web/session/sess_mem.go\<close>, \<^verbatim>\<open>server/web/filter.go\<close>,
  \<^verbatim>\<open>server/web/policy.go\<close>, \<^verbatim>\<open>server/web/filter\<close>).
    \<^item> \<open>Web_Filters\<close>: filters and policies over the routing tree. Policies refine a finite map on methods and cleaned
      paths; a filter with the reset option restores the parameters; a filter that never runs is exhibited.
    \<^item> \<open>Cors_Filter\<close>: the CORS filter with its global patterns: headers are added for allowed origins only.
    \<^item> \<open>Session_Memory\<close>: the provider with its list and map; the garbage collection is exact in every reachable state.
    \<^item> \<open>Rate_Limit\<close>: token buckets and the limiter; the number of requests let through is bounded.

  \<^bold>\<open>Configuration\<close> (\<^verbatim>\<open>core/config\<close>).
    \<^item> \<open>Config_Values\<close>: environment expansion, booleans, typed getters (locale \<open>configer\<close>), the fake container.
    \<^item> \<open>Ini_Config\<close>: the parser of \<^verbatim>\<open>ini.go\<close> with includes, the container and saving: saving and parsing
      again is the identity on what the format can express; parsing returns when includes are well founded.

  \<^bold>\<open>ORM\<close> (\<^verbatim>\<open>client/orm\<close>).
    \<^item> \<open>Orm_Conds\<close>: conditions in a store of shared arrays, order clauses. \<open>Query_Builder\<close>: the MySQL and
      PostgreSQL builders as interpretations of one interface (locale \<open>query_builder\<close>), and their agreement.
    \<^item> \<open>Orm_Names\<close>: naming strategies, struct tags and value conversions of \<^verbatim>\<open>client/orm/internal\<close>: names and tags
      survive printing and parsing.
    \<^item> \<open>Orm_Models\<close>: field types with their masks, the fields of a model with three indexes: the indexes agree however the
      fields were added. The registry, which the program builds by reflection at its start, is an argument of the queries.
    \<^item> \<open>Orm_Dialect\<close>: inserts, updates, deletes, operators and placeholders of \<^verbatim>\<open>db.go\<close> for the five dialects:
      one placeholder for each value. Parsing and formatting times is a parameter (record \<open>conv_env\<close>).
    \<^item> \<open>Orm_Tables\<close>: joined tables and expressions over relations of \<^verbatim>\<open>db_tables.go\<close>, the select and count queries.
      \<open>Orm_Query\<close>: what the queries guarantee. The printer of conditions is treated in the locale \<open>cond_printer\<close>, interpreted for
      the scopes of aliases and for placeholders. The printer has fuel for the depth of nesting; the number of conditions
      made before a condition is enough, since no condition can contain itself.

  \<^bold>\<open>Validation\<close> (\<^verbatim>\<open>core/validation\<close>).
    \<^item> \<open>Go_Regexp\<close>: regular expressions with their language and a matcher by derivatives. \<open>Validators\<close>: the validators of
      \<^verbatim>\<open>validators.go\<close> with their patterns and messages. The compiler of regular expressions in struct tags is a parameter.
    \<^item> \<open>Validation\<close>: the tag language of \<^verbatim>\<open>util.go\<close> and the validation context with its shared errors: a tag that parses is
      well typed, validating a struct records exactly the errors of the unsatisfied checks, and the errors by field
      (locale \<open>error_collector\<close>) are those of the list. Custom functions are a parameter.

  \<^bold>\<open>Utilities.\<close>
    \<^item> \<open>Core_Utils\<close>: slices, safe map and key-value collections of \<^verbatim>\<open>core/utils\<close>. \<open>Pagination\<close>:
      \<^verbatim>\<open>core/utils/pagination\<close>. \<open>Sip_Rng\<close>: \<^verbatim>\<open>server/web/captcha/siprng.go\<close>.

  \<^bold>\<open>Bounds.\<close> Times are valid civil times with a non-negative year (\<open>Go_Time\<close>); item counts of the paginator are
  below 2 to the 53, where the division in floating point is exact enough to be the integer ceiling; the
  theorems on the remaining integers hold at the full width of the type.

  \<^bold>\<open>Not modelled.\<close> Network, files and databases beyond the abstract file system of the INI parser; reflection (reading
  and writing the models of the ORM, controllers, injection); floating point getters; HTTP headers and
  cookies; logging output; adapters for remote services and generated code. The manifest lists each of them.

  \<^bold>\<open>Plan.\<close> Next are merging of routing trees (namespaces) and filter chains, log levels and rotation, the DDL printer of migrations and the
  file cache over an abstract file system.
\<close>

end
